(* ===== verification/Py_Prelude.thy ===== *)
theory Py_Prelude
  imports Main "HOL-Library.AList" "HOL-Library.Sublist" "HOL-Library.Monad_Syntax"
begin

text \<open>
  Shared base of the development: Python strings as lists of Unicode code points with the
  standard-library operations the sources use (strip, splitlines, startswith, join, int),
  dictionaries as insertion-ordered association lists, and the fact collections the component
  theories extend. The character tables are those of Unicode 16, the version CPython 3.14
  (src/.python-version) carries.
\<close>

subsection \<open>Fact collections\<close>

named_theorems py_eval \<open>definitions unfolded to evaluate a closed term of the model\<close>

subsection \<open>Strings as code points\<close>

type_synonym pystr = "int list"

text \<open>An ASCII literal of the source as the code points it denotes.\<close>

definition lit :: "string \<Rightarrow> pystr" where
  "lit s = map of_char s"

declare lit_def [py_eval]

lemma lit_Nil: "lit [] = []"
  by (simp add: lit_def)

lemma lit_append: "lit (s @ t) = lit s @ lit t"
  by (simp add: lit_def)

lemma lit_distinct: "lit s = lit t \<longleftrightarrow> s = t"
proof -
  have "inj (of_char :: char \<Rightarrow> int)"
    by (rule injI) (metis of_char_eq_iff)
  then show ?thesis by (simp add: lit_def)
qed

lemma length_lit [simp]: "length (lit s) = length s"
  by (simp add: lit_def)

definition space_chars :: "int list" where
  "space_chars = [9, 10, 11, 12, 13, 28, 29, 30, 31, 32, 133, 160, 5760, 8192, 8193, 8194, 8195,
     8196, 8197, 8198, 8199, 8200, 8201, 8202, 8232, 8233, 8239, 8287, 12288]"

definition is_space :: "int \<Rightarrow> bool" where
  "is_space c \<longleftrightarrow> c \<in> set space_chars"

definition lstrip :: "pystr \<Rightarrow> pystr" where
  "lstrip s = dropWhile is_space s"

definition strip :: "pystr \<Rightarrow> pystr" where
  "strip s = rev (dropWhile is_space (rev (dropWhile is_space s)))"

definition ascii_lower :: "pystr \<Rightarrow> pystr" where
  "ascii_lower s = map (\<lambda>c. if 65 \<le> c \<and> c \<le> 90 then c + 32 else c) s"

declare ascii_lower_def [py_eval] is_space_def [py_eval] space_chars_def [py_eval] lstrip_def [py_eval] strip_def [py_eval]

lemma lstrip_Nil [simp]: "lstrip [] = []"
  by (simp add: lstrip_def)

lemma strip_Nil [simp]: "strip [] = []"
  by (simp add: strip_def)

lemma strip_eq_Nil: "strip s = [] \<longleftrightarrow> (\<forall>c\<in>set s. is_space c)"
  by (auto simp: strip_def dropWhile_eq_Nil_conv dest: set_dropWhileD)
    (metis dropWhile_eq_self_iff hd_in_set dropWhile_eq_Nil_conv set_takeWhileD takeWhile_dropWhile_id
      Un_iff set_append hd_dropWhile)

lemma dropWhile_no_head: "dropWhile P xs = y # ys \<Longrightarrow> \<not> P y"
  using hd_dropWhile [of P xs] by simp

lemma strip_ends:
  assumes "strip s \<noteq> []"
  shows "\<not> is_space (last (strip s))"
proof -
  have "hd (rev (strip s)) = hd (dropWhile is_space (rev (dropWhile is_space s)))"
    by (simp add: strip_def)
  with assms show ?thesis
    by (metis hd_dropWhile hd_rev rev_is_Nil_conv strip_def)
qed

subsection \<open>Lines\<close>

text \<open>\<open>str.splitlines\<close>: the line boundaries, a carriage return followed by a line feed being one.\<close>

definition is_line_break :: "int \<Rightarrow> bool" where
  "is_line_break c \<longleftrightarrow> c \<in> set [10, 11, 12, 13, 28, 29, 30, 133, 8232, 8233]"

fun splitlines_from :: "pystr \<Rightarrow> pystr \<Rightarrow> pystr list" where
  "splitlines_from cur [] = (if cur = [] then [] else [cur])"
| "splitlines_from cur (c # cs) =
     (if c = 13 \<and> cs \<noteq> [] \<and> hd cs = 10 then cur # splitlines_from [] (tl cs)
      else if is_line_break c then cur # splitlines_from [] cs
      else splitlines_from (cur @ [c]) cs)"

definition splitlines :: "pystr \<Rightarrow> pystr list" where
  "splitlines s = splitlines_from [] s"

declare is_line_break_def [py_eval] splitlines_def [py_eval]

lemma splitlines_from_no_break:
  "(\<And>c. c \<in> set cur \<Longrightarrow> \<not> is_line_break c) \<Longrightarrow> l \<in> set (splitlines_from cur s) \<Longrightarrow>
     c \<in> set l \<Longrightarrow> \<not> is_line_break c"
proof (induction cur s rule: splitlines_from.induct)
  case (1 cur)
  then show ?case by (auto split: if_splits)
next
  case (2 cur d cs)
  show ?case
  proof (cases "d = 13 \<and> cs \<noteq> [] \<and> hd cs = 10")
    case True
    with 2 show ?thesis by auto
  next
    case False
    with 2 show ?thesis by (cases "is_line_break d") auto
  qed
qed

lemma splitlines_no_break: "l \<in> set (splitlines s) \<Longrightarrow> c \<in> set l \<Longrightarrow> \<not> is_line_break c"
  unfolding splitlines_def by (rule splitlines_from_no_break [of "[]"]) auto

subsection \<open>Prefixes, joins\<close>

text \<open>\<open>s.startswith(p)\<close> is \<open>prefix p s\<close>; \<open>strip_prefix\<close> also gives what follows.\<close>

fun strip_prefix :: "pystr \<Rightarrow> pystr \<Rightarrow> pystr option" where
  "strip_prefix [] s = Some s"
| "strip_prefix (p # ps) [] = None"
| "strip_prefix (p # ps) (c # s) = (if p = c then strip_prefix ps s else None)"

lemma strip_prefix_Some [simp]: "strip_prefix p s = Some r \<longleftrightarrow> s = p @ r"
  by (induction p s rule: strip_prefix.induct) auto

lemma strip_prefix_None: "strip_prefix p s = None \<longleftrightarrow> \<not> prefix p s"
  by (induction p s rule: strip_prefix.induct) auto

lemma strip_prefix_append [simp]: "strip_prefix p (p @ r) = Some r"
  by simp

fun join :: "pystr \<Rightarrow> pystr list \<Rightarrow> pystr" where
  "join sep [] = []"
| "join sep [x] = x"
| "join sep (x # y # ys) = x @ sep @ join sep (y # ys)"

text \<open>\<open>s.split(c)\<close> for a one-character separator.\<close>

fun split_on :: "int \<Rightarrow> pystr \<Rightarrow> pystr list" where
  "split_on c [] = [[]]"
| "split_on c (x # xs) =
     (if x = c then [] # split_on c xs
      else (x # hd (split_on c xs)) # tl (split_on c xs))"

text \<open>UTF-8: a text with a lone surrogate cannot be encoded; the bytes each character takes.\<close>

definition encodable :: "pystr \<Rightarrow> bool" where
  "encodable s \<longleftrightarrow> (\<forall>c \<in> set s. \<not> (55296 \<le> c \<and> c \<le> 57343))"

definition utf8_length :: "pystr \<Rightarrow> int" where
  "utf8_length s =
     sum_list (map (\<lambda>c. if c < 128 then 1 else if c < 2048 then 2 else if c < 65536 then 3 else 4) s)"

declare encodable_def [py_eval] utf8_length_def [py_eval]

subsection \<open>Lists of reported problems\<close>

text \<open>A checker that maps each item to its problems reports nothing when no item has one.\<close>

lemma concat_map_Nil: "concat (map f xs) = [] \<longleftrightarrow> (\<forall>x \<in> set xs. f x = [])"
  by (induction xs) auto

lemma if_single_Nil: "(if b then [x] else []) = [] \<longleftrightarrow> \<not> b"
  by simp

lemma map_filter_Cons: "List.map_filter f (x # xs) = (case f x of None \<Rightarrow> List.map_filter f xs | Some y \<Rightarrow> y # List.map_filter f xs)"
  by (simp add: List.map_filter_def split: option.split)

lemma find_in: "find P xs = Some x \<Longrightarrow> x \<in> set xs"
  by (metis find_Some_iff nth_mem)

lemma find_snoc: "find P xs = None \<Longrightarrow> P y \<Longrightarrow> find P (xs @ [y]) = Some y"
  by (induction xs) (auto split: if_splits)

lemma sort_key_map: "sort_key f (map h xs) = map h (sort_key (\<lambda>x. f (h x)) xs)"
proof (induction xs)
  case (Cons x xs)
  have "insort_key f (h x) (map h ys) = map h (insort_key (\<lambda>x. f (h x)) x ys)" for ys
    by (induction ys) auto
  with Cons show ?case by simp
qed simp

subsection \<open>Decimal digits and int\<close>

definition digit_zeros :: "int list" where
  "digit_zeros = [48, 1632, 1776, 1984, 2406, 2534, 2662, 2790, 2918, 3046, 3174, 3302, 3430, 3558,
     3664, 3792, 3872, 4160, 4240, 6112, 6160, 6470, 6608, 6784, 6800, 6992, 7088, 7232, 7248,
     42528, 43216, 43264, 43472, 43504, 43600, 44016, 65296, 66720, 68912, 68928, 69734, 69872,
     69942, 70096, 70384, 70736, 70864, 71248, 71360, 71376, 71386, 71472, 71904, 72016, 72688,
     72784, 73040, 73120, 73552, 90416, 92768, 92864, 93008, 93552, 118000, 120782, 120792, 120802,
     120812, 120822, 123200, 123632, 124144, 124401, 125264, 130032]"

definition digit_value :: "int \<Rightarrow> int option" where
  "digit_value c =
     (case find (\<lambda>z. z \<le> c \<and> c < z + 10) digit_zeros of None \<Rightarrow> None | Some z \<Rightarrow> Some (c - z))"

definition is_digit :: "int \<Rightarrow> bool" where
  "is_digit c \<longleftrightarrow> digit_value c \<noteq> None"

declare digit_zeros_def [py_eval] digit_value_def [py_eval] is_digit_def [py_eval]

lemma digit_value_bound: "digit_value c = Some d \<Longrightarrow> 0 \<le> d \<and> d < 10"
  by (auto simp: digit_value_def find_Some_iff split: option.splits)

text \<open>\<open>\d{4}\<close> at the head of a string: the digits and what follows.\<close>

definition four_digits :: "pystr \<Rightarrow> (pystr \<times> pystr) option" where
  "four_digits s =
     (if 4 \<le> length s \<and> list_all is_digit (take 4 s) then Some (take 4 s, drop 4 s) else None)"

lemma four_digits_Some: "four_digits s = Some (ds, r) \<longleftrightarrow> s = ds @ r \<and> length ds = 4 \<and> list_all is_digit ds"
  by (auto simp: four_digits_def)

lemma four_digits_append: "length k = 4 \<Longrightarrow> list_all is_digit k \<Longrightarrow> four_digits (k @ r) = Some (k, r)"
  by (simp add: four_digits_Some)

text \<open>The number a run of decimal digits denotes, most significant first.\<close>

fun digits_value :: "int \<Rightarrow> pystr \<Rightarrow> int" where
  "digits_value acc [] = acc"
| "digits_value acc (c # cs) =
     digits_value (10 * acc + (case digit_value c of Some d \<Rightarrow> d | None \<Rightarrow> 0)) cs"

lemma digits_value_bound:
  "0 \<le> acc \<Longrightarrow> 0 \<le> digits_value acc cs \<and> digits_value acc cs < (acc + 1) * 10 ^ length cs"
proof (induction cs arbitrary: acc)
  case Nil
  then show ?case by simp
next
  case (Cons c cs)
  let ?d = "case digit_value c of Some d \<Rightarrow> d | None \<Rightarrow> 0"
  have d: "0 \<le> ?d \<and> ?d \<le> 9"
    using digit_value_bound [of c] by (force split: option.splits)
  then have IH: "0 \<le> digits_value (10 * acc + ?d) cs"
      "digits_value (10 * acc + ?d) cs < (10 * acc + ?d + 1) * 10 ^ length cs"
    using Cons.IH [of "10 * acc + ?d"] Cons.prems by auto
  have "(10 * acc + ?d + 1) * 10 ^ length cs \<le> (10 * acc + 10) * 10 ^ length cs"
    by (rule mult_right_mono) (use d in auto)
  moreover have "(10 * acc + 10) * 10 ^ length cs = (acc + 1) * 10 ^ length (c # cs)"
    by (simp add: algebra_simps)
  ultimately show ?case
    using IH unfolding digits_value.simps by (intro conjI) linarith+
qed

text \<open>
  Python's \<open>int(s)\<close> for base ten: surrounding white space is dropped, one sign is allowed, and
  single underscores may separate digits. \<open>None\<close> is ValueError, which more than 4300 digits
  raise too (\<open>sys.int_info.default_max_str_digits\<close>).
\<close>

fun underscore_digits :: "bool \<Rightarrow> pystr \<Rightarrow> pystr option" where
  "underscore_digits prev [] = (if prev then Some [] else None)"
| "underscore_digits prev (c # cs) =
     (if is_digit c then map_option (Cons c) (underscore_digits True cs)
      else if c = 95 \<and> prev then underscore_digits False cs
      else None)"

definition unsigned_value :: "pystr \<Rightarrow> int option" where
  "unsigned_value s =
     (case underscore_digits False s of
        None \<Rightarrow> None
      | Some ds \<Rightarrow> if length ds \<le> 4300 then Some (digits_value 0 ds) else None)"

definition py_int :: "pystr \<Rightarrow> int option" where
  "py_int s =
     (case strip s of
        [] \<Rightarrow> None
      | c # cs \<Rightarrow>
          if c = 45 then map_option uminus (unsigned_value cs)
          else if c = 43 then unsigned_value cs
          else unsigned_value (c # cs))"

declare unsigned_value_def [py_eval] py_int_def [py_eval]

subsection \<open>Calls that may raise\<close>

text \<open>Sequencing: the first exception ends the computation.\<close>

fun and_then :: "'e + 'a \<Rightarrow> ('a \<Rightarrow> 'e + 'b) \<Rightarrow> 'e + 'b" where
  "and_then (Inl e) f = Inl e"
| "and_then (Inr x) f = f x"

lemma and_then_Inr [simp]: "and_then m f = Inr y \<longleftrightarrow> (\<exists>x. m = Inr x \<and> f x = Inr y)"
  by (cases m) auto

lemma and_then_Inl: "and_then m f = Inl e \<longleftrightarrow> m = Inl e \<or> (\<exists>x. m = Inr x \<and> f x = Inl e)"
  by (cases m) auto

text \<open>The same for calls that change a state, which an exception leaves as it was then.\<close>

fun then_state :: "('e + 'a) \<times> 's \<Rightarrow> ('a \<Rightarrow> 's \<Rightarrow> ('e + 'b) \<times> 's) \<Rightarrow> ('e + 'b) \<times> 's" where
  "then_state (Inl e, s) f = (Inl e, s)"
| "then_state (Inr x, s) f = f x s"

lemma then_state_Inr: "then_state m f = (Inr y, s) \<longleftrightarrow> (\<exists>x s'. m = (Inr x, s') \<and> f x s' = (Inr y, s))"
  by (cases "(m, f)" rule: then_state.cases) auto

lemma then_keeps:
  "I (snd m) \<Longrightarrow> (\<And>s. I s \<Longrightarrow> J s) \<Longrightarrow> (\<And>x s. I s \<Longrightarrow> J (snd (f x s))) \<Longrightarrow> J (snd (then_state m f))"
  by (cases "(m, f)" rule: then_state.cases) auto

lemma apfst_eq_Pair: "apfst f p = (a, b) \<longleftrightarrow> (\<exists>x. p = (x, b) \<and> a = f x)"
  by (cases p) auto

subsection \<open>Rendering numbers\<close>

text \<open>\<open>str(n)\<close>, \<open>f"{n:0wd}"\<close> and \<open>f"{n:0wx}"\<close> for non-negative \<open>n\<close>.\<close>

fun dec_digits :: "int \<Rightarrow> pystr" where
  "dec_digits n = (if n < 10 then [48 + n] else dec_digits (n div 10) @ [48 + n mod 10])"

declare dec_digits.simps [simp del]

definition hex_digit :: "int \<Rightarrow> int" where
  "hex_digit d = (if d < 10 then 48 + d else 87 + d)"

fun hex_digits :: "int \<Rightarrow> pystr" where
  "hex_digits n =
     (if n < 16 then [hex_digit n] else hex_digits (n div 16) @ [hex_digit (n mod 16)])"

declare hex_digits.simps [simp del]

definition zero_pad :: "nat \<Rightarrow> pystr \<Rightarrow> pystr" where
  "zero_pad w s = replicate (w - length s) 48 @ s"

declare zero_pad_def [py_eval] hex_digit_def [py_eval]

definition py_str :: "int \<Rightarrow> pystr" where
  "py_str n = (if n < 0 then 45 # dec_digits (- n) else dec_digits n)"

declare py_str_def [py_eval]

lemma dec_digits_range: "0 \<le> n \<Longrightarrow> c \<in> set (dec_digits n) \<Longrightarrow> 48 \<le> c \<and> c \<le> 57"
proof (induction n rule: dec_digits.induct)
  case (1 n)
  show ?case
  proof (cases "n < 10")
    case True
    with "1.prems" show ?thesis by (simp add: dec_digits.simps [of n])
  next
    case False
    then have "c \<in> set (dec_digits (n div 10)) \<or> c = 48 + n mod 10"
      using "1.prems" by (auto simp: dec_digits.simps [of n])
    moreover have "0 \<le> n mod 10" "n mod 10 < 10" "0 \<le> n div 10"
      using False by simp_all
    ultimately show ?thesis
      using "1.IH" False by auto
  qed
qed

lemma dec_digits_nonempty [simp]: "dec_digits n \<noteq> []" "[] \<noteq> dec_digits n"
  by (subst dec_digits.simps, simp)+

lemma dec_digits_last: "0 \<le> n \<Longrightarrow> last (dec_digits n) = 48 + n mod 10"
  by (subst dec_digits.simps) simp

lemma dec_digits_butlast:
  "butlast (dec_digits n) = (if n < 10 then [] else dec_digits (n div 10))"
  by (subst dec_digits.simps) simp

lemma dec_digits_inj: "0 \<le> m \<Longrightarrow> 0 \<le> n \<Longrightarrow> dec_digits m = dec_digits n \<Longrightarrow> m = n"
proof (induction m arbitrary: n rule: dec_digits.induct)
  case (1 m)
  have last: "m mod 10 = n mod 10"
    using "1.prems" dec_digits_last [of m] dec_digits_last [of n] by simp
  have butlast: "butlast (dec_digits m) = butlast (dec_digits n)"
    using "1.prems" by simp
  show ?case
  proof (cases "m < 10")
    case True
    then have "n < 10"
      using butlast by (auto simp: dec_digits_butlast split: if_splits)
    with True last "1.prems" show ?thesis by simp
  next
    case False
    then have "\<not> n < 10" and eq: "dec_digits (m div 10) = dec_digits (n div 10)"
      using butlast by (auto simp: dec_digits_butlast split: if_splits)
    have "m div 10 = n div 10"
      by (rule "1.IH" [OF False _ _ eq]) (use "1.prems" in \<open>simp_all add: pos_imp_zdiv_nonneg_iff\<close>)
    with last show ?thesis
      by (metis mult_div_mod_eq)
  qed
qed

lemma dec_digits_inj_iff: "0 \<le> m \<Longrightarrow> 0 \<le> n \<Longrightarrow> dec_digits m = dec_digits n \<longleftrightarrow> m = n"
  using dec_digits_inj by blast

subsection \<open>Dictionaries\<close>

text \<open>
  A dict is an association list in insertion order; assigning an existing key keeps its place
  (\<open>AList.update\<close>), as Python's dict does.
\<close>

type_synonym ('k, 'v) pydict = "('k \<times> 'v) list"

definition dict_get :: "('k, 'v) pydict \<Rightarrow> 'k \<Rightarrow> 'v \<Rightarrow> 'v" where
  "dict_get d k other = (case map_of d k of None \<Rightarrow> other | Some v \<Rightarrow> v)"

text \<open>A dict built from pairs: a repeated key keeps its first place and its last value.\<close>

definition dict_of :: "('k \<times> 'v) list \<Rightarrow> ('k, 'v) pydict" where
  "dict_of kvs = fold (\<lambda>(k, v). AList.update k v) kvs []"

lemma dict_of_snoc: "dict_of (kvs @ [(k, v)]) = AList.update k v (dict_of kvs)"
  by (simp add: dict_of_def)

lemma update_new: "k \<notin> set (map fst d) \<Longrightarrow> AList.update k v d = d @ [(k, v)]"
  by (induction d) auto

lemma dict_of_distinct: "distinct (map fst kvs) \<Longrightarrow> dict_of kvs = kvs"
proof (induction kvs rule: rev_induct)
  case Nil
  then show ?case by (simp add: dict_of_def)
next
  case (snoc kv kvs)
  obtain k v where "kv = (k, v)" by force
  with snoc show ?case by (simp add: dict_of_snoc update_new)
qed

lemma distinct_dict_of: "distinct (map fst (dict_of kvs))"
proof -
  have "distinct (map fst (fold (\<lambda>(k, v). AList.update k v) kvs d))" if "distinct (map fst d)" for d
    using that by (induction kvs arbitrary: d) (auto simp: distinct_update)
  then show ?thesis by (simp add: dict_of_def)
qed

text \<open>\<open>d.setdefault(k, []).append(v)\<close>\<close>

definition dict_append :: "'k \<Rightarrow> 'v \<Rightarrow> ('k, 'v list) pydict \<Rightarrow> ('k, 'v list) pydict" where
  "dict_append k v d = AList.update k (dict_get d k [] @ [v]) d"

declare dict_get_def [py_eval] dict_append_def [py_eval]

lemma map_of_dict_append:
  "map_of (dict_append k v d) = (map_of d)(k \<mapsto> dict_get d k [] @ [v])"
  by (simp add: dict_append_def update_conv')

end
