(* ===== verification/Roadmap.thy ===== *)
theory Roadmap
  imports Py_Prelude
begin

text \<open>
  The roadmap validator, .agents/skills/maintain-roadmap/scripts/validate_roadmap.py: the line
  grammar and the parser's state (\<open>parse_roadmap\<close>), the depth-first search for dependency
  cycles (\<open>dependency_cycles\<close>), the checks (\<open>validate\<close>) and the command (\<open>roadmap_main\<close>).
  An error message is a constructor of \<open>rm_error\<close> with the values the message shows; the
  lemmas give the search's soundness and completeness, and the equivalence of a clean
  validation with the declarative \<open>roadmap_ok\<close>.
\<close>

subsection \<open>Tasks\<close>

text \<open>The labels of METADATA_RE, in the order of its alternation.\<close>

datatype label =
    Depends_on | Done_when | Resume | Pause_reason | Blocker | Resume_when | Owner_action
  | Evidence | Cancellation_reason

fun label_text :: "label \<Rightarrow> pystr" where
  "label_text Depends_on = lit ''Depends on''"
| "label_text Done_when = lit ''Done when''"
| "label_text Resume = lit ''Resume''"
| "label_text Pause_reason = lit ''Pause reason''"
| "label_text Blocker = lit ''Blocker''"
| "label_text Resume_when = lit ''Resume when''"
| "label_text Owner_action = lit ''Owner action''"
| "label_text Evidence = lit ''Evidence''"
| "label_text Cancellation_reason = lit ''Cancellation reason''"

definition label_alternatives :: "label list" where
  "label_alternatives = [Depends_on, Done_when, Resume, Pause_reason, Blocker, Resume_when,
     Owner_action, Evidence, Cancellation_reason]"

record task =
  task_id :: pystr
  number :: int
  status :: pystr
  checked :: bool
  owner :: bool
  title :: pystr
  line :: int
  metadata :: "(label, pystr list) pydict"

definition allowed_statuses :: "pystr list" where
  "allowed_statuses = [lit ''planned'', lit ''in-progress'', lit ''paused'', lit ''blocked'',
     lit ''done'', lit ''cancelled'']"

definition completed_statuses :: "pystr list" where
  "completed_statuses = [lit ''done'', lit ''cancelled'']"

definition required_metadata :: "(pystr, label list) pydict" where
  "required_metadata =
     [(lit ''in-progress'', [Resume]),
      (lit ''paused'', [Pause_reason, Resume]),
      (lit ''blocked'', [Blocker, Resume_when]),
      (lit ''done'', [Evidence]),
      (lit ''cancelled'', [Cancellation_reason])]"

text \<open>\<open>TASK_ID_RE.findall\<close>: the matches of \<open>CP-\d{4}\<close> from left to right, without overlap.\<close>

fun find_task_ids :: "pystr \<Rightarrow> pystr list" where
  "find_task_ids [] = []"
| "find_task_ids (c # cs) =
     (case Option.bind (strip_prefix (lit ''CP-'') (c # cs)) four_digits of
        Some (ds, rest) \<Rightarrow> (lit ''CP-'' @ ds) # find_task_ids (drop 6 cs)
      | None \<Rightarrow> find_task_ids cs)"

definition dependencies :: "task \<Rightarrow> pystr list" where
  "dependencies t = concat (map find_task_ids (dict_get (metadata t) Depends_on []))"

subsection \<open>The line grammar\<close>

definition match_next_id :: "pystr \<Rightarrow> int option" where
  "match_next_id s = do {
     rest \<leftarrow> strip_prefix (lit ''> Next task ID: `CP-'') s;
     (ds, rest) \<leftarrow> four_digits rest;
     if rest = lit ''`'' then Some (digits_value 0 ds) else None
   }"

definition is_status_char :: "int \<Rightarrow> bool" where
  "is_status_char c \<longleftrightarrow> (97 \<le> c \<and> c \<le> 122) \<or> c = 45"

text \<open>The tail of a task line after the status: a space, an em dash, a space and the title.\<close>

definition match_title :: "pystr \<Rightarrow> pystr option" where
  "match_title s = do {
     t \<leftarrow> strip_prefix [32, 8212, 32] s;
     if t \<noteq> [] \<and> \<not> is_space (hd t) then Some t else None
   }"

text \<open>
  TASK_LINE_RE. The status is the maximal run of \<open>[a-z-]\<close>, which the closing backquote ends, and
  the optional owner group is taken whenever it is present, since the title's tail cannot start
  with it.
\<close>

definition match_task_line :: "int \<Rightarrow> pystr \<Rightarrow> task option" where
  "match_task_line n s = do {
     r \<leftarrow> strip_prefix (lit ''- ['') s;
     (c, r) \<leftarrow> (case r of [] \<Rightarrow> None | c # r \<Rightarrow> Some (c, r));
     _ \<leftarrow> (if c \<in> {32, 120, 88} then Some () else None);
     r \<leftarrow> strip_prefix (lit ''] `CP-'') r;
     (ds, r) \<leftarrow> four_digits r;
     r \<leftarrow> strip_prefix (lit ''` `'') r;
     st \<leftarrow> (if takeWhile is_status_char r = [] then None else Some (takeWhile is_status_char r));
     r \<leftarrow> strip_prefix (lit ''`'') (dropWhile is_status_char r);
     (own, r) \<leftarrow> (case strip_prefix (lit '' `owner`'') r of
                   Some r' \<Rightarrow> Some (True, r') | None \<Rightarrow> Some (False, r));
     t \<leftarrow> match_title r;
     Some \<lparr>task_id = lit ''CP-'' @ ds, number = digits_value 0 ds, status = st,
       checked = (c \<in> {120, 88}), owner = own, title = t, line = n, metadata = []\<rparr>
   }"

text \<open>CHECKBOX_RE and METADATA_RE.\<close>

definition match_checkbox :: "pystr \<Rightarrow> bool" where
  "match_checkbox s \<longleftrightarrow>
     prefix (lit ''- [ ]'') s \<or> prefix (lit ''- [x]'') s \<or> prefix (lit ''- [X]'') s"

fun match_label :: "label list \<Rightarrow> pystr \<Rightarrow> (label \<times> pystr) option" where
  "match_label [] s = None"
| "match_label (l # ls) s =
     (case strip_prefix (label_text l @ lit '':'') s of
        Some rest \<Rightarrow> Some (l, lstrip rest)
      | None \<Rightarrow> match_label ls s)"

definition match_metadata :: "pystr \<Rightarrow> (label \<times> pystr) option" where
  "match_metadata s = Option.bind (strip_prefix (lit ''  - '') s) (match_label label_alternatives)"

subsection \<open>Parsing\<close>

datatype rm_error =
    Duplicate_counter int
  | Not_canonical int
  | Metadata_without_task int
  | Empty_metadata int label
  | Unknown_metadata int
  | Missing_counter
  | Duplicate_id int pystr int
  | Unsupported_status int pystr
  | Checkbox_required int pystr bool
  | Metadata_required int pystr label
  | Owner_without_action int
  | Action_without_owner int
  | Combine_dependencies int
  | Self_dependency int pystr
  | Unknown_dependency int pystr
  | Done_before_dependency int pystr pystr
  | Dependency_cycle "pystr list"
  | Counter_too_low int int

text \<open>
  The variables of the parser's loop. \<open>current\<close> is the index of the task object the loop last
  appended, so that adding metadata through it changes that task of the list.
\<close>

record parse_state =
  tasks :: "task list"
  errors :: "rm_error list"
  current :: "nat option"
  next_number :: "int option"

definition add_error :: "rm_error \<Rightarrow> parse_state \<Rightarrow> parse_state" where
  "add_error e s = s\<lparr>errors := errors s @ [e]\<rparr>"

definition add_metadata :: "nat \<Rightarrow> label \<Rightarrow> pystr \<Rightarrow> parse_state \<Rightarrow> parse_state" where
  "add_metadata i l v s =
     s\<lparr>tasks := (tasks s)[i := (tasks s ! i)\<lparr>metadata := dict_append l v (metadata (tasks s ! i))\<rparr>]\<rparr>"

definition parse_line :: "int \<Rightarrow> pystr \<Rightarrow> parse_state \<Rightarrow> parse_state" where
  "parse_line n l s =
     (case match_next_id l of
        Some k \<Rightarrow>
          (if next_number s \<noteq> None then add_error (Duplicate_counter n) s
           else s\<lparr>next_number := Some k\<rparr>)\<lparr>current := None\<rparr>
      | None \<Rightarrow>
     (case match_task_line n l of
        Some t \<Rightarrow> s\<lparr>current := Some (length (tasks s)), tasks := tasks s @ [t]\<rparr>
      | None \<Rightarrow>
     (if match_checkbox l then (add_error (Not_canonical n) s)\<lparr>current := None\<rparr>
      else case match_metadata l of
        Some (lab, raw) \<Rightarrow>
          (case current s of
             None \<Rightarrow> add_error (Metadata_without_task n) s
           | Some i \<Rightarrow>
               (let v = strip raw;
                    s' = (if v = [] then add_error (Empty_metadata n lab) s else s)
                in add_metadata i lab v s'))
      | None \<Rightarrow>
          if prefix (lit ''  - '') l \<and> current s \<noteq> None then add_error (Unknown_metadata n) s
          else if l \<noteq> [] \<and> \<not> prefix (lit '' '') l then s\<lparr>current := None\<rparr>
          else s)))"

fun parse_lines :: "int \<Rightarrow> pystr list \<Rightarrow> parse_state \<Rightarrow> parse_state" where
  "parse_lines n [] s = s"
| "parse_lines n (l # ls) s = parse_lines (n + 1) ls (parse_line n l s)"

definition parse_init :: parse_state where
  "parse_init = \<lparr>tasks = [], errors = [], current = None, next_number = None\<rparr>"

definition parse_roadmap :: "pystr \<Rightarrow> task list \<times> int option \<times> rm_error list" where
  "parse_roadmap text =
     (let s = parse_lines 1 (splitlines text) parse_init
      in (tasks s, next_number s,
          errors s @ (if next_number s = None then [Missing_counter] else [])))"

subsection \<open>Dependency cycles\<close>

text \<open>
  The search's accumulators; \<open>visiting\<close> is the stack of the nested calls, an argument here because
  \<open>visit\<close> pushes before its loop and pops after it. \<open>visit_all\<close> runs the loop body \<open>visit\<close>
  over a list of identifiers, skipping those the roadmap does not know.
\<close>

record search_state =
  visited :: "pystr set"
  cycles :: "pystr list list"

function visit_all ::
  "(pystr, task) pydict \<Rightarrow> pystr list \<Rightarrow> pystr list \<Rightarrow> search_state \<Rightarrow> search_state" where
  "visit_all by_id visiting [] st = st"
| "visit_all by_id visiting (x # xs) st =
     (case map_of by_id x of
        None \<Rightarrow> visit_all by_id visiting xs st
      | Some t \<Rightarrow>
          if x \<in> set visiting then
            visit_all by_id visiting xs
              (st\<lparr>cycles := cycles st @ [dropWhile (\<lambda>y. y \<noteq> x) visiting @ [x]]\<rparr>)
          else if x \<in> visited st then visit_all by_id visiting xs st
          else
            (let st' = visit_all by_id (visiting @ [x]) (dependencies t) st
             in visit_all by_id visiting xs (st'\<lparr>visited := insert x (visited st')\<rparr>)))"
  by pat_completeness auto
termination
proof (relation "measures [\<lambda>(by_id, visiting, xs, st). card (dom (map_of by_id) - set visiting),
    \<lambda>(by_id, visiting, xs, st). length xs]", goal_cases)
  case (5 by_id visiting x xs st t)
  have "dom (map_of by_id) - set (visiting @ [x]) \<subset> dom (map_of by_id) - set visiting"
    using 5 by (auto simp: domIff)
  then have "card (dom (map_of by_id) - set (visiting @ [x])) < card (dom (map_of by_id) - set visiting)"
    by (intro psubset_card_mono) (auto simp: finite_dom_map_of)
  then show ?case by simp
qed auto

definition dependency_cycles :: "(pystr, task) pydict \<Rightarrow> pystr list list" where
  "dependency_cycles by_id =
     cycles (visit_all by_id [] (map fst by_id) \<lparr>visited = {}, cycles = []\<rparr>)"

subsection \<open>Validation\<close>

definition present_labels :: "task \<Rightarrow> label set" where
  "present_labels t = set (map fst (filter (\<lambda>(l, vs). list_ex (\<lambda>v. v \<noteq> []) vs) (metadata t)))"

definition task_errors :: "task \<Rightarrow> rm_error list" where
  "task_errors t =
     (if status t \<notin> set allowed_statuses then [Unsupported_status (line t) (status t)] else [])
   @ (let expected = (status t \<in> set completed_statuses)
      in if checked t \<noteq> expected then [Checkbox_required (line t) (status t) expected] else [])
   @ map (Metadata_required (line t) (status t))
       (filter (\<lambda>l. l \<notin> present_labels t) (dict_get required_metadata (status t) []))
   @ (if owner t \<and> Owner_action \<notin> present_labels t then [Owner_without_action (line t)] else [])
   @ (if \<not> owner t \<and> Owner_action \<in> present_labels t then [Action_without_owner (line t)] else [])
   @ (if 1 < length (dict_get (metadata t) Depends_on []) then [Combine_dependencies (line t)] else [])"

fun index_tasks ::
  "(pystr, task) pydict \<Rightarrow> task list \<Rightarrow> (pystr, task) pydict \<times> rm_error list" where
  "index_tasks by_id [] = (by_id, [])"
| "index_tasks by_id (t # ts) =
     (case map_of by_id (task_id t) of
        Some t0 \<Rightarrow>
          (let (d, es) = index_tasks by_id ts
           in (d, Duplicate_id (line t) (task_id t) (line t0) # task_errors t @ es))
      | None \<Rightarrow>
          (let (d, es) = index_tasks (AList.update (task_id t) t by_id) ts
           in (d, task_errors t @ es)))"

definition dependency_errors :: "(pystr, task) pydict \<Rightarrow> task \<Rightarrow> rm_error list" where
  "dependency_errors by_id t =
     concat (map (\<lambda>d.
       if d = task_id t then [Self_dependency (line t) d]
       else case map_of by_id d of
         None \<Rightarrow> [Unknown_dependency (line t) d]
       | Some t' \<Rightarrow>
           if status t = lit ''done'' \<and> status t' \<noteq> lit ''done''
           then [Done_before_dependency (line t) (task_id t) d] else [])
       (dependencies t))"

definition highest_number :: "task list \<Rightarrow> int" where
  "highest_number ts = foldr max (map number ts) 0"

definition validate :: "task list \<Rightarrow> int option \<Rightarrow> rm_error list" where
  "validate ts next =
     (let (by_id, errs) = index_tasks [] ts
      in errs
       @ concat (map (dependency_errors by_id) ts)
       @ map Dependency_cycle (dependency_cycles by_id)
       @ (case next of
            None \<Rightarrow> []
          | Some n \<Rightarrow>
              if n \<le> highest_number ts then [Counter_too_low n (highest_number ts)] else []))"

subsection \<open>The command\<close>

datatype rm_output =
    Roadmap_missing
  | Problem rm_error
  | Failed nat
  | Next_id int
  | Pending_task pystr pystr pystr
  | Pending_action pystr
  | Pending_count nat
  | Roadmap_valid nat

record rm_arguments =
  next_id_flag :: bool
  owner_flag :: bool

datatype rm_exception = Assertion_error

text \<open>\<open>main\<close>: the roadmap file's text (\<open>None\<close>: no such file) to the printed lines and exit status.\<close>

definition roadmap_main ::
  "rm_arguments \<Rightarrow> pystr option \<Rightarrow> rm_exception + (rm_output list \<times> int)" where
  "roadmap_main args file =
     (case file of
        None \<Rightarrow> Inr ([Roadmap_missing], 2)
      | Some text \<Rightarrow>
          (let (ts, next, parsing_errors) = parse_roadmap text;
               errs = parsing_errors @ validate ts next
           in if errs \<noteq> [] then Inr (map Problem errs @ [Failed (length errs)], 1)
              else if next_id_flag args then
                (case next of None \<Rightarrow> Inl Assertion_error | Some n \<Rightarrow> Inr ([Next_id n], 0))
              else if owner_flag args then
                (let pending = filter (\<lambda>t. owner t \<and> status t \<notin> set completed_statuses) ts
                 in Inr (concat (map (\<lambda>t. Pending_task (task_id t) (status t) (title t)
                             # map Pending_action (dict_get (metadata t) Owner_action [])) pending)
                         @ [Pending_count (length pending)], 0))
              else Inr ([Roadmap_valid (length ts)], 0)))"

subsection \<open>The search: termination and accumulators\<close>

text \<open>The edges the search follows: from a known task to its known dependencies.\<close>

definition depends :: "(pystr, task) pydict \<Rightarrow> (pystr \<times> pystr) set" where
  "depends by_id =
     {(x, y). \<exists>t. map_of by_id x = Some t \<and> y \<in> set (dependencies t) \<and> y \<in> dom (map_of by_id)}"

lemma dependsI:
  "map_of by_id x = Some t \<Longrightarrow> y \<in> set (dependencies t) \<Longrightarrow> y \<in> dom (map_of by_id) \<Longrightarrow>
     (x, y) \<in> depends by_id"
  by (auto simp: depends_def)

lemma visit_all_visited: "visited st \<subseteq> visited (visit_all by_id visiting xs st)"
proof (induction by_id visiting xs st rule: visit_all.induct)
  case (2 by_id visiting x xs st)
  show ?case
  proof (cases "map_of by_id x")
    case None
    with 2 show ?thesis by simp
  next
    case (Some t)
    let ?st = "visit_all by_id (visiting @ [x]) (dependencies t) st"
    show ?thesis
    proof (cases "x \<in> set visiting \<or> x \<in> visited st")
      case True
      with 2 Some show ?thesis by auto
    next
      case False
      have "visited st \<subseteq> visited ?st"
        using "2.IH"(4) False Some by blast
      also have "\<dots> \<subseteq> visited (visit_all by_id visiting xs
          (?st\<lparr>visited := insert x (visited ?st)\<rparr>))"
        using "2.IH"(5) [OF Some _ _ refl] False by simp
      finally show ?thesis
        using False Some by (simp add: Let_def)
    qed
  qed
qed simp

lemma visit_all_cycles: "prefix (cycles st) (cycles (visit_all by_id visiting xs st))"
proof (induction by_id visiting xs st rule: visit_all.induct)
  case (2 by_id visiting x xs st)
  then show ?case
    by (auto simp: Let_def split: option.splits intro: prefix_order.trans prefixI elim!: prefix_order.trans)
qed simp

lemma visit_all_no_cycles:
  "cycles (visit_all by_id visiting xs st) = [] \<Longrightarrow> cycles st = []"
  using visit_all_cycles [of st by_id visiting xs] by simp

subsection \<open>Soundness: every reported cycle is a closed walk\<close>

definition closed_walk :: "(pystr \<times> pystr) set \<Rightarrow> pystr list \<Rightarrow> bool" where
  "closed_walk r c \<longleftrightarrow> 2 \<le> length c \<and> hd c = last c \<and> successively (\<lambda>a b. (a, b) \<in> r) c"

lemma closed_walk_trancl:
  assumes "closed_walk r c"
  shows "(hd c, hd c) \<in> r\<^sup>+"
proof -
  have walk: "successively (\<lambda>a b. (a, b) \<in> r) (x # xs) \<Longrightarrow> (x, last (x # xs)) \<in> r\<^sup>*" for x xs
    by (induction xs arbitrary: x) (auto intro: converse_rtrancl_into_rtrancl)
  from assms obtain x y zs where c: "c = x # y # zs" and e: "(x, y) \<in> r"
    and s: "successively (\<lambda>a b. (a, b) \<in> r) (y # zs)"
    unfolding closed_walk_def
    by (cases c; cases "tl c") auto
  from walk [OF s] e have "(x, last c) \<in> r\<^sup>+"
    unfolding c by (auto intro: rtrancl_into_trancl2)
  with assms show ?thesis
    by (simp add: closed_walk_def c)
qed

lemma closed_walk_suffix:
  assumes walk: "successively (\<lambda>a b. (a, b) \<in> r) visiting"
    and mem: "x \<in> set visiting" and e: "(last visiting, x) \<in> r"
  shows "closed_walk r (dropWhile (\<lambda>y. y \<noteq> x) visiting @ [x])"
proof -
  let ?d = "dropWhile (\<lambda>y. y \<noteq> x) visiting"
  have ne: "?d \<noteq> []" using mem by (auto simp: dropWhile_eq_Nil_conv)
  have hd: "hd ?d = x" using hd_dropWhile [OF ne] by simp
  have split: "visiting = takeWhile (\<lambda>y. y \<noteq> x) visiting @ ?d" by simp
  then have "successively (\<lambda>a b. (a, b) \<in> r) ?d"
    using walk by (metis successively_append_iff)
  moreover have "last ?d = last visiting" using ne split by (metis last_appendR)
  ultimately show ?thesis
    using ne hd e by (auto simp: closed_walk_def successively_append_iff Suc_le_eq)
qed

lemma visit_all_sound:
  assumes "successively (\<lambda>a b. (a, b) \<in> depends by_id) visiting"
    and "\<And>x. x \<in> set xs \<Longrightarrow> x \<in> dom (map_of by_id) \<Longrightarrow> visiting \<noteq> [] \<Longrightarrow>
           (last visiting, x) \<in> depends by_id"
    and "\<And>c. c \<in> set (cycles st) \<Longrightarrow> closed_walk (depends by_id) c"
    and "c \<in> set (cycles (visit_all by_id visiting xs st))"
  shows "closed_walk (depends by_id) c"
  using assms
proof (induction by_id visiting xs st arbitrary: c rule: visit_all.induct)
  case (1 by_id visiting st)
  then show ?case by simp
next
  case (2 by_id visiting x xs st)
  note walk = "2.prems"(1) and edges = "2.prems"(2) and old = "2.prems"(3) and c = "2.prems"(4)
  show ?case
  proof (cases "map_of by_id x")
    case None
    show ?thesis
      by (rule "2.IH"(1) [OF None walk]) (use None edges old c in auto)
  next
    case (Some t)
    consider "x \<in> set visiting" | "x \<notin> set visiting" "x \<in> visited st"
      | "x \<notin> set visiting" "x \<notin> visited st" by blast
    then show ?thesis
    proof cases
      case 1
      then have "(last visiting, x) \<in> depends by_id"
        using edges [of x] Some by (force simp: domIff)
      then have new: "closed_walk (depends by_id) (dropWhile (\<lambda>y. y \<noteq> x) visiting @ [x])"
        using walk 1 by (intro closed_walk_suffix)
      show ?thesis
        by (rule "2.IH"(2) [OF Some 1 walk]) (use 1 Some edges old new c in auto)
    next
      case 2
      show ?thesis
        by (rule "2.IH"(3) [OF Some 2 walk]) (use 2 Some edges old c in auto)
    next
      case 3
      have "visiting = [] \<or> (last visiting, x) \<in> depends by_id"
        using edges [of x] Some by (force simp: domIff)
      then have walk': "successively (\<lambda>a b. (a, b) \<in> depends by_id) (visiting @ [x])"
        using walk by (auto simp: successively_append_iff)
      let ?st = "visit_all by_id (visiting @ [x]) (dependencies t) st"
      have inner: "closed_walk (depends by_id) c'" if "c' \<in> set (cycles ?st)" for c'
        by (rule "2.IH"(4) [OF Some 3 walk' _ old that]) (use Some in \<open>auto intro: dependsI\<close>)
      show ?thesis
        by (rule "2.IH"(5) [OF Some 3 refl walk]) (use 3 Some edges inner c in \<open>auto simp: Let_def\<close>)
    qed
  qed
qed

lemma dependency_cycles_sound:
  assumes "c \<in> set (dependency_cycles by_id)"
  shows "closed_walk (depends by_id) c"
  by (rule visit_all_sound [of by_id "[]" "map fst by_id" "\<lparr>visited = {}, cycles = []\<rparr>"])
    (use assms in \<open>auto simp: dependency_cycles_def\<close>)

subsection \<open>Completeness: a search that reports nothing has seen an acyclic graph\<close>

text \<open>
  What a search that reports no cycle keeps of its visited set: it is disjoint from the stack,
  closed under dependencies, and none of its members lies on a cycle.
\<close>

definition clean_visit :: "(pystr, task) pydict \<Rightarrow> pystr list \<Rightarrow> pystr set \<Rightarrow> bool" where
  "clean_visit by_id visiting V \<longleftrightarrow>
     V \<inter> set visiting = {} \<and> depends by_id `` V \<subseteq> V \<and> (\<forall>x\<in>V. (x, x) \<notin> (depends by_id)\<^sup>+)"

lemma trancl_closed:
  assumes "(x, y) \<in> r\<^sup>+" and "r `` V \<subseteq> V" and "x \<in> V"
  shows "y \<in> V"
  using assms(1) by (induction rule: trancl_induct) (use assms(2,3) in auto)

lemma clean_visit_insert:
  assumes clean: "clean_visit by_id (visiting @ [x]) V" and x: "x \<notin> set visiting"
    and succs: "depends by_id `` {x} \<subseteq> V"
  shows "clean_visit by_id visiting (insert x V)"
proof -
  have fresh: "x \<notin> V" and closed: "depends by_id `` V \<subseteq> V"
    using clean by (auto simp: clean_visit_def)
  have "(x, x) \<notin> (depends by_id)\<^sup>+"
  proof
    assume "(x, x) \<in> (depends by_id)\<^sup>+"
    then obtain y where y: "(x, y) \<in> depends by_id" "(y, x) \<in> (depends by_id)\<^sup>*"
      by (meson tranclD)
    then have "y \<in> V" using succs by auto
    then have "x \<in> V"
      using y(2) closed by (metis rtranclD trancl_closed)
    with fresh show False ..
  qed
  moreover have "insert x V \<inter> set visiting = {}"
    using clean x by (auto simp: clean_visit_def)
  moreover have "depends by_id `` insert x V \<subseteq> insert x V"
    using closed succs by blast
  ultimately show ?thesis
    using clean unfolding clean_visit_def by blast
qed

lemma visit_all_complete:
  assumes "cycles (visit_all by_id visiting xs st) = []"
    and "clean_visit by_id visiting (visited st)"
  shows "clean_visit by_id visiting (visited (visit_all by_id visiting xs st)) \<and>
     set xs \<inter> dom (map_of by_id) \<subseteq> visited (visit_all by_id visiting xs st)"
  using assms
proof (induction by_id visiting xs st rule: visit_all.induct)
  case (1 by_id visiting st)
  then show ?case by simp
next
  case (2 by_id visiting x xs st)
  note none = "2.prems"(1) and clean = "2.prems"(2)
  show ?case
  proof (cases "map_of by_id x")
    case None
    have "x \<notin> dom (map_of by_id)" using None by (simp add: domIff)
    with None "2.IH"(1) [OF None] none clean show ?thesis by simp
  next
    case (Some t)
    consider "x \<in> set visiting" | "x \<notin> set visiting" "x \<in> visited st"
      | "x \<notin> set visiting" "x \<notin> visited st" by blast
    then show ?thesis
    proof cases
      case 1
      let ?st = "st\<lparr>cycles := cycles st @ [dropWhile (\<lambda>y. y \<noteq> x) visiting @ [x]]\<rparr>"
      have "cycles (visit_all by_id visiting xs ?st) = []"
        using none Some 1 by simp
      then have "cycles ?st = []" by (rule visit_all_no_cycles)
      then show ?thesis by simp
    next
      case 2
      with Some have eq: "visit_all by_id visiting (x # xs) st = visit_all by_id visiting xs st"
        by simp
      have "x \<in> visited (visit_all by_id visiting xs st)"
        using 2(2) visit_all_visited by blast
      then show ?thesis
        using "2.IH"(3) [OF Some 2] none clean unfolding eq by (simp add: Int_insert_left)
    next
      case 3
      let ?st = "visit_all by_id (visiting @ [x]) (dependencies t) st"
      let ?st' = "?st\<lparr>visited := insert x (visited ?st)\<rparr>"
      have eq: "visit_all by_id visiting (x # xs) st = visit_all by_id visiting xs ?st'"
        using Some 3 by (simp add: Let_def)
      have none': "cycles ?st = []"
        using none visit_all_no_cycles [of by_id visiting xs ?st'] unfolding eq by simp
      have "clean_visit by_id (visiting @ [x]) (visited st)"
        using clean 3 by (simp add: clean_visit_def)
      then have inner: "clean_visit by_id (visiting @ [x]) (visited ?st)"
          "set (dependencies t) \<inter> dom (map_of by_id) \<subseteq> visited ?st"
        using "2.IH"(4) [OF Some 3 none'] by auto
      have "depends by_id `` {x} \<subseteq> visited ?st"
        using inner(2) Some by (auto simp: depends_def)
      then have "clean_visit by_id visiting (visited ?st')"
        using clean_visit_insert [OF inner(1) 3(1)] by simp
      moreover have "x \<in> visited (visit_all by_id visiting xs ?st')"
        using visit_all_visited [of ?st' by_id visiting xs] by auto
      ultimately show ?thesis
        using "2.IH"(5) [OF Some 3 refl] none unfolding eq by (simp add: Int_insert_left)
    qed
  qed
qed

lemma depends_dom: "(x, y) \<in> depends by_id \<Longrightarrow> x \<in> dom (map_of by_id)"
  by (auto simp: depends_def)

lemma dependency_cycles_complete:
  assumes none: "dependency_cycles by_id = []"
  shows "acyclic (depends by_id)"
proof (rule acyclicI, intro allI notI)
  fix x
  assume cyc: "(x, x) \<in> (depends by_id)\<^sup>+"
  let ?st = "\<lparr>visited = {}, cycles = []\<rparr>"
  have "clean_visit by_id [] (visited (visit_all by_id [] (map fst by_id) ?st)) \<and>
    set (map fst by_id) \<inter> dom (map_of by_id) \<subseteq> visited (visit_all by_id [] (map fst by_id) ?st)"
    using none by (intro visit_all_complete) (auto simp: dependency_cycles_def clean_visit_def)
  moreover have "x \<in> dom (map_of by_id)"
    using cyc depends_dom by (metis tranclD)
  moreover have "dom (map_of by_id) = set (map fst by_id)"
    by (simp add: dom_map_of_conv_image_fst)
  ultimately show False
    using cyc by (auto simp: clean_visit_def)
qed

lemma dependency_cycles_empty_iff:
  "dependency_cycles by_id = [] \<longleftrightarrow> acyclic (depends by_id)"
proof
  assume "acyclic (depends by_id)"
  then have "\<not> closed_walk (depends by_id) c" for c
    using closed_walk_trancl unfolding acyclic_def by blast
  then show "dependency_cycles by_id = []"
    using dependency_cycles_sound [of _ by_id] by (cases "dependency_cycles by_id") auto
qed (rule dependency_cycles_complete)

subsection \<open>Validation against its declarative reading\<close>

definition task_ok :: "task \<Rightarrow> bool" where
  "task_ok t \<longleftrightarrow>
     status t \<in> set allowed_statuses \<and>
     (checked t \<longleftrightarrow> status t \<in> set completed_statuses) \<and>
     (\<forall>l \<in> set (dict_get required_metadata (status t) []). l \<in> present_labels t) \<and>
     (owner t \<longleftrightarrow> Owner_action \<in> present_labels t) \<and>
     length (dict_get (metadata t) Depends_on []) \<le> 1"

lemma task_errors_Nil_iff: "task_errors t = [] \<longleftrightarrow> task_ok t"
  by (auto simp: task_errors_def task_ok_def Let_def filter_empty_conv)

definition dependency_edges :: "task list \<Rightarrow> (pystr \<times> pystr) set" where
  "dependency_edges ts = {(task_id t, d) | t d. t \<in> set ts \<and> d \<in> set (dependencies t)}"

definition roadmap_ok :: "task list \<Rightarrow> int option \<Rightarrow> bool" where
  "roadmap_ok ts next \<longleftrightarrow>
     distinct (map task_id ts) \<and>
     (\<forall>t \<in> set ts. task_ok t) \<and>
     (\<forall>t \<in> set ts. \<forall>d \<in> set (dependencies t). \<exists>t' \<in> set ts. task_id t' = d \<and>
        (status t = lit ''done'' \<longrightarrow> status t' = lit ''done'')) \<and>
     acyclic (dependency_edges ts) \<and>
     (\<forall>n. next = Some n \<longrightarrow> 0 < n \<and> (\<forall>t \<in> set ts. number t < n))"

abbreviation keyed :: "task list \<Rightarrow> (pystr, task) pydict" where
  "keyed ts \<equiv> map (\<lambda>t. (task_id t, t)) ts"

lemma update_fresh:
  "(\<forall>u \<in> set ts. map_of (AList.update (task_id t) t d) (task_id u) = None) \<longleftrightarrow>
     task_id t \<notin> task_id ` set ts \<and> (\<forall>u \<in> set ts. map_of d (task_id u) = None)"
  by (force simp: update_conv')

lemma index_tasks_errors:
  "snd (index_tasks d ts) = [] \<longleftrightarrow>
     (\<forall>t \<in> set ts. task_ok t) \<and> distinct (map task_id ts) \<and> (\<forall>t \<in> set ts. map_of d (task_id t) = None)"
proof (induction d ts rule: index_tasks.induct)
  case (2 d t ts)
  show ?case
  proof (cases "map_of d (task_id t)")
    case None
    with "2.IH"(1) [OF None] show ?thesis
      unfolding update_fresh by (auto simp: task_errors_Nil_iff case_prod_unfold Let_def)
  qed (auto simp: case_prod_unfold Let_def)
qed simp

lemma index_tasks_dict:
  "snd (index_tasks d ts) = [] \<Longrightarrow> map_of (fst (index_tasks d ts)) = map_of d ++ map_of (keyed ts)"
proof (induction d ts rule: index_tasks.induct)
  case (2 d t ts)
  from "2.prems" have new: "map_of d (task_id t) = None"
    and rest: "snd (index_tasks (AList.update (task_id t) t d) ts) = []"
    and fresh: "task_id t \<notin> task_id ` set ts"
    by (auto simp: case_prod_unfold Let_def index_tasks_errors update_fresh split: option.splits)
  have "map_of (keyed ts) (task_id t) = None"
    using fresh by (auto simp: map_of_eq_None_iff image_image)
  with "2.IH"(1) [OF new rest] new show ?case
    by (auto simp: case_prod_unfold Let_def update_conv' map_add_def fun_eq_iff split: option.splits)
qed simp

lemma map_of_keyed:
  "distinct (map task_id ts) \<Longrightarrow> map_of (keyed ts) x = Some t \<longleftrightarrow> t \<in> set ts \<and> task_id t = x"
  by (subst map_of_eq_Some_iff) (auto simp: comp_def)

lemma highest_number_le: "highest_number ts < n \<longleftrightarrow> 0 < n \<and> (\<forall>t \<in> set ts. number t < n)"
  unfolding highest_number_def by (induction ts) auto

lemma dependency_errors_Nil_iff:
  "dependency_errors by_id t = [] \<longleftrightarrow>
     (\<forall>d \<in> set (dependencies t). d \<noteq> task_id t \<and>
        (\<exists>t'. map_of by_id d = Some t' \<and> (status t = lit ''done'' \<longrightarrow> status t' = lit ''done'')))"
  unfolding dependency_errors_def concat_map_Nil by (auto split: option.splits if_splits)

lemma depends_edges:
  assumes dict: "map_of by_id = map_of (keyed ts)" and dist: "distinct (map task_id ts)"
    and known: "\<forall>t \<in> set ts. \<forall>d \<in> set (dependencies t). \<exists>t' \<in> set ts. task_id t' = d"
  shows "depends by_id = dependency_edges ts"
proof -
  have "x \<in> dom (map_of by_id) \<longleftrightarrow> (\<exists>t \<in> set ts. task_id t = x)" for x
    using map_of_keyed [OF dist] unfolding dict by (auto simp: dom_def)
  then show ?thesis
    using known map_of_keyed [OF dist] unfolding depends_def dependency_edges_def dict by fastforce
qed

lemma validate_errors_split:
  "validate ts next = [] \<longleftrightarrow>
     snd (index_tasks [] ts) = [] \<and>
     (\<forall>t \<in> set ts. dependency_errors (fst (index_tasks [] ts)) t = []) \<and>
     acyclic (depends (fst (index_tasks [] ts))) \<and>
     (\<forall>n. next = Some n \<longrightarrow> highest_number ts < n)"
  unfolding validate_def case_prod_unfold Let_def append_is_Nil_conv concat_map_Nil
    map_is_Nil_conv dependency_cycles_empty_iff
  by (auto split: option.splits simp: not_le)

lemma validate_Nil_iff: "validate ts next = [] \<longleftrightarrow> roadmap_ok ts next"
proof (cases "snd (index_tasks [] ts) = []")
  case False
  then show ?thesis
    by (auto simp: validate_errors_split index_tasks_errors roadmap_ok_def)
next
  case True
  then have dist: "distinct (map task_id ts)" and ok: "\<forall>t \<in> set ts. task_ok t"
    by (auto simp: index_tasks_errors)
  have dict: "map_of (fst (index_tasks [] ts)) = map_of (keyed ts)"
    using index_tasks_dict [OF True] by simp
  have known: "(\<exists>t'. map_of (keyed ts) d = Some t' \<and> P t') \<longleftrightarrow> (\<exists>t' \<in> set ts. task_id t' = d \<and> P t')" for d P
    using map_of_keyed [OF dist] by blast
  have no_self: "d \<noteq> task_id t"
    if "acyclic (dependency_edges ts)" "t \<in> set ts" "d \<in> set (dependencies t)" for t d
    using that by (auto simp: acyclic_def dependency_edges_def)
  show ?thesis
  proof
    assume V: "validate ts next = []"
    then have deps: "\<forall>t \<in> set ts. \<forall>d \<in> set (dependencies t). \<exists>t' \<in> set ts. task_id t' = d \<and>
        (status t = lit ''done'' \<longrightarrow> status t' = lit ''done'')"
      unfolding validate_errors_split dependency_errors_Nil_iff dict known by blast
    then have "depends (fst (index_tasks [] ts)) = dependency_edges ts"
      by (intro depends_edges [OF dict dist]) blast
    with V dist ok deps show "roadmap_ok ts next"
      unfolding validate_errors_split highest_number_le roadmap_ok_def by simp
  next
    assume R: "roadmap_ok ts next"
    then have "depends (fst (index_tasks [] ts)) = dependency_edges ts"
      by (intro depends_edges [OF dict dist]) (unfold roadmap_ok_def, blast)
    with R no_self True show "validate ts next = []"
      unfolding validate_errors_split dependency_errors_Nil_iff dict known highest_number_le
        roadmap_ok_def by simp
  qed
qed

subsection \<open>What the parser reads\<close>

text \<open>
  What a roadmap's text means, without the parser's state. A block is a task line with the lines after it
  that are empty or indented; the metadata of the task are the entries of its block, grouped by label in the
  order in which the labels first appear.
\<close>

definition canonical :: "int \<Rightarrow> pystr \<Rightarrow> task \<Rightarrow> bool" where
  "canonical n l t \<longleftrightarrow>
     (\<exists>c ds own st name. c \<in> {32, 120, 88} \<and> length ds = 4 \<and> list_all is_digit ds \<and>
        st \<noteq> [] \<and> list_all is_status_char st \<and> name \<noteq> [] \<and> \<not> is_space (hd name) \<and>
        l = lit ''- ['' @ [c] @ lit ''] `CP-'' @ ds @ lit ''` `'' @ st @ lit ''`'' @
          (if own then lit '' `owner`'' else []) @ [32, 8212, 32] @ name \<and>
        t = \<lparr>task_id = lit ''CP-'' @ ds, number = digits_value 0 ds, status = st, checked = (c \<noteq> 32),
          owner = own, title = name, line = n, metadata = []\<rparr>)"

definition belongs :: "pystr \<Rightarrow> bool" where
  "belongs l \<longleftrightarrow> l = [] \<or> hd l = 32"

definition entries :: "pystr list \<Rightarrow> (label \<times> pystr) list" where
  "entries ls = concat (map (\<lambda>l. case match_metadata l of Some (lab, raw) \<Rightarrow> [(lab, strip raw)] | None \<Rightarrow> []) ls)"

definition first_labels :: "(label \<times> pystr) list \<Rightarrow> label list" where
  "first_labels es = rev (remdups (rev (map fst es)))"

definition grouped :: "(label \<times> pystr) list \<Rightarrow> (label, pystr list) pydict" where
  "grouped es = map (\<lambda>lab. (lab, map snd (filter (\<lambda>e. fst e = lab) es))) (first_labels es)"

fun block_tasks :: "int \<Rightarrow> pystr list \<Rightarrow> task list" where
  "block_tasks n [] = []"
| "block_tasks n (l # ls) =
     (case match_task_line n l of
        Some t \<Rightarrow> [t\<lparr>metadata := grouped (entries (takeWhile belongs ls))\<rparr>]
      | None \<Rightarrow> []) @ block_tasks (n + 1) ls"

definition first_counter :: "pystr list \<Rightarrow> int option" where
  "first_counter ls = (case List.map_filter match_next_id ls of [] \<Rightarrow> None | k # _ \<Rightarrow> Some k)"

text \<open>Whether the lines before end in a block, and the errors of a line after them.\<close>

definition in_block :: "pystr list \<Rightarrow> bool" where
  "in_block before = (case dropWhile belongs (rev before) of [] \<Rightarrow> False | l # _ \<Rightarrow> match_task_line 0 l \<noteq> None)"

definition line_errors :: "int \<Rightarrow> pystr list \<Rightarrow> pystr \<Rightarrow> rm_error list" where
  "line_errors n before l =
     (if match_next_id l \<noteq> None then (if first_counter before \<noteq> None then [Duplicate_counter n] else [])
      else if match_task_line n l \<noteq> None then []
      else if match_checkbox l then [Not_canonical n]
      else case match_metadata l of
          Some (lab, raw) \<Rightarrow>
            if \<not> in_block before then [Metadata_without_task n] else if strip raw = [] then [Empty_metadata n lab] else []
        | None \<Rightarrow> if prefix (lit ''  - '') l \<and> in_block before then [Unknown_metadata n] else [])"

definition text_errors :: "int \<Rightarrow> pystr list \<Rightarrow> rm_error list" where
  "text_errors n ls = concat (map (\<lambda>i. line_errors (n + int i) (take i ls) (ls ! i)) [0..<length ls])"

lemma match_title_Some: "match_title s = Some name \<longleftrightarrow> s = [32, 8212, 32] @ name \<and> name \<noteq> [] \<and> \<not> is_space (hd name)"
  by (auto simp: match_title_def split: bind_splits if_splits)

lemma no_owner_title: "strip_prefix (lit '' `owner`'') ([32, 8212, 32] @ name) = None"
  by (simp add: lit_def)

lemma status_run: "list_all is_status_char st \<Longrightarrow>
    takeWhile is_status_char (st @ lit ''`'' @ r) = st \<and> dropWhile is_status_char (st @ lit ''`'' @ r) = lit ''`'' @ r"
  by (induction st) (simp_all add: lit_def is_status_char_def)

lemma match_task_line_canonical: "match_task_line n l = Some t \<longleftrightarrow> canonical n l t"
proof
  assume m: "match_task_line n l = Some t"
  then obtain c r0 ds r1 own r2 name where l: "l = lit ''- ['' @ c # lit ''] `CP-'' @ r0" "c \<in> {32, 120, 88}"
      "four_digits r0 = Some (ds, lit ''` `'' @ r1)"
      "takeWhile is_status_char r1 \<noteq> []" "dropWhile is_status_char r1 = lit ''`'' @ r2"
      "(own \<and> r2 = lit '' `owner`'' @ [32, 8212, 32] @ name) \<or> (\<not> own \<and> r2 = [32, 8212, 32] @ name)"
      "name \<noteq> []" "\<not> is_space (hd name)"
      "t = \<lparr>task_id = lit ''CP-'' @ ds, number = digits_value 0 ds, status = takeWhile is_status_char r1,
         checked = (c \<in> {120, 88}), owner = own, title = name, line = n, metadata = []\<rparr>"
    unfolding match_task_line_def
    by (auto simp: match_title_Some split: bind_splits if_splits list.splits option.splits)
  have "r1 = takeWhile is_status_char r1 @ lit ''`'' @ r2" using l(5) by (metis takeWhile_dropWhile_id)
  moreover have "list_all is_status_char (takeWhile is_status_char r1)" by (auto simp: list_all_iff dest: set_takeWhileD)
  moreover have "r2 = (if own then lit '' `owner`'' else []) @ [32, 8212, 32] @ name" using l(6) by auto
  ultimately show "canonical n l t"
    unfolding canonical_def using l(1-4,7-9)
    by (intro exI [of _ c] exI [of _ ds] exI [of _ own] exI [of _ "takeWhile is_status_char r1"] exI [of _ name])
      (auto simp: four_digits_Some)
next
  assume "canonical n l t"
  then obtain c ds own st name where c: "c \<in> {32, 120, 88}" "length ds = 4" "list_all is_digit ds" "st \<noteq> []"
      "list_all is_status_char st" "name \<noteq> []" "\<not> is_space (hd name)"
      and l: "l = lit ''- ['' @ [c] @ lit ''] `CP-'' @ ds @ lit ''` `'' @ st @ lit ''`'' @
          (if own then lit '' `owner`'' else []) @ [32, 8212, 32] @ name"
      and t: "t = \<lparr>task_id = lit ''CP-'' @ ds, number = digits_value 0 ds, status = st, checked = (c \<noteq> 32),
          owner = own, title = name, line = n, metadata = []\<rparr>"
    unfolding canonical_def by blast
  have title: "match_title (32 # 8212 # 32 # name) = Some name" using c(6,7) by (simp add: match_title_Some)
  have "(case strip_prefix (lit '' `owner`'') ((if own then lit '' `owner`'' else []) @ [32, 8212, 32] @ name) of
      Some r' \<Rightarrow> Some (True, r') | None \<Rightarrow> Some (False, (if own then lit '' `owner`'' else []) @ [32, 8212, 32] @ name)) =
      Some (own, [32, 8212, 32] @ name)"
    by (cases own) (simp_all only: if_True if_False append_Nil no_owner_title strip_prefix_append option.simps)
  then show "match_task_line n l = Some t"
    unfolding match_task_line_def l t
    using c(1,4) status_run [OF c(5)]
    by (simp only: strip_prefix_append bind.bind_lunit append_Cons append_Nil list.simps prod.case if_True
        four_digits_append [OF c(2,3)]) (auto simp: title)
qed

lemma match_task_line_Some:
  assumes "match_task_line n l = Some t"
  shows "line t = n" "metadata t = []" "match_next_id l = None" "\<not> belongs l"
proof -
  from assms obtain r where l: "l = lit ''- ['' @ r" and t: "line t = n" "metadata t = []"
    unfolding match_task_line_canonical canonical_def by auto
  show "line t = n" "metadata t = []" by (fact t)+
  show "match_next_id l = None" "\<not> belongs l"
    by (auto simp: l match_next_id_def belongs_def lit_def split: bind_splits)
qed

lemma belongs_task: "belongs l \<Longrightarrow> match_task_line n l = None"
  using match_task_line_Some(4) [of n l] by (cases "match_task_line n l") auto

lemma belongs_next_id: "belongs l \<Longrightarrow> match_next_id l = None"
  by (auto simp: match_next_id_def belongs_def lit_def split: bind_splits)

lemma belongs_checkbox: "belongs l \<Longrightarrow> \<not> match_checkbox l"
  by (auto simp: match_checkbox_def belongs_def lit_def prefix_def)

lemma metadata_belongs: "match_metadata l = Some x \<Longrightarrow> belongs l"
  by (auto simp: match_metadata_def belongs_def lit_def split: bind_splits)

lemma indented_belongs: "prefix (lit '' '') l \<or> l = [] \<longleftrightarrow> belongs l"
  by (cases l) (auto simp: belongs_def lit_def)

lemma task_line_any: "match_task_line n l = None \<longleftrightarrow> match_task_line k l = None"
proof -
  have "match_task_line k l \<noteq> None" if "match_task_line n l \<noteq> None" for n k
    using that match_task_line_canonical [of n l] match_task_line_canonical [of k l]
    unfolding canonical_def by (metis not_None_eq)
  then show ?thesis by blast
qed

subsection \<open>Grouping the entries of a block\<close>

lemma update_keyed:
  "distinct ks \<Longrightarrow> AList.update x v (map (\<lambda>k. (k, f k)) ks) =
     (if x \<in> set ks then map (\<lambda>k. (k, if k = x then v else f k)) ks else map (\<lambda>k. (k, f k)) ks @ [(x, v)])"
  by (induction ks) auto

lemma first_labels_snoc:
  "first_labels (es @ [(lab, v)]) = (if lab \<in> fst ` set es then first_labels es else first_labels es @ [lab])"
  by (simp add: first_labels_def)

lemma grouped_snoc: "grouped (es @ [(lab, v)]) = dict_append lab v (grouped es)"
proof -
  have d: "distinct (first_labels es)" and s: "set (first_labels es) = fst ` set es"
    by (simp_all add: first_labels_def)
  have g: "dict_get (grouped es) lab [] = map snd (filter (\<lambda>e. fst e = lab) es)"
  proof (cases "lab \<in> fst ` set es")
    case True
    then have "map_of (grouped es) lab = Some (map snd (filter (\<lambda>e. fst e = lab) es))"
      using s by (simp add: grouped_def map_of_map_restrict)
    then show ?thesis by (simp add: dict_get_def)
  next
    case False
    then have "map_of (grouped es) lab = None" using s by (simp add: grouped_def map_of_eq_None_iff comp_def image_image)
    moreover have "filter (\<lambda>e. fst e = lab) es = []" using False by (force simp: filter_empty_conv)
    ultimately show ?thesis by (simp add: dict_get_def)
  qed
  show ?thesis
  proof (cases "lab \<in> fst ` set es")
    case True
    then show ?thesis
      unfolding dict_append_def g using s
      by (auto simp: grouped_def first_labels_snoc update_keyed [OF d])
  next
    case False
    then have "filter (\<lambda>e. fst e = lab) es = []" by (force simp: filter_empty_conv)
    with False show ?thesis
      unfolding dict_append_def g using s
      by (auto simp: grouped_def first_labels_snoc update_keyed [OF d])
  qed
qed

lemma entries_snoc:
  "grouped (entries (ls @ [l])) =
     (case match_metadata l of Some (lab, raw) \<Rightarrow> dict_append lab (strip raw) (grouped (entries ls)) | None \<Rightarrow> grouped (entries ls))"
  by (auto simp: entries_def grouped_snoc split: option.splits)

lemma grouped_Nil: "grouped (entries []) = []"
  by (simp add: grouped_def entries_def first_labels_def)

subsection \<open>The parser follows the blocks\<close>

lemma in_block_snoc: "in_block (ls @ [l]) \<longleftrightarrow> (if belongs l then in_block ls else match_task_line n l \<noteq> None)"
  using task_line_any [of 0 l n] by (simp add: in_block_def)

lemma in_block_Cons:
  "in_block (l # ls) \<longleftrightarrow> (if list_all belongs ls then match_task_line n l \<noteq> None else in_block ls)"
proof -
  have all: "dropWhile belongs (rev ls) = [] \<longleftrightarrow> list_all belongs ls" by (simp add: dropWhile_eq_Nil_conv list_all_iff)
  show ?thesis
  proof (cases "list_all belongs ls")
    case True
    then have "dropWhile belongs (rev ls @ [l]) = dropWhile belongs [l]"
      by (intro dropWhile_append2) (simp add: list_all_iff)
    then show ?thesis
      using True belongs_task [of l n] task_line_any [of 0 l n] by (auto simp: in_block_def)
  next
    case False
    then obtain x where "x \<in> set (rev ls)" "\<not> belongs x" by (auto simp: list_all_iff)
    then have "dropWhile belongs (rev ls @ [l]) = dropWhile belongs (rev ls) @ [l]" by (rule dropWhile_append1)
    then show ?thesis using False all by (auto simp: in_block_def split: list.splits)
  qed
qed

lemma block_tasks_belongs: "list_all belongs ls \<Longrightarrow> block_tasks n ls = []"
  by (induction ls arbitrary: n) (simp_all add: belongs_task)

lemma in_block_tasks: "in_block ls \<Longrightarrow> block_tasks n ls \<noteq> []"
proof (induction ls arbitrary: n)
  case Nil
  then show ?case by (simp add: in_block_def)
next
  case (Cons l ls)
  then show ?case
    by (cases "list_all belongs ls") (auto simp: in_block_Cons [of l ls n] split: option.splits)
qed

definition extend_last :: "label \<Rightarrow> pystr \<Rightarrow> task list \<Rightarrow> task list" where
  "extend_last lab v ts = ts[length ts - 1 := (last ts)\<lparr>metadata := dict_append lab v (metadata (last ts))\<rparr>]"

lemma extend_last_append: "ts \<noteq> [] \<Longrightarrow> extend_last lab v (us @ ts) = us @ extend_last lab v ts"
  by (cases ts rule: rev_cases) (simp_all add: extend_last_def list_update_append)

lemma block_tasks_snoc:
  "block_tasks n (ls @ [l]) =
     (if \<not> belongs l then block_tasks n ls @ (case match_task_line (n + int (length ls)) l of Some t \<Rightarrow> [t] | None \<Rightarrow> [])
      else case match_metadata l of
          Some (lab, raw) \<Rightarrow> if in_block ls then extend_last lab (strip raw) (block_tasks n ls) else block_tasks n ls
        | None \<Rightarrow> block_tasks n ls)"
proof (induction ls arbitrary: n)
  case Nil
  then show ?case
    by (auto simp: belongs_task grouped_Nil in_block_def match_task_line_Some split: option.splits)
next
  case (Cons x ls)
  have len: "n + int (length (x # ls)) = n + 1 + int (length ls)" by simp
  show ?case
  proof (cases "list_all belongs ls")
    case False
    then have "takeWhile belongs (ls @ [l]) = takeWhile belongs ls" by (auto simp: list_all_iff)
    moreover have "in_block (x # ls) = in_block ls" using False by (simp add: in_block_Cons [of x ls n])
    ultimately show ?thesis
      using Cons.IH [of "n + 1"] in_block_tasks [of ls "n + 1"] unfolding len
      by (auto simp: extend_last_append split: option.splits)
  next
    case True
    then have all: "takeWhile belongs (ls @ [l]) = (if belongs l then ls @ [l] else ls)" "takeWhile belongs ls = ls"
      by (auto simp: list_all_iff takeWhile_append)
    have none: "block_tasks (n + 1) ls = []" by (rule block_tasks_belongs [OF True])
    have "in_block (x # ls) \<longleftrightarrow> match_task_line n x \<noteq> None" using True by (simp add: in_block_Cons [of x ls n])
    moreover have none_left: "dropWhile belongs (rev ls) = []" using True by (simp add: list_all_iff)
    have "\<not> in_block ls" unfolding in_block_def none_left by simp
    ultimately show ?thesis
      using Cons.IH [of "n + 1"] none unfolding len
      by (auto simp: all entries_snoc extend_last_def split: option.splits)
  qed
qed

lemma first_counter_snoc:
  "first_counter (ls @ [l]) = (case first_counter ls of Some k \<Rightarrow> Some k | None \<Rightarrow> match_next_id l)"
  by (auto simp: first_counter_def List.map_filter_def split: list.splits option.splits)

lemma text_errors_snoc: "text_errors n (ls @ [l]) = text_errors n ls @ line_errors (n + int (length ls)) ls l"
proof -
  have "concat (map (\<lambda>i. line_errors (n + int i) (take i (ls @ [l])) ((ls @ [l]) ! i)) [0..<length ls]) = text_errors n ls"
    unfolding text_errors_def by (rule arg_cong [of _ _ concat], rule map_cong) (simp_all add: nth_append)
  then show ?thesis by (simp add: text_errors_def)
qed

definition follows :: "int \<Rightarrow> pystr list \<Rightarrow> parse_state \<Rightarrow> bool" where
  "follows n ls s \<longleftrightarrow>
     tasks s = block_tasks n ls \<and> next_number s = first_counter ls \<and> errors s = text_errors n ls \<and>
     current s = (if in_block ls then Some (length (tasks s) - 1) else None)"

lemma add_metadata_last:
  assumes "tasks s \<noteq> []"
  shows "tasks (add_metadata (length (tasks s) - 1) lab v s) = extend_last lab v (tasks s)"
  using assms by (simp add: add_metadata_def extend_last_def last_conv_nth)

lemma parse_fields [simp]:
  "tasks (add_error e s) = tasks s" "current (add_error e s) = current s"
  "next_number (add_error e s) = next_number s" "errors (add_error e s) = errors s @ [e]"
  "current (add_metadata i l v s) = current s" "errors (add_metadata i l v s) = errors s"
  "next_number (add_metadata i l v s) = next_number s"
  "length (tasks (add_metadata i l v s)) = length (tasks s)"
  by (simp_all add: add_error_def add_metadata_def)

lemma parse_line_follows:
  assumes "follows n ls s"
  shows "follows n (ls @ [l]) (parse_line (n + int (length ls)) l s)"
proof -
  let ?k = "n + int (length ls)"
  have s: "tasks s = block_tasks n ls" "next_number s = first_counter ls" "errors s = text_errors n ls"
      "current s = (if in_block ls then Some (length (tasks s) - 1) else None)"
    using assms by (simp_all add: follows_def)
  note snoc = block_tasks_snoc first_counter_snoc text_errors_snoc in_block_snoc [of ls l ?k]
  consider (counter) k where "match_next_id l = Some k"
    | (task) t where "match_next_id l = None" "match_task_line ?k l = Some t"
    | (checkbox) "match_next_id l = None" "match_task_line ?k l = None" "match_checkbox l"
    | (entry) lab raw where "match_next_id l = None" "match_task_line ?k l = None" "\<not> match_checkbox l" "match_metadata l = Some (lab, raw)"
    | (other) "match_next_id l = None" "match_task_line ?k l = None" "\<not> match_checkbox l" "match_metadata l = None"
    by fastforce
  then show ?thesis
  proof cases
    case counter
    then have "match_task_line ?k l = None" "\<not> belongs l"
      using match_task_line_Some(3) [of ?k l] belongs_next_id [of l] by (cases "match_task_line ?k l"; auto)+
    with counter s show ?thesis
      by (auto simp: follows_def snoc parse_line_def line_errors_def split: option.splits)
  next
    case task
    then show ?thesis
      using s match_task_line_Some(4) [OF task(2)]
      by (auto simp: follows_def snoc parse_line_def line_errors_def split: option.splits)
  next
    case checkbox
    then show ?thesis
      using s belongs_checkbox [of l] by (auto simp: follows_def snoc parse_line_def line_errors_def split: option.splits)
  next
    case entry
    then show ?thesis
      using s metadata_belongs [OF entry(4)] in_block_tasks [of ls n] add_metadata_last [of s]
        add_metadata_last [of "add_error (Empty_metadata ?k lab) s"]
      by (auto simp: follows_def snoc parse_line_def line_errors_def Let_def extend_last_def split: option.splits)
  next
    case other
    have "prefix (lit ''  - '') l \<longrightarrow> belongs l" by (auto simp: belongs_def lit_def prefix_def)
    moreover have "l \<noteq> [] \<and> \<not> prefix (lit '' '') l \<longleftrightarrow> \<not> belongs l" using indented_belongs [of l] by blast
    ultimately show ?thesis
      using other s by (auto simp: follows_def snoc parse_line_def line_errors_def split: option.splits)
  qed
qed

lemma parse_lines_append: "parse_lines n (ls @ ls') s = parse_lines (n + int (length ls)) ls' (parse_lines n ls s)"
  by (induction n ls s rule: parse_lines.induct) (simp_all add: add.assoc)

lemma parse_lines_follows: "follows n ls (parse_lines n ls parse_init)"
proof (induction ls rule: rev_induct)
  case Nil
  then show ?case by (simp add: follows_def parse_init_def first_counter_def text_errors_def in_block_def List.map_filter_def)
next
  case (snoc l ls)
  then show ?case by (simp add: parse_lines_append parse_line_follows)
qed

lemma parse_roadmap_blocks:
  "parse_roadmap text =
     (let ls = splitlines text in
      (block_tasks 1 ls, first_counter ls, text_errors 1 ls @ (if first_counter ls = None then [Missing_counter] else [])))"
  using parse_lines_follows [of 1 "splitlines text"] by (simp add: parse_roadmap_def follows_def Let_def)

lemma parse_roadmap_counter:
  "parse_roadmap text = (ts, next, errs) \<Longrightarrow> errs = [] \<Longrightarrow> next \<noteq> None"
  by (auto simp: parse_roadmap_def Let_def split: if_splits)

subsection \<open>The command's outcome\<close>

lemma roadmap_main_clean:
  assumes "parse_roadmap text = (ts, next, errs)"
  shows "(\<exists>out. roadmap_main args (Some text) = Inr (out, 0)) \<longleftrightarrow> errs = [] \<and> roadmap_ok ts next"
  using assms parse_roadmap_counter [OF assms]
  by (auto simp: roadmap_main_def Let_def validate_Nil_iff [symmetric])

lemma roadmap_main_no_raise: "roadmap_main args file \<noteq> Inl e"
  using parse_roadmap_counter by (auto simp: roadmap_main_def Let_def split: option.splits prod.splits)

subsection \<open>Properties\<close>

text \<open>
  C1: the depth-first search is exact. Every path it reports is a closed walk of the dependency
  graph of the known tasks, and it reports none exactly when that graph is acyclic.
\<close>

theorem dependency_cycles_exact:
  "(\<forall>c \<in> set (dependency_cycles by_id). closed_walk (depends by_id) c) \<and>
   (dependency_cycles by_id = [] \<longleftrightarrow> acyclic (depends by_id))"
  using dependency_cycles_sound dependency_cycles_empty_iff by blast

definition sample_task :: "int \<Rightarrow> pystr \<Rightarrow> task" where
  "sample_task n deps =
     \<lparr>task_id = lit ''CP-000'' @ dec_digits n, number = n, status = lit ''planned'', checked = False,
      owner = False, title = lit ''t'', line = n, metadata = [(Depends_on, [deps])]\<rparr>"

theorem dependency_cycles_exact_witness:
  "closed_walk (depends (keyed [sample_task 1 (lit ''CP-0002''), sample_task 2 (lit ''CP-0001'')]))
     [lit ''CP-0001'', lit ''CP-0002'', lit ''CP-0001'']"
proof -
  have "[lit ''CP-0001'', lit ''CP-0002'', lit ''CP-0001''] \<in> set (dependency_cycles
      (keyed [sample_task 1 (lit ''CP-0002''), sample_task 2 (lit ''CP-0001'')]))"
    by code_simp
  then show ?thesis
    using dependency_cycles_exact by blast
qed

text \<open>
  C2: \<open>validate\<close> returns no error exactly for a roadmap with distinct identifiers, allowed
  statuses with the matching checkbox and metadata, known and non-circular dependencies, no
  completed task on an uncompleted one, and a counter above every allocated number.
\<close>

theorem validate_exact: "validate ts next = [] \<longleftrightarrow> roadmap_ok ts next"
  by (rule validate_Nil_iff)

text \<open>
  C3: the parser reads exactly the blocks of the text. A line in canonical form (written out by
  \<open>canonical\<close>) gives one task with the fields of the line, in file order; its metadata are the entries of the
  empty or indented lines after it, up to the next other line, grouped by label with all their values in
  order; the counter is the first one; and the errors are those of each line by itself, depending on the
  lines before it only by whether they end in a block and already hold a counter.
\<close>

theorem parse_roadmap_exact:
  "(\<forall>n l t. match_task_line n l = Some t \<longleftrightarrow> canonical n l t) \<and>
   parse_roadmap text =
     (let ls = splitlines text in
      (block_tasks 1 ls, first_counter ls, text_errors 1 ls @ (if first_counter ls = None then [Missing_counter] else [])))"
  using match_task_line_canonical parse_roadmap_blocks by blast

text \<open>
  the command never trips its assertion, and exits with status 0 exactly when the file exists,
  parses without an error and validates.
\<close>

theorem roadmap_main_exit:
  "roadmap_main args file_text \<noteq> Inl e \<and>
   ((\<exists>out. roadmap_main args file_text = Inr (out, 0)) \<longleftrightarrow>
      (\<exists>text ts next. file_text = Some text \<and> parse_roadmap text = (ts, next, []) \<and> roadmap_ok ts next))"
proof (cases file_text)
  case None
  then show ?thesis by (simp add: roadmap_main_def)
next
  case (Some content)
  then show ?thesis
    using roadmap_main_no_raise roadmap_main_clean [of content _ _ _ args]
    by (cases "parse_roadmap content") auto
qed

text \<open>
  C4: a successful run with \<open>--next-id\<close> prints one number, larger than the number of every task of
  the file.
\<close>

theorem next_id_fresh:
  assumes "roadmap_main \<lparr>next_id_flag = True, owner_flag = b\<rparr> (Some text) = Inr (out, 0)"
  shows "\<exists>n. out = [Next_id n] \<and> (\<forall>t \<in> set (fst (parse_roadmap text)). number t < n)"
proof -
  obtain ts nxt errs where p: "parse_roadmap text = (ts, nxt, errs)" by (cases "parse_roadmap text")
  with assms have "errs = []" "roadmap_ok ts nxt"
    using roadmap_main_clean [OF p] by blast+
  moreover obtain n where "nxt = Some n"
    using parse_roadmap_counter [OF p] calculation by auto
  ultimately show ?thesis
    using assms p validate_Nil_iff [of ts nxt]
    by (simp add: roadmap_main_def roadmap_ok_def) blast
qed

definition sample_roadmap :: pystr where
  "sample_roadmap = lit ''> Next task ID: `CP-0002`'' @ [10]
     @ lit ''- [ ] `CP-0001` `planned`'' @ [32, 8212, 32] @ lit ''t''"

theorem next_id_fresh_witness:
  "\<exists>n. [Next_id 2] = [Next_id n] \<and> (\<forall>t \<in> set (fst (parse_roadmap sample_roadmap)). number t < n)"
proof -
  have "roadmap_main \<lparr>next_id_flag = True, owner_flag = False\<rparr> (Some sample_roadmap) =
      Inr ([Next_id 2], 0)"
    by code_simp
  then show ?thesis by (rule next_id_fresh)
qed

end
