(* ===== verification/Tool_Parity.thy ===== *)
theory Tool_Parity
  imports Py_Prelude "HOL-Library.Sublist" "HOL-Library.List_Lexorder"
begin

text \<open>
  .agents/skills/maintain-tool-parity/scripts/check_tool_parity.py: agent definitions with their two
  renderings, the links onto the shared skills and the shared instructions, checked or repaired. The
  repository is a record of the directories the script reads; a run is a function on it.
\<close>

subsection \<open>The repository as the checker sees it\<close>

text \<open>
  Directories as dicts from the stem or name of an entry to what it holds; None is a missing
  directory or file. Agent definitions and shared skills are in sorted order.
\<close>

datatype skill_entry = Link pystr | Real_entry

record repo =
  rp_agents :: "(pystr \<times> pystr) list option"
  rp_codex :: "(pystr, pystr) pydict option"
  rp_claude :: "(pystr, pystr) pydict option"
  rp_skills :: "pystr list option"
  rp_links :: "(pystr, skill_entry) pydict option"
  rp_instructions :: bool
  rp_entrypoint :: "pystr option"

text \<open>\<open>read_text\<close> turns every line ending into a line feed; \<open>write_text\<close> writes what it is given.\<close>

fun universal_newlines :: "pystr \<Rightarrow> pystr" where
  "universal_newlines [] = []"
| "universal_newlines [c] = [if c = 13 then 10 else c]"
| "universal_newlines (c # d # s) =
     (if c = 13 \<and> d = 10 then 10 # universal_newlines s
      else (if c = 13 then 10 else c) # universal_newlines (d # s))"

subsection \<open>Agent definitions\<close>

definition required_keys :: "string list" where
  "required_keys =
     [''slug'', ''description'', ''access'', ''web'', ''delegation'', ''reasoning-effort'', ''codex-model'',
      ''claude-model'']"

definition access_values :: "string list" where
  "access_values = [''read-only'', ''workspace-write'']"

definition effort_values :: "string list" where
  "effort_values = [''low'', ''medium'', ''high'', ''xhigh'', ''max'']"

definition delegation_values :: "string list" where
  "delegation_values = [''none'', ''allowed'']"

definition bool_values :: "string list" where
  "bool_values = [''true'', ''false'']"

datatype def_problem =
    No_frontmatter | Not_closed | Bad_line pystr | Missing_key string | Slug_mismatch pystr |
    Empty_description | Bad_access | Bad_effort | Bad_delegation | Bad_web | Empty_body |
    Description_quote | Body_quotes

text \<open>\<open>s.split(sep, 1)\<close> for a separator that occurs: what is before and after its first place.\<close>

fun split_at :: "pystr \<Rightarrow> pystr \<Rightarrow> (pystr \<times> pystr) option" where
  "split_at sep [] = (if sep = [] then Some ([], []) else None)"
| "split_at sep (c # s) =
     (case strip_prefix sep (c # s) of
        Some rest \<Rightarrow> Some ([], rest)
      | None \<Rightarrow> map_option (\<lambda>(a, b). (c # a, b)) (split_at sep s))"

definition frontmatter_mark :: pystr where
  "frontmatter_mark = lit ''---'' @ [10]"

fun parse_meta :: "pystr list \<Rightarrow> (pystr, pystr) pydict \<Rightarrow> (pystr, pystr) pydict \<times> def_problem list" where
  "parse_meta [] meta = (meta, [])"
| "parse_meta (l # ls) meta =
     (case split_at (lit '': '') l of
        None \<Rightarrow> (let (meta, problems) = parse_meta ls meta in (meta, Bad_line l # problems))
      | Some (key, v) \<Rightarrow> parse_meta ls (AList.update (strip key) (strip v) meta))"

definition meta_get :: "(pystr, pystr) pydict \<Rightarrow> string \<Rightarrow> pystr" where
  "meta_get meta key = dict_get meta (lit key) []"

definition one_of :: "string list \<Rightarrow> pystr \<Rightarrow> bool" where
  "one_of vs s \<longleftrightarrow> list_ex (\<lambda>v. s = lit v) vs"

definition value_problems :: "pystr \<Rightarrow> (pystr, pystr) pydict \<Rightarrow> pystr \<Rightarrow> def_problem list" where
  "value_problems stem meta body =
     (if meta_get meta ''slug'' \<noteq> stem then [Slug_mismatch (meta_get meta ''slug'')] else []) @
     (if meta_get meta ''description'' = [] then [Empty_description] else []) @
     (if \<not> one_of access_values (meta_get meta ''access'') then [Bad_access] else []) @
     (if \<not> one_of effort_values (meta_get meta ''reasoning-effort'') then [Bad_effort] else []) @
     (if \<not> one_of delegation_values (meta_get meta ''delegation'') then [Bad_delegation] else []) @
     (if \<not> one_of bool_values (meta_get meta ''web'') then [Bad_web] else []) @
     (if body = [] then [Empty_body] else []) @
     (if 34 \<in> set (meta_get meta ''description'') then [Description_quote] else []) @
     (if sublist [34, 34, 34] body then [Body_quotes] else [])"

definition parse_definition :: "pystr \<Rightarrow> pystr \<Rightarrow> (pystr, pystr) pydict \<times> pystr \<times> def_problem list" where
  "parse_definition stem raw =
     (case strip_prefix frontmatter_mark (universal_newlines raw) of
        None \<Rightarrow> ([], [], [No_frontmatter])
      | Some rest \<Rightarrow>
          (case split_at frontmatter_mark rest of
             None \<Rightarrow> ([], [], [Not_closed])
           | Some (front, back_part) \<Rightarrow>
               (let (meta, problems) = parse_meta (splitlines (strip front)) [];
                    body = strip back_part;
                    missing = map Missing_key (filter (\<lambda>k. map_of meta (lit k) = None) required_keys) in
                if problems @ missing \<noteq> [] then (meta, body, problems @ missing)
                else (meta, body, value_problems stem meta body))))"

subsection \<open>The two renderings\<close>

definition claude_tools :: "(pystr, pystr) pydict \<Rightarrow> pystr list" where
  "claude_tools meta =
     [lit ''Read'', lit ''Grep'', lit ''Glob''] @
     (if meta_get meta ''access'' = lit ''workspace-write'' then [lit ''Edit'', lit ''Write''] else []) @
     (if meta_get meta ''web'' = lit ''true'' then [lit ''WebSearch'', lit ''WebFetch''] else []) @
     (if meta_get meta ''delegation'' = lit ''allowed'' then [lit ''Agent''] else [])"

definition in_quotes :: "pystr \<Rightarrow> pystr" where
  "in_quotes s = [34] @ s @ [34]"

definition render_codex :: "(pystr, pystr) pydict \<Rightarrow> pystr \<Rightarrow> pystr" where
  "render_codex meta body =
     lit ''name = '' @ in_quotes (map (\<lambda>c. if c = 45 then 95 else c) (meta_get meta ''slug'')) @ [10] @
     lit ''description = '' @ in_quotes (meta_get meta ''description'') @ [10] @
     lit ''model = '' @ in_quotes (meta_get meta ''codex-model'') @ [10] @
     lit ''model_reasoning_effort = '' @ in_quotes (meta_get meta ''reasoning-effort'') @ [10] @
     lit ''sandbox_mode = '' @ in_quotes (meta_get meta ''access'') @ [10] @
     lit ''developer_instructions = '' @ [34, 34, 34, 10] @ body @ [10, 34, 34, 34, 10]"

definition render_claude :: "(pystr, pystr) pydict \<Rightarrow> pystr \<Rightarrow> pystr" where
  "render_claude meta body =
     lit ''---'' @ [10] @
     lit ''name: '' @ meta_get meta ''slug'' @ [10] @
     lit ''description: '' @ meta_get meta ''description'' @ [10] @
     lit ''tools: '' @ join (lit '', '') (claude_tools meta) @ [10] @
     lit ''model: '' @ meta_get meta ''claude-model'' @ [10] @
     lit ''effort: '' @ meta_get meta ''reasoning-effort'' @ [10] @
     lit ''---'' @ [10, 10] @
     lit ''<!-- Generated from .agents/agents/'' @ meta_get meta ''slug'' @
     lit ''.md. Edit that file, then run check_tool_parity.py --write. -->'' @ [10, 10] @
     body @ [10]"

subsection \<open>Checks and repairs\<close>

datatype parity_problem =
    Agents_missing | Definition_problem pystr def_problem |
    Codex_missing pystr | Codex_stale pystr | Claude_missing pystr | Claude_stale pystr |
    Codex_orphan pystr | Claude_orphan pystr |
    Skills_missing | Skill_unlinked pystr | Skill_copied pystr | Skill_absolute pystr pystr |
    Skill_target pystr pystr | Skill_orphan pystr |
    Instructions_missing | Entrypoint_missing | Not_imported

datatype parity_change = Regenerated_codex pystr | Regenerated_claude pystr | Linked pystr | Relinked pystr

type_synonym report = "parity_problem list \<times> parity_change list"

text \<open>
  One target: nothing when it reads as expected, otherwise written (creating its directory) or
  reported.
\<close>

definition check_target ::
    "bool \<Rightarrow> (pystr \<Rightarrow> parity_problem) \<Rightarrow> (pystr \<Rightarrow> parity_problem) \<Rightarrow> (pystr \<Rightarrow> parity_change) \<Rightarrow> pystr \<Rightarrow> pystr \<Rightarrow>
     (pystr, pystr) pydict option \<Rightarrow> report \<times> (pystr, pystr) pydict option" where
  "check_target write missing stale regenerated slug expected dir =
     (let actual = (case dir of None \<Rightarrow> None | Some d \<Rightarrow> map_option universal_newlines (map_of d slug)) in
      if actual = Some expected then (([], []), dir)
      else if write then
        (([], [regenerated slug]), Some (AList.update slug expected (case dir of None \<Rightarrow> [] | Some d \<Rightarrow> d)))
      else if actual = None then (([missing slug], []), dir)
      else (([stale slug], []), dir))"

definition join_report :: "report \<Rightarrow> report \<Rightarrow> report" where
  "join_report a b = (fst a @ fst b, snd a @ snd b)"

fun check_sources :: "bool \<Rightarrow> (pystr \<times> pystr) list \<Rightarrow> repo \<Rightarrow> report \<times> pystr list \<times> repo" where
  "check_sources write [] rp = (([], []), [], rp)"
| "check_sources write ((stem, raw) # rest) rp =
     (let (meta, body, issues) = parse_definition stem raw in
      if issues \<noteq> [] then
        (let (r, slugs, rp) = check_sources write rest rp in
         (join_report (map (Definition_problem stem) issues, []) r, slugs, rp))
      else
        (let slug = meta_get meta ''slug'';
             (r1, codex) = check_target write Codex_missing Codex_stale Regenerated_codex slug
               (render_codex meta body) (rp_codex rp);
             (r2, claude) = check_target write Claude_missing Claude_stale Regenerated_claude slug
               (render_claude meta body) (rp_claude rp);
             (r, slugs, rp) = check_sources write rest (rp\<lparr>rp_codex := codex, rp_claude := claude\<rparr>) in
         (join_report r1 (join_report r2 r), slug # slugs, rp)))"

definition orphans :: "pystr \<Rightarrow> (pystr, pystr) pydict option \<Rightarrow> pystr list \<Rightarrow> pystr list" where
  "orphans ext dir slugs =
     (case dir of
        None \<Rightarrow> []
      | Some d \<Rightarrow> filter (\<lambda>s. s \<notin> set slugs) (sort_key (\<lambda>s. s @ ext) (map fst d)))"

definition check_agents :: "bool \<Rightarrow> repo \<Rightarrow> report \<times> repo" where
  "check_agents write rp =
     (case rp_agents rp of
        None \<Rightarrow> (([Agents_missing], []), rp)
      | Some sources \<Rightarrow>
          (let (r, slugs, rp) = check_sources write sources rp in
           (join_report r
             (map Codex_orphan (orphans (lit ''.toml'') (rp_codex rp) slugs) @
              map Claude_orphan (orphans (lit ''.md'') (rp_claude rp) slugs), []), rp)))"

definition skill_target :: "pystr \<Rightarrow> pystr" where
  "skill_target name = lit ''../../.agents/skills/'' @ name"

text \<open>One shared skill against its link.\<close>

definition check_skill ::
    "bool \<Rightarrow> pystr \<Rightarrow> (pystr, skill_entry) pydict option \<Rightarrow> report \<times> (pystr, skill_entry) pydict option" where
  "check_skill write name dir =
     (let links = (case dir of None \<Rightarrow> [] | Some d \<Rightarrow> d) in
      case map_of links name of
        None \<Rightarrow>
          if write then (([], [Linked name]), Some (AList.update name (Link (skill_target name)) links))
          else (([Skill_unlinked name], []), dir)
      | Some Real_entry \<Rightarrow> (([Skill_copied name], []), dir)
      | Some (Link actual) \<Rightarrow>
          if prefix (lit ''/'') actual then (([Skill_absolute name actual], []), dir)
          else if actual \<noteq> skill_target name then
            if write then (([], [Relinked name]), Some (AList.update name (Link (skill_target name)) links))
            else (([Skill_target name actual], []), dir)
          else (([], []), dir))"

fun check_links ::
    "bool \<Rightarrow> pystr list \<Rightarrow> (pystr, skill_entry) pydict option \<Rightarrow> report \<times> (pystr, skill_entry) pydict option" where
  "check_links write [] dir = (([], []), dir)"
| "check_links write (n # ns) dir =
     (let (r1, dir) = check_skill write n dir; (r2, dir) = check_links write ns dir in (join_report r1 r2, dir))"

definition check_skills :: "bool \<Rightarrow> repo \<Rightarrow> report \<times> repo" where
  "check_skills write rp =
     (case rp_skills rp of
        None \<Rightarrow> (([Skills_missing], []), rp)
      | Some shared \<Rightarrow>
          (let (r, dir) = check_links write shared (rp_links rp);
               extra = (case dir of None \<Rightarrow> [] | Some d \<Rightarrow> filter (\<lambda>n. n \<notin> set shared) (sort (map fst d))) in
           (join_report r (map Skill_orphan extra, []), rp\<lparr>rp_links := dir\<rparr>)))"

definition check_instructions :: "repo \<Rightarrow> parity_problem list" where
  "check_instructions rp =
     (if \<not> rp_instructions rp then [Instructions_missing] else []) @
     (case rp_entrypoint rp of
        None \<Rightarrow> [Entrypoint_missing]
      | Some raw \<Rightarrow>
          if list_ex (\<lambda>l. strip l = lit ''@AGENTS.md'') (splitlines (universal_newlines raw)) then []
          else [Not_imported])"

text \<open>The problems, the changes and the repository left; the exit code is 1 when there is a problem.\<close>

definition parity_run :: "bool \<Rightarrow> repo \<Rightarrow> report \<times> repo" where
  "parity_run write rp =
     (let (r1, rp) = check_agents write rp; (r2, rp) = check_skills write rp in
      (join_report r1 (join_report r2 (check_instructions rp, [])), rp))"

definition parity_main :: "bool \<Rightarrow> repo \<Rightarrow> int \<times> repo" where
  "parity_main write rp = (let (r, rp) = parity_run write rp in (if fst r = [] then 0 else 1, rp))"

subsection \<open>What reading back gives\<close>

lemma universal_newlines_id: "13 \<notin> set s \<Longrightarrow> universal_newlines s = s"
  by (induction s rule: universal_newlines.induct) auto

lemma universal_newlines_no_cr: "13 \<notin> set (universal_newlines s)"
  by (induction s rule: universal_newlines.induct) auto

lemma split_at_append: "split_at sep s = Some (a, b) \<Longrightarrow> s = a @ sep @ b"
proof (induction s arbitrary: a)
  case (Cons c s)
  then show ?case
    by (cases "strip_prefix sep (c # s)") auto
qed (auto split: if_splits)

lemma set_strip: "set (strip s) \<subseteq> set s"
  by (auto simp: strip_def dest!: set_dropWhileD)

lemma splitlines_from_subset: "l \<in> set (splitlines_from cur s) \<Longrightarrow> set l \<subseteq> set cur \<union> set s"
proof (induction cur s rule: splitlines_from.induct)
  case (1 cur)
  then show ?case by (auto split: if_splits)
next
  case (2 cur c cs)
  have tl: "set (tl cs) \<subseteq> set cs" by (cases cs) auto
  show ?case
  proof (cases "c = 13 \<and> cs \<noteq> [] \<and> hd cs = 10")
    case True
    with 2 tl show ?thesis by auto
  next
    case False
    with 2 show ?thesis by (cases "is_line_break c") auto
  qed
qed

text \<open>A definition's keys and values, and its body, hold no carriage return.\<close>

definition no_cr :: "(pystr, pystr) pydict \<Rightarrow> bool" where
  "no_cr meta \<longleftrightarrow> (\<forall>k v. map_of meta k = Some v \<longrightarrow> 13 \<notin> set v)"

lemma parse_meta_no_cr:
  assumes "\<forall>l \<in> set ls. 13 \<notin> set l" "no_cr meta" "parse_meta ls meta = (meta', problems)"
  shows "no_cr meta'"
  using assms
proof (induction ls arbitrary: meta problems)
  case (Cons l ls)
  show ?case
  proof (cases "split_at (lit '': '') l")
    case None
    with Cons show ?thesis by (auto split: prod.splits)
  next
    case (Some kv)
    then obtain k v where kv: "split_at (lit '': '') l = Some (k, v)" by (cases kv) auto
    then have "13 \<notin> set v" using split_at_append Cons.prems(1) by fastforce
    then have "13 \<notin> set (strip v)" using set_strip by blast
    then have "no_cr (AList.update (strip k) (strip v) meta)"
      using Cons.prems(2) by (auto simp: no_cr_def update_conv')
    with Cons kv show ?thesis by simp
  qed
qed auto

lemma parse_definition_no_cr:
  assumes "parse_definition stem raw = (meta, body, problems)"
  shows "no_cr meta" "13 \<notin> set body"
proof -
  have "no_cr meta \<and> 13 \<notin> set body"
  proof (cases "strip_prefix frontmatter_mark (universal_newlines raw)")
    case None
    with assms show ?thesis by (simp add: parse_definition_def no_cr_def)
  next
    case sp: (Some rest)
    then have rest: "universal_newlines raw = frontmatter_mark @ rest" by simp
    then have r: "13 \<notin> set rest" using universal_newlines_no_cr [of raw] by simp
    show ?thesis
    proof (cases "split_at frontmatter_mark rest")
      case None
      with assms sp show ?thesis by (simp add: parse_definition_def no_cr_def)
    next
      case (Some fb)
      then obtain f b where fb: "split_at frontmatter_mark rest = Some (f, b)" by (cases fb) auto
      obtain m ps where m: "parse_meta (splitlines (strip f)) [] = (m, ps)" by fastforce
      have "13 \<notin> set f" "13 \<notin> set b" using split_at_append [OF fb] r by auto
      then have f: "13 \<notin> set (strip f)" "13 \<notin> set (strip b)" using set_strip by blast+
      then have "no_cr m"
        using parse_meta_no_cr [OF _ _ m] splitlines_from_subset [of _ "[]" "strip f"]
        by (fastforce simp: no_cr_def splitlines_def)
      moreover have "meta = m" "body = strip b"
        using assms sp fb m by (auto simp: parse_definition_def Let_def split: if_splits)
      ultimately show ?thesis using f by simp
    qed
  qed
  then show "no_cr meta" "13 \<notin> set body" by simp_all
qed

lemma no_cr_get: "no_cr meta \<Longrightarrow> 13 \<notin> set (meta_get meta k)"
  by (auto simp: no_cr_def meta_get_def dict_get_def split: option.splits)

lemma lit_no_cr: "CHR 0x0D \<notin> set s \<Longrightarrow> 13 \<notin> set (lit s)"
proof
  assume "CHR 0x0D \<notin> set s" "13 \<in> set (lit s)"
  then obtain c where "c \<in> set s" "of_char c = (13 :: int)" by (auto simp: lit_def)
  moreover have "(13 :: int) = of_char (CHR 0x0D)" by simp
  ultimately show False using \<open>CHR 0x0D \<notin> set s\<close> by (metis of_char_eq_iff)
qed

lemma join_no_cr: "13 \<notin> set sep \<Longrightarrow> \<forall>x \<in> set xs. 13 \<notin> set x \<Longrightarrow> 13 \<notin> set (join sep xs)"
  by (induction sep xs rule: join.induct) auto

lemma rendered_no_cr:
  assumes "parse_definition stem raw = (meta, body, problems)"
  shows "universal_newlines (render_codex meta body) = render_codex meta body"
    "universal_newlines (render_claude meta body) = render_claude meta body"
proof -
  note p = parse_definition_no_cr [OF assms]
  have slug: "13 \<notin> set (map (\<lambda>c. if c = 45 then 95 else c) (meta_get meta ''slug''))"
    using no_cr_get [OF p(1), of "''slug''"] by auto
  show "universal_newlines (render_codex meta body) = render_codex meta body"
    using slug p(2) no_cr_get [OF p(1)]
    by (intro universal_newlines_id) (simp add: render_codex_def in_quotes_def lit_no_cr)
  have "13 \<notin> set (join (lit '', '') (claude_tools meta))"
    by (rule join_no_cr) (auto simp: claude_tools_def lit_no_cr)
  then show "universal_newlines (render_claude meta body) = render_claude meta body"
    using p(2) no_cr_get [OF p(1)]
    by (intro universal_newlines_id) (simp add: render_claude_def lit_no_cr)
qed

subsection \<open>What a check finds\<close>

definition reads :: "(pystr, pystr) pydict option \<Rightarrow> pystr \<Rightarrow> pystr option" where
  "reads dir slug = (case dir of None \<Rightarrow> None | Some d \<Rightarrow> map_option universal_newlines (map_of d slug))"

lemma check_target_check:
  "check_target False missing stale reg slug expected dir =
     ((if reads dir slug = Some expected then [] else if reads dir slug = None then [missing slug] else [stale slug], []), dir)"
  by (simp add: check_target_def reads_def Let_def)

lemma check_target_write:
  assumes "universal_newlines expected = expected"
  shows "\<exists>cs dir'. check_target True missing stale reg slug expected dir = (([], cs), dir') \<and>
    reads dir' slug = Some expected \<and> (\<forall>s. s \<noteq> slug \<longrightarrow> reads dir' s = reads dir s)"
proof (cases "reads dir slug = Some expected")
  case True
  then show ?thesis by (simp add: check_target_def reads_def Let_def)
next
  case False
  then show ?thesis
    using assms by (auto simp: check_target_def reads_def Let_def update_conv' split: option.splits)
qed

definition source_ok :: "pystr \<times> pystr \<Rightarrow> bool" where
  "source_ok s \<longleftrightarrow> snd (snd (parse_definition (fst s) (snd s))) = []"

definition codex_text :: "pystr \<times> pystr \<Rightarrow> pystr" where
  "codex_text s = (let (meta, body, issues) = parse_definition (fst s) (snd s) in render_codex meta body)"

definition claude_text :: "pystr \<times> pystr \<Rightarrow> pystr" where
  "claude_text s = (let (meta, body, issues) = parse_definition (fst s) (snd s) in render_claude meta body)"

definition in_step :: "repo \<Rightarrow> pystr \<times> pystr \<Rightarrow> bool" where
  "in_step rp s \<longleftrightarrow> reads (rp_codex rp) (fst s) = Some (codex_text s) \<and> reads (rp_claude rp) (fst s) = Some (claude_text s)"

definition source_problems :: "(pystr \<times> pystr) list \<Rightarrow> parity_problem list" where
  "source_problems srcs =
     concat (map (\<lambda>s. map (Definition_problem (fst s)) (snd (snd (parse_definition (fst s) (snd s))))) srcs)"

lemma valid_slug:
  assumes "parse_definition stem raw = (meta, body, [])"
  shows "meta_get meta ''slug'' = stem"
  using assms
  by (auto simp: parse_definition_def Let_def value_problems_def split: option.splits prod.splits if_splits)

lemma check_sources_ok:
  assumes "source_ok s"
  shows "check_sources write (s # rest) rp =
     (let (r1, codex) = check_target write Codex_missing Codex_stale Regenerated_codex (fst s) (codex_text s) (rp_codex rp);
          (r2, claude) = check_target write Claude_missing Claude_stale Regenerated_claude (fst s) (claude_text s) (rp_claude rp);
          (r, slugs, rp) = check_sources write rest (rp\<lparr>rp_codex := codex, rp_claude := claude\<rparr>) in
      (join_report r1 (join_report r2 r), fst s # slugs, rp))"
proof -
  obtain stem raw meta body issues where s: "s = (stem, raw)" "parse_definition stem raw = (meta, body, issues)"
    by (metis prod_cases3 surj_pair)
  then show ?thesis
    using assms valid_slug [of stem raw meta body] by (simp add: source_ok_def codex_text_def claude_text_def)
qed

lemma check_sources_bad:
  assumes "\<not> source_ok s"
  shows "check_sources write (s # rest) rp =
     (let (r, slugs, rp) = check_sources write rest rp in
      (join_report (map (Definition_problem (fst s)) (snd (snd (parse_definition (fst s) (snd s)))), []) r, slugs, rp))"
proof -
  obtain stem raw meta body issues where s: "s = (stem, raw)" "parse_definition stem raw = (meta, body, issues)"
    by (metis prod_cases3 surj_pair)
  then show ?thesis using assms by (simp add: source_ok_def)
qed

lemma check_sources_check:
  "snd (snd (check_sources False srcs rp)) = rp \<and> fst (snd (check_sources False srcs rp)) = map fst (filter source_ok srcs) \<and>
   snd (fst (check_sources False srcs rp)) = [] \<and>
   (fst (fst (check_sources False srcs rp)) = [] \<longleftrightarrow> (\<forall>s \<in> set srcs. source_ok s \<and> in_step rp s)) \<and>
   ((\<forall>s \<in> set srcs. source_ok s \<longrightarrow> in_step rp s) \<longrightarrow> fst (fst (check_sources False srcs rp)) = source_problems srcs)"
proof (induction srcs)
  case Nil
  then show ?case by (simp add: source_problems_def)
next
  case (Cons s srcs)
  obtain r slugs rp' where c: "check_sources False srcs rp = (r, slugs, rp')" by (metis prod_cases3)
  have u: "rp\<lparr>rp_codex := rp_codex rp, rp_claude := rp_claude rp\<rparr> = rp" by simp
  show ?case
  proof (cases "source_ok s")
    case True
    then show ?thesis
      using Cons.IH c
      by (auto simp: check_sources_ok check_target_check u join_report_def in_step_def source_problems_def
        source_ok_def split: if_splits)
  next
    case False
    then show ?thesis
      using Cons.IH c by (auto simp: check_sources_bad join_report_def source_problems_def source_ok_def)
  qed
qed

lemma expected_texts:
  "universal_newlines (codex_text s) = codex_text s" "universal_newlines (claude_text s) = claude_text s"
  using rendered_no_cr [of "fst s" "snd s"]
  by (cases "parse_definition (fst s) (snd s)"; simp add: codex_text_def claude_text_def)+

definition same_rest :: "repo \<Rightarrow> repo \<Rightarrow> bool" where
  "same_rest rp rp' \<longleftrightarrow> rp_agents rp' = rp_agents rp \<and> rp_skills rp' = rp_skills rp \<and> rp_links rp' = rp_links rp \<and>
     rp_instructions rp' = rp_instructions rp \<and> rp_entrypoint rp' = rp_entrypoint rp"

lemma check_sources_write:
  assumes "distinct (map fst srcs)"
  shows "\<exists>cs rp'. check_sources True srcs rp = ((source_problems srcs, cs), map fst (filter source_ok srcs), rp') \<and>
    (\<forall>s \<in> set srcs. source_ok s \<longrightarrow> in_step rp' s) \<and>
    (\<forall>t. t \<notin> fst ` set srcs \<longrightarrow> reads (rp_codex rp') t = reads (rp_codex rp) t \<and> reads (rp_claude rp') t = reads (rp_claude rp) t) \<and>
    same_rest rp rp'"
  using assms
proof (induction srcs arbitrary: rp)
  case Nil
  then show ?case by (simp add: source_problems_def same_rest_def)
next
  case (Cons s srcs)
  have new: "fst s \<notin> fst ` set srcs" "distinct (map fst srcs)" using Cons.prems by auto
  show ?case
  proof (cases "source_ok s")
    case False
    from Cons.IH [OF new(2), of rp] obtain cs rp' where
      c: "check_sources True srcs rp = ((source_problems srcs, cs), map fst (filter source_ok srcs), rp')"
      and i: "\<forall>s \<in> set srcs. source_ok s \<longrightarrow> in_step rp' s"
      and o: "\<forall>t. t \<notin> fst ` set srcs \<longrightarrow> reads (rp_codex rp') t = reads (rp_codex rp) t \<and> reads (rp_claude rp') t = reads (rp_claude rp) t"
      and u: "same_rest rp rp'"
      by (elim exE conjE)
    have "check_sources True (s # srcs) rp = ((source_problems (s # srcs), cs), map fst (filter source_ok (s # srcs)), rp')"
      using False c by (simp add: check_sources_bad join_report_def source_problems_def)
    with i o u False show ?thesis by auto
  next
    case True
    obtain c1 codex where x: "check_target True Codex_missing Codex_stale Regenerated_codex (fst s) (codex_text s) (rp_codex rp) = (([], c1), codex)"
      "reads codex (fst s) = Some (codex_text s)" "\<forall>t. t \<noteq> fst s \<longrightarrow> reads codex t = reads (rp_codex rp) t"
      using check_target_write [OF expected_texts(1)] by blast
    obtain c2 claude where y: "check_target True Claude_missing Claude_stale Regenerated_claude (fst s) (claude_text s) (rp_claude rp) = (([], c2), claude)"
      "reads claude (fst s) = Some (claude_text s)" "\<forall>t. t \<noteq> fst s \<longrightarrow> reads claude t = reads (rp_claude rp) t"
      using check_target_write [OF expected_texts(2)] by blast
    let ?rp = "rp\<lparr>rp_codex := codex, rp_claude := claude\<rparr>"
    from Cons.IH [OF new(2), of ?rp] obtain cs rp' where
      c: "check_sources True srcs ?rp = ((source_problems srcs, cs), map fst (filter source_ok srcs), rp')"
      and i: "\<forall>s \<in> set srcs. source_ok s \<longrightarrow> in_step rp' s"
      and o: "\<forall>t. t \<notin> fst ` set srcs \<longrightarrow> reads (rp_codex rp') t = reads codex t \<and> reads (rp_claude rp') t = reads claude t"
      and u: "same_rest ?rp rp'"
      by auto
    have issues: "snd (snd (parse_definition (fst s) (snd s))) = []" using True by (simp add: source_ok_def)
    have "check_sources True (s # srcs) rp =
        ((source_problems (s # srcs), c1 @ c2 @ cs), map fst (filter source_ok (s # srcs)), rp')"
      using True c x(1) y(1) issues by (simp add: check_sources_ok join_report_def source_problems_def)
    moreover have "in_step rp' s" using o new(1) x(2) y(2) by (simp add: in_step_def)
    moreover have "same_rest rp rp'" using u by (simp add: same_rest_def)
    ultimately show ?thesis using i o x(3) y(3) by auto
  qed
qed

definition repo_ok :: "repo \<Rightarrow> bool" where
  "repo_ok rp \<longleftrightarrow>
     (case rp_agents rp of None \<Rightarrow> True | Some srcs \<Rightarrow> distinct (map fst srcs)) \<and>
     (case rp_skills rp of None \<Rightarrow> True | Some names \<Rightarrow> distinct names)"

lemma check_agents_check:
  "snd (check_agents False rp) = rp \<and> snd (fst (check_agents False rp)) = []"
  using check_sources_check [of "the (rp_agents rp)" rp]
  by (cases "rp_agents rp") (simp_all add: check_agents_def join_report_def split_beta)

lemma check_agents_write:
  assumes "repo_ok rp"
  shows "\<exists>ps cs rp'. check_agents True rp = ((ps, cs), rp') \<and> check_agents False rp' = ((ps, []), rp') \<and> same_rest rp rp'"
proof (cases "rp_agents rp")
  case None
  then show ?thesis by (simp add: check_agents_def same_rest_def)
next
  case (Some srcs)
  have "distinct (map fst srcs)" using assms Some by (simp add: repo_ok_def)
  from check_sources_write [OF this, of rp] obtain cs rp' where
    c: "check_sources True srcs rp = ((source_problems srcs, cs), map fst (filter source_ok srcs), rp')"
    and i: "\<forall>s \<in> set srcs. source_ok s \<longrightarrow> in_step rp' s" and r: "same_rest rp rp'"
    by (elim exE conjE)
  have a: "rp_agents rp' = Some srcs" using r Some by (simp add: same_rest_def)
  have "check_sources False srcs rp' = ((source_problems srcs, []), map fst (filter source_ok srcs), rp')"
    using check_sources_check [of srcs rp'] i by (metis prod.collapse)
  then show ?thesis
    using c Some a r by (auto simp: check_agents_def join_report_def)
qed

subsection \<open>Links\<close>

definition link_of :: "(pystr, skill_entry) pydict option \<Rightarrow> pystr \<Rightarrow> skill_entry option" where
  "link_of dir n = (case dir of None \<Rightarrow> None | Some d \<Rightarrow> map_of d n)"

lemma check_skill_check:
  "snd (check_skill False n dir) = dir \<and> snd (fst (check_skill False n dir)) = [] \<and>
   (fst (fst (check_skill False n dir)) = [] \<longleftrightarrow> link_of dir n = Some (Link (skill_target n)))"
  by (auto simp: check_skill_def link_of_def Let_def skill_target_def lit_def split: option.splits skill_entry.splits)

lemma check_skill_cong:
  "link_of dir n = link_of dir' n \<Longrightarrow> fst (check_skill False n dir) = fst (check_skill False n dir')"
  by (cases dir; cases dir') (auto simp: check_skill_def link_of_def Let_def split: option.splits skill_entry.splits)

lemma skill_target_relative: "\<not> prefix (lit ''/'') (skill_target n)"
  by (simp add: skill_target_def lit_def)

lemma link_of_update: "link_of (Some (AList.update n l d)) m = (if m = n then Some l else map_of d m)"
  by (simp add: link_of_def update_conv')

lemma check_skill_write:
  "\<exists>ps cs dir'. check_skill True n dir = ((ps, cs), dir') \<and> fst (check_skill False n dir') = (ps, []) \<and>
     (\<forall>m. m \<noteq> n \<longrightarrow> link_of dir' m = link_of dir m)"
proof -
  let ?links = "case dir of None \<Rightarrow> [] | Some d \<Rightarrow> d"
  let ?new = "Some (AList.update n (Link (skill_target n)) ?links)"
  have old: "map_of ?links m = link_of dir m" for m by (simp add: link_of_def split: option.splits)
  have fixed: "fst (check_skill False n ?new) = ([], [])"
    using check_skill_check [of n ?new] by (simp add: link_of_update prod_eq_iff)
  consider "link_of dir n = None" | "link_of dir n = Some Real_entry"
    | t where "link_of dir n = Some (Link t)" "prefix (lit ''/'') t"
    | t where "link_of dir n = Some (Link t)" "\<not> prefix (lit ''/'') t" "t \<noteq> skill_target n"
    | "link_of dir n = Some (Link (skill_target n))"
    by (cases "link_of dir n"; cases "the (link_of dir n)") auto
  then show ?thesis
  proof cases
    case 1
    then have "check_skill True n dir = (([], [Linked n]), ?new)" by (simp add: check_skill_def Let_def old)
    then show ?thesis using fixed by (simp add: link_of_update old)
  next
    case 2
    then show ?thesis by (simp add: check_skill_def Let_def old)
  next
    case 3
    then show ?thesis by (simp add: check_skill_def Let_def old)
  next
    case 4
    then have "check_skill True n dir = (([], [Relinked n]), ?new)" by (simp add: check_skill_def Let_def old)
    then show ?thesis using fixed by (simp add: link_of_update old)
  next
    case 5
    then show ?thesis using skill_target_relative [of n] by (simp add: check_skill_def Let_def old)
  qed
qed

lemma check_links_check:
  "snd (check_links False ns dir) = dir \<and> snd (fst (check_links False ns dir)) = [] \<and>
   (fst (fst (check_links False ns dir)) = [] \<longleftrightarrow> (\<forall>n \<in> set ns. link_of dir n = Some (Link (skill_target n))))"
proof (induction ns)
  case (Cons n ns)
  then show ?case
    using check_skill_check [of n dir] by (auto simp: join_report_def split: prod.splits)
qed simp

lemma check_links_cong:
  "\<forall>n \<in> set ns. link_of dir n = link_of dir' n \<Longrightarrow> fst (check_links False ns dir) = fst (check_links False ns dir')"
proof (induction ns)
  case (Cons n ns)
  then have "fst (check_skill False n dir) = fst (check_skill False n dir')"
    by (intro check_skill_cong) simp
  with Cons check_skill_check [of n dir] check_skill_check [of n dir'] show ?case
    by (auto simp: split_beta)
qed simp

lemma check_links_write:
  assumes "distinct ns"
  shows "\<exists>ps cs dir'. check_links True ns dir = ((ps, cs), dir') \<and> fst (check_links False ns dir') = (ps, []) \<and>
     (\<forall>m. m \<notin> set ns \<longrightarrow> link_of dir' m = link_of dir m)"
  using assms
proof (induction ns arbitrary: dir)
  case (Cons n ns)
  obtain p1 c1 dir1 where a: "check_skill True n dir = ((p1, c1), dir1)" "fst (check_skill False n dir1) = (p1, [])"
      "\<forall>m. m \<noteq> n \<longrightarrow> link_of dir1 m = link_of dir m"
    using check_skill_write [of n dir] by (elim exE conjE)
  obtain p2 c2 dir2 where b: "check_links True ns dir1 = ((p2, c2), dir2)" "fst (check_links False ns dir2) = (p2, [])"
      "\<forall>m. m \<notin> set ns \<longrightarrow> link_of dir2 m = link_of dir1 m"
  proof -
    have "distinct ns" using Cons.prems by simp
    from Cons.IH [OF this, of dir1] that show ?thesis by (elim exE conjE)
  qed
  have "fst (check_skill False n dir2) = (p1, [])"
    using a(2) b(3) Cons.prems check_skill_cong [of dir2 n dir1] by simp
  then have "fst (check_links False (n # ns) dir2) = (p1 @ p2, [])"
    using b(2) check_skill_check [of n dir2] by (simp add: split_beta join_report_def)
  moreover have "check_links True (n # ns) dir = ((p1 @ p2, c1 @ c2), dir2)"
    using a(1) b(1) by (simp add: join_report_def)
  ultimately show ?case using a(3) b(3) by auto
qed simp

lemma check_skills_check: "snd (check_skills False rp) = rp \<and> snd (fst (check_skills False rp)) = []"
  using check_links_check [of "the (rp_skills rp)" "rp_links rp"]
  by (cases "rp_skills rp") (simp_all add: check_skills_def join_report_def split_beta)

lemma check_skills_write:
  assumes "repo_ok rp"
  shows "\<exists>ps cs rp'. check_skills True rp = ((ps, cs), rp') \<and> check_skills False rp' = ((ps, []), rp') \<and>
    (\<exists>dir. rp' = rp\<lparr>rp_links := dir\<rparr>)"
proof (cases "rp_skills rp")
  case None
  have "rp = rp\<lparr>rp_links := rp_links rp\<rparr>" by simp
  with None show ?thesis by (auto simp: check_skills_def intro: exI [of _ "rp_links rp"])
next
  case (Some shared)
  have "distinct shared" using assms Some by (simp add: repo_ok_def)
  from check_links_write [OF this, of "rp_links rp"] obtain ps cs dir where
    c: "check_links True shared (rp_links rp) = ((ps, cs), dir)" "fst (check_links False shared dir) = (ps, [])"
    by (elim exE conjE)
  have "check_links False shared dir = ((ps, []), dir)"
    using c(2) check_links_check [of shared dir] by (metis prod.collapse)
  with c(1) Some show ?thesis by (auto simp: check_skills_def join_report_def)
qed

lemma check_sources_links:
  "check_sources False srcs (rp\<lparr>rp_links := dir\<rparr>) =
     (fst (check_sources False srcs rp), fst (snd (check_sources False srcs rp)), rp\<lparr>rp_links := dir\<rparr>)"
proof (induction srcs)
  case (Cons s srcs)
  have u: "r\<lparr>rp_codex := rp_codex r, rp_claude := rp_claude r\<rparr> = r" for r :: repo by simp
  have f: "rp_codex (rp\<lparr>rp_links := dir\<rparr>) = rp_codex rp" "rp_claude (rp\<lparr>rp_links := dir\<rparr>) = rp_claude rp" by simp_all
  show ?case
  proof (cases "source_ok s")
    case True
    have v: "rp\<lparr>rp_links := dir, rp_codex := rp_codex rp, rp_claude := rp_claude rp\<rparr> = rp\<lparr>rp_links := dir\<rparr>" by simp
    show ?thesis
      unfolding check_sources_ok [OF True] check_target_check Let_def prod.case f v u Cons.IH
      by (simp add: split_beta)
  next
    case False
    show ?thesis unfolding check_sources_bad [OF False] Cons.IH by (simp add: split_beta)
  qed
qed simp

text \<open>
  C18: Writing repairs what can be repaired: a check after a run with --write changes nothing, and it
  reports exactly the problems the run itself reported; in particular a run with --write that exits
  with 0 is followed by a check that exits with 0.
\<close>

theorem write_reaches_fixpoint:
  assumes "repo_ok rp" "parity_run True rp = ((problems, changes), rp')"
  shows "parity_run False rp' = ((problems, []), rp')"
proof -
  obtain p1 c1 rp1 where a: "check_agents True rp = ((p1, c1), rp1)" "check_agents False rp1 = ((p1, []), rp1)" "same_rest rp rp1"
    using check_agents_write [OF assms(1)] by (elim exE conjE)
  have "repo_ok rp1" using assms(1) a(3) by (simp add: repo_ok_def same_rest_def)
  from check_skills_write [OF this] obtain p2 c2 rp2 dir where
    b: "check_skills True rp1 = ((p2, c2), rp2)" "check_skills False rp2 = ((p2, []), rp2)" "rp2 = rp1\<lparr>rp_links := dir\<rparr>"
    by (elim exE conjE)
  have r: "rp' = rp2" "problems = p1 @ p2 @ check_instructions rp2"
    using assms(2) a(1) b(1) by (auto simp: parity_run_def join_report_def)
  have "check_agents False rp2 = ((p1, []), rp2)"
  proof (cases "rp_agents rp1")
    case None
    with a(2) b(3) show ?thesis by (simp add: check_agents_def)
  next
    case (Some srcs)
    have "check_sources False srcs rp2 = (fst (check_sources False srcs rp1), fst (snd (check_sources False srcs rp1)), rp2)"
      using check_sources_links [of srcs dir rp1] b(3) by simp
    with Some a(2) b(3) show ?thesis by (auto simp: check_agents_def split_beta)
  qed
  then show ?thesis
    using b(2) r by (simp add: parity_run_def join_report_def)
qed

definition sample_definition :: pystr where
  "sample_definition =
     frontmatter_mark @ lit ''slug: reviewer'' @ [10] @ lit ''description: Reviews a change'' @ [10] @
     lit ''access: read-only'' @ [10] @ lit ''web: false'' @ [10] @ lit ''delegation: none'' @ [10] @
     lit ''reasoning-effort: high'' @ [10] @ lit ''codex-model: a'' @ [10] @ lit ''claude-model: b'' @ [10] @
     frontmatter_mark @ lit ''Read the diff.'' @ [10]"

definition sample_repo :: repo where
  "sample_repo =
     \<lparr>rp_agents = Some [(lit ''reviewer'', sample_definition)], rp_codex = None, rp_claude = Some [(lit ''old'', [])],
      rp_skills = Some [lit ''plan''], rp_links = Some [(lit ''plan'', Link (lit ''../plan''))],
      rp_instructions = True, rp_entrypoint = Some (lit ''@AGENTS.md'')\<rparr>"

theorem write_reaches_fixpoint_witness:
  "\<exists>changes rp. parity_run True sample_repo = (([Claude_orphan (lit ''old'')], changes), rp) \<and> length changes = 3 \<and>
     parity_run False rp = (([Claude_orphan (lit ''old'')], []), rp)"
proof -
  have ok: "repo_ok sample_repo" by (simp add: repo_ok_def sample_repo_def)
  have run: "fst (parity_run True sample_repo) =
      ([Claude_orphan (lit ''old'')],
       [Regenerated_codex (lit ''reviewer''), Regenerated_claude (lit ''reviewer''), Relinked (lit ''plan'')])"
    by code_simp
  then have "parity_run True sample_repo = (([Claude_orphan (lit ''old'')],
       [Regenerated_codex (lit ''reviewer''), Regenerated_claude (lit ''reviewer''), Relinked (lit ''plan'')]),
       snd (parity_run True sample_repo))"
    by (metis prod.collapse)
  moreover from write_reaches_fixpoint [OF ok this]
  have "parity_run False (snd (parity_run True sample_repo)) =
      (([Claude_orphan (lit ''old'')], []), snd (parity_run True sample_repo))" .
  ultimately show ?thesis by (intro exI conjI) (assumption | simp)+
qed

text \<open>What the checker stands for: both tools see the same agents, skills and instructions.\<close>

definition only_known :: "(pystr, 'a) pydict option \<Rightarrow> pystr list \<Rightarrow> bool" where
  "only_known dir names \<longleftrightarrow> (case dir of None \<Rightarrow> True | Some d \<Rightarrow> fst ` set d \<subseteq> set names)"

definition in_parity :: "repo \<Rightarrow> bool" where
  "in_parity rp \<longleftrightarrow>
     (\<exists>srcs shared raw. rp_agents rp = Some srcs \<and> rp_skills rp = Some shared \<and> rp_entrypoint rp = Some raw \<and>
        (\<forall>s \<in> set srcs. source_ok s \<and> in_step rp s) \<and>
        only_known (rp_codex rp) (map fst srcs) \<and> only_known (rp_claude rp) (map fst srcs) \<and>
        (\<forall>n \<in> set shared. link_of (rp_links rp) n = Some (Link (skill_target n))) \<and> only_known (rp_links rp) shared \<and>
        rp_instructions rp \<and> (\<exists>l \<in> set (splitlines (universal_newlines raw)). strip l = lit ''@AGENTS.md''))"

lemma orphans_none: "orphans ext dir names = [] \<longleftrightarrow> only_known dir names"
  by (auto simp: orphans_def only_known_def filter_empty_conv split: option.splits)

lemma agents_clean:
  "fst (fst (check_agents False rp)) = [] \<longleftrightarrow>
     (\<exists>srcs. rp_agents rp = Some srcs \<and> (\<forall>s \<in> set srcs. source_ok s \<and> in_step rp s) \<and>
        only_known (rp_codex rp) (map fst srcs) \<and> only_known (rp_claude rp) (map fst srcs))"
proof (cases "rp_agents rp")
  case None
  then show ?thesis by (simp add: check_agents_def)
next
  case (Some srcs)
  note c = check_sources_check [of srcs rp]
  have f: "filter source_ok srcs = srcs" if "\<forall>s \<in> set srcs. source_ok s" using that by (simp add: filter_id_conv)
  show ?thesis
    using Some c f by (auto simp: check_agents_def split_beta join_report_def orphans_none)
qed

lemma skills_clean:
  "fst (fst (check_skills False rp)) = [] \<longleftrightarrow>
     (\<exists>shared. rp_skills rp = Some shared \<and>
        (\<forall>n \<in> set shared. link_of (rp_links rp) n = Some (Link (skill_target n))) \<and> only_known (rp_links rp) shared)"
proof (cases "rp_skills rp")
  case None
  then show ?thesis by (simp add: check_skills_def)
next
  case (Some shared)
  note c = check_links_check [of shared "rp_links rp"]
  show ?thesis
    using Some c by (auto simp: check_skills_def split_beta join_report_def only_known_def filter_empty_conv
      split: option.splits)
qed

text \<open>
  C19: A check without --write exits with 0 exactly when the repository is in parity: every definition
  is valid and rendered for both tools, nothing else is defined for either, every shared skill is
  linked by its relative target and nothing else is there, and the shared instructions are imported.
  It never changes the repository.
\<close>

theorem check_decides_parity:
  "(fst (parity_main False rp) = 0 \<longleftrightarrow> in_parity rp) \<and> snd (parity_main False rp) = rp"
proof -
  note a = check_agents_check [of rp] and s = check_skills_check [of rp]
  have i: "check_instructions rp = [] \<longleftrightarrow> rp_instructions rp \<and>
      (\<exists>raw. rp_entrypoint rp = Some raw \<and> (\<exists>l \<in> set (splitlines (universal_newlines raw)). strip l = lit ''@AGENTS.md''))"
    by (auto simp: check_instructions_def list_ex_iff split: option.splits)
  have "fst (parity_main False rp) = 0 \<longleftrightarrow>
      fst (fst (check_agents False rp)) = [] \<and> fst (fst (check_skills False rp)) = [] \<and> check_instructions rp = []"
    using a s by (simp add: parity_main_def parity_run_def split_beta join_report_def)
  also have "\<dots> \<longleftrightarrow> in_parity rp"
    unfolding agents_clean skills_clean i in_parity_def by blast
  finally show ?thesis using a s by (simp add: parity_main_def parity_run_def split_beta)
qed

end
