(* ===== verification/Adr.thy ===== *)
theory Adr
  imports Py_Prelude "HOL-Library.List_Lexorder"
begin

text \<open>
  .agents/skills/write-project-docs/scripts/validate_adrs.py: the checks every architecture decision
  record passes. A file is its name and its text as \<open>read_text\<close> gives it; a problem is a constructor
  carrying the values the message prints. A Python set of strings is a list without repetition; the
  order in which Python walks it is not fixed and only orders the messages.
\<close>

subsection \<open>Constants\<close>

definition adr_sections :: "pystr list" where
  "adr_sections = map lit [''Context'', ''Decision'', ''Consequences'', ''Alternatives considered'', ''Validation'']"

definition f_status :: pystr where "f_status = [29366, 24907]"
definition f_date :: pystr where "f_date = [26085, 20184]"
definition f_decider :: pystr where "f_decider = [27770, 23450, 32773]"
definition f_supersedes :: pystr where "f_supersedes = [32622, 25563, 12377, 12427] @ lit ''ADR''"
definition f_superseded_by :: pystr where "f_superseded_by = [32622, 25563, 12373, 12428, 12383] @ lit ''ADR''"

definition adr_fields :: "pystr list" where
  "adr_fields = [f_status, f_date, f_decider, f_supersedes, f_superseded_by]"

definition adr_statuses :: "pystr list" where
  "adr_statuses = map lit [''Proposed'', ''Accepted'', ''Rejected'', ''Superseded'', ''Deprecated'']"

definition adr_none :: pystr where "adr_none = [12394, 12375]"

definition subsection_owner :: pystr where "subsection_owner = lit ''Decision''"

lemmas adr_constants = adr_sections_def f_status_def f_date_def f_decider_def f_supersedes_def
  f_superseded_by_def adr_fields_def adr_statuses_def adr_none_def subsection_owner_def

declare adr_constants [py_eval]

datatype adr_problem =
    Bad_title pystr
  | Title_number pystr pystr pystr
  | Field_twice pystr int pystr
  | Bad_fields pystr "pystr list"
  | Bad_sections pystr "pystr list"
  | Misplaced_subsection pystr int
  | Bad_status pystr pystr
  | Bad_date pystr pystr
  | Empty_field pystr pystr
  | Both_fields pystr "pystr list"
  | Names_missing pystr pystr pystr
  | Not_named_back pystr pystr pystr pystr
  | Not_superseded pystr pystr "pystr option"
  | Index_lacks pystr
  | Index_extra pystr
  | Index_differs pystr pystr "pystr option"

subsection \<open>Patterns\<close>

definition is_name_char :: "int \<Rightarrow> bool" where
  "is_name_char c \<longleftrightarrow> (97 \<le> c \<and> c \<le> 122) \<or> (48 \<le> c \<and> c \<le> 57) \<or> c = 45"

text \<open>The glob \<open>*.md\<close> and \<open>FILE_NAME\<close>; a name that ends in .md cannot end in a line feed.\<close>

definition is_adr_name :: "pystr \<Rightarrow> bool" where
  "is_adr_name name \<longleftrightarrow>
     suffix (lit ''.md'') name \<and>
     (case four_digits name of
        None \<Rightarrow> False
      | Some (_, r) \<Rightarrow>
          (case strip_prefix (lit ''-'') r of
             None \<Rightarrow> False
           | Some r \<Rightarrow> takeWhile is_name_char r \<noteq> [] \<and> dropWhile is_name_char r = lit ''.md''))"

text \<open>\<open>TITLE\<close> on a line: the number it states.\<close>

definition title_number :: "pystr \<Rightarrow> pystr option" where
  "title_number l =
     do {
       r \<leftarrow> strip_prefix (lit ''# ADR-'') l;
       (ds, r) \<leftarrow> four_digits r;
       r \<leftarrow> strip_prefix (lit '': '') r;
       if r = [] then None else Some ds
     }"

text \<open>\<open>HEADER_FIELD\<close> on a line: the name up to the first colon and the stripped value.\<close>

definition header_field :: "pystr \<Rightarrow> (pystr \<times> pystr) option" where
  "header_field l =
     (case strip_prefix (lit ''- '') l of
        None \<Rightarrow> None
      | Some r \<Rightarrow>
          (case dropWhile (\<lambda>c. c \<noteq> 58) r of
             [] \<Rightarrow> None
           | _ # v \<Rightarrow>
               if takeWhile (\<lambda>c. c \<noteq> 58) r = [] then None
               else Some (takeWhile (\<lambda>c. c \<noteq> 58) r, strip (if v \<noteq> [] \<and> hd v = 32 then tl v else v))))"

definition starts_section :: "pystr \<Rightarrow> bool" where
  "starts_section l \<longleftrightarrow> prefix (lit ''## '') l"

definition section_title :: "pystr \<Rightarrow> pystr option" where
  "section_title l =
     (case strip_prefix (lit ''## '') l of None \<Rightarrow> None | Some r \<Rightarrow> if r = [] then None else Some r)"

definition date_shape :: "pystr \<Rightarrow> bool" where
  "date_shape s \<longleftrightarrow>
     (case four_digits s of
        None \<Rightarrow> False
      | Some (_, r) \<Rightarrow>
          (case strip_prefix (lit ''-'') r of
             None \<Rightarrow> False
           | Some r \<Rightarrow> length r = 5 \<and> list_all is_digit (take 2 r) \<and> r ! 2 = 45 \<and> list_all is_digit (drop 3 r)))"

text \<open>\<open>ADR_REFERENCE.findall\<close>\<close>

fun find_adr_numbers :: "pystr \<Rightarrow> pystr list" where
  "find_adr_numbers [] = []"
| "find_adr_numbers (c # cs) =
     (case Option.bind (strip_prefix (lit ''ADR-'') (c # cs)) four_digits of
        Some (ds, _) \<Rightarrow> ds # find_adr_numbers cs
      | None \<Rightarrow> find_adr_numbers cs)"

declare is_name_char_def [py_eval] is_adr_name_def [py_eval] title_number_def [py_eval]
  header_field_def [py_eval] starts_section_def [py_eval] section_title_def [py_eval] date_shape_def [py_eval]

subsection \<open>One record\<close>

record header_scan =
  hs_fields :: "(pystr, pystr) pydict"
  hs_order :: "pystr list"
  hs_problems :: "adr_problem list"

definition title_problems :: "pystr \<Rightarrow> pystr list \<Rightarrow> adr_problem list" where
  "title_problems name lines =
     (case lines of
        [] \<Rightarrow> [Bad_title name]
      | l # _ \<Rightarrow>
          (case title_number l of
             None \<Rightarrow> [Bad_title name]
           | Some ds \<Rightarrow> if ds \<noteq> take 4 name then [Title_number name ds (take 4 name)] else []))"

definition add_field :: "pystr \<Rightarrow> int \<Rightarrow> pystr \<times> pystr \<Rightarrow> header_scan \<Rightarrow> header_scan" where
  "add_field name n kv st =
     st\<lparr>hs_fields := AList.update (fst kv) (snd kv) (hs_fields st),
        hs_order := hs_order st @ [fst kv],
        hs_problems := hs_problems st @
          (if map_of (hs_fields st) (fst kv) \<noteq> None then [Field_twice name n (fst kv)] else [])\<rparr>"

fun scan_header :: "pystr \<Rightarrow> int \<Rightarrow> pystr list \<Rightarrow> header_scan \<Rightarrow> header_scan" where
  "scan_header name n [] st = st"
| "scan_header name n (l # ls) st =
     (if starts_section l then st
      else scan_header name (n + 1) ls
             (case header_field l of None \<Rightarrow> st | Some kv \<Rightarrow> add_field name n kv st))"

text \<open>No line holds a line feed, so \<open>SECTION.findall\<close> on the joined lines looks at one line at a time.\<close>

definition section_titles :: "pystr list \<Rightarrow> pystr list" where
  "section_titles lines = List.map_filter section_title lines"

fun subsection_problems :: "pystr \<Rightarrow> int \<Rightarrow> pystr option \<Rightarrow> pystr list \<Rightarrow> adr_problem list" where
  "subsection_problems name n sec [] = []"
| "subsection_problems name n sec (l # ls) =
     (if starts_section l then subsection_problems name (n + 1) (Some (strip (drop 3 l))) ls
      else (if prefix (lit ''### '') l \<and> sec \<noteq> Some subsection_owner
            then [Misplaced_subsection name n] else []) @ subsection_problems name (n + 1) sec ls)"

definition empty_scan :: header_scan where
  "empty_scan = \<lparr>hs_fields = [], hs_order = [], hs_problems = []\<rparr>"

definition parse_adr :: "pystr \<Rightarrow> pystr \<Rightarrow> (pystr, pystr) pydict \<times> pystr list \<times> adr_problem list" where
  "parse_adr name s =
     (let lines = splitlines s; h = scan_header name 1 lines empty_scan; titles = section_titles lines in
      (hs_fields h, titles,
       title_problems name lines @ hs_problems h
       @ (if hs_order h \<noteq> adr_fields then [Bad_fields name (hs_order h)] else [])
       @ (if titles \<noteq> adr_sections then [Bad_sections name titles] else [])
       @ subsection_problems name 1 None lines))"

definition check_values :: "pystr \<Rightarrow> (pystr, pystr) pydict \<Rightarrow> adr_problem list" where
  "check_values name d =
     (let st = dict_get d f_status []; dt = dict_get d f_date [] in
      (if st \<notin> set adr_statuses then [Bad_status name st] else [])
      @ (if \<not> date_shape dt then [Bad_date name dt] else [])
      @ concat (map (\<lambda>f. if dict_get d f [] = [] then [Empty_field name f] else []) (drop 2 adr_fields)))"

subsection \<open>All records together\<close>

type_synonym headers = "(pystr, (pystr, pystr) pydict) pydict"

definition referenced :: "pystr \<Rightarrow> pystr list" where
  "referenced v = (if v = adr_none then [] else remdups (find_adr_numbers v))"

text \<open>The numbers a field of a header names, and the status of a header.\<close>

definition adr_names :: "pystr \<Rightarrow> (pystr, pystr) pydict \<Rightarrow> pystr list" where
  "adr_names f d = referenced (dict_get d f adr_none)"

definition replaced_problems :: "headers \<Rightarrow> pystr \<Rightarrow> pystr \<Rightarrow> adr_problem list" where
  "replaced_problems hs n other =
     (case map_of hs other of
        None \<Rightarrow> [Names_missing n f_supersedes other]
      | Some d \<Rightarrow>
          if n \<notin> set (adr_names f_superseded_by d) then [Not_named_back n f_supersedes other f_superseded_by]
          else if map_of d f_status \<noteq> Some (lit ''Superseded'') then [Not_superseded other n (map_of d f_status)]
          else [])"

definition replaced_by_problems :: "headers \<Rightarrow> pystr \<Rightarrow> pystr \<Rightarrow> adr_problem list" where
  "replaced_by_problems hs n other =
     (case map_of hs other of
        None \<Rightarrow> [Names_missing n f_superseded_by other]
      | Some d \<Rightarrow>
          if n \<notin> set (adr_names f_supersedes d) then [Not_named_back n f_superseded_by other f_supersedes]
          else [])"

definition supersession_of :: "headers \<Rightarrow> pystr \<times> (pystr, pystr) pydict \<Rightarrow> adr_problem list" where
  "supersession_of hs e =
     (let n = fst e; replaced = adr_names f_supersedes (snd e); by = adr_names f_superseded_by (snd e);
          both = sort (filter (\<lambda>x. x \<in> set by) replaced) in
      (if both \<noteq> [] then [Both_fields n both] else [])
      @ concat (map (replaced_problems hs n) replaced)
      @ concat (map (replaced_by_problems hs n) by))"

definition check_supersession :: "headers \<Rightarrow> adr_problem list" where
  "check_supersession hs = concat (map (supersession_of hs) (sort_key fst hs))"

text \<open>A row of the index table at the start of a line: what it lists and the text after the match.\<close>

definition is_letter :: "int \<Rightarrow> bool" where
  "is_letter c \<longleftrightarrow> (65 \<le> c \<and> c \<le> 90) \<or> (97 \<le> c \<and> c \<le> 122)"

definition index_row :: "pystr \<Rightarrow> ((pystr \<times> pystr) \<times> pystr) option" where
  "index_row s =
     do {
       r \<leftarrow> strip_prefix (lit ''| ['') s;
       (ds, r) \<leftarrow> four_digits r;
       r \<leftarrow> strip_prefix (lit '']('') r;
       (if takeWhile (\<lambda>c. c \<noteq> 41) r = [] then None
        else do {
          r \<leftarrow> strip_prefix (lit '') | '') (dropWhile (\<lambda>c. c \<noteq> 41) r);
          (if takeWhile is_letter r = [] then None
           else do {
             rest \<leftarrow> strip_prefix (lit '' |'') (dropWhile is_letter r);
             Some ((ds, takeWhile is_letter r), rest)
           })
        })
     }"

lemma index_row_shorter: "index_row s = Some (p, rest) \<Longrightarrow> length rest < length s"
proof -
  assume "index_row s = Some (p, rest)"
  then obtain r where "s = lit ''| ['' @ r" "\<exists>ds q. four_digits r = Some (ds, q) \<and>
      (\<exists>u. q = lit ''](''  @ u \<and> (\<exists>v. dropWhile (\<lambda>c. c \<noteq> 41) u = lit '') | '' @ v \<and>
        dropWhile is_letter v = lit '' |'' @ rest))"
    by (auto simp: index_row_def bind_eq_Some_conv split: if_splits)
  then obtain ds q u v where *: "s = lit ''| ['' @ r" "four_digits r = Some (ds, q)" "q = lit ''](''  @ u"
      "dropWhile (\<lambda>c. c \<noteq> 41) u = lit '') | '' @ v" "dropWhile is_letter v = lit '' |'' @ rest"
    by (elim exE conjE)
  have "length (dropWhile is_letter v) \<le> length v" "length (dropWhile (\<lambda>c. c \<noteq> 41) u) \<le> length u"
    by (rule length_dropWhile_le)+
  with * show ?thesis
    by (auto simp: four_digits_Some)
qed

text \<open>\<open>re.findall\<close> over the whole text; the flag tells that the position starts a line.\<close>

function find_rows :: "bool \<Rightarrow> pystr \<Rightarrow> (pystr \<times> pystr) list" where
  "find_rows start [] = []"
| "find_rows start (c # cs) =
     (case (if start then index_row (c # cs) else None) of
        Some (p, rest) \<Rightarrow> p # find_rows False rest
      | None \<Rightarrow> find_rows (c = 10) cs)"
  by pat_completeness auto

termination
  by (relation "measure (\<lambda>(_, s). length s)") (auto dest: index_row_shorter split: if_splits)

definition index_rows :: "pystr \<Rightarrow> (pystr, pystr) pydict" where
  "index_rows s = dict_of (find_rows True s)"

definition index_problems :: "headers \<Rightarrow> (pystr, pystr) pydict \<Rightarrow> pystr \<Rightarrow> adr_problem list" where
  "index_problems hs rows n =
     (case map_of rows n of
        None \<Rightarrow> [Index_lacks n]
      | Some st \<Rightarrow>
          (case map_of hs n of
             None \<Rightarrow> [Index_extra n]
           | Some d \<Rightarrow> if Some st \<noteq> map_of d f_status then [Index_differs n st (map_of d f_status)] else []))"

definition check_index :: "pystr \<Rightarrow> headers \<Rightarrow> adr_problem list" where
  "check_index s hs =
     (let rows = index_rows s in
      concat (map (index_problems hs rows) (sort (remdups (map fst hs @ map fst rows)))))"

subsection \<open>The command\<close>

text \<open>
  A directory path is the list of its components, innermost first; \<open>tree\<close> gives the entries of the
  docs/adr directory below a path, None when there is none.
\<close>

fun adr_root :: "(pystr list \<Rightarrow> (pystr, pystr) pydict option) \<Rightarrow> pystr list \<Rightarrow> (pystr, pystr) pydict option" where
  "adr_root tree [] = tree []"
| "adr_root tree (c # p) = (case tree (c # p) of Some d \<Rightarrow> Some d | None \<Rightarrow> adr_root tree p)"

datatype adr_output = No_adr_directory | No_adr | Adr_failed "adr_problem list" int | Adr_ok int

datatype adr_crash = Index_not_found

definition adr_paths :: "(pystr, pystr) pydict \<Rightarrow> (pystr \<times> pystr) list" where
  "adr_paths d = sort_key fst (filter (\<lambda>e. is_adr_name (fst e)) d)"

definition adr_headers :: "(pystr, pystr) pydict \<Rightarrow> headers" where
  "adr_headers d = dict_of (map (\<lambda>(name, s). (take 4 name, fst (parse_adr name s))) (adr_paths d))"

definition file_problems :: "pystr \<times> pystr \<Rightarrow> adr_problem list" where
  "file_problems = (\<lambda>(name, s). case parse_adr name s of (fs, _, ps) \<Rightarrow> ps @ check_values name fs)"

definition index_name :: pystr where
  "index_name = lit ''README.md''"

definition validate_adrs :: "(pystr, pystr) pydict \<Rightarrow> adr_crash + adr_problem list" where
  "validate_adrs d =
     (case map_of d index_name of
        None \<Rightarrow> Inl Index_not_found
      | Some s \<Rightarrow> Inr (concat (map file_problems (adr_paths d)) @ check_supersession (adr_headers d)
                       @ check_index s (adr_headers d)))"

definition adr_main :: "(pystr list \<Rightarrow> (pystr, pystr) pydict option) \<Rightarrow> pystr list \<Rightarrow>
    adr_crash + adr_output \<times> int" where
  "adr_main tree cwd =
     (case adr_root tree cwd of
        None \<Rightarrow> Inr (No_adr_directory, 1)
      | Some d \<Rightarrow>
          (let paths = adr_paths d in
           if paths = [] then Inr (No_adr, 1)
           else and_then (validate_adrs d) (\<lambda>ps.
             if ps \<noteq> [] then Inr (Adr_failed ps (int (length paths)), 1)
             else Inr (Adr_ok (int (length paths)), 0))))"


subsection \<open>What a correct record is\<close>

definition header_items :: "pystr list \<Rightarrow> (pystr \<times> pystr) list" where
  "header_items ls = List.map_filter header_field (takeWhile (\<lambda>l. \<not> starts_section l) ls)"

text \<open>Every \<open>###\<close> line comes after a Decision heading with no other section heading in between.\<close>

definition in_decision :: "pystr list \<Rightarrow> bool" where
  "in_decision pre \<longleftrightarrow>
     (\<exists>a h b. pre = a @ h # b \<and> starts_section h \<and> strip (drop 3 h) = subsection_owner \<and>
        (\<forall>x \<in> set b. \<not> starts_section x))"

definition adr_shape :: "pystr \<Rightarrow> pystr list \<Rightarrow> bool" where
  "adr_shape name ls \<longleftrightarrow>
     (\<exists>t rest. t \<noteq> [] \<and> ls = (lit ''# ADR-'' @ take 4 name @ lit '': '' @ t) # rest) \<and>
     map fst (header_items ls) = adr_fields \<and>
     section_titles ls = adr_sections \<and>
     (\<forall>pre l post. ls = pre @ l # post \<longrightarrow> prefix (lit ''### '') l \<longrightarrow> in_decision pre)"

definition adr_values :: "pystr list \<Rightarrow> bool" where
  "adr_values ls \<longleftrightarrow>
     (\<exists>st \<in> set adr_statuses. map_of (header_items ls) f_status = Some st) \<and>
     (\<exists>y m d. map_of (header_items ls) f_date = Some (y @ lit ''-'' @ m @ lit ''-'' @ d) \<and>
        length y = 4 \<and> length m = 2 \<and> length d = 2 \<and> list_all is_digit (y @ m @ d)) \<and>
     (\<forall>f \<in> {f_decider, f_supersedes, f_superseded_by}. \<exists>v. map_of (header_items ls) f = Some v \<and> v \<noteq> [])"

definition supersedes :: "headers \<Rightarrow> pystr \<Rightarrow> pystr \<Rightarrow> bool" where
  "supersedes hs a b \<longleftrightarrow> (\<exists>d. map_of hs a = Some d \<and> b \<in> set (adr_names f_supersedes d))"

definition superseded_by :: "headers \<Rightarrow> pystr \<Rightarrow> pystr \<Rightarrow> bool" where
  "superseded_by hs a b \<longleftrightarrow> (\<exists>d. map_of hs a = Some d \<and> b \<in> set (adr_names f_superseded_by d))"

text \<open>A supersession stands on both sides, the replaced record says so, and none goes both ways.\<close>

definition supersession_paired :: "headers \<Rightarrow> bool" where
  "supersession_paired hs \<longleftrightarrow>
     (\<forall>a b. supersedes hs a b \<longleftrightarrow> superseded_by hs b a) \<and>
     (\<forall>a b. supersedes hs a b \<longrightarrow> Option.bind (map_of hs b) (\<lambda>d. map_of d f_status) = Some (lit ''Superseded'')) \<and>
     (\<forall>a b. \<not> (supersedes hs a b \<and> superseded_by hs a b))"

definition index_agrees :: "(pystr, pystr) pydict \<Rightarrow> headers \<Rightarrow> bool" where
  "index_agrees rows hs \<longleftrightarrow>
     (\<forall>n. case map_of hs n of
            None \<Rightarrow> map_of rows n = None
          | Some d \<Rightarrow> map_of rows n \<noteq> None \<and> map_of rows n = map_of d f_status)"

subsection \<open>The checks decide it\<close>

lemma scan_header_items:
  "hs_order (scan_header name n ls st) = hs_order st @ map fst (header_items ls)"
  "hs_fields (scan_header name n ls st) = fold (\<lambda>(k, v). AList.update k v) (header_items ls) (hs_fields st)"
  by (induction name n ls st rule: scan_header.induct)
    (auto simp: header_items_def map_filter_Cons add_field_def List.map_filter_def split: option.splits)

lemma scan_header_problems:
  "hs_problems (scan_header name n ls st) = [] \<longleftrightarrow>
     hs_problems st = [] \<and> distinct (map fst (header_items ls)) \<and>
     (\<forall>k \<in> fst ` set (header_items ls). map_of (hs_fields st) k = None)"
proof (induction name n ls st rule: scan_header.induct)
  case (1 name n st)
  then show ?case by (simp add: header_items_def List.map_filter_def)
next
  case (2 name n l ls st)
  show ?case
  proof (cases "starts_section l")
    case True
    then show ?thesis by (simp add: header_items_def List.map_filter_def)
  next
    case False
    then have items: "header_items (l # ls) = (case header_field l of None \<Rightarrow> header_items ls | Some kv \<Rightarrow> kv # header_items ls)"
      by (simp add: header_items_def map_filter_Cons split: option.split)
    show ?thesis
      using 2 [OF False] False items
      by (auto simp: add_field_def update_conv' split: option.splits if_splits)
  qed
qed

lemma distinct_fields: "distinct adr_fields"
  by code_simp

lemma in_decision_Cons:
  "in_decision (x # pre) \<longleftrightarrow> in_decision pre \<or>
     starts_section x \<and> strip (drop 3 x) = subsection_owner \<and> (\<forall>y \<in> set pre. \<not> starts_section y)"
  by (auto simp: in_decision_def Cons_eq_append_conv)

lemma not_section: "prefix (lit ''### '') l \<Longrightarrow> \<not> starts_section l"
  by (auto simp: starts_section_def prefix_def lit_def)

lemma all_splits_Cons:
  "(\<forall>pre l post. x # ls = pre @ l # post \<longrightarrow> P pre l) \<longleftrightarrow>
     P [] x \<and> (\<forall>pre l post. ls = pre @ l # post \<longrightarrow> P (x # pre) l)"
  by (auto simp: Cons_eq_append_conv)

lemma subsection_problems_Nil:
  "subsection_problems name n sec ls = [] \<longleftrightarrow>
     (\<forall>pre l post. ls = pre @ l # post \<longrightarrow> prefix (lit ''### '') l \<longrightarrow>
        in_decision pre \<or> (sec = Some subsection_owner \<and> (\<forall>x \<in> set pre. \<not> starts_section x)))"
proof (induction name n sec ls rule: subsection_problems.induct)
  case (1 name n sec)
  then show ?case by simp
next
  case (2 name n sec l ls)
  have none: "\<not> in_decision []" by (simp add: in_decision_def)
  show ?case
    unfolding all_splits_Cons [where P = "\<lambda>pre l. prefix (lit ''### '') l \<longrightarrow>
        in_decision pre \<or> (sec = Some subsection_owner \<and> (\<forall>x \<in> set pre. \<not> starts_section x))"]
    by (cases "starts_section l") (auto simp: 2 none in_decision_Cons dest: not_section)
qed

lemma title_problems_Nil:
  assumes "is_adr_name name"
  shows "title_problems name ls = [] \<longleftrightarrow>
     (\<exists>t rest. t \<noteq> [] \<and> ls = (lit ''# ADR-'' @ take 4 name @ lit '': '' @ t) # rest)"
proof -
  obtain k where k: "k = take 4 name" "length k = 4" "list_all is_digit k"
    using assms by (auto simp: is_adr_name_def four_digits_def split: option.splits if_splits)
  have "title_number l = Some k \<longleftrightarrow> (\<exists>t. t \<noteq> [] \<and> l = lit ''# ADR-'' @ k @ lit '': '' @ t)" for l
  proof
    assume "title_number l = Some k"
    then show "\<exists>t. t \<noteq> [] \<and> l = lit ''# ADR-'' @ k @ lit '': '' @ t"
      by (auto simp: title_number_def bind_eq_Some_conv four_digits_Some split: if_splits)
  next
    assume "\<exists>t. t \<noteq> [] \<and> l = lit ''# ADR-'' @ k @ lit '': '' @ t"
    then obtain t where "t \<noteq> []" "l = lit ''# ADR-'' @ k @ lit '': '' @ t" by blast
    then show "title_number l = Some k"
      by (simp add: title_number_def four_digits_append [OF k(2,3)])
  qed
  moreover have "title_problems name ls = [] \<longleftrightarrow> (\<exists>l rest. ls = l # rest \<and> title_number l = Some k)"
    by (auto simp: title_problems_def k(1) split: list.splits option.splits)
  ultimately show ?thesis
    unfolding k(1) [symmetric] by blast
qed

lemma date_shape_iff:
  "date_shape s \<longleftrightarrow> (\<exists>y m d. s = y @ lit ''-'' @ m @ lit ''-'' @ d \<and>
     length y = 4 \<and> length m = 2 \<and> length d = 2 \<and> list_all is_digit (y @ m @ d))" (is "_ = ?R")
proof
  assume "date_shape s"
  then obtain y r where *: "four_digits s = Some (y, lit ''-'' @ r)" "length r = 5" "list_all is_digit (take 2 r)"
      "r ! 2 = 45" "list_all is_digit (drop 3 r)"
    by (auto simp: date_shape_def split: option.splits)
  have "r = take 2 r @ [r ! 2] @ drop 3 r"
    using id_take_nth_drop [of 2 r] *(2) by (simp add: numeral_3_eq_3)
  with * show ?R
    by (intro exI [of _ y] exI [of _ "take 2 r"] exI [of _ "drop 3 r"]) (auto simp: four_digits_Some lit_def)
next
  assume ?R
  then obtain y m d where *: "s = y @ lit ''-'' @ m @ lit ''-'' @ d" "length y = 4" "length m = 2" "length d = 2"
      "list_all is_digit y" "list_all is_digit m" "list_all is_digit d"
    by auto
  have "(m @ lit ''-'' @ d) ! 2 = 45" "drop 3 (m @ lit ''-'' @ d) = d"
    using *(3) by (simp_all add: nth_append lit_def)
  with * show "date_shape s"
    by (simp add: date_shape_def four_digits_append)
qed

lemma check_values_Nil:
  assumes "map fst (header_items ls) = adr_fields"
  shows "check_values name (header_items ls) = [] \<longleftrightarrow> adr_values ls"
proof -
  have "\<forall>f \<in> set adr_fields. \<exists>v. map_of (header_items ls) f = Some v"
    unfolding assms [symmetric] by (simp add: map_of_eq_None_iff not_None_eq [symmetric] del: not_None_eq)
  from bchoice [OF this] obtain v where v: "\<forall>f \<in> set adr_fields. map_of (header_items ls) f = Some (v f)"
    by (elim exE) (rule that)
  then have m: "map_of (header_items ls) f_status = Some (v f_status)" "map_of (header_items ls) f_date = Some (v f_date)"
      "map_of (header_items ls) f_decider = Some (v f_decider)"
      "map_of (header_items ls) f_supersedes = Some (v f_supersedes)"
      "map_of (header_items ls) f_superseded_by = Some (v f_superseded_by)"
    by (simp_all add: adr_fields_def)
  have drop: "drop 2 adr_fields = [f_decider, f_supersedes, f_superseded_by]"
    by (simp add: adr_fields_def)
  have get: "dict_get (header_items ls) f_status [] = v f_status" "dict_get (header_items ls) f_date [] = v f_date"
      "dict_get (header_items ls) f_decider [] = v f_decider"
      "dict_get (header_items ls) f_supersedes [] = v f_supersedes"
      "dict_get (header_items ls) f_superseded_by [] = v f_superseded_by"
    unfolding dict_get_def m by simp_all
  have "check_values name (header_items ls) = [] \<longleftrightarrow>
      v f_status \<in> set adr_statuses \<and> date_shape (v f_date) \<and>
      v f_decider \<noteq> [] \<and> v f_supersedes \<noteq> [] \<and> v f_superseded_by \<noteq> []"
    unfolding check_values_def Let_def drop get list.map by (simp add: get)
  moreover have "adr_values ls \<longleftrightarrow>
      v f_status \<in> set adr_statuses \<and> date_shape (v f_date) \<and>
      v f_decider \<noteq> [] \<and> v f_supersedes \<noteq> [] \<and> v f_superseded_by \<noteq> []"
    unfolding adr_values_def ball_simps m date_shape_iff option.inject by blast
  ultimately show ?thesis by simp
qed

lemma file_problems_Nil:
  assumes "is_adr_name name"
  shows "file_problems (name, s) = [] \<longleftrightarrow> adr_shape name (splitlines s) \<and> adr_values (splitlines s)"
proof -
  let ?ls = "splitlines s" and ?h = "scan_header name 1 (splitlines s) empty_scan"
  have o: "hs_order ?h = map fst (header_items ?ls)"
    and f: "hs_fields ?h = dict_of (header_items ?ls)"
    by (simp_all add: scan_header_items empty_scan_def dict_of_def)
  have p: "hs_problems ?h = [] \<longleftrightarrow> distinct (map fst (header_items ?ls))"
    by (simp add: scan_header_problems empty_scan_def)
  show ?thesis
  proof (cases "map fst (header_items ?ls) = adr_fields")
    case True
    then have "hs_fields ?h = header_items ?ls" "hs_problems ?h = []"
      by (simp_all add: f p distinct_fields dict_of_distinct)
    with True show ?thesis
      using subsection_problems_Nil [of name 1 None ?ls]
      by (simp add: file_problems_def parse_adr_def Let_def o check_values_Nil title_problems_Nil [OF assms] adr_shape_def)
  next
    case False
    then show ?thesis
      by (simp add: file_problems_def parse_adr_def Let_def o adr_shape_def)
  qed
qed

lemma referenced_pair:
  "check_supersession hs = [] \<longleftrightarrow> (\<forall>e \<in> set hs. supersession_of hs e = [])"
  by (simp add: check_supersession_def concat_map_Nil)

lemma replaced_Nil:
  "replaced_problems hs n other = [] \<longleftrightarrow>
     superseded_by hs other n \<and> Option.bind (map_of hs other) (\<lambda>d. map_of d f_status) = Some (lit ''Superseded'')"
  by (auto simp: replaced_problems_def superseded_by_def split: option.split)

lemma replaced_by_Nil: "replaced_by_problems hs n other = [] \<longleftrightarrow> supersedes hs other n"
  by (auto simp: replaced_by_problems_def supersedes_def split: option.split)

lemma supersession_of_Nil:
  assumes "map_of hs n = Some d"
  shows "supersession_of hs (n, d) = [] \<longleftrightarrow>
     (\<forall>b. \<not> (supersedes hs n b \<and> superseded_by hs n b)) \<and>
     (\<forall>b. supersedes hs n b \<longrightarrow> superseded_by hs b n \<and>
        Option.bind (map_of hs b) (\<lambda>d. map_of d f_status) = Some (lit ''Superseded'')) \<and>
     (\<forall>b. superseded_by hs n b \<longrightarrow> supersedes hs b n)"
proof -
  have sup: "supersedes hs n b \<longleftrightarrow> b \<in> set (adr_names f_supersedes d)"
    and sby: "superseded_by hs n b \<longleftrightarrow> b \<in> set (adr_names f_superseded_by d)" for b
    using assms by (simp_all add: supersedes_def superseded_by_def)
  have "sort (filter (\<lambda>x. x \<in> set (adr_names f_superseded_by d)) (adr_names f_supersedes d)) = [] \<longleftrightarrow>
      (\<forall>b. \<not> (supersedes hs n b \<and> superseded_by hs n b))"
    by (auto simp: sup sby filter_empty_conv set_empty [symmetric] simp del: set_empty)
  then show ?thesis
    by (auto simp: supersession_of_def Let_def concat_map_Nil replaced_Nil replaced_by_Nil sup sby)
qed

lemma check_supersession_Nil:
  assumes "distinct (map fst hs)"
  shows "check_supersession hs = [] \<longleftrightarrow> supersession_paired hs"
proof -
  have "check_supersession hs = [] \<longleftrightarrow> (\<forall>n d. map_of hs n = Some d \<longrightarrow> supersession_of hs (n, d) = [])"
    unfolding referenced_pair using assms by (auto simp: map_of_eq_Some_iff)
  also have "\<dots> \<longleftrightarrow> (\<forall>n. (\<forall>b. \<not> (supersedes hs n b \<and> superseded_by hs n b)) \<and>
     (\<forall>b. supersedes hs n b \<longrightarrow> superseded_by hs b n \<and>
        Option.bind (map_of hs b) (\<lambda>d. map_of d f_status) = Some (lit ''Superseded'')) \<and>
     (\<forall>b. superseded_by hs n b \<longrightarrow> supersedes hs b n))" (is "_ \<longleftrightarrow> (\<forall>n. ?P n)")
  proof -
    have "(\<forall>d. map_of hs n = Some d \<longrightarrow> supersession_of hs (n, d) = []) \<longleftrightarrow> ?P n" for n
    proof (cases "map_of hs n")
      case None
      then show ?thesis by (simp add: supersedes_def superseded_by_def)
    next
      case (Some d)
      then show ?thesis by (simp add: supersession_of_Nil)
    qed
    then show ?thesis by simp
  qed
  also have "\<dots> \<longleftrightarrow> supersession_paired hs"
    unfolding supersession_paired_def by blast
  finally show ?thesis .
qed

lemma index_problems_Nil:
  "index_problems hs rows n = [] \<longleftrightarrow>
     (case map_of hs n of
        None \<Rightarrow> False
      | Some d \<Rightarrow> map_of rows n \<noteq> None \<and> map_of rows n = map_of d f_status)"
  by (auto simp: index_problems_def split: option.splits)

lemma check_index_Nil: "check_index s hs = [] \<longleftrightarrow> index_agrees (index_rows s) hs"
proof -
  have dom: "n \<in> fst ` set xs \<longleftrightarrow> map_of xs n \<noteq> None" for n and xs :: "(pystr \<times> 'a) list"
    by (simp add: map_of_eq_None_iff)
  have "check_index s hs = [] \<longleftrightarrow>
      (\<forall>n. map_of hs n \<noteq> None \<or> map_of (index_rows s) n \<noteq> None \<longrightarrow> index_problems hs (index_rows s) n = [])"
    unfolding check_index_def Let_def concat_map_Nil dom [symmetric] by auto
  also have "\<dots> \<longleftrightarrow> index_agrees (index_rows s) hs"
    unfolding index_agrees_def index_problems_Nil
    by (intro arg_cong [where f = All] ext) (auto split: option.split)
  finally show ?thesis .
qed

lemma validate_adrs_Nil:
  assumes "map_of d index_name = Some idx"
  shows "validate_adrs d = Inr [] \<longleftrightarrow>
     (\<forall>(name, s) \<in> set d. is_adr_name name \<longrightarrow> adr_shape name (splitlines s) \<and> adr_values (splitlines s)) \<and>
     supersession_paired (adr_headers d) \<and> index_agrees (index_rows idx) (adr_headers d)"
proof -
  have "distinct (map fst (adr_headers d))"
    by (simp add: adr_headers_def distinct_dict_of)
  moreover have "concat (map file_problems (adr_paths d)) = [] \<longleftrightarrow>
     (\<forall>(name, s) \<in> set d. is_adr_name name \<longrightarrow> adr_shape name (splitlines s) \<and> adr_values (splitlines s))"
    by (auto simp: concat_map_Nil adr_paths_def file_problems_Nil)
  ultimately show ?thesis
    by (simp add: validate_adrs_def assms check_supersession_Nil check_index_Nil)
qed

lemma adr_main_0:
  "(\<exists>out. adr_main tree cwd = Inr (out, 0)) \<longleftrightarrow>
     (\<exists>d. adr_root tree cwd = Some d \<and> adr_paths d \<noteq> [] \<and> validate_adrs d = Inr [])"
proof (cases "adr_root tree cwd")
  case None
  then show ?thesis by (simp add: adr_main_def)
next
  case (Some d)
  then show ?thesis by (cases "validate_adrs d") (auto simp: adr_main_def Let_def)
qed

subsection \<open>Reading the index table back\<close>

lemma find_rows_skip:
  "10 \<notin> set r \<Longrightarrow> find_rows False (r @ 10 # s) = find_rows True s"
  by (induction r) auto

lemma index_row_read:
  assumes "length n = 4" "list_all is_digit n" "u \<noteq> []" "41 \<notin> set u" "st \<noteq> []" "list_all is_letter st"
  shows "index_row (lit ''| ['' @ n @ lit ''](''  @ u @ lit '') | '' @ st @ lit '' |'' @ r) = Some ((n, st), r)"
proof -
  have "takeWhile (\<lambda>c. c \<noteq> 41) (u @ lit '') | '' @ x) = u" "dropWhile (\<lambda>c. c \<noteq> 41) (u @ lit '') | '' @ x) = lit '') | '' @ x" for x
    using assms(4) by (auto simp: takeWhile_append dropWhile_append lit_def)
  moreover have "takeWhile is_letter (st @ lit '' |'' @ r) = st" "dropWhile is_letter (st @ lit '' |'' @ r) = lit '' |'' @ r"
    using assms(6) by (auto simp: takeWhile_append dropWhile_append lit_def is_letter_def list_all_iff)
  ultimately show ?thesis
    using assms by (simp add: index_row_def four_digits_append)
qed

lemma find_rows_match: "index_row s = Some (p, rest) \<Longrightarrow> find_rows True s = p # find_rows False rest"
  by (cases s) (auto simp: index_row_def lit_def)

text \<open>A line of the table: number, link target, status, and the cells after it.\<close>

definition index_line :: "pystr \<times> pystr \<times> pystr \<times> pystr \<Rightarrow> pystr" where
  "index_line = (\<lambda>(n, u, st, r). lit ''| ['' @ n @ lit ''](''  @ u @ lit '') | '' @ st @ lit '' |'' @ r @ [10])"

definition index_line_ok :: "pystr \<times> pystr \<times> pystr \<times> pystr \<Rightarrow> bool" where
  "index_line_ok = (\<lambda>(n, u, st, r). length n = 4 \<and> list_all is_digit n \<and> u \<noteq> [] \<and> 41 \<notin> set u \<and>
     st \<noteq> [] \<and> list_all is_letter st \<and> 10 \<notin> set r)"

declare index_line_def [py_eval] index_line_ok_def [py_eval]

lemma find_rows_table:
  "list_all index_line_ok xs \<Longrightarrow>
     find_rows True (concat (map index_line xs)) = map (\<lambda>(n, u, st, r). (n, st)) xs"
proof (induction xs)
  case Nil
  then show ?case by simp
next
  case (Cons x xs)
  obtain n u st r where x: "x = (n, u, st, r)" by (cases x) auto
  let ?tail = "concat (map index_line xs)"
  have "index_row (index_line x @ ?tail) = Some ((n, st), r @ 10 # ?tail)"
    using index_row_read [of n u st "r @ 10 # ?tail"] Cons.prems
    by (simp add: x index_line_def index_line_ok_def)
  then have "find_rows True (index_line x @ ?tail) = (n, st) # find_rows True ?tail"
    using Cons.prems by (simp add: find_rows_match find_rows_skip x index_line_ok_def)
  then show ?case
    using Cons by (simp add: x)
qed

subsection \<open>Two files with one number\<close>

definition differ_at :: "'k \<Rightarrow> ('k, 'v) pydict \<Rightarrow> ('k, 'v) pydict \<Rightarrow> bool" where
  "differ_at k d e \<longleftrightarrow> distinct (map fst d) \<and>
     list_all2 (\<lambda>x y. fst x = fst y \<and> (fst x \<noteq> k \<longrightarrow> snd x = snd y)) d e"

lemma differ_at_update: "differ_at k d e \<Longrightarrow> differ_at k (AList.update j v d) (AList.update j v e)"
proof -
  have "list_all2 R d e \<Longrightarrow> list_all2 R (AList.update j v d) (AList.update j v e)"
    if "R = (\<lambda>x y. fst x = fst y \<and> (fst x \<noteq> k \<longrightarrow> snd x = snd y))" for R
    unfolding that by (induction rule: list_all2_induct) auto
  then show "differ_at k d e \<Longrightarrow> differ_at k (AList.update j v d) (AList.update j v e)"
    by (simp add: differ_at_def distinct_update)
qed

lemma differ_at_overwritten: "differ_at k d e \<Longrightarrow> AList.update k v d = AList.update k v e"
proof -
  have same: "xs = ys" if "list_all2 (\<lambda>x y. fst x = fst y \<and> (fst x \<noteq> k \<longrightarrow> snd x = snd y)) xs ys" "k \<notin> fst ` set xs"
    for xs ys :: "('a \<times> 'b) list"
    using that by (induction rule: list_all2_induct) (auto simp: prod_eq_iff)
  have "list_all2 (\<lambda>x y. fst x = fst y \<and> (fst x \<noteq> k \<longrightarrow> snd x = snd y)) d e \<Longrightarrow> distinct (map fst d) \<Longrightarrow>
      AList.update k v d = AList.update k v e"
    by (induction rule: list_all2_induct) (auto simp: prod_eq_iff dest: same)
  then show "differ_at k d e \<Longrightarrow> AList.update k v d = AList.update k v e"
    by (simp add: differ_at_def)
qed

lemma fold_update_hides:
  "differ_at k d e \<Longrightarrow> k \<in> fst ` set q \<Longrightarrow>
     fold (\<lambda>(k, v). AList.update k v) q d = fold (\<lambda>(k, v). AList.update k v) q e"
proof (induction q arbitrary: d e)
  case Nil
  then show ?case by simp
next
  case (Cons x q)
  then show ?case
    by (cases "fst x = k")
      (auto simp: case_prod_beta differ_at_overwritten intro: Cons.IH differ_at_update)
qed

lemma differ_at_same_key:
  assumes "distinct (map fst d)"
  shows "differ_at k (AList.update k v d) (AList.update k w d)"
proof -
  have "list_all2 (\<lambda>x y. fst x = fst y \<and> (fst x \<noteq> k \<longrightarrow> snd x = snd y)) (AList.update k v d) (AList.update k w d)"
    by (induction d) (auto simp: list_all2_refl)
  with assms show ?thesis by (simp add: differ_at_def distinct_update)
qed

lemma dict_of_hidden:
  assumes "k \<in> fst ` set q"
  shows "dict_of (p @ (k, v) # q) = dict_of (p @ (k, w) # q)"
  using fold_update_hides [OF differ_at_same_key [OF distinct_dict_of] assms] by (simp add: dict_of_def)

definition replace_text :: "pystr \<Rightarrow> pystr \<Rightarrow> pystr \<times> pystr \<Rightarrow> pystr \<times> pystr" where
  "replace_text a s e = (if fst e = a then (a, s) else e)"

lemma update_replace:
  "distinct (map fst d) \<Longrightarrow> a \<in> fst ` set d \<Longrightarrow> AList.update a s d = map (replace_text a s) d"
proof (induction d)
  case (Cons e d)
  show ?case
  proof (cases "fst e = a")
    case True
    then have "map (replace_text a s) d = d"
      using Cons.prems(1) by (intro map_idI) (auto simp: replace_text_def rev_image_eqI)
    moreover have "replace_text a s e = (a, s)" "AList.update a s (e # d) = (a, s) # d"
      using True by (simp_all add: replace_text_def prod_eq_iff)
    ultimately show ?thesis by simp
  next
    case False
    with Cons show ?thesis by (auto simp: replace_text_def)
  qed
qed simp

lemma fst_replace [simp]: "fst (replace_text a s e) = fst e"
  by (simp add: replace_text_def)

lemma adr_paths_update:
  assumes "distinct (map fst d)" "a \<in> fst ` set d"
  shows "adr_paths (AList.update a s d) = map (replace_text a s) (adr_paths d)"
  by (simp add: adr_paths_def update_replace [OF assms] filter_map comp_def sort_key_map)

lemma paths_split:
  assumes "distinct (map fst d)" "map_of d a = Some s" "is_adr_name a" "map_of d b = Some t" "is_adr_name b" "a < b"
  shows "\<exists>p q. adr_paths d = p @ (a, s) # q \<and> (b, t) \<in> set q \<and> a \<notin> fst ` set p \<and> a \<notin> fst ` set q"
proof -
  have mem: "(a, s) \<in> set (adr_paths d)" "(b, t) \<in> set (adr_paths d)"
    using assms by (auto simp: adr_paths_def dest: map_of_SomeD)
  then obtain p q where pq: "adr_paths d = p @ (a, s) # q"
    by (meson split_list)
  have "distinct (map fst (adr_paths d))"
    using assms(1) by (simp add: adr_paths_def distinct_map distinct_filter inj_on_def) 
  moreover have "sorted (map fst (adr_paths d))"
    by (simp add: adr_paths_def)
  ultimately have "a \<notin> fst ` set p" "a \<notin> fst ` set q" "\<forall>e \<in> set p. fst e \<le> a"
    unfolding pq by (auto simp: sorted_append)
  then show ?thesis
    using mem(2) assms(6) unfolding pq by (intro exI [of _ p] exI [of _ q]) auto
qed

lemma hidden_header:
  assumes "distinct (map fst d)" "map_of d a = Some s" "is_adr_name a" "b \<in> fst ` set d" "is_adr_name b" "a < b"
    "take 4 a = take 4 b"
  shows "adr_headers (AList.update a s' d) = adr_headers d"
proof -
  obtain t where t: "map_of d b = Some t"
    using assms(4) by (metis map_of_eq_None_iff option.exhaust)
  obtain p q where pq: "adr_paths d = p @ (a, s) # q" "(b, t) \<in> set q" "a \<notin> fst ` set p" "a \<notin> fst ` set q"
    using paths_split [OF assms(1-3) t assms(5,6)] by (elim exE conjE)
  have same: "map (replace_text a s') xs = xs" if "a \<notin> fst ` set xs" for xs
    using that by (intro map_idI) (auto simp: replace_text_def rev_image_eqI)
  have "a \<in> fst ` set d"
    using assms(2) by (auto dest: map_of_SomeD intro: rev_image_eqI)
  then have "adr_paths (AList.update a s' d) = p @ (a, s') # q"
    using adr_paths_update [OF assms(1)] pq same by (simp add: replace_text_def)
  moreover have "take 4 a \<in> fst ` set (map (\<lambda>(name, s). (take 4 name, fst (parse_adr name s))) q)"
    using pq(2) assms(7) by (force simp: image_iff)
  ultimately show ?thesis
    unfolding adr_headers_def using pq(1)
      dict_of_hidden [of "take 4 a" "map (\<lambda>(name, s). (take 4 name, fst (parse_adr name s))) q"
        "map (\<lambda>(name, s). (take 4 name, fst (parse_adr name s))) p"
        "fst (parse_adr a s')" "fst (parse_adr a s)"] by simp
qed

lemma hidden_validation:
  assumes "distinct (map fst d)" "map_of d a = Some s" "is_adr_name a" "b \<in> fst ` set d" "is_adr_name b" "a < b"
    "take 4 a = take 4 b" "file_problems (a, s') = file_problems (a, s)"
  shows "validate_adrs (AList.update a s' d) = validate_adrs d"
proof -
  have a: "a \<in> fst ` set d" "a \<noteq> index_name"
    using assms(2,3) by (auto dest: map_of_SomeD intro: rev_image_eqI simp: is_adr_name_def index_name_def four_digits_def lit_def is_digit_def digit_value_def digit_zeros_def)
  have "file_problems (replace_text a s' e) = file_problems e" if "e \<in> set (adr_paths d)" for e
  proof (cases "fst e = a")
    case True
    then have "map_of d a = Some (snd e)"
      using that assms(1) by (cases e) (auto simp: adr_paths_def)
    with True assms(2) have "e = (a, s)"
      by (cases e) simp
    then show ?thesis using assms(8) by (simp add: replace_text_def)
  qed (simp add: replace_text_def)
  then have "concat (map file_problems (adr_paths (AList.update a s' d))) = concat (map file_problems (adr_paths d))"
    by (simp add: adr_paths_update [OF assms(1) a(1)] comp_def cong: map_cong)
  moreover have "adr_headers (AList.update a s' d) = adr_headers d"
    by (rule hidden_header [OF assms(1-7)])
  moreover have "map_of (AList.update a s' d) index_name = map_of d index_name"
    using a(2) by (simp add: update_conv')
  ultimately show ?thesis
    by (simp only: validate_adrs_def)
qed

subsection \<open>Examples\<close>

definition adr_line :: "pystr \<Rightarrow> pystr \<Rightarrow> pystr" where
  "adr_line f v = lit ''- '' @ f @ lit '': '' @ v @ [10]"

definition example_adr :: "string \<Rightarrow> string \<Rightarrow> pystr \<Rightarrow> pystr \<Rightarrow> pystr" where
  "example_adr n st old new =
     lit ''# ADR-'' @ lit n @ lit '': T'' @ [10, 10]
     @ adr_line f_status (lit st) @ adr_line f_date (lit ''2026-09-06'') @ adr_line f_decider (lit ''x'')
     @ adr_line f_supersedes old @ adr_line f_superseded_by new @ [10]
     @ lit ''## Context'' @ [10] @ lit ''## Decision'' @ [10] @ lit ''### A'' @ [10] @ lit ''## Consequences'' @ [10]
     @ lit ''## Alternatives considered'' @ [10] @ lit ''## Validation'' @ [10]"

definition example_row :: "string \<Rightarrow> string \<Rightarrow> pystr \<times> pystr \<times> pystr \<times> pystr" where
  "example_row n st = (lit n, lit ''a.md'', lit st, lit '' T |'')"

definition example_adrs :: "(pystr, pystr) pydict" where
  "example_adrs =
     [(lit ''0002-b.md'', example_adr ''0002'' ''Accepted'' (lit ''ADR-0001'') adr_none),
      (lit ''README.md'', lit ''# ADR'' @ [10] @ concat (map index_line [example_row ''0001'' ''Superseded'', example_row ''0002'' ''Accepted''])),
      (lit ''0001-a.md'', example_adr ''0001'' ''Superseded'' adr_none (lit ''ADR-0002''))]"

definition twin_adrs :: "(pystr, pystr) pydict" where
  "twin_adrs =
     [(lit ''0001-a.md'', example_adr ''0001'' ''Accepted'' adr_none adr_none),
      (lit ''0001-b.md'', example_adr ''0001'' ''Accepted'' adr_none adr_none),
      (lit ''README.md'', concat (map index_line [example_row ''0001'' ''Accepted'']))]"

declare adr_line_def [py_eval] example_adr_def [py_eval] example_row_def [py_eval] example_adrs_def [py_eval]
  twin_adrs_def [py_eval]

lemma example_adrs_ok: "adr_main (\<lambda>_. Some example_adrs) [] = Inr (Adr_ok 2, 0)"
  by code_simp

subsection \<open>Properties\<close>

text \<open>
  C24: Where a docs/adr directory with its index is found, the command exits 0 exactly when there is at
  least one record, every record has the required title, header fields, sections, subsections and
  values, every supersession stands on both sides with the replaced record marked, and the index
  table lists exactly the records with their statuses.
\<close>

theorem adr_main_exact:
  assumes "adr_root tree cwd = Some d" "map_of d index_name = Some idx"
  shows "(\<exists>out. adr_main tree cwd = Inr (out, 0)) \<longleftrightarrow>
     adr_paths d \<noteq> [] \<and>
     (\<forall>(name, s) \<in> set d. is_adr_name name \<longrightarrow> adr_shape name (splitlines s) \<and> adr_values (splitlines s)) \<and>
     supersession_paired (adr_headers d) \<and> index_agrees (index_rows idx) (adr_headers d)"
  unfolding adr_main_0 using assms(1) by (auto simp: validate_adrs_Nil [OF assms(2)])

theorem adr_main_exact_witness:
  "supersession_paired (adr_headers example_adrs) \<and> supersedes (adr_headers example_adrs) (lit ''0002'') (lit ''0001'') \<and>
     \<not> (\<exists>out. adr_main (\<lambda>_. Some (AList.update index_name [] example_adrs)) [] = Inr (out, 0))"
proof -
  have "map_of example_adrs index_name \<noteq> None"
    by code_simp
  then have "supersession_paired (adr_headers example_adrs)"
    using adr_main_exact [of "\<lambda>_. Some example_adrs" "[]" example_adrs] example_adrs_ok by auto
  moreover have "lit ''0001'' \<in> set (adr_names f_supersedes (the (map_of (adr_headers example_adrs) (lit ''0002''))))"
    "map_of (adr_headers example_adrs) (lit ''0002'') \<noteq> None"
    by code_simp+
  moreover have "snd (projr (adr_main (\<lambda>_. Some (AList.update index_name [] example_adrs)) [])) \<noteq> 0"
    by code_simp
  ultimately show ?thesis
    by (auto simp: supersedes_def)
qed

text \<open>
  The index parser reads back exactly what a table states: for any lines with a four-digit number, a
  link, a status of letters and further cells, the rows are the numbers with their statuses.
\<close>

theorem index_table_read_back:
  assumes "list_all index_line_ok xs" "distinct (map fst xs)"
  shows "index_rows (concat (map index_line xs)) = map (\<lambda>(n, u, st, r). (n, st)) xs"
proof -
  have "distinct (map fst (map (\<lambda>(n, u, st, r). (n, st)) xs))"
    using assms(2) by (simp add: comp_def case_prod_beta)
  then show ?thesis
    unfolding index_rows_def find_rows_table [OF assms(1)] by (rule dict_of_distinct)
qed

theorem index_table_read_back_witness:
  "index_rows (concat (map index_line [example_row ''0001'' ''Accepted'', example_row ''0002'' ''Rejected''])) =
     [(lit ''0001'', lit ''Accepted''), (lit ''0002'', lit ''Rejected'')]"
proof -
  have "list_all index_line_ok [example_row ''0001'' ''Accepted'', example_row ''0002'' ''Rejected'']"
    "distinct (map fst [example_row ''0001'' ''Accepted'', example_row ''0002'' ''Rejected''])"
    by code_simp+
  from index_table_read_back [OF this] show ?thesis
    by (simp add: example_row_def)
qed

text \<open>
  C25: When two record files carry one number, the one sorted first is left out of the supersession and
  index checks: replacing its text by any other text with the same problems of its own, a dangling
  supersession included, changes nothing the command reports.
\<close>

theorem twin_number_hidden:
  assumes "distinct (map fst d)" "map_of d a = Some s" "is_adr_name a" "b \<in> fst ` set d" "is_adr_name b" "a < b"
    "take 4 a = take 4 b" "file_problems (a, s') = file_problems (a, s)"
  shows "validate_adrs (AList.update a s' d) = validate_adrs d"
  using assms by (rule hidden_validation)

theorem twin_number_hidden_witness:
  "validate_adrs (AList.update (lit ''0001-a.md'') (example_adr ''0001'' ''Accepted'' (lit ''ADR-0009'') adr_none) twin_adrs) = Inr []"
proof -
  have "distinct (map fst twin_adrs)" "is_adr_name (lit ''0001-a.md'')" "is_adr_name (lit ''0001-b.md'')"
    "lit ''0001-a.md'' < lit ''0001-b.md''" "take 4 (lit ''0001-a.md'') = take 4 (lit ''0001-b.md'')"
    by code_simp+
  moreover have "map_of twin_adrs (lit ''0001-a.md'') = Some (example_adr ''0001'' ''Accepted'' adr_none adr_none)"
    "lit ''0001-b.md'' \<in> fst ` set twin_adrs"
    by (simp_all add: twin_adrs_def)
  moreover have "file_problems (lit ''0001-a.md'', example_adr ''0001'' ''Accepted'' (lit ''ADR-0009'') adr_none) =
      file_problems (lit ''0001-a.md'', example_adr ''0001'' ''Accepted'' adr_none adr_none)"
    by code_simp
  ultimately have "validate_adrs (AList.update (lit ''0001-a.md'') (example_adr ''0001'' ''Accepted'' (lit ''ADR-0009'') adr_none) twin_adrs)
      = validate_adrs twin_adrs"
    by (intro twin_number_hidden) 
  moreover have "validate_adrs twin_adrs = Inr []"
    by code_simp
  ultimately show ?thesis by simp
qed

end
