(* ===== verification/Json.thy ===== *)
theory Json
  imports Py_Prelude
begin

text \<open>
  JSON text: \<open>json_loads\<close> follows json.loads, \<open>json_dumps\<close> follows json.dumps with
  \<open>ensure_ascii=False\<close> and the default separators, \<open>json_indented\<close> with \<open>indent=2\<close>. An object is a dict in insertion order. A number
  with a fraction or an exponent (and NaN, Infinity) is kept by its text, \<open>JReal\<close>: no modelled
  part computes with one. The round trip \<open>json_loads (json_dumps j) = Some j\<close> is what lets one
  process read what the other wrote.
\<close>

datatype json =
    JNull
  | JBool bool
  | JInt int
  | JReal pystr
  | JStr pystr
  | JArr "json list"
  | JObj "(pystr \<times> json) list"

subsection \<open>Printing\<close>

definition json_escape :: "int \<Rightarrow> pystr" where
  "json_escape c =
     (if c = 34 then [92, 34]
      else if c = 92 then [92, 92]
      else if c = 10 then [92, 110]
      else if c = 13 then [92, 114]
      else if c = 9 then [92, 116]
      else if c = 12 then [92, 102]
      else if c = 8 then [92, 98]
      else if c < 32 then [92, 117] @ zero_pad 4 (hex_digits c)
      else [c])"

definition json_string :: "pystr \<Rightarrow> pystr" where
  "json_string s = [34] @ concat (map json_escape s) @ [34]"

fun json_dumps :: "json \<Rightarrow> pystr" where
  "json_dumps JNull = lit ''null''"
| "json_dumps (JBool b) = (if b then lit ''true'' else lit ''false'')"
| "json_dumps (JInt n) = py_str n"
| "json_dumps (JReal t) = t"
| "json_dumps (JStr s) = json_string s"
| "json_dumps (JArr js) = [91] @ join [44, 32] (map json_dumps js) @ [93]"
| "json_dumps (JObj kvs) =
     [123] @ join [44, 32] (map (\<lambda>(k, v). json_string k @ [58, 32] @ json_dumps v) kvs) @ [125]"

text \<open>\<open>json.dumps(j, indent=2, ensure_ascii=False)\<close> at a depth of \<open>n\<close> spaces.\<close>

definition new_line :: "nat \<Rightarrow> pystr" where
  "new_line n = 10 # replicate n 32"

fun json_indented :: "nat \<Rightarrow> json \<Rightarrow> pystr" where
  "json_indented n (JArr js) =
     (if js = [] then lit ''[]''
      else [91] @ new_line (n + 2) @ join (44 # new_line (n + 2)) (map (json_indented (n + 2)) js) @ new_line n @ [93])"
| "json_indented n (JObj kvs) =
     (if kvs = [] then lit ''{}''
      else [123] @ new_line (n + 2) @
        join (44 # new_line (n + 2)) (map (\<lambda>(k, v). json_string k @ [58, 32] @ json_indented (n + 2) v) kvs) @
        new_line n @ [125])"
| "json_indented n j = json_dumps j"

subsection \<open>Reading\<close>

definition skip_ws :: "pystr \<Rightarrow> pystr" where
  "skip_ws s = dropWhile (\<lambda>c. c \<in> set [32, 9, 10, 13]) s"

definition hex_value :: "int \<Rightarrow> int option" where
  "hex_value c =
     (if 48 \<le> c \<and> c \<le> 57 then Some (c - 48)
      else if 97 \<le> c \<and> c \<le> 102 then Some (c - 87)
      else if 65 \<le> c \<and> c \<le> 70 then Some (c - 55)
      else None)"

text \<open>The four digits of a \<open>\u\<close> escape.\<close>

fun hex4 :: "pystr \<Rightarrow> (int \<times> pystr) option" where
  "hex4 (a # b # c # d # r) = do {
     a \<leftarrow> hex_value a; b \<leftarrow> hex_value b; c \<leftarrow> hex_value c; d \<leftarrow> hex_value d;
     Some (4096 * a + 256 * b + 16 * c + d, r)
   }"
| "hex4 _ = None"

definition simple_escape :: "int \<Rightarrow> int option" where
  "simple_escape c = map_of [(34, 34), (92, 92), (47, 47), (98, 8), (102, 12), (110, 10), (114, 13), (116, 9)] c"

text \<open>
  A \<open>\u\<close> escape after its \<open>u\<close>: a high surrogate takes a following escape of a low one with it,
  otherwise it stands alone.
\<close>

definition unicode_escape :: "pystr \<Rightarrow> (int \<times> pystr) option" where
  "unicode_escape s = do {
     (u, r) \<leftarrow> hex4 s;
     (case (if 55296 \<le> u \<and> u \<le> 56319 \<and> prefix [92, 117] r then hex4 (drop 2 r) else None) of
        Some (v, r') \<Rightarrow>
          if 56320 \<le> v \<and> v \<le> 57343
          then Some (65536 + 1024 * (u - 55296) + (v - 56320), r') else Some (u, r)
      | None \<Rightarrow> Some (u, r))
   }"

text \<open>The characters of a string up to its closing quote; the fuel is the length of the text.\<close>

fun parse_string :: "nat \<Rightarrow> pystr \<Rightarrow> (pystr \<times> pystr) option" where
  "parse_string 0 s = None"
| "parse_string (Suc n) [] = None"
| "parse_string (Suc n) (c # r) =
     (if c = 34 then Some ([], r)
      else if c < 32 then None
      else if c \<noteq> 92 then map_option (apfst (Cons c)) (parse_string n r)
      else case r of
             [] \<Rightarrow> None
           | e # r' \<Rightarrow>
               if e = 117
               then (case unicode_escape r' of
                       None \<Rightarrow> None
                     | Some (u, r'') \<Rightarrow> map_option (apfst (Cons u)) (parse_string n r''))
               else (case simple_escape e of
                       None \<Rightarrow> None
                     | Some u \<Rightarrow> map_option (apfst (Cons u)) (parse_string n r')))"

definition ascii_digit :: "int \<Rightarrow> bool" where
  "ascii_digit c \<longleftrightarrow> 48 \<le> c \<and> c \<le> 57"

text \<open>\<open>(-?(0|[1-9][0-9]*))(\.[0-9]+)?([eE][-+]?[0-9]+)?\<close>; an int of over 4300 digits raises.\<close>

definition fraction_part :: "pystr \<Rightarrow> pystr" where
  "fraction_part s =
     (if s \<noteq> [] \<and> hd s = 46 \<and> takeWhile ascii_digit (tl s) \<noteq> []
      then 46 # takeWhile ascii_digit (tl s) else [])"

definition exponent_part :: "pystr \<Rightarrow> pystr" where
  "exponent_part s =
     (case s of
        [] \<Rightarrow> []
      | c # r \<Rightarrow>
          if c = 101 \<or> c = 69
          then let sign = (if r \<noteq> [] \<and> (hd r = 43 \<or> hd r = 45) then [hd r] else []);
                   ds = takeWhile ascii_digit (drop (length sign) r) in
               if ds = [] then [] else c # sign @ ds
          else [])"

definition int_part :: "pystr \<Rightarrow> pystr" where
  "int_part s = (if s \<noteq> [] \<and> hd s = 48 then [48] else takeWhile ascii_digit s)"

definition parse_number :: "pystr \<Rightarrow> (json \<times> pystr) option" where
  "parse_number s =
     (let neg = (s \<noteq> [] \<and> hd s = 45);
          r = (if neg then tl s else s);
          ds = int_part r;
          r = drop (length ds) r;
          f = fraction_part r;
          e = exponent_part (drop (length f) r) in
      if ds = [] then None
      else if f = [] \<and> e = [] then
        if length ds \<le> 4300
        then Some (JInt (if neg then - digits_value 0 ds else digits_value 0 ds), r) else None
      else Some (JReal ((if neg then [45] else []) @ ds @ f @ e), drop (length (f @ e)) r))"

fun parse_word :: "(pystr \<times> json) list \<Rightarrow> pystr \<Rightarrow> (json \<times> pystr) option" where
  "parse_word [] s = None"
| "parse_word ((w, j) # ws) s =
     (case strip_prefix w s of Some r \<Rightarrow> Some (j, r) | None \<Rightarrow> parse_word ws s)"

definition json_words :: "(pystr \<times> json) list" where
  "json_words =
     [(lit ''null'', JNull), (lit ''true'', JBool True), (lit ''false'', JBool False),
      (lit ''NaN'', JReal (lit ''NaN'')), (lit ''Infinity'', JReal (lit ''Infinity'')),
      (lit ''-Infinity'', JReal (lit ''-Infinity''))]"

definition parse_atom :: "pystr \<Rightarrow> (json \<times> pystr) option" where
  "parse_atom s =
     (case parse_word json_words s of Some x \<Rightarrow> Some x | None \<Rightarrow> parse_number s)"

definition expect :: "int \<Rightarrow> pystr \<Rightarrow> pystr option" where
  "expect c s = (case s of [] \<Rightarrow> None | d # r \<Rightarrow> if d = c then Some r else None)"

fun parse_value :: "nat \<Rightarrow> pystr \<Rightarrow> (json \<times> pystr) option"
  and parse_members :: "nat \<Rightarrow> pystr \<Rightarrow> ((pystr \<times> json) list \<times> pystr) option"
  and parse_elements :: "nat \<Rightarrow> pystr \<Rightarrow> (json list \<times> pystr) option" where
  "parse_value 0 s = None"
| "parse_value (Suc n) s =
     (case s of
        [] \<Rightarrow> None
      | c # r \<Rightarrow>
          if c = 34 then map_option (apfst JStr) (parse_string (length r) r)
          else if c = 123 then
            (case expect 125 (skip_ws r) of
               Some r' \<Rightarrow> Some (JObj [], r')
             | None \<Rightarrow> map_option (apfst (\<lambda>kvs. JObj (dict_of kvs))) (parse_members n (skip_ws r)))
          else if c = 91 then
            (case expect 93 (skip_ws r) of
               Some r' \<Rightarrow> Some (JArr [], r')
             | None \<Rightarrow> map_option (apfst JArr) (parse_elements n (skip_ws r)))
          else parse_atom s)"
| "parse_members 0 s = None"
| "parse_members (Suc n) s = do {
     r \<leftarrow> expect 34 s;
     (k, r) \<leftarrow> parse_string (length r) r;
     r \<leftarrow> expect 58 (skip_ws r);
     (v, r) \<leftarrow> parse_value n (skip_ws r);
     (case expect 125 (skip_ws r) of
        Some r' \<Rightarrow> Some ([(k, v)], r')
      | None \<Rightarrow> do {
          r \<leftarrow> expect 44 (skip_ws r);
          (kvs, r) \<leftarrow> parse_members n (skip_ws r);
          Some ((k, v) # kvs, r)
        })
   }"
| "parse_elements 0 s = None"
| "parse_elements (Suc n) s = do {
     (v, r) \<leftarrow> parse_value n s;
     (case expect 93 (skip_ws r) of
        Some r' \<Rightarrow> Some ([v], r')
      | None \<Rightarrow> do {
          r \<leftarrow> expect 44 (skip_ws r);
          (vs, r) \<leftarrow> parse_elements n (skip_ws r);
          Some (v # vs, r)
        })
   }"

text \<open>\<open>json.loads\<close>; \<open>None\<close> is a ValueError. A byte order mark is refused.\<close>

definition json_loads :: "pystr \<Rightarrow> json option" where
  "json_loads s =
     (if prefix [65279] s then None
      else case parse_value (Suc (length s)) (skip_ws s) of
             Some (j, r) \<Rightarrow> if skip_ws r = [] then Some j else None
           | None \<Rightarrow> None)"

declare new_line_def [py_eval] json_escape_def [py_eval] json_string_def [py_eval] skip_ws_def [py_eval]
  hex_value_def [py_eval] simple_escape_def [py_eval] unicode_escape_def [py_eval]
  ascii_digit_def [py_eval] int_part_def [py_eval] fraction_part_def [py_eval] exponent_part_def [py_eval]
  parse_number_def [py_eval] json_words_def [py_eval] parse_atom_def [py_eval]
  expect_def [py_eval] dict_of_def [py_eval] json_loads_def [py_eval]

subsection \<open>Reading back what is printed\<close>

lemma hex_value_digit: "0 \<le> d \<Longrightarrow> d < 16 \<Longrightarrow> hex_value (hex_digit d) = Some d"
  by (simp add: hex_value_def hex_digit_def)

lemma hex_digits_small: "0 \<le> c \<Longrightarrow> c < 32 \<Longrightarrow>
    hex_digits c = (if c < 16 then [hex_digit c] else [hex_digit 1, hex_digit (c - 16)])"
proof -
  assume c: "0 \<le> c" "c < 32"
  have "\<not> c < 16 \<Longrightarrow> c div 16 = 1 \<and> c mod 16 = c - 16"
    using c by presburger
  then show ?thesis
    by (auto simp: hex_digits.simps [of c] hex_digits.simps [of 1])
qed

lemma hex4_pad: "0 \<le> c \<Longrightarrow> c < 32 \<Longrightarrow> hex4 (zero_pad 4 (hex_digits c) @ r) = Some (c, r)"
proof -
  assume c: "0 \<le> c" "c < 32"
  have z: "hex_value 48 = Some 0" by (simp add: hex_value_def)
  have "hex_value 49 = Some 1" by (simp add: hex_value_def)
  with c z show ?thesis
    by (cases "c < 16")
      (simp_all add: hex_digits_small zero_pad_def numeral_eq_Suc hex_value_digit hex_digit_def [of 1])
qed

lemma parse_string_escape:
  assumes "0 \<le> c"
  shows "parse_string (Suc n) (json_escape c @ r) = map_option (apfst (Cons c)) (parse_string n r)"
proof -
  have u: "unicode_escape (zero_pad 4 (hex_digits c) @ r) = Some (c, r)" if "c < 32"
    using hex4_pad [OF assms that, of r] that by (simp add: unicode_escape_def)
  consider "c \<in> {34, 92, 10, 13, 9, 12, 8}" | "c \<notin> {34, 92, 10, 13, 9, 12, 8}" "c < 32"
    | "c \<notin> {34, 92, 10, 13, 9, 12, 8}" "32 \<le> c"
    by force
  then show ?thesis
  proof cases
    case 1
    then show ?thesis by (auto simp: json_escape_def simple_escape_def)
  next
    case 2
    then show ?thesis by (simp add: json_escape_def u)
  next
    case 3
    then show ?thesis by (simp add: json_escape_def)
  qed
qed

lemma parse_string_string:
  "\<forall>c \<in> set s. 0 \<le> c \<Longrightarrow> length s < n \<Longrightarrow>
     parse_string n (concat (map json_escape s) @ 34 # r) = Some (s, r)"
proof (induction s arbitrary: n)
  case Nil
  then show ?case by (cases n) auto
next
  case (Cons c s)
  then obtain k where "n = Suc k" "length s < k" by (cases n) auto
  with Cons show ?case by (simp add: parse_string_escape)
qed

lemma json_escape_length: "1 \<le> length (json_escape c)"
  by (simp add: json_escape_def)

lemma escaped_length: "length s \<le> length (concat (map json_escape s))"
proof (induction s)
  case Nil
  then show ?case by simp
next
  case (Cons c s)
  with json_escape_length [of c] show ?case by simp
qed

lemma parse_quoted:
  assumes "\<forall>c \<in> set s. 0 \<le> c"
  shows "\<exists>t. json_string s @ r = 34 # t \<and> parse_string (length t) t = Some (s, r)"
proof -
  let ?t = "concat (map json_escape s) @ 34 # r"
  have "length s < length ?t"
    using escaped_length [of s] by simp
  then show ?thesis
    by (intro exI [of _ ?t]) (simp add: json_string_def parse_string_string [OF assms])
qed

text \<open>What may follow a value: nothing, white space, or one of the closing characters.\<close>

definition ends_value :: "pystr \<Rightarrow> bool" where
  "ends_value r \<longleftrightarrow> r = [] \<or> hd r \<in> {44, 93, 125, 32, 10}"

lemma digits_value_append: "digits_value a (xs @ ys) = digits_value (digits_value a xs) ys"
  by (induction xs arbitrary: a) simp_all

lemma digit_value_ascii:
  assumes "0 \<le> d" "d < 10"
  shows "digit_value (48 + d) = Some d"
proof -
  have "find (\<lambda>z. z \<le> 48 + d \<and> 48 + d < z + 10) digit_zeros = Some 48"
    using assms by (simp add: digit_zeros_def)
  then show ?thesis by (simp add: digit_value_def)
qed

lemma digits_value_dec: "0 \<le> n \<Longrightarrow> digits_value 0 (dec_digits n) = n"
proof (induction n rule: dec_digits.induct)
  case (1 n)
  show ?case
  proof (cases "n < 10")
    case True
    with "1.prems" show ?thesis
      by (simp add: dec_digits.simps [of n] digit_value_ascii)
  next
    case False
    then have "digits_value 0 (dec_digits (n div 10)) = n div 10"
      using 1 by simp
    moreover have "digit_value (48 + n mod 10) = Some (n mod 10)"
      by (rule digit_value_ascii) simp_all
    ultimately show ?thesis
      using False by (simp add: dec_digits.simps [of n] digits_value_append)
  qed
qed

lemma dec_digits_hd: "0 < n \<Longrightarrow> 48 < hd (dec_digits n)"
proof (induction n rule: dec_digits.induct)
  case (1 n)
  show ?case
  proof (cases "n < 10")
    case True
    with "1.prems" show ?thesis by (simp add: dec_digits.simps [of n])
  next
    case False
    then have "0 < n div 10" by simp
    with 1 False show ?thesis by (simp add: dec_digits.simps [of n])
  qed
qed

lemma dec_digits_0: "dec_digits 0 = [48]"
  by (simp add: dec_digits.simps)

lemma takeWhile_dec:
  assumes "0 \<le> n" "ends_value r"
  shows "takeWhile ascii_digit (dec_digits n @ r) = dec_digits n"
proof -
  have "\<forall>c \<in> set (dec_digits n). ascii_digit c"
    using dec_digits_range [OF assms(1)] by (auto simp: ascii_digit_def)
  moreover have "takeWhile ascii_digit r = []"
    using assms(2) by (cases r) (auto simp: ends_value_def ascii_digit_def)
  ultimately show ?thesis by (simp add: takeWhile_append)
qed

lemma number_digits:
  assumes "0 \<le> n" "ends_value r"
  shows "int_part (dec_digits n @ r) = dec_digits n"
  using assms takeWhile_dec [OF assms] dec_digits_hd [of n]
  by (cases "n = 0") (auto simp: dec_digits_0 int_part_def)

lemma number_tail: "ends_value r \<Longrightarrow> fraction_part r = [] \<and> exponent_part r = []"
  by (cases r) (auto simp: ends_value_def fraction_part_def exponent_part_def)

lemma parse_number_str:
  assumes "ends_value r" "length (dec_digits \<bar>n\<bar>) \<le> 4300"
  shows "parse_number (py_str n @ r) = Some (JInt n, r)"
proof (cases "n < 0")
  case True
  with number_digits [of "- n" r] number_tail [OF assms(1)] assms show ?thesis
    by (simp add: parse_number_def py_str_def Let_def digits_value_dec)
next
  case False
  then have "hd (dec_digits n @ r) \<noteq> 45"
    using dec_digits_range [of n "hd (dec_digits n)"] by auto
  with False number_digits [of n r] number_tail [OF assms(1)] assms show ?thesis
    by (simp add: parse_number_def py_str_def Let_def digits_value_dec)
qed


lemma parse_word_number:
  assumes "s \<noteq> []" "hd s = 45 \<Longrightarrow> tl s \<noteq> [] \<and> hd (tl s) \<le> 57" "hd s \<le> 57"
  shows "parse_word json_words s = None"
proof -
  have "\<not> prefix (lit (c # w)) s" if "(57::int) < of_char c" for c :: char and w
    using assms(1,3) that by (cases s) (auto simp: lit_def)
  moreover have "\<not> prefix (lit ''-Infinity'') s"
    using assms(1,2) by (cases s; cases "tl s") (auto simp: lit_def)
  ultimately have "strip_prefix (lit w) s = None" if "w \<in> {''null'', ''true'', ''false'', ''NaN'', ''Infinity'', ''-Infinity''}" for w
    using that by (auto simp: strip_prefix_None)
  then show ?thesis by (simp add: json_words_def)
qed

lemma parse_atom_int:
  assumes "ends_value r" "length (dec_digits \<bar>n\<bar>) \<le> 4300"
  shows "parse_atom (py_str n @ r) = Some (JInt n, r)"
proof -
  have "48 \<le> hd (dec_digits \<bar>n\<bar>) \<and> hd (dec_digits \<bar>n\<bar>) \<le> 57"
    by (rule dec_digits_range [OF _ hd_in_set]) simp_all
  then have "parse_word json_words (py_str n @ r) = None"
    by (intro parse_word_number) (auto simp: py_str_def abs_if split: if_splits)
  then show ?thesis
    by (simp add: parse_atom_def parse_number_str [OF assms])
qed

lemma parse_atom_word:
  "parse_atom (lit ''null'' @ r) = Some (JNull, r)"
  "parse_atom (lit ''true'' @ r) = Some (JBool True, r)"
  "parse_atom (lit ''false'' @ r) = Some (JBool False, r)"
  by (simp_all add: parse_atom_def json_words_def lit_def)

text \<open>The values that survive a round trip: distinct keys, no \<open>JReal\<close>, ints within the limit.\<close>

definition text_ok :: "pystr \<Rightarrow> bool" where
  "text_ok s \<longleftrightarrow> (\<forall>c \<in> set s. 0 \<le> c)"

fun json_ok :: "json \<Rightarrow> bool" where
  "json_ok (JInt n) \<longleftrightarrow> length (dec_digits \<bar>n\<bar>) \<le> 4300"
| "json_ok (JReal t) \<longleftrightarrow> False"
| "json_ok (JStr s) \<longleftrightarrow> text_ok s"
| "json_ok (JArr js) \<longleftrightarrow> list_all json_ok js"
| "json_ok (JObj kvs) \<longleftrightarrow>
     distinct (map fst kvs) \<and> list_all (\<lambda>(k, v). text_ok k \<and> json_ok v) kvs"
| "json_ok _ \<longleftrightarrow> True"

declare text_ok_def [py_eval]

fun json_size :: "json \<Rightarrow> nat" where
  "json_size (JArr js) = 1 + sum_list (map (\<lambda>j. 1 + json_size j) js)"
| "json_size (JObj kvs) = 1 + sum_list (map (\<lambda>(k, v). 1 + json_size v) kvs)"
| "json_size _ = 1"

definition starts_value :: "pystr \<Rightarrow> bool" where
  "starts_value s \<longleftrightarrow> s \<noteq> [] \<and> hd s \<notin> {32, 9, 10, 13, 93, 125}"

lemma starts_value_append [simp]: "starts_value s \<Longrightarrow> starts_value (s @ r)"
  by (cases s) (simp_all add: starts_value_def)

lemma starts_value_skip [simp]: "starts_value s \<Longrightarrow> skip_ws s = s"
  by (cases s) (auto simp: starts_value_def skip_ws_def)

lemma starts_value_expect [simp]:
  "starts_value s \<Longrightarrow> c \<in> {93, 125} \<Longrightarrow> expect c s = None"
  by (cases s) (auto simp: starts_value_def expect_def)

text \<open>
  The two layouts the sources print with: the default one and \<open>indent=2\<close>, at a depth of \<open>n\<close>
  spaces. \<open>after_open\<close>, \<open>after_comma\<close> and \<open>before_close\<close> are what stands after a bracket, after a comma and
  before the closing bracket.
\<close>

datatype layout = Compact | Indented

fun after_open :: "layout \<Rightarrow> nat \<Rightarrow> pystr" where
  "after_open Compact n = []"
| "after_open Indented n = new_line (n + 2)"

fun after_comma :: "layout \<Rightarrow> nat \<Rightarrow> pystr" where
  "after_comma Compact n = [32]"
| "after_comma Indented n = new_line (n + 2)"

fun before_close :: "layout \<Rightarrow> nat \<Rightarrow> pystr" where
  "before_close Compact n = []"
| "before_close Indented n = new_line n"

fun json_text :: "layout \<Rightarrow> nat \<Rightarrow> json \<Rightarrow> pystr" where
  "json_text l n (JArr js) =
     (if js = [] then [91, 93]
      else 91 # after_open l n @ join (44 # after_comma l n) (map (json_text l (n + 2)) js) @ before_close l n @ [93])"
| "json_text l n (JObj kvs) =
     (if kvs = [] then [123, 125]
      else 123 # after_open l n @
        join (44 # after_comma l n) (map (\<lambda>(k, v). json_string k @ [58, 32] @ json_text l (n + 2) v) kvs) @
        before_close l n @ [125])"
| "json_text l n j = json_dumps j"

lemma json_text_compact: "json_text Compact n j = json_dumps j"
proof (induction "Compact" n j rule: json_text.induct)
  case (1 n js)
  then have "map (json_text Compact (n + 2)) js = map json_dumps js"
    by (intro map_cong refl 1) auto
  then show ?case by (simp cong: map_cong)
next
  case (2 n kvs)
  then have "map (\<lambda>(k, v). json_string k @ [58, 32] @ json_text Compact (n + 2) v) kvs =
      map (\<lambda>(k, v). json_string k @ [58, 32] @ json_dumps v) kvs"
    by (intro map_cong refl) (use 2 in fastforce)
  then show ?case by (simp cong: map_cong)
qed simp_all

lemma json_text_indented: "json_text Indented n j = json_indented n j"
proof (induction "Indented" n j rule: json_text.induct)
  case (1 n js)
  then have "map (json_text Indented (n + 2)) js = map (json_indented (n + 2)) js"
    by (intro map_cong refl 1) auto
  then show ?case by (simp add: lit_def cong: map_cong)
next
  case (2 n kvs)
  then have "map (\<lambda>(k, v). json_string k @ [58, 32] @ json_text Indented (n + 2) v) kvs =
      map (\<lambda>(k, v). json_string k @ [58, 32] @ json_indented (n + 2) v) kvs"
    by (intro map_cong refl) (use 2 in fastforce)
  then show ?case by (simp add: lit_def cong: map_cong)
qed simp_all

definition blank :: "pystr \<Rightarrow> bool" where
  "blank s \<longleftrightarrow> (\<forall>c \<in> set s. c = 32 \<or> c = 10)"

lemma blank_layout: "blank (after_open l n)" "blank (after_comma l n)" "blank (before_close l n)"
  by (cases l; auto simp: blank_def new_line_def)+

lemma skip_blank: "blank w \<Longrightarrow> skip_ws (w @ s) = skip_ws s"
  by (induction w) (auto simp: blank_def skip_ws_def)

lemma ends_blank: "blank w \<Longrightarrow> c \<in> {44, 93, 125} \<Longrightarrow> ends_value (w @ c # r)"
  by (cases w) (auto simp: ends_value_def blank_def)

lemma skip_close: "c \<in> {44, 93, 125, 58} \<Longrightarrow> skip_ws (c # r) = c # r"
  by (auto simp: skip_ws_def)

lemma text_starts: "json_ok j \<Longrightarrow> starts_value (json_text l n j)"
proof (cases j)
  case (JInt n)
  have "48 \<le> hd (dec_digits \<bar>n\<bar>) \<and> hd (dec_digits \<bar>n\<bar>) \<le> 57"
    by (rule dec_digits_range [OF _ hd_in_set]) simp_all
  with JInt show ?thesis
    by (auto simp: starts_value_def py_str_def abs_if split: if_splits)
qed (auto simp: starts_value_def lit_def json_string_def)

text \<open>Elements and members between separators of white space, read back one by one.\<close>

lemma parse_elements_join:
  assumes "\<forall>j \<in> set js. \<forall>n r. json_size j \<le> n \<longrightarrow> ends_value r \<longrightarrow> parse_value n (p j @ r) = Some (j, r)"
    and "\<forall>j \<in> set js. starts_value (p j)" "blank b" "blank w"
    and "js \<noteq> []" "sum_list (map (\<lambda>j. 1 + json_size j) js) \<le> n"
  shows "parse_elements n (join (44 # b) (map p js) @ w @ 93 # r) = Some (js, r)"
  using assms
proof (induction js arbitrary: n)
  case (Cons j js)
  then obtain k where n: "n = Suc k" "json_size j \<le> k" "sum_list (map (\<lambda>j. 1 + json_size j) js) \<le> k"
    by (cases n) auto
  show ?case
  proof (cases js)
    case Nil
    have "parse_value k (p j @ w @ 93 # r) = Some (j, w @ 93 # r)"
      using Cons.prems n ends_blank [OF Cons.prems(4)] by simp
    with Nil n show ?thesis
      by (simp add: skip_blank [OF Cons.prems(4)] skip_close expect_def)
  next
    case (Cons j' js')
    define rest where "rest = join (44 # b) (map p js) @ w @ 93 # r"
    have "starts_value (p j')" using Cons.prems(2) Cons by simp
    then have st: "starts_value rest"
      using Cons by (cases js') (simp_all add: rest_def)
    have "parse_elements k rest = Some (js, r)"
      unfolding rest_def by (rule Cons.IH) (use Cons.prems n Cons in auto)
    moreover have "parse_value k (p j @ 44 # b @ rest) = Some (j, 44 # b @ rest)"
      using Cons.prems n by (simp add: ends_value_def)
    moreover have "skip_ws (b @ rest) = rest"
      using st by (simp add: skip_blank [OF Cons.prems(3)])
    moreover have "join (44 # b) (map p (j # js)) @ w @ 93 # r = p j @ 44 # b @ rest"
      using Cons by (simp add: rest_def)
    ultimately show ?thesis
      using n by (simp add: skip_close expect_def)
  qed
qed simp

lemma parse_members_join:
  assumes "\<forall>(k, j) \<in> set kvs. \<forall>n r. json_size j \<le> n \<longrightarrow> ends_value r \<longrightarrow> parse_value n (p j @ r) = Some (j, r)"
    and "\<forall>(k, j) \<in> set kvs. text_ok k \<and> starts_value (p j)" "blank b" "blank w"
    and "kvs \<noteq> []" "sum_list (map (\<lambda>(k, j). 1 + json_size j) kvs) \<le> n"
  shows "parse_members n (join (44 # b) (map (\<lambda>(k, v). json_string k @ [58, 32] @ p v) kvs) @ w @ 125 # r) =
    Some (kvs, r)"
  using assms
proof (induction kvs arbitrary: n)
  case (Cons kv kvs)
  obtain key j where kv: "kv = (key, j)" by force
  with Cons.prems obtain k where n: "n = Suc k" "json_size j \<le> k"
      "sum_list (map (\<lambda>(k, j). 1 + json_size j) kvs) \<le> k"
    by (cases n) auto
  define written where "written = (\<lambda>kvs. join (44 # b) (map (\<lambda>(k, v). json_string k @ [58, 32] @ p v) kvs))"
  have key: "\<forall>c \<in> set key. 0 \<le> c" and st: "starts_value (p j @ s)" for s
    using Cons.prems(2) kv by (auto simp: text_ok_def)
  have sp: "skip_ws (32 # p j @ s) = p j @ s" for s
    using starts_value_skip [OF st [of s]] by (simp add: skip_ws_def)
  have pv: "ends_value s \<Longrightarrow> parse_value k (p j @ s) = Some (j, s)" for s
    using Cons.prems(1) kv n by auto
  show ?case
  proof (cases kvs)
    case Nil
    obtain t where t: "json_string key @ 58 # 32 # p j @ w @ 125 # r = 34 # t"
        "parse_string (length t) t = Some (key, 58 # 32 # p j @ w @ 125 # r)"
      using parse_quoted [OF key] by blast
    have "parse_value k (p j @ w @ 125 # r) = Some (j, w @ 125 # r)"
      by (rule pv) (simp add: ends_blank [OF Cons.prems(4)])
    with Nil n kv t sp show ?thesis
      by (simp add: skip_blank [OF Cons.prems(4)] skip_close expect_def)
  next
    case (Cons kv' kvs')
    define rest where "rest = written kvs @ w @ 125 # r"
    obtain t where t: "json_string key @ 58 # 32 # p j @ 44 # b @ rest = 34 # t"
        "parse_string (length t) t = Some (key, 58 # 32 # p j @ 44 # b @ rest)"
      using parse_quoted [OF key] by blast
    have str: "starts_value rest"
      using Cons by (cases kvs') (auto simp: rest_def written_def json_string_def starts_value_def split: prod.splits)
    have "parse_value k (p j @ 44 # b @ rest) = Some (j, 44 # b @ rest)"
      by (rule pv) (simp add: ends_value_def)
    moreover have "parse_members k rest = Some (kvs, r)"
      unfolding rest_def written_def by (rule Cons.IH) (use Cons.prems n Cons in auto)
    moreover have eq: "join (44 # b) (map (\<lambda>(k, v). json_string k @ [58, 32] @ p v) (kv # kvs)) @ w @ 125 # r = 34 # t"
      using Cons kv t(1) by (simp add: written_def rest_def)
    moreover have "skip_ws (b @ rest) = rest"
      using str by (simp add: skip_blank [OF Cons.prems(3)])
    ultimately show ?thesis
      unfolding eq n(1) using kv t(2) sp by (simp add: skip_close expect_def)
  qed
qed simp

lemma parse_text:
  "json_ok j \<Longrightarrow> json_size j \<le> n \<Longrightarrow> ends_value r \<Longrightarrow> parse_value n (json_text l d j @ r) = Some (j, r)"
proof (induction j arbitrary: d n r rule: json.induct)
  case JNull
  then show ?case by (cases n) (simp_all add: parse_atom_word lit_def flip: parse_atom_word)
next
  case (JBool b)
  then show ?case by (cases n; cases b) (simp_all add: lit_def flip: parse_atom_word)
next
  case (JInt i)
  obtain c t where ct: "py_str i @ r = c # t" "c \<noteq> 34" "c \<noteq> 123" "c \<noteq> 91"
  proof -
    have "48 \<le> hd (dec_digits \<bar>i\<bar>) \<and> hd (dec_digits \<bar>i\<bar>) \<le> 57"
      by (rule dec_digits_range [OF _ hd_in_set]) simp_all
    then show ?thesis
      by (intro that [of "hd (py_str i @ r)" "tl (py_str i @ r)"])
        (auto simp: py_str_def abs_if split: if_splits)
  qed
  with JInt show ?case
    using parse_atom_int [of r i] by (cases n) simp_all
next
  case (JReal t)
  then show ?case by simp
next
  case (JStr s)
  then obtain t where "json_string s @ r = 34 # t" "parse_string (length t) t = Some (s, r)"
    using parse_quoted [of s r] by (auto simp: text_ok_def)
  with JStr show ?case by (cases n) simp_all
next
  case (JArr js)
  then obtain k where n: "n = Suc k" "sum_list (map (\<lambda>j. 1 + json_size j) js) \<le> k"
    by (cases n) auto
  show ?case
  proof (cases js)
    case Nil
    with n show ?thesis by (simp add: skip_close expect_def)
  next
    case (Cons j js')
    define inner where "inner = join (44 # after_comma l d) (map (json_text l (d + 2)) js) @ before_close l d @ 93 # r"
    have starts: "\<forall>j \<in> set js. starts_value (json_text l (d + 2) j)"
      using JArr.prems(1) text_starts by (simp add: list_all_iff)
    have "parse_elements k inner = Some (js, r)"
      unfolding inner_def by (rule parse_elements_join) (use JArr starts n Cons blank_layout in \<open>auto simp: list_all_iff\<close>)
    moreover have "starts_value inner"
      using Cons starts by (cases js') (auto simp: inner_def)
    ultimately show ?thesis
      using n Cons skip_blank [OF blank_layout(1), of l d inner] by (simp add: inner_def)
  qed
next
  case (JObj kvs)
  then obtain k where n: "n = Suc k" "sum_list (map (\<lambda>(k, j). 1 + json_size j) kvs) \<le> k"
    by (cases n) auto
  show ?case
  proof (cases kvs)
    case Nil
    with n show ?thesis by (simp add: skip_close expect_def)
  next
    case (Cons kv kvs')
    define inner where "inner =
      join (44 # after_comma l d) (map (\<lambda>(k, v). json_string k @ [58, 32] @ json_text l (d + 2) v) kvs) @ before_close l d @ 125 # r"
    have ok: "\<forall>(k, j) \<in> set kvs. text_ok k \<and> json_ok j" and dist: "distinct (map fst kvs)"
      using JObj.prems(1) by (auto simp: list_all_iff)
    then have starts: "\<forall>(k, j) \<in> set kvs. text_ok k \<and> starts_value (json_text l (d + 2) j)"
      using text_starts by fast
    have "parse_members k inner = Some (kvs, r)"
      unfolding inner_def
      by (rule parse_members_join [OF _ starts blank_layout(2,3)]) (use JObj ok n Cons in fastforce)+
    moreover have "starts_value inner"
      using Cons by (cases kvs') (auto simp: inner_def json_string_def starts_value_def split: prod.splits)
    ultimately show ?thesis
      using n Cons skip_blank [OF blank_layout(1), of l d inner] dict_of_distinct [OF dist] by (simp add: inner_def)
  qed
qed

lemma json_size_length: "json_ok j \<Longrightarrow> json_size j \<le> length (json_text l d j)"
proof (induction j arbitrary: d rule: json.induct)
  case (JArr js)
  have "sum_list (map (\<lambda>j. 1 + json_size j) js) + 1 \<le>
      length (join (44 # after_comma l d) (map (json_text l (d + 2)) js)) + 2"
    using JArr
  proof (induction js)
    case (Cons j js)
    then have "sum_list (map (\<lambda>j. 1 + json_size j) js) + 1 \<le>
        length (join (44 # after_comma l d) (map (json_text l (d + 2)) js)) + 2"
        "json_size j \<le> length (json_text l (d + 2) j)"
      by auto
    then show ?case by (cases js) auto
  qed simp
  then show ?case by simp
next
  case (JObj kvs)
  let ?written = "\<lambda>kvs. join (44 # after_comma l d) (map (\<lambda>(k, v). json_string k @ [58, 32] @ json_text l (d + 2) v) kvs)"
  have "list_all (\<lambda>(k, v). json_size v \<le> length (json_text l (d + 2) v)) kvs"
    using JObj by (auto simp: list_all_iff)
  then have "sum_list (map (\<lambda>(k, v). 1 + json_size v) kvs) + 1 \<le> length (?written kvs) + 2"
  proof (induction kvs)
    case (Cons kv kvs)
    then have "sum_list (map (\<lambda>(k, v). 1 + json_size v) kvs) + 1 \<le> length (?written kvs) + 2"
      by simp
    with Cons.prems show ?case by (cases kvs) auto
  qed simp
  then show ?case by simp
qed (auto simp: lit_def json_string_def py_str_def Suc_le_eq)

lemma loads_text:
  assumes ok: "json_ok j" and w: "blank w"
  shows "json_loads (json_text l d j @ w) = Some j"
proof -
  let ?s = "json_text l d j"
  have st: "starts_value ?s" by (rule text_starts [OF ok])
  have "hd ?s \<noteq> 65279"
    using ok
  proof (cases j)
    case (JInt n)
    have "hd (dec_digits \<bar>n\<bar>) \<le> 57"
      using dec_digits_range [OF _ hd_in_set] by simp
    with JInt show ?thesis by (auto simp: py_str_def abs_if split: if_splits)
  qed (auto simp: lit_def json_string_def)
  moreover have "?s \<noteq> []" using st by (auto simp: starts_value_def)
  ultimately have "\<not> prefix [65279] (?s @ w)"
    by (cases ?s) auto
  moreover have "parse_value (Suc (length (?s @ w))) (?s @ w) = Some (j, w)"
    by (rule parse_text [OF ok]) (use json_size_length [OF ok, of l d] w in \<open>auto simp: ends_value_def blank_def neq_Nil_conv\<close>)
  moreover have "skip_ws w = []"
    using skip_blank [OF w, of "[]"] by (simp add: skip_ws_def)
  ultimately show ?thesis
    using st by (simp add: json_loads_def del: parse_value.simps)
qed

lemma loads_dumps: "json_ok j \<Longrightarrow> json_loads (json_dumps j) = Some j"
  using loads_text [of j "[]" Compact 0] by (simp add: json_text_compact blank_def)

lemma loads_indented: "json_ok j \<Longrightarrow> json_loads (json_indented n j @ [10]) = Some j"
  using loads_text [of j "[10]" Indented n] by (simp add: json_text_indented blank_def)

lemma text_ok_lit [simp]: "text_ok (lit s)"
proof -
  have "(0::int) \<le> of_char c" for c
    by (metis of_nat_of_char of_nat_0_le_iff)
  then show ?thesis by (simp add: text_ok_def lit_def)
qed

lemma text_ok_append [simp]: "text_ok (s @ t) \<longleftrightarrow> text_ok s \<and> text_ok t"
  by (auto simp: text_ok_def)

lemma text_ok_Nil [simp]: "text_ok []"
  by (simp add: text_ok_def)

lemma text_ok_Cons [simp]: "text_ok (c # s) \<longleftrightarrow> 0 \<le> c \<and> text_ok s"
  by (auto simp: text_ok_def)

end
