(* ===== verification/Py_Float.thy ===== *)
theory Py_Float
  imports Py_Prelude Complex_Main
begin

text \<open>
  Python's float: an IEEE 754 binary64 value, as a sum of the not-a-number, the infinities and the
  finite values \<open>m * 2 ^ e\<close>. \<open>round64\<close> rounds a ratio of integers to the nearest value (ties to
  even), which is what \<open>float(s)\<close>, the product of two floats and the quotient of two ints do. The
  sign of zero is not kept: no operation the sources use tells it.
\<close>

subsection \<open>Values and comparisons\<close>

datatype pyfloat = Float_nan | Float_inf bool | Float int int

text \<open>\<open>Float_inf True\<close> is the negative infinity. \<open>scaled\<close> brings a finite value to exponent \<open>f\<close>.\<close>

definition scaled :: "int \<Rightarrow> int \<Rightarrow> int \<Rightarrow> int" where
  "scaled m e f = m * 2 ^ nat (e - f)"

fun float_le :: "pyfloat \<Rightarrow> pyfloat \<Rightarrow> bool" where
  "float_le Float_nan y = False"
| "float_le x Float_nan = False"
| "float_le (Float_inf s) (Float_inf t) = (s \<or> \<not> t)"
| "float_le (Float_inf s) (Float m e) = s"
| "float_le (Float m e) (Float_inf t) = (\<not> t)"
| "float_le (Float m e) (Float n f) = (scaled m e (min e f) \<le> scaled n f (min e f))"

definition float_lt :: "pyfloat \<Rightarrow> pyfloat \<Rightarrow> bool" where
  "float_lt x y \<longleftrightarrow> x \<noteq> Float_nan \<and> y \<noteq> Float_nan \<and> \<not> float_le y x"

text \<open>\<open>max(x, y)\<close>: the first argument unless the second is greater.\<close>

definition float_max :: "pyfloat \<Rightarrow> pyfloat \<Rightarrow> pyfloat" where
  "float_max x y = (if float_lt x y then y else x)"

subsection \<open>Rounding\<close>

fun bit_length :: "int \<Rightarrow> int" where
  "bit_length n = (if n \<le> 0 then 0 else 1 + bit_length (n div 2))"

declare bit_length.simps [simp del]

text \<open>\<open>p / q\<close> to the nearest integer, ties to even (\<open>q\<close> positive).\<close>

definition round_half_even :: "int \<Rightarrow> int \<Rightarrow> int" where
  "round_half_even p q =
     (let k = p div q; r = p mod q in
      if 2 * r < q then k else if q < 2 * r then k + 1 else if even k then k else k + 1)"

text \<open>\<open>p * 2 ^ - e / q\<close> as a ratio of integers.\<close>

definition shifted :: "int \<Rightarrow> int \<Rightarrow> int \<Rightarrow> int \<times> int" where
  "shifted p q e = (if e \<le> 0 then (p * 2 ^ nat (- e), q) else (p, q * 2 ^ nat e))"

text \<open>
  The exponent of the unit in the last place of \<open>p / q\<close>, both positive: 53 significant bits, or the
  fixed exponent -1074 of the subnormal numbers.
\<close>

definition ulp_exponent :: "int \<Rightarrow> int \<Rightarrow> int" where
  "ulp_exponent p q =
     (let e = bit_length p - bit_length q - 53;
          (a, b) = shifted p q e in
      max (if a < 2 ^ 53 * b then e else e + 1) (- 1074))"

definition round_pos :: "int \<Rightarrow> int \<Rightarrow> int \<times> int" where
  "round_pos p q =
     (let e = ulp_exponent p q; (a, b) = shifted p q e in (round_half_even a b, e))"

definition round64 :: "int \<Rightarrow> int \<Rightarrow> pyfloat" where
  "round64 p q =
     (if p = 0 then Float 0 0
      else let (m, e) = round_pos (abs p) q in
           if 971 < e \<or> e = 971 \<and> 2 ^ 53 \<le> m then Float_inf (p < 0)
           else Float (if p < 0 then - m else m) e)"

text \<open>A product with an int, and the quotient \<open>n / d\<close> of two ints.\<close>

fun float_times :: "pyfloat \<Rightarrow> int \<Rightarrow> pyfloat" where
  "float_times Float_nan k = Float_nan"
| "float_times (Float_inf s) k =
     (if k = 0 then Float_nan else Float_inf (if 0 < k then s else \<not> s))"
| "float_times (Float m e) k =
     (if e \<le> 0 then round64 (m * k) (2 ^ nat (- e)) else round64 (m * k * 2 ^ nat e) 1)"

declare scaled_def [py_eval] float_lt_def [py_eval] float_max_def [py_eval]
  round_half_even_def [py_eval] shifted_def [py_eval] ulp_exponent_def [py_eval]
  round_pos_def [py_eval] round64_def [py_eval]

subsection \<open>Parsing\<close>

text \<open>A run of digits with single underscores between them, without the underscores, and the rest.\<close>

fun digits_after :: "pystr \<Rightarrow> pystr \<times> pystr" where
  "digits_after [] = ([], [])"
| "digits_after (c # cs) =
     (if is_digit c then apfst (Cons c) (digits_after cs)
      else if c = 95 \<and> cs \<noteq> [] \<and> is_digit (hd cs) then digits_after cs
      else ([], c # cs))"

definition take_digits :: "pystr \<Rightarrow> pystr \<times> pystr" where
  "take_digits s = (if s \<noteq> [] \<and> is_digit (hd s) then digits_after s else ([], s))"

text \<open>An exponent suffix: its value and that nothing follows.\<close>

definition exponent_suffix :: "pystr \<Rightarrow> int option" where
  "exponent_suffix s =
     (case s of
        [] \<Rightarrow> Some 0
      | c # r \<Rightarrow>
          if c \<noteq> 101 \<and> c \<noteq> 69 then None
          else let neg = (r \<noteq> [] \<and> hd r = 45);
                   r' = (if r \<noteq> [] \<and> (hd r = 45 \<or> hd r = 43) then tl r else r);
                   (ds, rest) = take_digits r' in
               if ds = [] \<or> rest \<noteq> [] then None
               else Some (if neg then - digits_value 0 ds else digits_value 0 ds))"

definition unsigned_float :: "bool \<Rightarrow> pystr \<Rightarrow> pyfloat option" where
  "unsigned_float neg s =
     (if ascii_lower s \<in> {lit ''inf'', lit ''infinity''} then Some (Float_inf neg)
      else if ascii_lower s = lit ''nan'' then Some Float_nan
      else let (ip, r) = take_digits s;
               (fp, r) = (if r \<noteq> [] \<and> hd r = 46 then take_digits (tl r) else ([], r)) in
           if ip @ fp = [] then None
           else case exponent_suffix r of
                  None \<Rightarrow> None
                | Some x \<Rightarrow>
                    let m = (if neg then -1 else 1) * digits_value 0 (ip @ fp);
                        e = x - int (length fp) in
                    Some (if 0 \<le> e then round64 (m * 10 ^ nat e) 1
                          else round64 m (10 ^ nat (- e))))"

text \<open>\<open>float(s)\<close>; \<open>None\<close> is ValueError.\<close>

definition py_float :: "pystr \<Rightarrow> pyfloat option" where
  "py_float s =
     (case strip s of
        [] \<Rightarrow> None
      | c # cs \<Rightarrow>
          if c = 45 then unsigned_float True cs
          else if c = 43 then unsigned_float False cs
          else unsigned_float False (c # cs))"

declare take_digits_def [py_eval] exponent_suffix_def [py_eval]
  unsigned_float_def [py_eval] py_float_def [py_eval]

subsection \<open>The value of a float, and the rounding error\<close>

lemma bit_length_bounds:
  "0 < n \<Longrightarrow> 0 < bit_length n \<and> 2 ^ nat (bit_length n - 1) \<le> n \<and> n < 2 ^ nat (bit_length n)"
proof (induction n rule: bit_length.induct)
  case (1 n)
  show ?case
  proof (cases "n = 1")
    case True
    then show ?thesis by (simp add: bit_length.simps)
  next
    case False
    let ?b = "bit_length (n div 2)"
    have IH: "0 < ?b" "2 ^ nat (?b - 1) \<le> n div 2" "n div 2 < 2 ^ nat ?b"
      using 1 False by auto
    have eq: "bit_length n = 1 + ?b"
      using 1 by (subst bit_length.simps) simp
    have s1: "(2::int) ^ nat (1 + ?b) = 2 * 2 ^ nat ?b"
      using IH(1) by (simp add: nat_add_distrib)
    have "nat ?b = Suc (nat (?b - 1))"
      using IH(1) by simp
    then have s2: "(2::int) ^ nat ?b = 2 * 2 ^ nat (?b - 1)"
      by simp
    have "2 ^ nat ?b \<le> n" "n < 2 * 2 ^ nat ?b"
      using IH(2,3) unfolding s2 by linarith+
    then show ?thesis
      using IH(1) s1 by (simp add: eq)
  qed
qed

lemma round_half_even_error:
  assumes "0 < q"
  shows "2 * abs (round_half_even p q * q - p) \<le> q"
proof -
  define k where "k = p div q"
  define m where "m = p mod q"
  have p: "p = k * q + m" and m: "0 \<le> m" "m < q"
    using assms by (simp_all add: k_def m_def)
  have "round_half_even p q = k \<and> 2 * m \<le> q \<or> round_half_even p q = k + 1 \<and> q \<le> 2 * m"
    by (auto simp: round_half_even_def Let_def k_def m_def)
  then have "round_half_even p q * q - p = - m \<and> 2 * m \<le> q \<or>
      round_half_even p q * q - p = q - m \<and> q \<le> 2 * m"
    by (elim disj_forward conj_forward) (simp_all add: p distrib_right)
  with m show ?thesis by (elim disjE conjE) simp_all
qed

definition pow2 :: "int \<Rightarrow> real" where
  "pow2 e = 2 powi e"

lemma pow2_pos [simp]: "0 < pow2 e"
  by (simp add: pow2_def)

lemma pow2_add: "pow2 (a + b) = pow2 a * pow2 b"
  by (simp add: pow2_def power_int_add)

lemma pow2_nat: "0 \<le> e \<Longrightarrow> pow2 e = 2 ^ nat e"
  by (simp add: pow2_def power_int_def)

lemma pow2_mono: "a \<le> b \<Longrightarrow> pow2 a \<le> pow2 b"
  by (simp add: pow2_def power_int_increasing)

lemma pow2_neg: "pow2 (- e) = 1 / pow2 e"
  by (simp add: pow2_def power_int_minus divide_inverse)

fun fval :: "pyfloat \<Rightarrow> real" where
  "fval (Float m e) = of_int m * pow2 e"
| "fval _ = 0"

lemma scaled_val: "f \<le> e \<Longrightarrow> real_of_int (scaled m e f) * pow2 f = of_int m * pow2 e"
proof -
  assume "f \<le> e"
  then have "pow2 e = 2 ^ nat (e - f) * pow2 f"
    using pow2_add [of "e - f" f] by (simp add: pow2_nat)
  then show ?thesis by (simp add: scaled_def)
qed

lemma float_le_val: "float_le (Float m e) (Float n f) \<longleftrightarrow> fval (Float m e) \<le> fval (Float n f)"
proof -
  let ?k = "min e f"
  have "float_le (Float m e) (Float n f) \<longleftrightarrow>
      real_of_int (scaled m e ?k) * pow2 ?k \<le> real_of_int (scaled n f ?k) * pow2 ?k"
    by (simp only: float_le.simps mult_le_cancel_right_pos [OF pow2_pos] of_int_le_iff)
  then show ?thesis by (simp add: scaled_val)
qed

lemma shifted_val:
  assumes "shifted p q e = (a, b)" "0 < q"
  shows "0 < b" "real_of_int a = of_int p / of_int q * pow2 (- e) * of_int b"
proof -
  show "0 < b" using assms by (auto simp: shifted_def split: if_splits)
  show "real_of_int a = of_int p / of_int q * pow2 (- e) * of_int b"
  proof (cases "e \<le> 0")
    case True
    then show ?thesis using assms by (auto simp: shifted_def pow2_nat)
  next
    case False
    then have "pow2 (- e) = 1 / 2 ^ nat e" by (simp add: pow2_neg pow2_nat)
    then show ?thesis using assms False by (auto simp: shifted_def)
  qed
qed

lemma ratio_bound:
  "2 ^ k \<le> n \<longleftrightarrow> 2 ^ k \<le> real_of_int n" "n < 2 ^ k \<longleftrightarrow> real_of_int n < 2 ^ k"
  by (metis of_int_le_iff of_int_numeral of_int_power)
    (metis of_int_less_iff of_int_numeral of_int_power)

lemma bit_length_val:
  assumes "0 < n"
  shows "pow2 (bit_length n - 1) \<le> of_int n" "of_int n < pow2 (bit_length n)"
proof -
  have "0 \<le> bit_length n - 1" "0 \<le> bit_length n"
    using bit_length_bounds [OF assms] by linarith+
  then have *: "pow2 (bit_length n - 1) = 2 ^ nat (bit_length n - 1)"
      "pow2 (bit_length n) = 2 ^ nat (bit_length n)"
    by (simp_all only: pow2_nat)
  show "pow2 (bit_length n - 1) \<le> of_int n" "of_int n < pow2 (bit_length n)"
    using bit_length_bounds [OF assms] unfolding * by (simp_all only: ratio_bound)
qed

lemma ratio_bounds:
  fixes p q :: int
  assumes "0 < p" "0 < q" and e: "e = bit_length p - bit_length q - 53"
  shows "pow2 (e + 52) \<le> of_int p / of_int q" "of_int p / of_int q < pow2 (e + 54)"
proof -
  note pl = bit_length_val [OF assms(1)] and ql = bit_length_val [OF assms(2)]
  have q: "0 < real_of_int q" using assms by (simp only: of_int_0_less_iff)
  have "e + 54 + (bit_length q - 1) = bit_length p" using e by linarith
  then have "of_int p < pow2 (e + 54) * pow2 (bit_length q - 1)"
    using pl(2) by (simp only: pow2_add [symmetric])
  also have "\<dots> \<le> pow2 (e + 54) * of_int q"
    by (rule mult_left_mono [OF ql(1)]) (rule less_imp_le [OF pow2_pos])
  finally show "of_int p / of_int q < pow2 (e + 54)"
    using q by (simp only: divide_less_eq if_True)
  have eq: "e + 52 + bit_length q = bit_length p - 1" using e by linarith
  have "pow2 (e + 52) * of_int q \<le> pow2 (e + 52) * pow2 (bit_length q)"
    by (rule mult_left_mono [OF less_imp_le [OF ql(2)]]) (rule less_imp_le [OF pow2_pos])
  also have "\<dots> = pow2 (bit_length p - 1)"
    by (simp only: pow2_add [symmetric] eq)
  also have "\<dots> \<le> of_int p" by (rule pl(1))
  finally show "pow2 (e + 52) \<le> of_int p / of_int q"
    using q by (simp only: le_divide_eq if_True)
qed

lemma pow2_53: "pow2 53 = 2 ^ 53"
  by (simp add: pow2_nat)

lemma shifted_compare:
  assumes "shifted p q e = (a, b)" "0 < q"
  shows "a < 2 ^ 53 * b \<longleftrightarrow> of_int p / of_int q < pow2 (e + 53)"
proof -
  define x where "x = real_of_int p / of_int q"
  have b: "0 < real_of_int b" and a: "real_of_int a = x * pow2 (- e) * of_int b"
    using shifted_val [OF assms] by (simp_all only: x_def of_int_0_less_iff)
  have "a < 2 ^ 53 * b \<longleftrightarrow> real_of_int a < of_int (2 ^ 53 * b)"
    by (simp only: of_int_less_iff)
  also have "\<dots> \<longleftrightarrow> x * pow2 (- e) * of_int b < pow2 53 * of_int b"
    by (simp only: a of_int_mult pow2_53 of_int_power of_int_numeral)
  also have "\<dots> \<longleftrightarrow> x * pow2 (- e) < pow2 53"
    by (rule mult_less_cancel_right_pos [OF b])
  also have "\<dots> \<longleftrightarrow> x < pow2 53 * pow2 e"
    by (simp only: pow2_neg divide_less_eq pow2_pos if_True times_divide_eq_right mult_1_right)
  also have "pow2 53 * pow2 e = pow2 (e + 53)"
    by (simp only: pow2_add mult.commute)
  finally show ?thesis by (simp only: x_def)
qed

lemma ulp_exponent_bounds:
  assumes "0 < p" "0 < q"
  shows "- 1074 \<le> ulp_exponent p q"
    "of_int p / of_int q < pow2 (ulp_exponent p q + 53)"
    "- 1074 < ulp_exponent p q \<Longrightarrow> pow2 (ulp_exponent p q + 52) \<le> of_int p / of_int q"
proof -
  define e where "e = bit_length p - bit_length q - 53"
  obtain a b where ab: "shifted p q e = (a, b)" by force
  define f where "f = (if a < 2 ^ 53 * b then e else e + 1)"
  have u: "ulp_exponent p q = max f (- 1074)"
    by (simp only: ulp_exponent_def Let_def ab f_def e_def [symmetric] prod.case)
  have fl: "pow2 (f + 52) \<le> of_int p / of_int q \<and> of_int p / of_int q < pow2 (f + 53)"
  proof (cases "a < 2 ^ 53 * b")
    case True
    then have "f = e" by (simp only: f_def if_True)
    with True show ?thesis
      using shifted_compare [OF ab assms(2)] ratio_bounds [OF assms e_def] by (simp only: conj_absorb)
  next
    case False
    then have "f + 52 = e + 53" "f + 53 = e + 54" by (simp_all only: f_def if_False)
    with False show ?thesis
      using shifted_compare [OF ab assms(2)] ratio_bounds [OF assms e_def] by (simp only: not_less)
  qed
  show "- 1074 \<le> ulp_exponent p q" by (simp only: u max.cobounded2)
  have "pow2 (f + 53) \<le> pow2 (ulp_exponent p q + 53)"
    by (rule pow2_mono) (simp only: u add_le_cancel_right max.cobounded1)
  with fl show "of_int p / of_int q < pow2 (ulp_exponent p q + 53)"
    by (elim conjE) (rule less_le_trans)
  assume "- 1074 < ulp_exponent p q"
  then have "ulp_exponent p q = f" using u by linarith
  with fl show "pow2 (ulp_exponent p q + 52) \<le> of_int p / of_int q" by (simp only:)
qed

lemma round_pos_error:
  assumes "0 < p" "0 < q" "round_pos p q = (m, e)"
  shows "\<bar>of_int m * pow2 e - of_int p / of_int q\<bar> \<le> pow2 (e - 1)" "e = ulp_exponent p q"
proof -
  obtain a b where ab: "shifted p q (ulp_exponent p q) = (a, b)" by force
  have e: "e = ulp_exponent p q" and m: "m = round_half_even a b"
    using assms(3) by (auto simp: round_pos_def ab)
  have b: "0 < b" and a: "real_of_int a = of_int p / of_int q * pow2 (- e) * of_int b"
    using shifted_val [OF ab assms(2)] by (simp_all add: e)
  have "real_of_int (2 * \<bar>m * b - a\<bar>) \<le> of_int b"
    using round_half_even_error [OF b, of a] by (simp only: m of_int_le_iff)
  then have "2 * \<bar>(of_int m - of_int p / of_int q * pow2 (- e)) * of_int b\<bar> \<le> of_int b"
    by (simp add: a algebra_simps)
  then have *: "2 * \<bar>of_int m - of_int p / of_int q * pow2 (- e)\<bar> \<le> 1"
    using b by (simp add: abs_mult)
  have "of_int m * pow2 e - of_int p / of_int q =
      (of_int m - of_int p / of_int q * pow2 (- e)) * pow2 e"
    using pow2_pos [of e, THEN less_imp_neq] by (simp add: left_diff_distrib pow2_neg)
  then have "\<bar>of_int m * pow2 e - of_int p / of_int q\<bar> =
      \<bar>of_int m - of_int p / of_int q * pow2 (- e)\<bar> * pow2 e"
    by (simp add: abs_mult less_imp_le abs_of_pos)
  also have "\<dots> \<le> 1 / 2 * pow2 e"
    using * by (intro mult_right_mono) (auto simp: less_imp_le)
  also have "1 / 2 * pow2 e = pow2 (e - 1)"
    using pow2_add [of "e - 1" 1] by (simp add: pow2_nat)
  finally show "\<bar>of_int m * pow2 e - of_int p / of_int q\<bar> \<le> pow2 (e - 1)" .
  show "e = ulp_exponent p q" by (rule e)
qed

text \<open>
  The relative error: one rounding moves a positive value by at most one part in \<open>2 ^ 53\<close>, or by
  half the least subnormal.
\<close>

lemma round_pos_relative:
  assumes "0 < p" "0 < q" "round_pos p q = (m, e)"
  shows "of_int p / of_int q - max (of_int p / of_int q / 2 ^ 53) (pow2 (- 1075))
    \<le> of_int m * pow2 e"
proof -
  define x where "x = real_of_int p / of_int q"
  have err: "x - pow2 (e - 1) \<le> of_int m * pow2 e" and e: "e = ulp_exponent p q"
    using round_pos_error [OF assms] by (simp_all only: x_def abs_le_iff) linarith
  have "pow2 (e - 1) \<le> max (x / 2 ^ 53) (pow2 (- 1075))"
  proof (cases "e = - 1074")
    case True
    then show ?thesis by simp
  next
    case False
    then have "- 1074 < ulp_exponent p q"
      using ulp_exponent_bounds(1) [OF assms(1,2)] e by simp
    then have "pow2 (e + 52) \<le> x"
      using ulp_exponent_bounds(3) [OF assms(1,2)] by (simp only: x_def e)
    moreover have "pow2 (e + 52) = pow2 (e - 1) * 2 ^ 53"
      using pow2_add [of "e - 1" 53] by (simp add: pow2_nat add.commute)
    ultimately have "pow2 (e - 1) \<le> x / 2 ^ 53"
      by (simp only: pos_le_divide_eq zero_less_power zero_less_numeral)
    then show ?thesis by simp
  qed
  with err show ?thesis unfolding x_def by linarith
qed

fun float_wf :: "pyfloat \<Rightarrow> bool" where
  "float_wf (Float m e) \<longleftrightarrow> - 1074 \<le> e"
| "float_wf _ \<longleftrightarrow> True"

lemma round64_wf: "0 < q \<Longrightarrow> float_wf (round64 p q)"
  using ulp_exponent_bounds(1) [of "abs p" q]
  by (auto simp: round64_def round_pos_def Let_def split: prod.splits)

lemma round64_pos:
  assumes "0 < p" "0 < q"
  shows "round64 p q = Float_inf False \<or>
    round64 p q = (case round_pos p q of (m, e) \<Rightarrow> Float m e)"
  using assms by (auto simp: round64_def Let_def split: prod.splits)

text \<open>Multiplying a positive float by two or more never falls below it.\<close>

lemma round64_ge:
  assumes "0 < p" "0 < q" "pow2 (- 1074) \<le> x" "2 * x \<le> of_int p / of_int q"
    and "round64 p q = Float m e"
  shows "x \<le> of_int m * pow2 e"
proof -
  define r where "r = real_of_int p / of_int q"
  have "round_pos p q = (m, e)"
    using round64_pos [OF assms(1,2)] assms(5) by (auto split: prod.splits)
  then have "r - max (r / 2 ^ 53) (pow2 (- 1075)) \<le> of_int m * pow2 e"
    unfolding r_def by (rule round_pos_relative [OF assms(1,2)])
  moreover have "pow2 (- 1075) \<le> x"
    using assms(3) pow2_mono [of "- 1075" "- 1074"] by linarith
  moreover have "0 \<le> r" "2 * x \<le> r"
    using assms(1,2,4) by (simp_all add: r_def)
  ultimately show ?thesis by (cases "r / 2 ^ 53 \<le> pow2 (- 1075)") simp_all
qed

lemma float_times_ge:
  assumes "0 < m" "- 1074 \<le> e" "2 \<le> k"
  shows "float_le (Float m e) (float_times (Float m e) k)"
proof -
  let ?x = "fval (Float m e)"
  obtain p q where pq: "float_times (Float m e) k = round64 p q" "0 < p" "0 < q"
      "of_int p / of_int q = of_int k * ?x"
  proof (cases "e \<le> 0")
    case True
    then have "pow2 e = 1 / 2 ^ nat (- e)"
      using pow2_neg [of "- e"] by (simp add: pow2_nat)
    with True show ?thesis
      using assms by (intro that [of "m * k" "2 ^ nat (- e)"]) auto
  next
    case False
    then show ?thesis
      using assms by (intro that [of "m * k * 2 ^ nat e" 1]) (auto simp: pow2_nat)
  qed
  have "1 \<le> real_of_int m" using assms(1) by simp
  then have "1 * pow2 e \<le> of_int m * pow2 e"
    by (rule mult_right_mono) (rule less_imp_le [OF pow2_pos])
  then have low: "pow2 (- 1074) \<le> ?x"
    using pow2_mono [OF assms(2)] by (simp only: fval.simps mult_1_left)
  then have "2 * ?x \<le> of_int k * ?x"
    using assms(1,3) by (intro mult_right_mono) (auto simp: less_imp_le)
  then have two: "2 * ?x \<le> of_int p / of_int q" by (simp only: pq(4))
  consider "round64 p q = Float_inf False" | m' e' where "round64 p q = Float m' e'"
    using round64_pos [OF pq(2,3)] by (auto split: prod.splits)
  then show ?thesis
  proof cases
    case 1
    then show ?thesis by (simp only: pq(1) 1 float_le.simps not_False_eq_True)
  next
    case 2
    then have "?x \<le> fval (Float m' e')"
      using round64_ge [OF pq(2,3) low two] by simp
    then show ?thesis
      by (simp only: pq(1) 2 float_le_val)
  qed
qed

lemma py_float_wf: "py_float s = Some x \<Longrightarrow> float_wf x"
  by (auto simp: py_float_def unsigned_float_def Let_def round64_wf
      split: list.splits if_splits prod.splits option.splits)

end
