(* ===== verification/Ruleset.thy ===== *)
theory Ruleset
  imports Json Py_Float "HOL-Library.List_Lexorder"
begin

text \<open>
  scripts/ruleset.py: the committed branch ruleset against the one GitHub enforces. gh and git are
  processes: what they answer is a parameter, and what the rulesets API promises is stated as named
  conditions on it. A file and a response are JSON values with Python's equality, indexing and
  iteration, an exception the command does not turn into a message is a value, and the printed lines
  are constructors with the values they show. A text json.loads refuses is a JSONDecodeError; an int of
  over 4300 digits, which raises a bare ValueError, is counted with them.
\<close>

subsection \<open>Python's equality and truth of JSON values\<close>

text \<open>
  A bool is a number, a dict compares by key, and a float compares with an int by value. Inside a
  container the same object equals itself, and the only NaN the parser makes is one object.
\<close>

definition num_of :: "json \<Rightarrow> pyfloat option" where
  "num_of j =
     (case j of
        JBool b \<Rightarrow> Some (Float (if b then 1 else 0) 0)
      | JInt n \<Rightarrow> Some (Float n 0)
      | JReal t \<Rightarrow> py_float t
      | _ \<Rightarrow> None)"

definition num_eq :: "json \<Rightarrow> json \<Rightarrow> bool" where
  "num_eq a b =
     (case (num_of a, num_of b) of
        (Some x, Some y) \<Rightarrow> float_le x y \<and> float_le y x
      | _ \<Rightarrow> False)"

definition same_object :: "json \<Rightarrow> json \<Rightarrow> bool" where
  "same_object a b \<longleftrightarrow> a = JReal (lit ''NaN'') \<and> b = JReal (lit ''NaN'')"

fun py_eq :: "json \<Rightarrow> json \<Rightarrow> bool"
  and py_eq_list :: "json list \<Rightarrow> json list \<Rightarrow> bool"
  and py_eq_dict :: "(pystr \<times> json) list \<Rightarrow> (pystr \<times> json) list \<Rightarrow> bool" where
  "py_eq JNull b = (b = JNull)"
| "py_eq (JStr s) b = (b = JStr s)"
| "py_eq (JArr xs) b = (case b of JArr ys \<Rightarrow> py_eq_list xs ys | _ \<Rightarrow> False)"
| "py_eq (JObj kvs) b = (case b of JObj lvs \<Rightarrow> length kvs = length lvs \<and> py_eq_dict kvs lvs | _ \<Rightarrow> False)"
| "py_eq (JBool x) b = num_eq (JBool x) b"
| "py_eq (JInt n) b = num_eq (JInt n) b"
| "py_eq (JReal t) b = num_eq (JReal t) b"
| "py_eq_list [] ys = (ys = [])"
| "py_eq_list (x # xs) [] = False"
| "py_eq_list (x # xs) (y # ys) = ((same_object x y \<or> py_eq x y) \<and> py_eq_list xs ys)"
| "py_eq_dict [] lvs = True"
| "py_eq_dict ((k, v) # kvs) lvs =
     ((case map_of lvs k of None \<Rightarrow> False | Some w \<Rightarrow> same_object v w \<or> py_eq v w) \<and> py_eq_dict kvs lvs)"

definition truthy :: "json \<Rightarrow> bool" where
  "truthy j =
     (case j of
        JNull \<Rightarrow> False
      | JBool b \<Rightarrow> b
      | JInt n \<Rightarrow> n \<noteq> 0
      | JReal t \<Rightarrow> \<not> num_eq j (JInt 0)
      | JStr s \<Rightarrow> s \<noteq> []
      | JArr js \<Rightarrow> js \<noteq> []
      | JObj kvs \<Rightarrow> kvs \<noteq> [])"

text \<open>\<open>int(x)\<close>; \<open>None\<close> is a TypeError, a ValueError or an OverflowError.\<close>

definition float_int :: "pyfloat \<Rightarrow> int option" where
  "float_int x =
     (case x of
        Float m e \<Rightarrow> Some (if 0 \<le> e then m * 2 ^ nat e else sgn m * (\<bar>m\<bar> div 2 ^ nat (- e)))
      | _ \<Rightarrow> None)"

definition json_int :: "json \<Rightarrow> int option" where
  "json_int j =
     (case j of
        JBool b \<Rightarrow> Some (if b then 1 else 0)
      | JInt n \<Rightarrow> Some n
      | JReal t \<Rightarrow> Option.bind (py_float t) float_int
      | JStr s \<Rightarrow> py_int s
      | _ \<Rightarrow> None)"

text \<open>A value that equals itself: its keys are distinct and no number is a NaN.\<close>

fun comparable :: "json \<Rightarrow> bool" where
  "comparable (JReal t) = (case py_float t of Some x \<Rightarrow> x \<noteq> Float_nan | None \<Rightarrow> False)"
| "comparable (JArr js) = list_all comparable js"
| "comparable (JObj kvs) = (distinct (map fst kvs) \<and> list_all (\<lambda>(k, v). comparable v) kvs)"
| "comparable _ = True"

declare num_of_def [py_eval] num_eq_def [py_eval] same_object_def [py_eval] truthy_def [py_eval]
  float_int_def [py_eval] json_int_def [py_eval]

lemma float_le_refl: "x \<noteq> Float_nan \<Longrightarrow> float_le x x"
  by (cases x) auto

lemma num_eq_refl: "comparable j \<Longrightarrow> (\<exists>b. j = JBool b) \<or> (\<exists>n. j = JInt n) \<or> (\<exists>t. j = JReal t) \<Longrightarrow> num_eq j j"
  by (auto simp: num_eq_def num_of_def float_le_refl split: option.splits)

lemma py_eq_list_refl: "(\<And>x. x \<in> set xs \<Longrightarrow> py_eq x x) \<Longrightarrow> py_eq_list xs xs"
  by (induction xs) auto

lemma py_eq_dict_refl:
  "\<forall>(k, v) \<in> set kvs. map_of lvs k = Some v \<and> py_eq v v \<Longrightarrow> py_eq_dict kvs lvs"
  by (induction kvs) auto

lemma py_eq_refl: "comparable j \<Longrightarrow> py_eq j j"
proof (induction j rule: comparable.induct)
  case (2 js)
  then show ?case by (auto simp: list_all_iff intro: py_eq_list_refl)
next
  case (3 kvs)
  have "map_of kvs k = Some v \<and> py_eq v v" if "(k, v) \<in> set kvs" for k v
    using 3 that by (fastforce simp: list_all_iff)
  then show ?case by (auto intro!: py_eq_dict_refl)
qed (auto simp: num_eq_refl)

subsection \<open>What a command meets\<close>

text \<open>
  A RulesetError is a message; \<open>Uncaught\<close> is any other exception; a rule type that is not a scalar
  is rendered by \<open>repr\<close>, which the model leaves out.
\<close>

datatype ruleset_error =
    No_origin
  | No_owner_name pystr
  | Gh_missing
  | Call_failed pystr pystr pystr
  | Cannot_read pystr pystr
  | Not_valid_json pystr
  | Missing_fields pystr "pystr list"

datatype failure = Ruleset ruleset_error | Uncaught | Rule_type_repr

type_synonym 'a fallible = "failure + 'a"

datatype gh_method = Get | Post | Put

fun method_name :: "gh_method \<Rightarrow> pystr" where
  "method_name Get = lit ''GET''"
| "method_name Post = lit ''POST''"
| "method_name Put = lit ''PUT''"

text \<open>How a \<open>gh api\<close> process ends.\<close>

datatype gh_result = No_gh | Gh_failed pystr | Gh_output pystr

type_synonym 's gh = "gh_method \<Rightarrow> pystr \<Rightarrow> json option \<Rightarrow> 's \<Rightarrow> gh_result \<times> 's"

datatype file_read = Unreadable pystr | Not_utf8 | File_text pystr

datatype ruleset_line =
    Names_no_ruleset pystr json
  | Drift pystr
  | Bypass_hidden
  | Bypass_allowed json
  | Bypass_empty
  | Check_failed nat pystr pystr
  | Check_ok pystr pystr
  | Created json pystr
  | Updated json int pystr
  | Wrote pystr pystr
  | Error_line ruleset_error

record 's place =
  github :: 's
  ruleset_text :: file_read
  write_denied :: bool
  printed :: "ruleset_line list"

type_synonym ('a, 's) command = "'a fallible \<times> 's place"

definition say :: "ruleset_line \<Rightarrow> 's place \<Rightarrow> 's place" where
  "say l w = w\<lparr>printed := printed w @ [l]\<rparr>"

definition declared_fields :: "pystr list" where
  "declared_fields = [lit ''name'', lit ''target'', lit ''enforcement'', lit ''conditions'', lit ''rules'']"

definition ruleset_file :: pystr where
  "ruleset_file = lit ''.github/rulesets/main-protection.json''"

subsection \<open>The repository\<close>

text \<open>\<open>github\.com[:/](?P<repo>[^/]+/[^/]+?)(?:\.git)?$\<close> on a text with no line feed at its end.\<close>

definition without_git :: "pystr \<Rightarrow> pystr" where
  "without_git s = (if suffix (lit ''.git'') s \<and> 4 < length s then take (length s - 4) s else s)"

definition owner_name :: "pystr \<Rightarrow> pystr option" where
  "owner_name s =
     (case split_on 47 s of
        [owner, name] \<Rightarrow> if owner \<noteq> [] \<and> name \<noteq> [] then Some (owner @ 47 # without_git name) else None
      | _ \<Rightarrow> None)"

definition match_remote :: "pystr \<Rightarrow> pystr option" where
  "match_remote s =
     (case strip_prefix (lit ''github.com'') s of
        Some (c # r) \<Rightarrow> if c = 58 \<or> c = 47 then owner_name r else None
      | _ \<Rightarrow> None)"

fun search_remote :: "pystr \<Rightarrow> pystr option" where
  "search_remote [] = None"
| "search_remote (c # s) =
     (case match_remote (c # s) of Some r \<Rightarrow> Some r | None \<Rightarrow> search_remote s)"

text \<open>The environment variable, then what \<open>git remote get-url origin\<close> prints when it succeeds.\<close>

definition repository :: "pystr option \<Rightarrow> pystr option \<Rightarrow> pystr fallible" where
  "repository actions origin =
     (let from_actions = strip (case actions of Some v \<Rightarrow> v | None \<Rightarrow> []) in
      if from_actions \<noteq> [] then Inr from_actions
      else case origin of
            None \<Rightarrow> Inl (Ruleset No_origin)
          | Some out \<Rightarrow>
              (case search_remote (strip out) of
                 None \<Rightarrow> Inl (Ruleset (No_owner_name (strip out)))
               | Some r \<Rightarrow> Inr r))"

subsection \<open>Reading a value\<close>

definition type_key :: pystr where "type_key = lit ''type''"
definition name_key :: pystr where "name_key = lit ''name''"
definition rules_key :: pystr where "rules_key = lit ''rules''"
definition parameters_key :: pystr where "parameters_key = lit ''parameters''"
definition bypass_key :: pystr where "bypass_key = lit ''bypass_actors''"

text \<open>\<open>k in j\<close>: a key of a dict, an element of a list, a part of a string.\<close>

definition contains :: "json \<Rightarrow> pystr \<Rightarrow> bool fallible" where
  "contains j k =
     (case j of
        JObj kvs \<Rightarrow> Inr (map_of kvs k \<noteq> None)
      | JArr js \<Rightarrow> Inr (JStr k \<in> set js)
      | JStr s \<Rightarrow> Inr (sublist k s)
      | _ \<Rightarrow> Inl Uncaught)"

text \<open>\<open>j[k]\<close> for a string key: KeyError and TypeError are uncaught.\<close>

definition item :: "json \<Rightarrow> pystr \<Rightarrow> json fallible" where
  "item j k =
     (case j of
        JObj kvs \<Rightarrow> (case map_of kvs k of Some v \<Rightarrow> Inr v | None \<Rightarrow> Inl Uncaught)
      | _ \<Rightarrow> Inl Uncaught)"

text \<open>What a \<open>for\<close> loop or \<open>sorted\<close> goes through: a dict gives its keys, a string its characters.\<close>

definition iterate :: "json \<Rightarrow> json list fallible" where
  "iterate j =
     (case j of
        JArr js \<Rightarrow> Inr js
      | JObj kvs \<Rightarrow> Inr (map (JStr \<circ> fst) kvs)
      | JStr s \<Rightarrow> Inr (map (\<lambda>c. JStr [c]) s)
      | _ \<Rightarrow> Inl Uncaught)"

text \<open>A step for each element, in order; the first exception ends the loop.\<close>

fun for_each :: "('a \<Rightarrow> 'b fallible) \<Rightarrow> 'a list \<Rightarrow> 'b list fallible" where
  "for_each f [] = Inr []"
| "for_each f (x # xs) = and_then (f x) (\<lambda>y. and_then (for_each f xs) (\<lambda>ys. Inr (y # ys)))"

text \<open>\<open>str(rule["type"])\<close>\<close>

definition rule_type :: "json \<Rightarrow> pystr fallible" where
  "rule_type rule = and_then (item rule type_key) (\<lambda>t.
     case t of
       JStr s \<Rightarrow> Inr s
     | JInt n \<Rightarrow> Inr (py_str n)
     | JBool b \<Rightarrow> Inr (if b then lit ''True'' else lit ''False'')
     | JNull \<Rightarrow> Inr (lit ''None'')
     | _ \<Rightarrow> Inl Rule_type_repr)"

subsection \<open>declared\<close>

text \<open>\<open>sorted(rules, key=...)\<close>: the keys first, then a stable sort.\<close>

definition sort_rules :: "json list \<Rightarrow> json list fallible" where
  "sort_rules rs = and_then (for_each rule_type rs) (\<lambda>ts. Inr (map snd (sort_key fst (zip ts rs))))"

definition kept_field :: "json \<Rightarrow> pystr \<Rightarrow> (pystr \<times> json) list fallible" where
  "kept_field ruleset f = and_then (contains ruleset f) (\<lambda>b.
     if b then and_then (item ruleset f) (\<lambda>v. Inr [(f, v)]) else Inr [])"

definition declared :: "json \<Rightarrow> (pystr, json) pydict fallible" where
  "declared ruleset = and_then (for_each (kept_field ruleset) declared_fields) (\<lambda>kept.
     let kept = concat kept in
     case map_of kept rules_key of
       None \<Rightarrow> Inr kept
     | Some rules \<Rightarrow>
         and_then (iterate rules) (\<lambda>rs. and_then (sort_rules rs) (\<lambda>rs.
         Inr (AList.update rules_key (JArr rs) kept))))"

subsection \<open>The file\<close>

definition load_file :: "pystr \<Rightarrow> file_read \<Rightarrow> json fallible" where
  "load_file path file =
     (case file of
        Unreadable reason \<Rightarrow> Inl (Ruleset (Cannot_read path reason))
      | Not_utf8 \<Rightarrow> Inl Uncaught
      | File_text text \<Rightarrow>
          (case json_loads text of
             None \<Rightarrow> Inl (Ruleset (Not_valid_json path))
           | Some content \<Rightarrow>
               and_then (for_each (\<lambda>f. and_then (contains content f) (\<lambda>b. Inr (f, b))) declared_fields) (\<lambda>found.
               let missing = map fst (filter (\<lambda>(f, b). \<not> b) found) in
               if missing \<noteq> [] then Inl (Ruleset (Missing_fields path missing)) else Inr content)))"

subsection \<open>The API\<close>

definition call_api :: "'s gh \<Rightarrow> pystr \<Rightarrow> gh_method \<Rightarrow> json option \<Rightarrow> 's place \<Rightarrow> (json, 's) command" where
  "call_api gh path m body w =
     (case gh m path body (github w) of
        (result, s) \<Rightarrow>
          (case result of
             No_gh \<Rightarrow> Inl (Ruleset Gh_missing)
           | Gh_failed stderr \<Rightarrow> Inl (Ruleset (Call_failed (method_name m) path (strip stderr)))
           | Gh_output out \<Rightarrow>
               if strip out = [] then Inr JNull
               else case json_loads out of None \<Rightarrow> Inl Uncaught | Some j \<Rightarrow> Inr j,
           w\<lparr>github := s\<rparr>))"

definition rulesets_path :: "pystr \<Rightarrow> pystr" where
  "rulesets_path repo = lit ''repos/'' @ repo @ lit ''/rulesets''"

definition ruleset_path :: "pystr \<Rightarrow> int \<Rightarrow> pystr" where
  "ruleset_path repo i = rulesets_path repo @ lit ''/'' @ py_str i"

text \<open>The loop of fetch: the identifier of the first summary with the name.\<close>

fun find_ruleset :: "json \<Rightarrow> json list \<Rightarrow> int option fallible" where
  "find_ruleset name [] = Inr None"
| "find_ruleset name (j # js) = and_then (item j name_key) (\<lambda>n.
     if py_eq n name
     then and_then (item j (lit ''id'')) (\<lambda>i.
          case json_int i of None \<Rightarrow> Inl Uncaught | Some i \<Rightarrow> Inr (Some i))
     else find_ruleset name js)"

definition fetch :: "'s gh \<Rightarrow> pystr \<Rightarrow> json \<Rightarrow> 's place \<Rightarrow> ((int \<times> json) option, 's) command" where
  "fetch gh repo name w =
     then_state (call_api gh (rulesets_path repo) Get None w) (\<lambda>listed w.
     then_state (and_then (if truthy listed then iterate listed else Inr []) (find_ruleset name), w) (\<lambda>i w.
       case i of
         None \<Rightarrow> (Inr None, w)
       | Some i \<Rightarrow>
           then_state (call_api gh (ruleset_path repo i) Get None w) (\<lambda>body w.
           (Inr (Some (i, body)), w))))"

subsection \<open>differences\<close>

text \<open>\<open>_by_type\<close>: a rule's parameters, or an empty dict.\<close>

definition rule_entry :: "json \<Rightarrow> (pystr \<times> json) fallible" where
  "rule_entry rule = and_then (rule_type rule) (\<lambda>t.
     case rule of
       JObj kvs \<Rightarrow> Inr (t, dict_get kvs parameters_key (JObj []))
     | _ \<Rightarrow> Inl Uncaught)"

definition by_type :: "json \<Rightarrow> (pystr, json) pydict fallible" where
  "by_type rules = and_then (iterate rules) (\<lambda>rs. and_then (for_each rule_entry rs) (\<lambda>es. Inr (dict_of es)))"

definition report_line :: "pystr \<Rightarrow> json \<Rightarrow> json \<Rightarrow> pystr" where
  "report_line label want have =
     label @ lit '':'' @ [10] @ lit ''    committed: '' @ json_dumps want @
     [10] @ lit ''    enforced:  '' @ json_dumps have"

definition field_differences :: "(pystr, json) pydict \<Rightarrow> (pystr, json) pydict \<Rightarrow> pystr list" where
  "field_differences want have =
     List.map_filter
       (\<lambda>f. if f \<noteq> rules_key \<and> \<not> py_eq (dict_get want f JNull) (dict_get have f JNull)
            then Some (report_line f (dict_get want f JNull) (dict_get have f JNull)) else None)
       declared_fields"

definition rule_difference :: "(pystr, json) pydict \<Rightarrow> (pystr, json) pydict \<Rightarrow> pystr \<Rightarrow> pystr list" where
  "rule_difference want have t =
     (case (map_of want t, map_of have t) of
        (_, None) \<Rightarrow> [lit ''rule '' @ t @ lit '': committed but not enforced'']
      | (None, Some _) \<Rightarrow> [lit ''rule '' @ t @ lit '': enforced but not committed'']
      | (Some a, Some b) \<Rightarrow> if py_eq a b then [] else [report_line (lit ''rule '' @ t) a b])"

definition differences :: "json \<Rightarrow> json \<Rightarrow> pystr list fallible" where
  "differences expected enforced =
     and_then (declared expected) (\<lambda>want_all.
     and_then (declared enforced) (\<lambda>have_all.
     and_then (by_type (dict_get want_all rules_key (JArr []))) (\<lambda>want.
     and_then (by_type (dict_get have_all rules_key (JArr []))) (\<lambda>have.
     Inr (field_differences want_all have_all @
          concat (map (rule_difference want have) (sort (remdups (map fst want @ map fst have)))))))))"

subsection \<open>The commands\<close>

definition ruleset_check :: "'s gh \<Rightarrow> pystr \<Rightarrow> pystr \<Rightarrow> 's place \<Rightarrow> (int, 's) command" where
  "ruleset_check gh repo path w =
     then_state (load_file path (ruleset_text w), w) (\<lambda>expected w.
     then_state (item expected name_key, w) (\<lambda>name w.
     then_state (fetch gh repo name w) (\<lambda>enforced w.
       case enforced of
         None \<Rightarrow> (Inr 1, say (Names_no_ruleset repo name) w)
       | Some (_, body) \<Rightarrow>
           then_state (differences expected body, w) (\<lambda>found w.
           let w = fold (\<lambda>d. say (Drift d)) found w in
           then_state (contains body bypass_key, w) (\<lambda>visible w.
           then_state (if visible then and_then (item body bypass_key) (\<lambda>a. Inr (Some a)) else Inr None, w) (\<lambda>actors w.
           let (w, found) =
             (case actors of
                None \<Rightarrow> (say Bypass_hidden w, found)
              | Some a \<Rightarrow> if truthy a then (say (Bypass_allowed a) w, found @ [bypass_key])
                          else (say Bypass_empty w, found)) in
           if found \<noteq> [] then (Inr 1, say (Check_failed (length found) path repo) w)
           else (Inr 0, say (Check_ok repo path) w)))))))"

text \<open>The one request of apply that writes, on a service that has the ruleset or has not.\<close>

definition write_request :: "'s gh \<Rightarrow> pystr \<Rightarrow> json \<Rightarrow> (pystr, json) pydict \<Rightarrow> (int \<times> json) option \<Rightarrow> 's place \<Rightarrow> (unit, 's) command" where
  "write_request gh repo name b found w =
     (case found of
        None \<Rightarrow>
          then_state (call_api gh (rulesets_path repo) Post (Some (JObj b)) w) (\<lambda>_ w.
          (Inr (), say (Created name repo) w))
      | Some (i, _) \<Rightarrow>
          then_state (call_api gh (ruleset_path repo i) Put (Some (JObj b)) w) (\<lambda>_ w.
          (Inr (), say (Updated name i repo) w)))"

definition ruleset_apply :: "'s gh \<Rightarrow> pystr \<Rightarrow> pystr \<Rightarrow> 's place \<Rightarrow> (int, 's) command" where
  "ruleset_apply gh repo path w =
     then_state (load_file path (ruleset_text w), w) (\<lambda>expected w.
     then_state (item expected name_key, w) (\<lambda>name w.
     then_state (fetch gh repo name w) (\<lambda>enforced w.
     then_state (declared expected, w) (\<lambda>kept w.
     then_state (write_request gh repo name (AList.update bypass_key (JArr []) kept) enforced w) (\<lambda>_ w.
     ruleset_check gh repo path w)))))"

definition ruleset_export :: "'s gh \<Rightarrow> pystr \<Rightarrow> pystr \<Rightarrow> 's place \<Rightarrow> (int, 's) command" where
  "ruleset_export gh repo path w =
     then_state (load_file path (ruleset_text w), w) (\<lambda>expected w.
     then_state (item expected name_key, w) (\<lambda>name w.
     then_state (fetch gh repo name w) (\<lambda>enforced w.
       case enforced of
         None \<Rightarrow> (Inr 1, say (Names_no_ruleset repo name) w)
       | Some (_, body) \<Rightarrow>
           then_state (declared body, w) (\<lambda>kept w.
           let text = json_indented 0 (JObj kept) @ [10] in
           if write_denied w then (Inl Uncaught, w)
           else if \<not> encodable text then (Inl Uncaught, w\<lparr>ruleset_text := File_text []\<rparr>)
           else (Inr 0, say (Wrote path repo) (w\<lparr>ruleset_text := File_text text\<rparr>))))))"

datatype ruleset_command = Check | Apply | Export

fun ruleset_run :: "ruleset_command \<Rightarrow> 's gh \<Rightarrow> pystr \<Rightarrow> pystr \<Rightarrow> 's place \<Rightarrow> (int, 's) command" where
  "ruleset_run Check = ruleset_check"
| "ruleset_run Apply = ruleset_apply"
| "ruleset_run Export = ruleset_export"

definition ruleset_main ::
    "pystr option \<Rightarrow> pystr option \<Rightarrow> ruleset_command \<Rightarrow> 's gh \<Rightarrow> pystr \<Rightarrow> 's place \<Rightarrow> (int, 's) command" where
  "ruleset_main actions origin command gh path w =
     (case then_state (repository actions origin, w) (\<lambda>repo w. ruleset_run command gh repo path w) of
        (Inl (Ruleset e), w) \<Rightarrow> (Inr 2, say (Error_line e) w)
      | result \<Rightarrow> result)"

declare say_def [py_eval] declared_fields_def [py_eval] without_git_def [py_eval]
  owner_name_def [py_eval] match_remote_def [py_eval] repository_def [py_eval] type_key_def [py_eval]
  name_key_def [py_eval] rules_key_def [py_eval] parameters_key_def [py_eval] bypass_key_def [py_eval]
  contains_def [py_eval] item_def [py_eval] iterate_def [py_eval] rule_type_def [py_eval]
  sort_rules_def [py_eval] kept_field_def [py_eval] declared_def [py_eval] load_file_def [py_eval]
  call_api_def [py_eval] rulesets_path_def [py_eval] ruleset_path_def [py_eval] fetch_def [py_eval]
  rule_entry_def [py_eval] by_type_def [py_eval] report_line_def [py_eval]
  field_differences_def [py_eval] rule_difference_def [py_eval] differences_def [py_eval]
  ruleset_check_def [py_eval] write_request_def [py_eval] ruleset_apply_def [py_eval]
  ruleset_export_def [py_eval] ruleset_main_def [py_eval]

subsection \<open>What differences reports\<close>

text \<open>A ruleset whose rules are dicts with a string type, as GitHub and the committed file write them.\<close>

fun rule_shape :: "json \<Rightarrow> bool" where
  "rule_shape (JObj kvs) = (case map_of kvs type_key of Some (JStr t) \<Rightarrow> True | _ \<Rightarrow> False)"
| "rule_shape _ = False"

fun ruleset_shape :: "json \<Rightarrow> bool" where
  "ruleset_shape (JObj kvs) =
     (case map_of kvs rules_key of None \<Rightarrow> True | Some (JArr rs) \<Rightarrow> list_all rule_shape rs | _ \<Rightarrow> False)"
| "ruleset_shape _ = False"

fun the_type :: "json \<Rightarrow> pystr" where
  "the_type (JObj kvs) = (case map_of kvs type_key of Some (JStr t) \<Rightarrow> t | _ \<Rightarrow> [])"
| "the_type _ = []"

fun the_parameters :: "json \<Rightarrow> json" where
  "the_parameters (JObj kvs) = dict_get kvs parameters_key (JObj [])"
| "the_parameters _ = JNull"

fun field_of :: "json \<Rightarrow> pystr \<Rightarrow> json" where
  "field_of (JObj kvs) f = dict_get kvs f JNull"
| "field_of _ f = JNull"

fun rules_of :: "json \<Rightarrow> json list" where
  "rules_of (JObj kvs) = (case map_of kvs rules_key of Some (JArr rs) \<Rightarrow> rs | _ \<Rightarrow> [])"
| "rules_of _ = []"

text \<open>The parameters of the last rule of a type.\<close>

definition last_parameters :: "json list \<Rightarrow> pystr \<Rightarrow> json option" where
  "last_parameters rs t = map_option the_parameters (find (\<lambda>r. the_type r = t) (rev rs))"

fun agrees :: "json option \<Rightarrow> json option \<Rightarrow> bool" where
  "agrees None None = True"
| "agrees (Some a) (Some b) = py_eq a b"
| "agrees _ _ = False"

declare last_parameters_def [py_eval]

lemma for_each_map: "(\<And>x. x \<in> set xs \<Longrightarrow> f x = Inr (g x)) \<Longrightarrow> for_each f xs = Inr (map g xs)"
  by (induction xs) auto

lemma map_of_dict_of: "map_of (dict_of es) k = map_of (rev es) k"
  by (induction es rule: rev_induct) (auto simp: dict_of_snoc update_conv', simp add: dict_of_def)

lemma map_of_map_find: "map_of (map (\<lambda>r. (f r, g r)) xs) k = map_option g (find (\<lambda>r. f r = k) xs)"
  by (induction xs) auto

lemma find_filter: "find P (filter P xs) = find P xs"
  by (induction xs) auto

lemma last_parameters_sorted: "last_parameters (sort_key the_type rs) t = last_parameters rs t"
proof -
  have "find (\<lambda>r. the_type r = t) (rev xs) = find (\<lambda>r. the_type r = t) (rev (filter (\<lambda>r. the_type r = t) xs))" for xs
    by (simp add: find_filter [of _ "rev xs", symmetric] rev_filter)
  from this [of "sort_key the_type rs"] this [of rs] show ?thesis
    by (simp add: last_parameters_def sort_key_stable)
qed

lemma rule_type_shape: "rule_shape r \<Longrightarrow> rule_type r = Inr (the_type r)"
  by (cases r) (auto simp: rule_type_def item_def split: option.splits json.splits)

lemma rule_entry_shape: "rule_shape r \<Longrightarrow> rule_entry r = Inr (the_type r, the_parameters r)"
  by (cases r) (auto simp: rule_entry_def rule_type_shape)

lemma sort_rules_shape: "list_all rule_shape rs \<Longrightarrow> sort_rules rs = Inr (sort_key the_type rs)"
proof -
  assume "list_all rule_shape rs"
  then have "for_each rule_type rs = Inr (map the_type rs)"
    by (intro for_each_map) (auto simp: list_all_iff rule_type_shape)
  moreover have "zip (map the_type rs) rs = map (\<lambda>r. (the_type r, r)) rs"
    by (induction rs) auto
  ultimately show ?thesis by (simp add: sort_rules_def sort_key_map comp_def)
qed

lemma by_type_shape:
  assumes "list_all rule_shape rs"
  shows "\<exists>d. by_type (JArr rs) = Inr d \<and> map_of d = last_parameters rs"
proof -
  have "for_each rule_entry rs = Inr (map (\<lambda>r. (the_type r, the_parameters r)) rs)"
    using assms by (intro for_each_map) (auto simp: list_all_iff rule_entry_shape)
  then show ?thesis
    by (auto simp: by_type_def iterate_def map_of_dict_of rev_map map_of_map_find last_parameters_def)
qed

lemma kept_fields:
  "for_each (kept_field (JObj kvs)) fs = Inr (map (\<lambda>f. case map_of kvs f of None \<Rightarrow> [] | Some v \<Rightarrow> [(f, v)]) fs)"
  by (rule for_each_map) (simp add: kept_field_def contains_def item_def split: option.splits)

lemma map_of_kept:
  "map_of (concat (map (\<lambda>f. case map_of kvs f of None \<Rightarrow> [] | Some v \<Rightarrow> [(f, v)]) fs)) k =
     (if k \<in> set fs then map_of kvs k else None)"
  by (induction fs) (auto split: option.splits)

lemma declared_shape:
  assumes "ruleset_shape (JObj kvs)"
  shows "\<exists>kept. declared (JObj kvs) = Inr kept \<and>
    map_of kept = (\<lambda>f. if f \<notin> set declared_fields then None
      else if f = rules_key then map_option (\<lambda>_. JArr (sort_key the_type (rules_of (JObj kvs)))) (map_of kvs f)
      else map_of kvs f)"
proof -
  have rules: "rules_key \<in> set declared_fields"
    by (simp add: declared_fields_def rules_key_def)
  show ?thesis
  proof (cases "map_of kvs rules_key")
    case None
    with rules show ?thesis
      by (auto simp: declared_def kept_fields map_of_kept)
  next
    case (Some r)
    with assms obtain rs where rs: "r = JArr rs" "list_all rule_shape rs"
      by (cases r) auto
    with Some rules show ?thesis
      by (auto simp: declared_def kept_fields map_of_kept iterate_def sort_rules_shape update_conv')
  qed
qed

lemma field_differences_Nil:
  "field_differences want have = [] \<longleftrightarrow>
     (\<forall>f \<in> set declared_fields - {rules_key}. py_eq (dict_get want f JNull) (dict_get have f JNull))"
  by (auto simp: field_differences_def List.map_filter_def filter_empty_conv)

lemma rule_difference_Nil:
  "map_of want t \<noteq> None \<or> map_of have t \<noteq> None \<Longrightarrow>
     rule_difference want have t = [] \<longleftrightarrow> agrees (map_of want t) (map_of have t)"
  by (auto simp: rule_difference_def split: option.splits)

lemma rule_differences_Nil:
  "concat (map (rule_difference want have) (sort (remdups (map fst want @ map fst have)))) = [] \<longleftrightarrow>
     (\<forall>t. agrees (map_of want t) (map_of have t))"
proof -
  have "t \<in> set (map fst want @ map fst have) \<longleftrightarrow> map_of want t \<noteq> None \<or> map_of have t \<noteq> None" for t
    by (simp add: map_of_eq_None_iff)
  then have "(\<forall>t \<in> set (map fst want @ map fst have). rule_difference want have t = []) \<longleftrightarrow>
      (\<forall>t. agrees (map_of want t) (map_of have t))"
    using rule_difference_Nil [of want _ "have"]
    by (metis agrees.simps(1))
  then show ?thesis by (simp add: concat_map_Nil)
qed

lemma field_of_kept:
  assumes "ruleset_shape (JObj kvs)" "declared (JObj kvs) = Inr kept" "f \<in> set declared_fields" "f \<noteq> rules_key"
  shows "dict_get kept f JNull = field_of (JObj kvs) f"
  using declared_shape [OF assms(1)] assms by (auto simp: dict_get_def)

lemma rules_of_kept:
  assumes "ruleset_shape (JObj kvs)" "declared (JObj kvs) = Inr kept"
  shows "dict_get kept rules_key (JArr []) = JArr (sort_key the_type (rules_of (JObj kvs)))"
proof -
  have "rules_key \<in> set declared_fields"
    by (simp add: declared_fields_def rules_key_def)
  then show ?thesis
    using declared_shape [OF assms(1)] assms by (auto simp: dict_get_def split: option.splits)
qed

lemma shape_rules: "ruleset_shape e \<Longrightarrow> list_all rule_shape (sort_key the_type (rules_of e))"
  by (cases e) (auto simp: list_all_iff split: option.splits json.splits)

lemma last_parameters_sorted_fun: "last_parameters (sort_key the_type rs) = last_parameters rs"
  by (rule ext) (rule last_parameters_sorted)

lemma by_type_kept:
  assumes "ruleset_shape (JObj kvs)" "declared (JObj kvs) = Inr kept"
  shows "\<exists>d. by_type (dict_get kept rules_key (JArr [])) = Inr d \<and> map_of d = last_parameters (rules_of (JObj kvs))"
  using by_type_shape [OF shape_rules [OF assms(1)]]
  by (auto simp: rules_of_kept [OF assms] last_parameters_sorted_fun simp del: rules_of.simps)

lemma differences_Nil:
  assumes "ruleset_shape e" "ruleset_shape h"
  shows "\<exists>found. differences e h = Inr found \<and>
    (found = [] \<longleftrightarrow>
       (\<forall>f \<in> set declared_fields - {rules_key}. py_eq (field_of e f) (field_of h f)) \<and>
       (\<forall>t. agrees (last_parameters (rules_of e) t) (last_parameters (rules_of h) t)))"
proof -
  obtain ekvs where e: "e = JObj ekvs" using assms(1) by (cases e) auto
  obtain hkvs where h: "h = JObj hkvs" using assms(2) by (cases h) auto
  note es = assms(1) [unfolded e] and hs = assms(2) [unfolded h]
  obtain ek where ek: "declared e = Inr ek" using declared_shape [OF es] e by auto
  obtain hk where hk: "declared h = Inr hk" using declared_shape [OF hs] h by auto
  obtain ed where ed: "by_type (dict_get ek rules_key (JArr [])) = Inr ed" "map_of ed = last_parameters (rules_of e)"
    using by_type_kept [OF es] ek e by auto
  obtain hd where hd: "by_type (dict_get hk rules_key (JArr [])) = Inr hd" "map_of hd = last_parameters (rules_of h)"
    using by_type_kept [OF hs] hk h by auto
  have "differences e h = Inr (field_differences ek hk @
      concat (map (rule_difference ed hd) (sort (remdups (map fst ed @ map fst hd)))))"
    by (simp add: differences_def ek hk ed(1) hd(1))
  moreover have "field_differences ek hk = [] \<longleftrightarrow>
      (\<forall>f \<in> set declared_fields - {rules_key}. py_eq (field_of e f) (field_of h f))"
    using field_of_kept [OF es ek [unfolded e]] field_of_kept [OF hs hk [unfolded h]]
    by (auto simp: field_differences_Nil e h)
  ultimately show ?thesis
    using rule_differences_Nil [of ed hd] by (simp add: ed(2) hd(2))
qed

text \<open>
  C31: what the comparison finds. For two rulesets whose rules are dicts with a string type, the
  comparison always ends with a list, and the list is empty exactly when every declared field other
  than the rules is equal under Python's equality (an absent field counting as null) and, for every
  type, the last rule of that type on one side and on the other have equal parameters or are both
  absent. The order of the rules and every rule but the last of its type are not looked at.
\<close>

theorem differences_exact:
  assumes "ruleset_shape e" "ruleset_shape h"
  shows "\<exists>found. differences e h = Inr found \<and>
    (found = [] \<longleftrightarrow>
       (\<forall>f \<in> set declared_fields - {rules_key}. py_eq (field_of e f) (field_of h f)) \<and>
       (\<forall>t. agrees (last_parameters (rules_of e) t) (last_parameters (rules_of h) t)))"
  by (rule differences_Nil [OF assms])

text \<open>Two rulesets of two rules each that differ in one parameter of the first.\<close>

definition pull_request_rule :: "int \<Rightarrow> json" where
  "pull_request_rule n =
     JObj [(type_key, JStr (lit ''pull_request'')),
           (parameters_key, JObj [(lit ''required_approving_review_count'', JInt n)])]"

definition small_ruleset :: "int \<Rightarrow> (pystr, json) pydict" where
  "small_ruleset n =
     [(name_key, JStr (lit ''main'')), (lit ''target'', JStr (lit ''branch'')),
      (lit ''enforcement'', JStr (lit ''active'')), (lit ''conditions'', JObj []),
      (rules_key, JArr [pull_request_rule n, JObj [(type_key, JStr (lit ''deletion''))]])]"

declare pull_request_rule_def [py_eval] small_ruleset_def [py_eval]

theorem differences_exact_witness:
  "\<exists>found. differences (JObj (small_ruleset 1)) (JObj (small_ruleset 0)) = Inr found \<and> found \<noteq> []"
proof -
  have shape: "ruleset_shape (JObj (small_ruleset n))" for n
    by (simp add: py_eval)
  have "\<not> agrees (last_parameters (rules_of (JObj (small_ruleset 1))) (lit ''pull_request''))
       (last_parameters (rules_of (JObj (small_ruleset 0))) (lit ''pull_request''))"
    by code_simp
  with differences_exact [OF shape [of 1] shape [of 0]] show ?thesis by blast
qed

text \<open>A rule whose type comes again later is compared by nothing: it may change unseen.\<close>

definition twice_ruleset :: "int \<Rightarrow> (pystr, json) pydict" where
  "twice_ruleset n = AList.update rules_key (JArr [pull_request_rule n, pull_request_rule 2]) (small_ruleset 0)"

declare twice_ruleset_def [py_eval]

lemma repeated_type_unseen: "differences (JObj (twice_ruleset 1)) (JObj (twice_ruleset 0)) = Inr []"
  by code_simp

subsection \<open>What GitHub is relied on for\<close>

text \<open>
  The documented behaviour of the rulesets API of one repository, over a view of its state: the
  list names every ruleset with its identifier, a ruleset is read by its identifier, POST adds one
  under a fresh identifier and PUT replaces one, both keeping the fields sent. Every read leaves the
  state as it is. GitHub may refuse a body; \<open>accepts\<close> is what it takes.
\<close>

definition replies :: "pystr \<Rightarrow> json \<Rightarrow> bool" where
  "replies t j \<longleftrightarrow> strip t \<noteq> [] \<and> json_loads t = Some j"

definition answered :: "pystr \<Rightarrow> bool" where
  "answered t \<longleftrightarrow> strip t = [] \<or> json_loads t \<noteq> None"

definition summarises :: "json \<Rightarrow> int \<times> json \<Rightarrow> bool" where
  "summarises j ic \<longleftrightarrow>
     item j name_key = Inr (field_of (snd ic) name_key) \<and> item j (lit ''id'') = Inr (JInt (fst ic))"

definition keeps :: "(pystr, json) pydict \<Rightarrow> json \<Rightarrow> bool" where
  "keeps b c \<longleftrightarrow>
     (\<exists>m. c = JObj m \<and> (\<forall>f \<in> set (bypass_key # declared_fields). map_of m f = map_of b f))"

definition named :: "json \<Rightarrow> int \<times> json \<Rightarrow> bool" where
  "named n ic \<longleftrightarrow> py_eq (field_of (snd ic) name_key) n"

definition lists_rulesets :: "'s gh \<Rightarrow> pystr \<Rightarrow> ('s \<Rightarrow> (int \<times> json) list) \<Rightarrow> bool" where
  "lists_rulesets gh repo view \<longleftrightarrow>
     (\<forall>s. \<exists>t js. gh Get (rulesets_path repo) None s = (Gh_output t, s) \<and> replies t (JArr js) \<and>
        list_all2 summarises js (view s))"

definition reads_rulesets :: "'s gh \<Rightarrow> pystr \<Rightarrow> ('s \<Rightarrow> (int \<times> json) list) \<Rightarrow> bool" where
  "reads_rulesets gh repo view \<longleftrightarrow>
     (\<forall>s. distinct (map fst (view s)) \<and>
        (\<forall>(i, c) \<in> set (view s). \<exists>t. gh Get (ruleset_path repo i) None s = (Gh_output t, s) \<and> replies t c))"

definition writes_rulesets ::
    "'s gh \<Rightarrow> pystr \<Rightarrow> ((pystr, json) pydict \<Rightarrow> bool) \<Rightarrow> ('s \<Rightarrow> (int \<times> json) list) \<Rightarrow> bool" where
  "writes_rulesets gh repo accepts view \<longleftrightarrow>
     (\<forall>s b. accepts b \<longrightarrow>
        ((\<forall>ic \<in> set (view s). \<not> named (dict_get b name_key JNull) ic) \<longrightarrow>
          (\<exists>t s' i c. gh Post (rulesets_path repo) (Some (JObj b)) s = (Gh_output t, s') \<and> answered t \<and>
             i \<notin> fst ` set (view s) \<and> view s' = view s @ [(i, c)] \<and> keeps b c)) \<and>
        (\<forall>i \<in> fst ` set (view s).
          \<exists>t s' c. gh Put (ruleset_path repo i) (Some (JObj b)) s = (Gh_output t, s') \<and> answered t \<and>
             view s' = AList.update i c (view s) \<and> keeps b c))"

text \<open>The body \<open>apply\<close> sends.\<close>

definition sent_body :: "json \<Rightarrow> (pystr, json) pydict" where
  "sent_body e = (case declared e of Inr kept \<Rightarrow> AList.update bypass_key (JArr []) kept | Inl _ \<Rightarrow> [])"

subsection \<open>fetch over the view\<close>

lemma py_eq_JStr: "py_eq j (JStr n) \<longleftrightarrow> j = JStr n"
  by (cases j) (auto simp: num_eq_def num_of_def split: option.splits)

lemma find_ruleset_view:
  "list_all2 summarises js v \<Longrightarrow> find_ruleset name js = Inr (map_option fst (find (named name) v))"
  by (induction js v rule: list_all2_induct) (auto simp: summarises_def named_def json_int_def)

lemma call_api_replies:
  "gh m path body (github w) = (Gh_output t, s) \<Longrightarrow> replies t j \<Longrightarrow>
     call_api gh path m body w = (Inr j, w\<lparr>github := s\<rparr>)"
  by (simp add: call_api_def replies_def)

lemma call_api_answered:
  "gh m path body (github w) = (Gh_output t, s) \<Longrightarrow> answered t \<Longrightarrow>
     \<exists>j. call_api gh path m body w = (Inr j, w\<lparr>github := s\<rparr>)"
  by (auto simp: call_api_def answered_def)

lemma fetch_view:
  assumes "lists_rulesets gh repo view" "reads_rulesets gh repo view"
  shows "fetch gh repo name w = (Inr (find (named name) (view (github w))), w)"
proof -
  obtain t js where list: "gh Get (rulesets_path repo) None (github w) = (Gh_output t, github w)"
      "replies t (JArr js)" and all: "list_all2 summarises js (view (github w))"
    using assms(1) [unfolded lists_rulesets_def, THEN spec, of "github w"] by blast
  have listed: "call_api gh (rulesets_path repo) Get None w = (Inr (JArr js), w)"
    using call_api_replies [of gh Get "rulesets_path repo" None w, OF list] by simp
  have elements: "and_then (if truthy (JArr js) then iterate (JArr js) else Inr []) (find_ruleset name) =
      Inr (map_option fst (find (named name) (view (github w))))"
    using find_ruleset_view [OF all, of name] all by (cases js) (auto simp: truthy_def iterate_def)
  show ?thesis
  proof (cases "find (named name) (view (github w))")
    case None
    show ?thesis by (simp add: fetch_def listed elements None del: and_then_Inr)
  next
    case (Some ic)
    then have "ic \<in> set (view (github w))" by (metis find_Some_iff nth_mem)
    then obtain t' where "gh Get (ruleset_path repo (fst ic)) None (github w) = (Gh_output t', github w)"
        "replies t' (snd ic)"
      using assms(2) by (fastforce simp: reads_rulesets_def)
    from call_api_replies [of gh Get "ruleset_path repo (fst ic)" None w, OF this] show ?thesis
      by (simp add: fetch_def listed elements Some del: and_then_Inr)
  qed
qed

subsection \<open>The enforced ruleset after apply\<close>

lemma comparable_lookup: "comparable (JObj kvs) \<Longrightarrow> map_of kvs k = Some v \<Longrightarrow> comparable v"
  using map_of_SomeD [of kvs k v] by (fastforce simp: list_all_iff)

lemma comparable_field: "comparable (JObj kvs) \<Longrightarrow> comparable (dict_get kvs f JNull)"
  using comparable_lookup [of kvs f] by (cases "map_of kvs f") (simp_all add: dict_get_def)

lemma comparable_last:
  assumes "comparable (JObj kvs)" "ruleset_shape (JObj kvs)" "last_parameters (rules_of (JObj kvs)) t = Some p"
  shows "py_eq p p"
proof -
  obtain rs where rs: "rules_of (JObj kvs) = rs" "list_all rule_shape rs" "comparable (JArr rs)"
    using assms(2) comparable_lookup [OF assms(1), of rules_key]
    by (cases "map_of kvs rules_key") (auto split: json.splits)
  obtain r where r: "find (\<lambda>r. the_type r = t) (rev rs) = Some r" "p = the_parameters r"
    using assms(3) unfolding rs(1) last_parameters_def by auto
  then have "r \<in> set rs"
    by (metis find_Some_iff nth_mem set_rev)
  with rs have "rule_shape r" "comparable r" by (simp_all add: list_all_iff)
  then obtain m where m: "r = JObj m" "comparable (JObj m)" by (cases r) auto
  have "comparable p"
    using comparable_lookup [OF m(2), of parameters_key] r(2)
    by (cases "map_of m parameters_key") (simp_all add: m(1) dict_get_def)
  then show ?thesis by (rule py_eq_refl)
qed

lemma agrees_refl: "(\<And>p. x = Some p \<Longrightarrow> py_eq p p) \<Longrightarrow> agrees x x"
  by (cases x) auto

lemma stored_differences:
  assumes "comparable (JObj e)" "ruleset_shape (JObj e)" "keeps (sent_body (JObj e)) c"
  shows "differences (JObj e) c = Inr [] \<and> item c bypass_key = Inr (JArr []) \<and> contains c bypass_key = Inr True \<and>
    field_of c name_key = field_of (JObj e) name_key"
proof -
  obtain kept where kept: "declared (JObj e) = Inr kept" and
    lookup: "map_of kept = (\<lambda>f. if f \<notin> set declared_fields then None
      else if f = rules_key then map_option (\<lambda>_. JArr (sort_key the_type (rules_of (JObj e)))) (map_of e f)
      else map_of e f)"
    using declared_shape [OF assms(2)] by auto
  obtain m where c: "c = JObj m" and m: "\<forall>f \<in> set (bypass_key # declared_fields). map_of m f = map_of (sent_body (JObj e)) f"
    using assms(3) by (auto simp: keeps_def)
  have bypass: "bypass_key \<notin> set declared_fields"
    by (simp add: py_eval)
  have rules: "rules_key \<in> set declared_fields" and name: "name_key \<in> set declared_fields" "name_key \<noteq> rules_key"
    by (simp_all add: py_eval)
  have fields: "map_of m f = map_of kept f" if "f \<in> set declared_fields" for f
    using m that bypass by (auto simp: sent_body_def kept update_conv')
  have same: "field_of c f = field_of (JObj e) f" if "f \<in> set declared_fields" "f \<noteq> rules_key" for f
    using that by (simp add: c dict_get_def fields lookup)
  have stored_rules: "map_of m rules_key = map_option (\<lambda>_. JArr (sort_key the_type (rules_of (JObj e)))) (map_of e rules_key)"
    using fields [OF rules] rules by (simp add: lookup)
  have shape: "ruleset_shape c"
    using shape_rules [OF assms(2)] stored_rules by (cases "map_of e rules_key") (simp_all add: c)
  have "rules_of c = sort_key the_type (rules_of (JObj e))"
    using stored_rules by (cases "map_of e rules_key") (simp_all add: c)
  then have last: "last_parameters (rules_of c) = last_parameters (rules_of (JObj e))"
    by (simp only: last_parameters_sorted_fun)
  have "py_eq (field_of (JObj e) f) (field_of c f)" if "f \<in> set declared_fields - {rules_key}" for f
    using that comparable_field [OF assms(1)] by (simp add: same [symmetric] del: field_of.simps)
      (simp add: same py_eq_refl)
  moreover have "agrees (last_parameters (rules_of (JObj e)) t) (last_parameters (rules_of c) t)" for t
    using comparable_last [OF assms(1,2)] by (simp add: last agrees_refl del: rules_of.simps)
  ultimately have "differences (JObj e) c = Inr []"
    using differences_Nil [OF assms(2) shape] by auto
  moreover have "map_of m bypass_key = Some (JArr [])"
    using m by (simp add: sent_body_def kept update_conv')
  ultimately show ?thesis
    using same [OF name] by (simp add: c item_def contains_def)
qed

lemma load_file_ok:
  assumes "json_loads text = Some (JObj e)" "\<forall>f \<in> set declared_fields. map_of e f \<noteq> None"
  shows "load_file path (File_text text) = Inr (JObj e)"
proof -
  have "for_each (\<lambda>f. and_then (contains (JObj e) f) (\<lambda>b. Inr (f, b))) declared_fields = Inr (map (\<lambda>f. (f, True)) declared_fields)"
    using assms(2) by (intro for_each_map) (simp add: contains_def)
  moreover have "filter (\<lambda>(f, b). \<not> b) (map (\<lambda>f. (f, True)) fs) = []" for fs :: "pystr list"
    by (induction fs) auto
  ultimately show ?thesis by (simp add: load_file_def assms(1))
qed

lemma check_passes:
  assumes "lists_rulesets gh repo view" "reads_rulesets gh repo view"
    and "ruleset_text w = File_text text" "load_file path (File_text text) = Inr e"
    and "item e name_key = Inr n" "find (named n) (view (github w)) = Some (i, c)"
    and "differences e c = Inr []" "item c bypass_key = Inr (JArr [])" "contains c bypass_key = Inr True"
  shows "ruleset_check gh repo path w = (Inr 0, say (Check_ok repo path) (say Bypass_empty w))"
  by (simp add: ruleset_check_def assms fetch_view [OF assms(1,2)] truthy_def)

lemma find_update:
  "distinct (map fst v) \<Longrightarrow> find P v = Some (i, c) \<Longrightarrow> P (i, d) \<Longrightarrow> find P (AList.update i d v) = Some (i, d)"
proof (induction v)
  case (Cons e v)
  obtain k x where e: "e = (k, x)" by force
  have "i \<in> fst ` set v" if "find P v = Some (i, c)"
    using that by (metis find_Some_iff fst_conv image_iff nth_mem)
  with Cons e show ?case by (auto split: if_splits)
qed simp

lemma say_simps [simp]:
  "github (say l w) = github w" "ruleset_text (say l w) = ruleset_text w"
  by (simp_all add: say_def)

lemma write_request_effect:
  assumes reads: "reads_rulesets gh repo view" and writes: "writes_rulesets gh repo accepts view" "accepts b"
    and name: "dict_get b name_key JNull = JStr n" "\<And>i c. keeps b c \<Longrightarrow> named (JStr n) (i, c)"
  shows "\<exists>line s' i c.
    write_request gh repo (JStr n) b (find (named (JStr n)) (view (github w))) w = (Inr (), say line (w\<lparr>github := s'\<rparr>)) \<and>
    find (named (JStr n)) (view s') = Some (i, c) \<and> keeps b c \<and>
    (\<forall>k d. k \<noteq> i \<longrightarrow> (k, d) \<in> set (view s') \<longleftrightarrow> (k, d) \<in> set (view (github w)))"
proof -
  define s where "s = github w"
  note law = writes(1) [unfolded writes_rulesets_def, THEN spec, THEN spec, THEN mp, OF writes(2), of s]
  have distinct: "distinct (map fst (view s))" for s
    using reads by (simp add: reads_rulesets_def)
  show ?thesis
  proof (cases "find (named (JStr n)) (view s)")
    case None
    then have "\<forall>ic \<in> set (view s). \<not> named (dict_get b name_key JNull) ic"
      by (auto simp: name(1) find_None_iff)
    with law obtain t s' i c where post: "gh Post (rulesets_path repo) (Some (JObj b)) s = (Gh_output t, s')"
        "answered t" "i \<notin> fst ` set (view s)" "view s' = view s @ [(i, c)]" "keeps b c"
      by blast
    moreover obtain j where "call_api gh (rulesets_path repo) Post (Some (JObj b)) w = (Inr j, w\<lparr>github := s'\<rparr>)"
      using call_api_answered [of gh Post "rulesets_path repo" "Some (JObj b)" w] post(1,2) s_def by blast
    moreover have "find (named (JStr n)) (view s') = Some (i, c)"
      using find_snoc [OF None name(2) [OF post(5)]] post(4) by simp
    ultimately show ?thesis
      using None by (intro exI [of _ "Created (JStr n) repo"] exI [of _ s'] exI [of _ i] exI [of _ c])
        (simp add: write_request_def s_def)
  next
    case (Some ic)
    obtain i d where ic: "ic = (i, d)" by force
    have "i \<in> fst ` set (view s)"
      using find_in [OF Some] ic by force
    with law obtain t s' c where put: "gh Put (ruleset_path repo i) (Some (JObj b)) s = (Gh_output t, s')"
        "answered t" "view s' = AList.update i c (view s)" "keeps b c"
      by blast
    moreover obtain j where "call_api gh (ruleset_path repo i) Put (Some (JObj b)) w = (Inr j, w\<lparr>github := s'\<rparr>)"
      using call_api_answered [of gh Put "ruleset_path repo i" "Some (JObj b)" w] put(1,2) s_def by blast
    moreover have "find (named (JStr n)) (view s') = Some (i, c)"
      using find_update [OF distinct Some [unfolded ic]] name(2) [OF put(4)] put(3) by simp
    moreover have "(k, x) \<in> set (view s') \<longleftrightarrow> (k, x) \<in> set (view s)" if "k \<noteq> i" for k x
      using that distinct [of s] distinct [of s'] map_of_eq_Some_iff [of "view s'" k x] map_of_eq_Some_iff [of "view s" k x]
      by (simp add: put(3) update_conv')
    ultimately show ?thesis
      using Some ic by (intro exI [of _ "Updated (JStr n) i repo"] exI [of _ s'] exI [of _ i] exI [of _ c])
        (simp add: write_request_def s_def)
  qed
qed

text \<open>
  C30: apply brings GitHub to the committed file. Let the rulesets API behave as documented, let it
  accept the body, and let the file hold a ruleset with every declared field, rules of string types, a
  name and no NaN. Then \<open>apply\<close> exits 0 whether the ruleset existed or not; afterwards a ruleset of
  that name is enforced that differs from the file in nothing and lets nobody bypass it, every ruleset
  with another identifier is untouched, and \<open>check\<close> exits 0.
\<close>

theorem apply_then_check:
  assumes service: "lists_rulesets gh repo view" "reads_rulesets gh repo view" "writes_rulesets gh repo accepts view"
    and repo: "repository actions origin = Inr repo"
    and committed: "ruleset_text w = File_text text" "json_loads text = Some (JObj e)"
    and fields: "\<forall>f \<in> set declared_fields. map_of e f \<noteq> None" "map_of e name_key = Some (JStr n)"
    and shape: "ruleset_shape (JObj e)" "comparable (JObj e)"
    and body: "accepts (sent_body (JObj e))"
  shows "\<exists>w' i c. ruleset_main actions origin Apply gh path w = (Inr 0, w') \<and>
    (i, c) \<in> set (view (github w')) \<and> item c name_key = Inr (JStr n) \<and>
    differences (JObj e) c = Inr [] \<and> item c bypass_key = Inr (JArr []) \<and>
    (\<forall>k d. k \<noteq> i \<longrightarrow> (k, d) \<in> set (view (github w')) \<longleftrightarrow> (k, d) \<in> set (view (github w))) \<and>
    fst (ruleset_main actions origin Check gh path w') = Inr 0"
proof -
  note load = load_file_ok [OF committed(2) fields(1), of path]
  have name: "item (JObj e) name_key = Inr (JStr n)" "field_of (JObj e) name_key = JStr n"
    using fields(2) by (simp_all add: item_def dict_get_def)
  obtain kept where kept: "declared (JObj e) = Inr kept"
    using declared_shape [OF shape(1)] by auto
  have "name_key \<in> set declared_fields" "name_key \<noteq> rules_key" "name_key \<noteq> bypass_key"
    by (simp_all add: py_eval)
  then have b_name: "dict_get (sent_body (JObj e)) name_key JNull = JStr n"
    using field_of_kept [OF shape(1) kept] name(2) by (simp add: sent_body_def kept dict_get_def update_conv')
  have named: "named (JStr n) (i, c)" if "keeps (sent_body (JObj e)) c" for i c
    using stored_differences [OF shape(2,1) that] name(2) by (simp add: named_def py_eq_JStr)
  obtain line s' i c where sent: "write_request gh repo (JStr n) (sent_body (JObj e))
        (find (named (JStr n)) (view (github w))) w = (Inr (), say line (w\<lparr>github := s'\<rparr>))"
      and view: "find (named (JStr n)) (view s') = Some (i, c)" and keeps: "keeps (sent_body (JObj e)) c"
      and others: "\<forall>k d. k \<noteq> i \<longrightarrow> (k, d) \<in> set (view s') \<longleftrightarrow> (k, d) \<in> set (view (github w))"
    using write_request_effect [OF service(2,3) body b_name named, of w] by blast
  note stored = stored_differences [OF shape(2,1) keeps]
  have checked: "ruleset_check gh repo path w2 = (Inr 0, say (Check_ok repo path) (say Bypass_empty w2))"
    if "github w2 = s'" "ruleset_text w2 = File_text text" for w2
    by (rule check_passes [OF service(1,2) that(2) load name(1)]) (use that view stored in auto)
  define w1 where "w1 = say line (w\<lparr>github := s'\<rparr>)"
  have "ruleset_apply gh repo path w = ruleset_check gh repo path w1"
    using sent by (simp add: ruleset_apply_def committed(1) load name(1) fetch_view [OF service(1,2)] kept
      sent_body_def w1_def)
  then have applied: "ruleset_main actions origin Apply gh path w = (Inr 0, say (Check_ok repo path) (say Bypass_empty w1))"
    by (simp add: ruleset_main_def repo checked w1_def committed(1))
  have "item c name_key = Inr (JStr n)"
    using stored name(2) by (cases c) (auto simp: item_def dict_get_def split: option.splits)
  moreover have "fst (ruleset_main actions origin Check gh path (say (Check_ok repo path) (say Bypass_empty w1))) = Inr 0"
    by (simp add: ruleset_main_def repo checked w1_def committed(1))
  ultimately show ?thesis
    using applied others stored find_in [OF view]
    by (intro exI [of _ "say (Check_ok repo path) (say Bypass_empty w1)"] exI [of _ i] exI [of _ c])
      (simp add: w1_def)
qed

text \<open>A service with one ruleset: absent, drifted or as sent.\<close>

definition card_pulse :: pystr where "card_pulse = lit ''mgmaru/card-pulse''"

definition stored_body :: "bool \<Rightarrow> json" where
  "stored_body as_sent =
     JObj ((lit ''id'', JInt 7) # sent_body (JObj (small_ruleset (if as_sent then 0 else 1))))"

definition example_view :: "bool option \<Rightarrow> (int \<times> json) list" where
  "example_view s = (case s of None \<Rightarrow> [] | Some b \<Rightarrow> [(7, stored_body b)])"

definition example_gh :: "bool option gh" where
  "example_gh m p body s =
     (if m = Get \<and> p = rulesets_path card_pulse then (Gh_output (json_dumps (JArr (map snd (example_view s)))), s)
      else if m = Get \<and> p = ruleset_path card_pulse 7 \<and> s \<noteq> None
      then (Gh_output (json_dumps (snd (hd (example_view s)))), s)
      else if m = Post \<and> p = rulesets_path card_pulse \<and> s = None \<or>
              m = Put \<and> p = ruleset_path card_pulse 7 \<and> s \<noteq> None
      then (Gh_output [], Some True)
      else (Gh_failed (lit ''HTTP 404''), s))"

definition example_place :: "bool option \<Rightarrow> bool option place" where
  "example_place s = \<lparr>github = s, ruleset_text = File_text (json_dumps (JObj (small_ruleset 0))),
     write_denied = False, printed = []\<rparr>"

declare card_pulse_def [py_eval] stored_body_def [py_eval] example_view_def [py_eval]
  example_gh_def [py_eval] example_place_def [py_eval]

lemma all_states: "(\<forall>s :: bool option. P s) \<longleftrightarrow> P None \<and> P (Some False) \<and> P (Some True)"
  by (metis (full_types) not_None_eq)

lemma all_bools: "(\<forall>b. P b) \<longleftrightarrow> P False \<and> P True"
  by (metis (full_types))

lemma example_stored: "item (stored_body b) name_key = Inr (JStr (lit ''main''))"
  "field_of (stored_body b) name_key = JStr (lit ''main'')"
  by (cases b; code_simp)+

lemma example_texts:
  "\<exists>t. example_gh Get (rulesets_path card_pulse) None s = (Gh_output t, s) \<and> replies t (JArr (map snd (example_view s)))"
  "\<exists>t. example_gh Get (ruleset_path card_pulse 7) None (Some b) = (Gh_output t, Some b) \<and> replies t (stored_body b)"
proof -
  have list: "example_gh Get (rulesets_path card_pulse) None s = (Gh_output (json_dumps (JArr (map snd (example_view s)))), s)"
    by (simp add: example_gh_def)
  have "\<forall>s. replies (json_dumps (JArr (map snd (example_view s)))) (JArr (map snd (example_view s)))"
    unfolding all_states replies_def by (intro conjI; code_simp)
  with list show "\<exists>t. example_gh Get (rulesets_path card_pulse) None s = (Gh_output t, s) \<and> replies t (JArr (map snd (example_view s)))"
    by blast
  have "example_gh Get (ruleset_path card_pulse 7) None (Some b) = (Gh_output (json_dumps (stored_body b)), Some b)"
    by (cases b; code_simp)
  moreover have "\<forall>b. replies (json_dumps (stored_body b)) (stored_body b)"
    unfolding all_bools replies_def by (intro conjI; code_simp)
  ultimately show "\<exists>t. example_gh Get (ruleset_path card_pulse 7) None (Some b) = (Gh_output t, Some b) \<and> replies t (stored_body b)"
    by blast
qed

lemma example_lists: "lists_rulesets example_gh card_pulse example_view"
proof -
  have "\<forall>s. list_all2 summarises (map snd (example_view s)) (example_view s)"
    unfolding all_states by (intro conjI; code_simp)
  then show ?thesis
    unfolding lists_rulesets_def using example_texts(1) by blast
qed

lemma example_reads: "reads_rulesets example_gh card_pulse example_view"
  unfolding reads_rulesets_def using example_texts(2) by (auto simp: example_view_def split: option.splits)

lemma example_writes: "writes_rulesets example_gh card_pulse (\<lambda>b. b = sent_body (JObj (small_ruleset 0))) example_view"
proof -
  have k: "keeps (sent_body (JObj (small_ruleset 0))) (stored_body True)"
    by (simp add: keeps_def stored_body_def declared_fields_def bypass_key_def) code_simp
  have post: "example_gh Post (rulesets_path card_pulse) (Some b) None = (Gh_output [], Some True)" for b
    by (simp add: example_gh_def)
  have put: "example_gh Put (ruleset_path card_pulse 7) (Some b) (Some x) = (Gh_output [], Some True)" for b x
    by (simp add: example_gh_def)
  have named: "named (dict_get (sent_body (JObj (small_ruleset 0))) name_key JNull) (7, stored_body x)" for x
    by (cases x; code_simp)
  show ?thesis
    unfolding writes_rulesets_def all_states using k post put named
    by (auto simp: example_view_def answered_def)
qed

theorem apply_then_check_witness:
  "fst (ruleset_main (Some card_pulse) None Apply example_gh ruleset_file (example_place (Some False))) = Inr 0 \<and>
   fst (ruleset_main (Some card_pulse) None Check example_gh ruleset_file (example_place (Some False))) = Inr 1"
proof -
  have load: "json_loads (json_dumps (JObj (small_ruleset 0))) = Some (JObj (small_ruleset 0))"
    by code_simp
  have repo: "repository (Some card_pulse) None = Inr card_pulse"
    by code_simp
  have fields: "\<forall>f \<in> set declared_fields. map_of (small_ruleset 0) f \<noteq> None"
      "map_of (small_ruleset 0) name_key = Some (JStr (lit ''main''))"
    by code_simp+
  have shape: "ruleset_shape (JObj (small_ruleset 0))" "comparable (JObj (small_ruleset 0))"
    by code_simp+
  have "fst (ruleset_main (Some card_pulse) None Apply example_gh ruleset_file (example_place (Some False))) = Inr 0"
    using apply_then_check [OF example_lists example_reads example_writes repo _ load fields shape refl,
        of "example_place (Some False)" ruleset_file]
    by (auto simp: example_place_def)
  moreover have "fst (ruleset_main (Some card_pulse) None Check example_gh ruleset_file (example_place (Some False))) = Inr 1"
    by code_simp
  ultimately show ?thesis by simp
qed

subsection \<open>Who may write\<close>

text \<open>The same service, keeping the requests it answered.\<close>

definition logged :: "'s gh \<Rightarrow> ('s \<times> (gh_method \<times> pystr) list) gh" where
  "logged gh m p body sl = (case gh m p body (fst sl) of (r, s) \<Rightarrow> (r, (s, snd sl @ [(m, p)])))"

definition write_requests :: "('s \<times> (gh_method \<times> pystr) list) place \<Rightarrow> (gh_method \<times> pystr) list" where
  "write_requests w = filter (\<lambda>(m, p). m \<noteq> Get) (snd (github w))"

lemma write_requests_say [simp]: "write_requests (say l w) = write_requests w"
  "write_requests (fold (\<lambda>d. say (f d)) ds w) = write_requests w"
  "ruleset_text (fold (\<lambda>d. say (f d)) ds w) = ruleset_text w"
  by (simp add: write_requests_def, induction ds arbitrary: w, auto simp: write_requests_def,
      induction ds arbitrary: w, auto)

definition unwritten :: "(gh_method \<times> pystr) list \<Rightarrow> file_read \<Rightarrow> ('s \<times> (gh_method \<times> pystr) list) place \<Rightarrow> bool" where
  "unwritten l text w \<longleftrightarrow> write_requests w = l \<and> ruleset_text w = text"

lemma unwritten_say [simp]:
  "unwritten l text (say x w) = unwritten l text w"
  "unwritten l text (fold (\<lambda>d. say (f d)) ds w) = unwritten l text w"
  by (simp_all add: unwritten_def)

lemmas then_unwritten = then_keeps [where I = "unwritten l t" and J = "unwritten l t"] for l t

lemma call_api_logged:
  "write_requests (snd (call_api (logged gh) p m body w)) =
     write_requests w @ (if m = Get then [] else [(m, p)])"
  "ruleset_text (snd (call_api (logged gh) p m body w)) = ruleset_text w"
  by (simp_all add: call_api_def logged_def write_requests_def split: prod.split)

lemma read_unwritten:
  "unwritten l text w \<Longrightarrow> unwritten l text (snd (call_api (logged gh) p Get body w))"
  by (simp add: unwritten_def call_api_logged)

lemma fetch_unwritten:
  "unwritten l text w \<Longrightarrow> unwritten l text (snd (fetch (logged gh) repo name w))"
  unfolding fetch_def by (auto intro!: then_unwritten read_unwritten split: option.split)

lemma check_unwritten:
  "unwritten l text w \<Longrightarrow> unwritten l text (snd (ruleset_check (logged gh) repo path w))"
  unfolding ruleset_check_def
  by (auto intro!: then_unwritten fetch_unwritten simp: Let_def split: option.split)

definition at_most_one :: "(gh_method \<times> pystr) list \<Rightarrow> file_read \<Rightarrow> ('s \<times> (gh_method \<times> pystr) list) place \<Rightarrow> bool" where
  "at_most_one l text w \<longleftrightarrow> (\<exists>ws. length ws \<le> 1 \<and> unwritten (l @ ws) text w)"

lemma at_most_one_unwritten: "unwritten l text w \<Longrightarrow> at_most_one l text w"
  by (auto simp: at_most_one_def intro!: exI [of _ "[]"])

lemma call_api_once: "unwritten l text w \<Longrightarrow> at_most_one l text (snd (call_api (logged gh) p m body w))"
  by (cases "m = Get") (auto simp: unwritten_def at_most_one_def call_api_logged intro!: exI [of _ "[(m, p)]"] exI [of _ "[]"])

lemma write_request_once:
  "unwritten l text w \<Longrightarrow> at_most_one l text (snd (write_request (logged gh) repo name b found w))"
proof -
  have say: "at_most_one l text w \<Longrightarrow> at_most_one l text (say x w)" for x and w :: "('a \<times> (gh_method \<times> pystr) list) place"
    by (simp add: at_most_one_def)
  assume "unwritten l text w"
  then show ?thesis
    unfolding write_request_def
    by (auto intro!: then_keeps [where I = "at_most_one l text" and J = "at_most_one l text"] call_api_once
      intro: say split: option.split)
qed

lemma check_at_most_one: "at_most_one l text w \<Longrightarrow> at_most_one l text (snd (ruleset_check (logged gh) repo path w))"
  using check_unwritten unfolding at_most_one_def by blast

lemma apply_at_most_one:
  assumes "unwritten l text w"
  shows "at_most_one l text (snd (ruleset_apply (logged gh) repo path w))"
proof -
  note first = then_keeps [where I = "unwritten l text" and J = "at_most_one l text", OF _ at_most_one_unwritten]
  note last = then_keeps [where I = "at_most_one l text" and J = "at_most_one l text"]
  show ?thesis
    unfolding ruleset_apply_def
    by (intro first last fetch_unwritten write_request_once check_at_most_one; simp add: assms)
qed

definition only_reads :: "(gh_method \<times> pystr) list \<Rightarrow> ('s \<times> (gh_method \<times> pystr) list) place \<Rightarrow> bool" where
  "only_reads l w \<longleftrightarrow> write_requests w = l"

lemma export_only_reads:
  assumes "only_reads l w"
  shows "only_reads l (snd (ruleset_export (logged gh) repo path w))"
proof -
  have fetched: "only_reads l w \<Longrightarrow> only_reads l (snd (fetch (logged gh) repo name w))" for name w
    using fetch_unwritten [of l "ruleset_text w" w gh repo name] by (simp add: unwritten_def only_reads_def)
  have written: "only_reads l (w\<lparr>ruleset_text := t\<rparr>) = only_reads l w" "only_reads l (say x w) = only_reads l w"
    for w :: "('a \<times> (gh_method \<times> pystr) list) place" and t x
    by (simp_all add: only_reads_def write_requests_def)
  show ?thesis
    unfolding ruleset_export_def
    by (auto intro!: then_keeps [where I = "only_reads l" and J = "only_reads l"] fetched
      simp: assms Let_def written split: option.split)
qed

lemma main_keeps:
  assumes "P w" "\<And>repo. P (snd (ruleset_run command gh repo path w))" "\<And>x w. P (say x w) = P w"
  shows "P (snd (ruleset_main actions origin command gh path w))"
proof (cases "repository actions origin")
  case (Inl e)
  with assms(1) show ?thesis by (cases e) (auto simp: ruleset_main_def assms(3))
next
  case (Inr repo)
  with assms(2) [of repo] show ?thesis
    by (auto simp: ruleset_main_def assms(3) split: prod.split sum.split failure.split)
qed

text \<open>
  only a person's command writes. Whatever gh answers, whatever the file holds: \<open>check\<close> sends no
  request but GET and leaves the file, \<open>export\<close> sends no request but GET, and \<open>apply\<close> sends at most
  one other request and leaves the file.
\<close>

theorem who_writes:
  "case command of
     Check \<Rightarrow> unwritten (write_requests w) (ruleset_text w) (snd (ruleset_main actions origin Check (logged gh) path w))
   | Apply \<Rightarrow> at_most_one (write_requests w) (ruleset_text w) (snd (ruleset_main actions origin Apply (logged gh) path w))
   | Export \<Rightarrow> only_reads (write_requests w) (snd (ruleset_main actions origin Export (logged gh) path w))"
proof -
  have start: "unwritten (write_requests w) (ruleset_text w) w" "only_reads (write_requests w) w"
    by (simp_all add: unwritten_def only_reads_def)
  have said: "at_most_one l t (say x w) = at_most_one l t w" "only_reads l (say x w) = only_reads l w"
    for l t x and w :: "('a \<times> (gh_method \<times> pystr) list) place"
    by (simp_all add: at_most_one_def only_reads_def)
  have "unwritten (write_requests w) (ruleset_text w) (snd (ruleset_main actions origin Check (logged gh) path w))"
    by (rule main_keeps [where P = "unwritten (write_requests w) (ruleset_text w)"])
      (simp_all add: start check_unwritten)
  moreover have "at_most_one (write_requests w) (ruleset_text w) (snd (ruleset_main actions origin Apply (logged gh) path w))"
    by (rule main_keeps [where P = "at_most_one (write_requests w) (ruleset_text w)"])
      (simp_all add: start said at_most_one_unwritten apply_at_most_one)
  moreover have "only_reads (write_requests w) (snd (ruleset_main actions origin Export (logged gh) path w))"
    by (rule main_keeps [where P = "only_reads (write_requests w)"])
      (simp_all add: start said export_only_reads)
  ultimately show ?thesis by (simp split: ruleset_command.split)
qed

subsection \<open>A file refreshed from GitHub\<close>

lemma declared_distinct: "declared (JObj kvs) = Inr kept \<Longrightarrow> distinct (map fst kept)"
proof -
  have "distinct fs \<Longrightarrow> distinct (map fst (concat (map (\<lambda>f. case map_of kvs f of None \<Rightarrow> [] | Some v \<Rightarrow> [(f, v)]) fs)))" for fs
  proof (induction fs)
    case (Cons f fs)
    then show ?case by (auto split: option.splits)
  qed simp
  moreover have "distinct declared_fields" by code_simp
  ultimately have kept: "distinct (map fst (concat (map (\<lambda>f. case map_of kvs f of None \<Rightarrow> [] | Some v \<Rightarrow> [(f, v)]) declared_fields)))"
    by blast
  assume "declared (JObj kvs) = Inr kept"
  with kept show ?thesis
    by (auto simp: declared_def kept_fields Let_def distinct_update split: option.splits)
qed

lemma declared_again:
  assumes shape: "ruleset_shape (JObj m)" and ok: "json_ok (JObj m)" "comparable (JObj m)"
    and kept: "declared (JObj m) = Inr kept"
  shows "json_ok (JObj kept)" "ruleset_shape (JObj kept)" "differences (JObj kept) (JObj m) = Inr []"
    "\<forall>f \<in> set declared_fields. map_of m f \<noteq> None \<longrightarrow> map_of kept f \<noteq> None"
    "map_of kept name_key = map_of m name_key"
proof -
  define rules where "rules = sort_key the_type (rules_of (JObj m))"
  have lookup: "map_of kept = (\<lambda>f. if f \<notin> set declared_fields then None
      else if f = rules_key then map_option (\<lambda>_. JArr rules) (map_of m f) else map_of m f)"
    using declared_shape [OF shape] kept by (auto simp: rules_def)
  have key: "rules_key \<in> set declared_fields" "name_key \<in> set declared_fields" "name_key \<noteq> rules_key"
    by (simp_all add: py_eval)
  have ok_m: "map_of m f = Some v \<Longrightarrow> text_ok f \<and> json_ok v" for f v
    using ok(1) map_of_SomeD [of m f v] by (fastforce simp: list_all_iff)
  have rules_ok: "json_ok (JArr rules)"
    using ok_m [of rules_key] by (cases "map_of m rules_key") (auto simp: rules_def list_all_iff split: json.splits)
  have "text_ok f \<and> json_ok v" if "(f, v) \<in> set kept" for f v
  proof -
    have "map_of kept f = Some v"
      using that declared_distinct [OF kept] by simp
    then show ?thesis
      using ok_m [of f v] ok_m [of rules_key] rules_ok by (auto simp: lookup split: if_splits)
  qed
  then show "json_ok (JObj kept)"
    using declared_distinct [OF kept] by (auto simp: list_all_iff)
  show shape_kept: "ruleset_shape (JObj kept)"
    using shape_rules [OF shape] key by (cases "map_of m rules_key") (simp_all add: lookup rules_def)
  show "map_of kept name_key = map_of m name_key"
    using key by (simp add: lookup)
  show "\<forall>f \<in> set declared_fields. map_of m f \<noteq> None \<longrightarrow> map_of kept f \<noteq> None"
    by (simp add: lookup)
  have fields: "field_of (JObj kept) f = field_of (JObj m) f" if "f \<in> set declared_fields - {rules_key}" for f
    using that by (simp add: dict_get_def lookup)
  have "rules_of (JObj kept) = rules"
    using key shape by (cases "map_of m rules_key") (simp_all add: lookup rules_def)
  then have last: "last_parameters (rules_of (JObj kept)) = last_parameters (rules_of (JObj m))"
    by (simp only: rules_def last_parameters_sorted_fun)
  have "py_eq (field_of (JObj kept) f) (field_of (JObj m) f)" if "f \<in> set declared_fields - {rules_key}" for f
    using comparable_field [OF ok(2), of f] fields [OF that] by (simp add: py_eq_refl)
  moreover have "agrees (last_parameters (rules_of (JObj kept)) t) (last_parameters (rules_of (JObj m)) t)" for t
    using comparable_last [OF ok(2) shape] by (simp add: last agrees_refl del: rules_of.simps)
  ultimately show "differences (JObj kept) (JObj m) = Inr []"
    using differences_Nil [OF shape_kept shape] by auto
qed

text \<open>The text \<open>export\<close> writes for an enforced ruleset.\<close>

definition exported_text :: "json \<Rightarrow> pystr" where
  "exported_text c = (case declared c of Inr kept \<Rightarrow> json_indented 0 (JObj kept) @ [10] | Inl _ \<Rightarrow> [])"



end
