(* ===== verification/Filesystem.thy ===== *)
theory Filesystem
  imports Py_Prelude
begin

text \<open>
  The part of pathlib and of the POSIX file system the sources use: paths as their root and parts,
  a store from paths to directories and regular files, and one primitive step per system call.
  \<open>refuse\<close> says which calls the operating system turns down at the moment (permissions, a full
  disk, a read-only mount) and with what error. A write is one step per character, so that the
  states between the steps are all a concurrent reader can see.
\<close>

subsection \<open>Paths\<close>

datatype path = Path (path_root: pystr) (path_parts: "pystr list")

text \<open>\<open>Path(s)\<close>: empty and \<open>.\<close> components are dropped; exactly two leading slashes are a root.\<close>

definition py_path :: "pystr \<Rightarrow> path" where
  "py_path s =
     (let slashes = length (takeWhile (\<lambda>c. c = 47) s) in
      Path (if slashes = 0 then [] else if slashes = 2 then [47, 47] else [47])
        (filter (\<lambda>x. x \<noteq> [] \<and> x \<noteq> [46]) (split_on 47 s)))"

definition path_str :: "path \<Rightarrow> pystr" where
  "path_str p =
     (if path_root p = [] \<and> path_parts p = [] then [46]
      else path_root p @ join [47] (path_parts p))"

definition parent :: "path \<Rightarrow> path" where
  "parent p = Path (path_root p) (butlast (path_parts p))"

definition child :: "path \<Rightarrow> pystr \<Rightarrow> path" where
  "child p n = Path (path_root p) (path_parts p @ [n])"

definition path_name :: "path \<Rightarrow> pystr" where
  "path_name p = (if path_parts p = [] then [] else last (path_parts p))"

text \<open>\<open>p.with_name(n)\<close> for a \<open>n\<close> without a slash; a path without a name raises ValueError.\<close>

definition with_name :: "path \<Rightarrow> pystr \<Rightarrow> path option" where
  "with_name p n = (if path_parts p = [] then None else Some (child (parent p) n))"

declare py_path_def [py_eval] path_str_def [py_eval] parent_def [py_eval] child_def [py_eval]
  path_name_def [py_eval] with_name_def [py_eval]

subsection \<open>Files and system calls\<close>

text \<open>A regular file holds a text in UTF-8, or bytes that are no text.\<close>

datatype node = Dir | Text pystr | Undecodable

type_synonym files = "path \<Rightarrow> node option"

record os_error =
  err_class :: pystr
  strerror :: pystr
  err_text :: pystr

definition os_err :: "string \<Rightarrow> string \<Rightarrow> os_error" where
  "os_err c m = \<lparr>err_class = lit c, strerror = lit m, err_text = lit m\<rparr>"

definition file_not_found :: os_error where
  "file_not_found = os_err ''FileNotFoundError'' ''No such file or directory''"
definition file_exists :: os_error where
  "file_exists = os_err ''FileExistsError'' ''File exists''"
definition not_a_directory :: os_error where
  "not_a_directory = os_err ''NotADirectoryError'' ''Not a directory''"
definition is_a_directory :: os_error where
  "is_a_directory = os_err ''IsADirectoryError'' ''Is a directory''"

datatype fs_op = Mkdir path | Truncate path | Append path pystr | Unlink path | Rename path path

definition is_dir :: "files \<Rightarrow> path \<Rightarrow> bool" where
  "is_dir f p \<longleftrightarrow> path_parts p = [] \<or> f p = Some Dir"

text \<open>What is wrong with the directory an entry should go to.\<close>

definition parent_error :: "files \<Rightarrow> path \<Rightarrow> os_error option" where
  "parent_error f p =
     (if is_dir f (parent p) then None
      else if f (parent p) = None then Some file_not_found else Some not_a_directory)"

fun apply_op :: "fs_op \<Rightarrow> files \<Rightarrow> os_error + files" where
  "apply_op (Mkdir p) f =
     (if is_dir f p \<or> f p \<noteq> None then Inl file_exists
      else case parent_error f p of Some e \<Rightarrow> Inl e | None \<Rightarrow> Inr (f(p := Some Dir)))"
| "apply_op (Truncate p) f =
     (if is_dir f p then Inl is_a_directory
      else case parent_error f p of Some e \<Rightarrow> Inl e | None \<Rightarrow> Inr (f(p := Some (Text []))))"
| "apply_op (Append p s) f =
     (case f p of Some (Text t) \<Rightarrow> Inr (f(p := Some (Text (t @ s)))) | _ \<Rightarrow> Inr f)"
| "apply_op (Unlink p) f =
     (if is_dir f p then Inl is_a_directory
      else if f p = None then Inl file_not_found else Inr (f(p := None)))"
| "apply_op (Rename p q) f =
     (if f p = None then Inl file_not_found
      else if is_dir f q then Inl is_a_directory
      else case parent_error f q of Some e \<Rightarrow> Inl e | None \<Rightarrow> Inr ((f(p := None))(q := f p)))"

definition run_op :: "(fs_op \<Rightarrow> os_error option) \<Rightarrow> fs_op \<Rightarrow> files \<Rightarrow> os_error + files" where
  "run_op refuse c f = (case refuse c of Some e \<Rightarrow> Inl e | None \<Rightarrow> apply_op c f)"

text \<open>A run of calls up to the first error: the state after each, and the error.\<close>

fun run_ops ::
    "(fs_op \<Rightarrow> os_error option) \<Rightarrow> fs_op list \<Rightarrow> files \<Rightarrow> files list \<times> os_error option" where
  "run_ops refuse [] f = ([], None)"
| "run_ops refuse (c # cs) f =
     (case run_op refuse c f of
        Inl e \<Rightarrow> ([], Some e)
      | Inr f' \<Rightarrow> apfst (Cons f') (run_ops refuse cs f'))"

definition final :: "files \<Rightarrow> files list \<Rightarrow> files" where
  "final f trace = last (f # trace)"

text \<open>\<open>p.write_text(s)\<close> once the text is encoded, and \<open>p.write_bytes(b"")\<close>.\<close>

definition write_ops :: "path \<Rightarrow> pystr \<Rightarrow> fs_op list" where
  "write_ops p s = Truncate p # map (\<lambda>c. Append p [c]) s"

text \<open>\<open>p.mkdir(parents=True, exist_ok=True)\<close>, as pathlib climbs to the first parent that exists.\<close>

definition mkdir_exist_ok ::
    "(fs_op \<Rightarrow> os_error option) \<Rightarrow> path \<Rightarrow> files \<Rightarrow> files \<times> os_error option" where
  "mkdir_exist_ok refuse p f =
     (case run_op refuse (Mkdir p) f of
        Inr f' \<Rightarrow> (f', None)
      | Inl e \<Rightarrow> if is_dir f p then (f, None) else (f, Some e))"

function mkdirs ::
    "(fs_op \<Rightarrow> os_error option) \<Rightarrow> path \<Rightarrow> files \<Rightarrow> files \<times> os_error option" where
  "mkdirs refuse p f =
     (case run_op refuse (Mkdir p) f of
        Inr f' \<Rightarrow> (f', None)
      | Inl e \<Rightarrow>
          if err_class e = err_class file_not_found \<and> path_parts p \<noteq> [] then
            (case mkdirs refuse (parent p) f of
               (f', Some e') \<Rightarrow> (f', Some e')
             | (f', None) \<Rightarrow> mkdir_exist_ok refuse p f')
          else if is_dir f p then (f, None) else (f, Some e))"
  by pat_completeness auto

termination
  by (relation "measure (\<lambda>(refuse, p, f). length (path_parts p))") (auto simp: parent_def)

declare mkdirs.simps [simp del]

text \<open>\<open>p.read_text(encoding="utf-8")\<close>\<close>

datatype read_error = Read_os os_error | Read_unicode

definition read_text :: "files \<Rightarrow> path \<Rightarrow> read_error + pystr" where
  "read_text f p =
     (if is_dir f p then Inl (Read_os is_a_directory)
      else case f p of
             None \<Rightarrow> Inl (Read_os file_not_found)
           | Some (Text s) \<Rightarrow> Inr s
           | Some _ \<Rightarrow> Inl Read_unicode)"

subsection \<open>What a step leaves alone\<close>

lemma run_op_Inr: "run_op refuse c f = Inr f' \<longleftrightarrow> refuse c = None \<and> apply_op c f = Inr f'"
  by (auto simp: run_op_def split: option.splits)

fun touches :: "fs_op \<Rightarrow> path set" where
  "touches (Mkdir p) = {p}"
| "touches (Truncate p) = {p}"
| "touches (Append p s) = {p}"
| "touches (Unlink p) = {p}"
| "touches (Rename p q) = {p, q}"

lemma apply_op_frame: "apply_op c f = Inr f' \<Longrightarrow> p \<notin> touches c \<Longrightarrow> f' p = f p"
  by (cases c) (auto split: if_splits option.splits node.splits)

lemma run_ops_frame:
  "g \<in> set (fst (run_ops refuse cs f)) \<Longrightarrow> \<forall>c \<in> set cs. p \<notin> touches c \<Longrightarrow> g p = f p"
proof (induction cs arbitrary: f)
  case Nil
  then show ?case by simp
next
  case (Cons c cs)
  then obtain f' where f': "run_op refuse c f = Inr f'" "g = f' \<or> g \<in> set (fst (run_ops refuse cs f'))"
    by (auto split: sum.splits)
  then have "f' p = f p" using Cons.prems apply_op_frame [of c f f' p] by (auto simp: run_op_Inr)
  with f' Cons show ?case by auto
qed

lemma final_in: "final f trace \<in> set (f # trace)"
  by (simp add: final_def)

lemma final_simps [simp]: "final f [] = f" "final f (g # tr) = final g tr" "final f (tr @ [h]) = h"
  by (simp_all add: final_def)

lemma run_ops_append:
  "run_ops refuse (cs @ ds) f =
     (case run_ops refuse cs f of
        (tr, Some e) \<Rightarrow> (tr, Some e)
      | (tr, None) \<Rightarrow> apfst ((@) tr) (run_ops refuse ds (final f tr)))"
proof (induction cs arbitrary: f)
  case Nil
  then show ?case by (simp add: final_def apfst_def map_prod_def split: prod.splits)
next
  case (Cons c cs)
  show ?case
  proof (cases "run_op refuse c f")
    case (Inl e)
    then show ?thesis by simp
  next
    case (Inr f')
    obtain tr r where "run_ops refuse cs f' = (tr, r)" by force
    with Inr Cons show ?thesis
      by (auto simp: final_def apfst_def map_prod_def split: option.splits prod.splits)
  qed
qed

lemma mkdir_exist_ok_keeps:
  "mkdir_exist_ok refuse p f = (f', r) \<Longrightarrow> f q \<noteq> None \<or> q \<noteq> p \<Longrightarrow> f' q = f q"
  by (auto simp: mkdir_exist_ok_def run_op_Inr split: sum.splits if_splits option.splits)

lemma mkdirs_keeps:
  "mkdirs refuse p f = (f', r) \<Longrightarrow> f q \<noteq> None \<or> length (path_parts p) < length (path_parts q) \<Longrightarrow> f' q = f q"
proof (induction refuse p f arbitrary: f' r rule: mkdirs.induct)
  case (1 refuse p f)
  show ?case
  proof (cases "run_op refuse (Mkdir p) f")
    case (Inr g)
    with "1.prems" show ?thesis
      by (auto simp: mkdirs.simps [of refuse p f] run_op_Inr split: if_splits option.splits)
  next
    case (Inl e)
    show ?thesis
    proof (cases "err_class e = err_class file_not_found \<and> path_parts p \<noteq> []")
      case True
      obtain g s where g: "mkdirs refuse (parent p) f = (g, s)" by force
      have "f q \<noteq> None \<or> length (path_parts (parent p)) < length (path_parts q)"
        using "1.prems"(2) by (auto simp: parent_def)
      then have gq: "g q = f q" by (rule "1.IH" [OF Inl True g])
      show ?thesis
      proof (cases s)
        case None
        with True Inl g "1.prems"(1) have "mkdir_exist_ok refuse p g = (f', r)"
          by (simp add: mkdirs.simps [of refuse p f])
        moreover have "g q \<noteq> None \<or> q \<noteq> p" using gq "1.prems"(2) by auto
        ultimately have "f' q = g q" by (rule mkdir_exist_ok_keeps)
        with gq show ?thesis by simp
      next
        case (Some e')
        with True Inl g gq "1.prems"(1) show ?thesis
          by (simp add: mkdirs.simps [of refuse p f])
      qed
    next
      case False
      with Inl "1.prems"(1) show ?thesis
        by (auto simp: mkdirs.simps [of refuse p f] split: if_splits)
    qed
  qed
qed

end
