(* ===== verification/Py_Time.thy ===== *)
theory Py_Time
  imports Py_Prelude
begin

text \<open>
  Python's datetime as its fields, with the UTC offset in microseconds (\<open>None\<close> for a naive value):
  ordinals of the proleptic Gregorian calendar, \<open>isoformat\<close>, \<open>fromisoformat\<close> (the grammar of
  CPython 3.14, calendar and week dates, with or without separators) and the difference of two
  aware values. The round trip \<open>fromisoformat (isoformat t) = Some t\<close> is what the heartbeat rests on.
\<close>

subsection \<open>The calendar\<close>

definition is_leap :: "int \<Rightarrow> bool" where
  "is_leap y \<longleftrightarrow> y mod 4 = 0 \<and> (y mod 100 \<noteq> 0 \<or> y mod 400 = 0)"

definition month_lengths :: "bool \<Rightarrow> int list" where
  "month_lengths leap = [31, if leap then 29 else 28, 31, 30, 31, 30, 31, 31, 30, 31, 30, 31]"

definition days_in_month :: "int \<Rightarrow> int \<Rightarrow> int" where
  "days_in_month y m = month_lengths (is_leap y) ! nat (m - 1)"

definition days_before_year :: "int \<Rightarrow> int" where
  "days_before_year y =
     (y - 1) * 365 + (y - 1) div 4 - (y - 1) div 100 + (y - 1) div 400"

definition days_before_month :: "int \<Rightarrow> int \<Rightarrow> int" where
  "days_before_month y m = sum_list (take (nat (m - 1)) (month_lengths (is_leap y)))"

text \<open>\<open>date.toordinal\<close>: January 1 of year 1 is day 1.\<close>

definition ymd2ord :: "int \<Rightarrow> int \<Rightarrow> int \<Rightarrow> int" where
  "ymd2ord y m d = days_before_year y + days_before_month y m + d"

text \<open>The month and day of a zero-based day of the year.\<close>

fun month_day :: "int \<Rightarrow> int list \<Rightarrow> int \<Rightarrow> int \<times> int" where
  "month_day m [] n = (m, n + 1)"
| "month_day m (l # ls) n = (if n < l then (m, n + 1) else month_day (m + 1) ls (n - l))"

definition ord2ymd :: "int \<Rightarrow> int \<times> int \<times> int" where
  "ord2ymd ord =
     (let n = ord - 1;
          n400 = n div 146097; n = n mod 146097;
          n100 = n div 36524; n = n mod 36524;
          n4 = n div 1461; n = n mod 1461;
          n1 = n div 365; n = n mod 365;
          year = n400 * 400 + n100 * 100 + n4 * 4 + n1 + 1 in
      if n1 = 4 \<or> n100 = 4 then (year - 1, 12, 31)
      else (year, month_day 1 (month_lengths (is_leap year)) n))"

text \<open>Monday is 0.\<close>

definition weekday :: "int \<Rightarrow> int" where
  "weekday ord = (ord + 6) mod 7"

declare is_leap_def [py_eval] month_lengths_def [py_eval] days_in_month_def [py_eval]
  days_before_year_def [py_eval] days_before_month_def [py_eval] ymd2ord_def [py_eval]
  ord2ymd_def [py_eval] weekday_def [py_eval]

subsection \<open>Date and time values\<close>

record pydatetime =
  year :: int
  month :: int
  day :: int
  hour :: int
  minute :: int
  second :: int
  microsecond :: int
  utcoffset :: "int option"

definition datetime_ok :: "pydatetime \<Rightarrow> bool" where
  "datetime_ok t \<longleftrightarrow>
     1 \<le> year t \<and> year t \<le> 9999 \<and> 1 \<le> month t \<and> month t \<le> 12 \<and>
     1 \<le> day t \<and> day t \<le> days_in_month (year t) (month t) \<and>
     0 \<le> hour t \<and> hour t \<le> 23 \<and> 0 \<le> minute t \<and> minute t \<le> 59 \<and>
     0 \<le> second t \<and> second t \<le> 59 \<and> 0 \<le> microsecond t \<and> microsecond t \<le> 999999 \<and>
     (case utcoffset t of None \<Rightarrow> True | Some z \<Rightarrow> - 86400000000 < z \<and> z < 86400000000)"

text \<open>Microseconds from the start of year 1, by the fields and in UTC.\<close>

definition local_micros :: "pydatetime \<Rightarrow> int" where
  "local_micros t =
     (((ymd2ord (year t) (month t) (day t) * 24 + hour t) * 60 + minute t) * 60 + second t)
       * 1000000 + microsecond t"

definition utc_micros :: "pydatetime \<Rightarrow> int" where
  "utc_micros t = local_micros t - (case utcoffset t of None \<Rightarrow> 0 | Some z \<Rightarrow> z)"

declare datetime_ok_def [py_eval] local_micros_def [py_eval] utc_micros_def [py_eval]

subsection \<open>isoformat\<close>

definition dd :: "nat \<Rightarrow> int \<Rightarrow> pystr" where
  "dd w n = zero_pad w (dec_digits n)"

text \<open>An offset as \<open>+HH:MM\<close>, with seconds and microseconds when they are not zero.\<close>

definition iso_offset :: "int \<Rightarrow> pystr" where
  "iso_offset z =
     (let a = abs z; s = a div 1000000; us = a mod 1000000 in
      [if z < 0 then 45 else 43] @ dd 2 (s div 3600) @ [58] @ dd 2 (s div 60 mod 60) @
      (if s mod 60 = 0 \<and> us = 0 then []
       else [58] @ dd 2 (s mod 60) @ (if us = 0 then [] else [46] @ dd 6 us)))"

definition isoformat :: "pydatetime \<Rightarrow> pystr" where
  "isoformat t =
     dd 4 (year t) @ [45] @ dd 2 (month t) @ [45] @ dd 2 (day t) @ [84] @
     dd 2 (hour t) @ [58] @ dd 2 (minute t) @ [58] @ dd 2 (second t) @
     (if microsecond t = 0 then [] else [46] @ dd 6 (microsecond t)) @
     (case utcoffset t of None \<Rightarrow> [] | Some z \<Rightarrow> iso_offset z)"

declare dd_def [py_eval] iso_offset_def [py_eval] isoformat_def [py_eval]

subsection \<open>fromisoformat\<close>

definition ascii_num :: "int \<Rightarrow> bool" where
  "ascii_num c \<longleftrightarrow> 48 \<le> c \<and> c \<le> 57"

fun num_value :: "int \<Rightarrow> pystr \<Rightarrow> int" where
  "num_value acc [] = acc"
| "num_value acc (c # cs) = num_value (10 * acc + (c - 48)) cs"

text \<open>Exactly \<open>k\<close> digits at the head, and what follows.\<close>

definition parse_digits :: "nat \<Rightarrow> pystr \<Rightarrow> (int \<times> pystr) option" where
  "parse_digits k s =
     (if k \<le> length s \<and> list_all ascii_num (take k s)
      then Some (num_value 0 (take k s), drop k s) else None)"

definition head_is :: "int \<Rightarrow> pystr \<Rightarrow> bool" where
  "head_is c s \<longleftrightarrow> s \<noteq> [] \<and> hd s = c"

text \<open>Where the date ends: by the separators and, for a week date, the digits that follow.\<close>

definition separator_location :: "pystr \<Rightarrow> nat option" where
  "separator_location s =
     (if length s = 7 then Some 7
      else if s ! 4 = 45 then
        if s ! 5 = 87 then
          if 8 < length s \<and> s ! 8 = 45 then
            if length s = 9 then None
            else if 10 < length s \<and> ascii_num (s ! 10) then Some 8
            else Some 10
          else Some 8
        else Some 10
      else if s ! 4 = 87 then
        let pos = 7 + length (takeWhile ascii_num (drop 7 s)) in
        Some (if pos < 9 then pos else if even pos then 7 else 8)
      else Some 8)"

definition iso_week1_monday :: "int \<Rightarrow> int" where
  "iso_week1_monday y =
     (let first = ymd2ord y 1 1; w = weekday first; monday = first - w in
      if w > 3 then monday + 7 else monday)"

definition iso_to_ymd :: "int \<Rightarrow> int \<Rightarrow> int \<Rightarrow> (int \<times> int \<times> int) option" where
  "iso_to_ymd y w d =
     (let first = weekday (ymd2ord y 1 1) in
      if y < 1 \<or> 9999 < y \<or> w < 1 \<or> 53 < w \<or>
         (w = 53 \<and> \<not> (first = 3 \<or> first = 2 \<and> is_leap y)) \<or> d < 1 \<or> 7 < d
      then None
      else Some (ord2ymd (iso_week1_monday y + (w - 1) * 7 + d - 1)))"

definition parse_isoformat_date :: "pystr \<Rightarrow> (int \<times> int \<times> int) option" where
  "parse_isoformat_date s = do {
     (y, r) \<leftarrow> parse_digits 4 s;
     let sep = head_is 45 r;
     let r = (if sep then tl r else r);
     if head_is 87 r then do {
       (w, r) \<leftarrow> parse_digits 2 (tl r);
       if r = [] then iso_to_ymd y w 1
       else if sep \<and> \<not> head_is 45 r then None
       else do {
         (d, _) \<leftarrow> parse_digits 1 (if sep then tl r else r);
         iso_to_ymd y w d
       }
     } else do {
       (m, r) \<leftarrow> parse_digits 2 r;
       if sep \<and> \<not> head_is 45 r then None
       else do {
         (d, r) \<leftarrow> parse_digits 2 (if sep then tl r else r);
         if r = [] then Some (y, m, d) else None
       }
     }
   }"

text \<open>
  \<open>[HH[:?MM[:?SS[{.,}fff...]]]]\<close>: the separator after the hour decides whether the others are
  wanted; further digits of the fraction are dropped.
\<close>

definition parse_fraction :: "pystr \<Rightarrow> int option" where
  "parse_fraction r =
     (if r \<noteq> [] \<and> list_all ascii_num r
      then Some (num_value 0 (take 6 r) * 10 ^ (6 - length (take 6 r))) else None)"

definition parse_hh_mm_ss_ff :: "pystr \<Rightarrow> (int \<times> int \<times> int \<times> int) option" where
  "parse_hh_mm_ss_ff s = do {
     (hh, r) \<leftarrow> parse_digits 2 s;
     let sep = head_is 58 r;
     if r = [] then Some (hh, 0, 0, 0)
     else do {
       (mm, r) \<leftarrow> parse_digits 2 (if sep then tl r else r);
       if r = [] then Some (hh, mm, 0, 0)
       else if sep \<and> \<not> head_is 58 r then None
       else do {
         (ss, r) \<leftarrow> parse_digits 2 (if sep then tl r else r);
         if r = [] then Some (hh, mm, ss, 0)
         else if head_is 46 r \<or> head_is 44 r
         then map_option (\<lambda>us. (hh, mm, ss, us)) (parse_fraction (tl r))
         else None
       }
     }
   }"

definition parse_offset :: "pystr \<Rightarrow> int option option" where
  "parse_offset z =
     (if z = [] then Some None
      else if hd z = 90 then if tl z = [] then Some (Some 0) else None
      else do {
        (hh, mm, ss, us) \<leftarrow> parse_hh_mm_ss_ff (tl z);
        Some (Some ((if hd z = 45 then -1 else 1) * ((hh * 3600 + mm * 60 + ss) * 1000000 + us)))
      })"

text \<open>24:00:00 is midnight of the next day.\<close>

definition make_datetime ::
    "int \<times> int \<times> int \<Rightarrow> int \<times> int \<times> int \<times> int \<Rightarrow> int option \<Rightarrow> pydatetime option" where
  "make_datetime ymd hms z =
     (case ymd of (y, m, d) \<Rightarrow> case hms of (hh, mm, ss, us) \<Rightarrow>
        let t = \<lparr>year = y, month = m, day = d, hour = (if hh = 24 then 0 else hh), minute = mm,
                 second = ss, microsecond = us, utcoffset = z\<rparr> in
        if \<not> datetime_ok t then None
        else if hh \<noteq> 24 then Some t
        else if mm \<noteq> 0 \<or> ss \<noteq> 0 \<or> us \<noteq> 0 then None
        else case ord2ymd (ymd2ord y m d + 1) of (y, m, d) \<Rightarrow>
          let t = t\<lparr>year := y, month := m, day := d\<rparr> in
          if datetime_ok t then Some t else None)"

definition fromisoformat :: "pystr \<Rightarrow> pydatetime option" where
  "fromisoformat s = do {
     k \<leftarrow> (if length s < 7 then None else separator_location s);
     ymd \<leftarrow> parse_isoformat_date (take k s);
     let r = drop (k + 1) s;
     if r = [] then make_datetime ymd (0, 0, 0, 0) None
     else do {
       let n = length (takeWhile (\<lambda>c. c \<noteq> 43 \<and> c \<noteq> 45 \<and> c \<noteq> 90) r);
       hms \<leftarrow> parse_hh_mm_ss_ff (take n r);
       z \<leftarrow> parse_offset (drop n r);
       make_datetime ymd hms z
     }
   }"

declare ascii_num_def [py_eval] parse_digits_def [py_eval] head_is_def [py_eval]
  separator_location_def [py_eval] iso_week1_monday_def [py_eval] iso_to_ymd_def [py_eval]
  parse_isoformat_date_def [py_eval] parse_fraction_def [py_eval]
  parse_hh_mm_ss_ff_def [py_eval] parse_offset_def [py_eval] make_datetime_def [py_eval]
  fromisoformat_def [py_eval]

subsection \<open>Reading back a printed date and time\<close>

lemma num_value_append: "num_value a (xs @ ys) = num_value (num_value a xs) ys"
  by (induction xs arbitrary: a) simp_all

lemma num_value_zeros: "num_value 0 (replicate k 48 @ s) = num_value 0 s"
  by (induction k) simp_all

lemma num_value_dec: "0 \<le> n \<Longrightarrow> num_value 0 (dec_digits n) = n"
proof (induction n rule: dec_digits.induct)
  case (1 n)
  then show ?case
    by (cases "n < 10") (simp_all add: dec_digits.simps [of n] num_value_append)
qed

lemma dec_digits_length: "n < 10 ^ w \<Longrightarrow> 0 < w \<Longrightarrow> length (dec_digits n) \<le> w"
proof (induction n arbitrary: w rule: dec_digits.induct)
  case (1 n)
  show ?case
  proof (cases "n < 10")
    case True
    with 1 show ?thesis by (simp add: dec_digits.simps [of n])
  next
    case False
    with 1 obtain k where k: "w = Suc k" "0 < k"
      by (cases w; cases "w - 1") auto
    with 1 False have "length (dec_digits (n div 10)) \<le> k"
      by simp
    with k False show ?thesis by (simp add: dec_digits.simps [of n])
  qed
qed

lemma dd_digits:
  assumes "0 \<le> n" "n < 10 ^ w" "0 < w"
  shows "length (dd w n) = w" "c \<in> set (dd w n) \<Longrightarrow> ascii_num c" "num_value 0 (dd w n) = n"
  using assms dec_digits_length [of n w] dec_digits_range [of n c]
  by (auto simp: dd_def zero_pad_def ascii_num_def num_value_zeros num_value_dec)

lemma parse_dd: "0 \<le> n \<Longrightarrow> n < 10 ^ w \<Longrightarrow> 0 < w \<Longrightarrow> parse_digits w (dd w n @ r) = Some (n, r)"
  using dd_digits by (simp add: parse_digits_def list_all_iff)

lemma parse_dd2: "0 \<le> n \<Longrightarrow> n \<le> 99 \<Longrightarrow> parse_digits 2 (dd 2 n @ r) = Some (n, r)"
  by (rule parse_dd) simp_all

lemmas parse_dd2' = parse_dd2 [of _ "[]", simplified]

lemma parse_fraction_dd: "0 \<le> n \<Longrightarrow> n \<le> 999999 \<Longrightarrow> parse_fraction (dd 6 n) = Some n"
  using dd_digits [of n 6] by (auto simp: parse_fraction_def list_all_iff)

lemma dd_nonempty [simp]: "dd w n \<noteq> []"
  by (simp add: dd_def zero_pad_def)

lemma head_is_simps [simp]: "head_is c [] = False" "head_is c (d # s) = (d = c)"
  by (auto simp: head_is_def)

lemma dd2_list: "0 \<le> n \<Longrightarrow> n \<le> 99 \<Longrightarrow> \<exists>a b. dd 2 n = [a, b] \<and> ascii_num a \<and> ascii_num b"
proof -
  assume n: "0 \<le> n" "n \<le> 99"
  then obtain a b where "dd 2 n = [a, b]"
    using dd_digits(1) [of n 2] by (auto simp: numeral_eq_Suc length_Suc_conv)
  with n show ?thesis using dd_digits(2) [of n 2] by auto
qed

lemma dd4_list: "0 \<le> n \<Longrightarrow> n \<le> 9999 \<Longrightarrow> \<exists>a b c d. dd 4 n = [a, b, c, d]"
  using dd_digits(1) [of n 4] by (auto simp: numeral_eq_Suc length_Suc_conv)

text \<open>The seconds, with the fraction left out when it is zero.\<close>

definition dd_seconds :: "int \<Rightarrow> int \<Rightarrow> pystr" where
  "dd_seconds s us = dd 2 s @ (if us = 0 then [] else [46] @ dd 6 us)"

lemma parse_time:
  assumes "0 \<le> h" "h \<le> 99" "0 \<le> m" "m \<le> 99" "0 \<le> s" "s \<le> 99" "0 \<le> us" "us \<le> 999999"
  shows "parse_hh_mm_ss_ff (dd 2 h @ [58] @ dd 2 m @ [58] @ dd_seconds s us) = Some (h, m, s, us)"
    "parse_hh_mm_ss_ff (dd 2 h @ [58] @ dd 2 m) = Some (h, m, 0, 0)"
  using assms
  by (simp_all add: parse_hh_mm_ss_ff_def dd_seconds_def parse_dd2 parse_dd2' parse_fraction_dd)

lemma hms_split:
  fixes s :: int
  assumes "0 \<le> s" "s < 86400"
  shows "s div 3600 * 3600 + s div 60 mod 60 * 60 + s mod 60 = s"
    "0 \<le> s div 3600" "s div 3600 \<le> 99" "0 \<le> s div 60 mod 60" "s div 60 mod 60 \<le> 99"
    "0 \<le> s mod 60" "s mod 60 \<le> 99"
proof -
  have h: "s div 3600 = s div 60 div 60"
    using zdiv_zmult2_eq [of 60 s 60] by simp
  have "s div 60 * 60 + s mod 60 = s" "s div 60 div 60 * 60 + s div 60 mod 60 = s div 60"
    by simp_all
  then show "s div 3600 * 3600 + s div 60 mod 60 * 60 + s mod 60 = s"
    unfolding h by linarith
  have "s div 60 mod 60 < 60" "s mod 60 < 60" by simp_all
  then show "s div 60 mod 60 \<le> 99" "s mod 60 \<le> 99" by linarith+
  show "0 \<le> s div 3600" using assms by simp
  show "s div 3600 \<le> 99" using assms by simp
  show "0 \<le> s div 60 mod 60" "0 \<le> s mod 60" by simp_all
qed

lemma parse_offset_sign:
  assumes "parse_hh_mm_ss_ff r = Some (hh, mm, ss, us)" "(hh * 3600 + mm * 60 + ss) * 1000000 + us = abs z"
  shows "parse_offset ((if z < 0 then 45 else 43) # r) = Some (Some z)"
  using assms by (simp add: parse_offset_def abs_if split: if_splits)

lemma parse_iso_offset:
  assumes "- 86400000000 < z" "z < 86400000000"
  shows "parse_offset (iso_offset z) = Some (Some z)"
proof -
  define s where "s = abs z div 1000000"
  define us where "us = abs z mod 1000000"
  have s: "0 \<le> s" "s < 86400" and us: "0 \<le> us" "us \<le> 999999"
    using assms by (auto simp: s_def us_def)
  have z: "s * 1000000 + us = abs z" by (simp add: s_def us_def)
  note h = hms_split [OF s]
  let ?sign = "if z < 0 then 45 else (43::int)"
  have iso: "iso_offset z = ?sign # dd 2 (s div 3600) @ [58] @ dd 2 (s div 60 mod 60) @
      (if s mod 60 = 0 \<and> us = 0 then [] else [58] @ dd_seconds (s mod 60) us)"
    by (simp add: iso_offset_def Let_def dd_seconds_def flip: s_def us_def)
  note t = parse_time [OF h(2-7) us]
  show ?thesis
  proof (cases "s mod 60 = 0 \<and> us = 0")
    case True
    have "parse_offset (?sign # dd 2 (s div 3600) @ [58] @ dd 2 (s div 60 mod 60)) = Some (Some z)"
      by (rule parse_offset_sign [OF t(2)]) (use True h(1) z in simp)
    then show ?thesis by (simp only: iso if_P [OF True] append_Nil2)
  next
    case False
    have "parse_offset (?sign # dd 2 (s div 3600) @ [58] @ dd 2 (s div 60 mod 60) @ [58] @
        dd_seconds (s mod 60) us) = Some (Some z)"
      by (rule parse_offset_sign [OF t(1)]) (simp only: h(1) z)
    then show ?thesis by (simp only: iso if_not_P [OF False])
  qed
qed

lemma days_in_month_bound: "1 \<le> m \<Longrightarrow> m \<le> 12 \<Longrightarrow> days_in_month y m \<le> 31"
proof -
  assume "1 \<le> m" "m \<le> 12"
  then have "nat (m - 1) < 12" by simp
  then show ?thesis
    by (auto simp: days_in_month_def month_lengths_def numeral_eq_Suc less_Suc_eq)
qed

lemma parse_iso_date:
  assumes "0 \<le> y" "y \<le> 9999" "0 \<le> m" "m \<le> 99" "0 \<le> d" "d \<le> 99"
  shows "parse_isoformat_date (dd 4 y @ [45] @ dd 2 m @ [45] @ dd 2 d) = Some (y, m, d)"
proof -
  have "\<not> head_is 87 (dd 2 m @ s)" for s
    using dd2_list [of m] assms by (auto simp: ascii_num_def)
  with assms parse_dd [of y 4] show ?thesis
    by (simp add: parse_isoformat_date_def parse_dd2 parse_dd2')
qed

lemma fromisoformat_isoformat:
  assumes "datetime_ok t"
  shows "fromisoformat (isoformat t) = Some t"
proof -
  let ?D = "dd 4 (year t) @ [45] @ dd 2 (month t) @ [45] @ dd 2 (day t)"
  let ?T = "dd 2 (hour t) @ [58] @ dd 2 (minute t) @ [58] @ dd_seconds (second t) (microsecond t)"
  let ?Z = "case utcoffset t of None \<Rightarrow> [] | Some z \<Rightarrow> iso_offset z"
  have ok: "0 \<le> year t" "year t \<le> 9999" "0 \<le> month t" "month t \<le> 99" "0 \<le> day t" "day t \<le> 99"
      "0 \<le> hour t" "hour t \<le> 99" "0 \<le> minute t" "minute t \<le> 99" "0 \<le> second t" "second t \<le> 99"
      "0 \<le> microsecond t" "microsecond t \<le> 999999" "hour t \<noteq> 24"
    using assms days_in_month_bound [of "month t" "year t"] by (auto simp: datetime_ok_def)
  have iso: "isoformat t = ?D @ [84] @ ?T @ ?Z"
    by (simp add: isoformat_def dd_seconds_def)
  obtain a b c d where y: "dd 4 (year t) = [a, b, c, d]" using dd4_list ok by blast
  obtain e f where m: "dd 2 (month t) = [e, f]" "ascii_num e" using dd2_list ok by blast
  obtain g h where dy: "dd 2 (day t) = [g, h]" using dd2_list ok by blast
  have len: "length ?D = 10" by (simp add: y m dy)
  have sep: "separator_location (?D @ [84] @ ?T @ ?Z) = Some 10"
    using m by (auto simp: separator_location_def y dy ascii_num_def)
  have date: "parse_isoformat_date ?D = Some (year t, month t, day t)"
    using parse_iso_date ok by simp
  have time: "parse_hh_mm_ss_ff ?T = Some (hour t, minute t, second t, microsecond t)"
    using parse_time(1) ok by simp
  have zone: "parse_offset ?Z = Some (utcoffset t)"
  proof (cases "utcoffset t")
    case None
    then show ?thesis by (simp add: parse_offset_def)
  next
    case (Some z)
    then show ?thesis
      using assms parse_iso_offset [of z] by (simp add: datetime_ok_def)
  qed
  let ?P = "\<lambda>c. c \<noteq> 43 \<and> c \<noteq> 45 \<and> (c::int) \<noteq> 90"
  have num: "?P x" if "x \<in> set (dd w n)" "0 \<le> n" "n < 10 ^ w" "0 < w" for x w n
    using dd_digits(2) [OF that(2,3,4,1)] by (auto simp: ascii_num_def)
  have "\<forall>x \<in> set ?T. ?P x"
    using ok num [of _ 2 "hour t"] num [of _ 2 "minute t"] num [of _ 2 "second t"]
      num [of _ 6 "microsecond t"]
    by (auto simp: dd_seconds_def)
  moreover have "takeWhile ?P ?Z = []"
    by (simp add: iso_offset_def Let_def split: option.splits)
  ultimately have tw: "takeWhile ?P (?T @ ?Z) = ?T"
    by (simp only: takeWhile_append) simp
  have make: "make_datetime (year t, month t, day t) (hour t, minute t, second t, microsecond t)
      (utcoffset t) = Some t"
    using assms ok by (simp add: make_datetime_def Let_def datetime_ok_def)
  define r where "r = ?T @ ?Z"
  define n where "n = length (takeWhile ?P r)"
  have n: "n = length ?T" using tw by (simp only: n_def r_def)
  have r: "r \<noteq> []" "take n r = ?T" "drop n r = ?Z"
    unfolding n by (simp_all only: r_def append_eq_conv_conj) simp_all
  have k: "(if length (isoformat t) < 7 then None else separator_location (isoformat t)) = Some 10"
    using len sep by (simp add: iso)
  have d10: "take 10 (isoformat t) = ?D" and d11: "drop (10 + 1) (isoformat t) = r"
    by (simp_all add: iso r_def y m dy)
  show ?thesis
    unfolding fromisoformat_def k bind.bind_lunit d10 date prod.case d11 Let_def if_not_P [OF r(1)]
      n_def [symmetric] r(2,3) time zone make ..
qed

end
