(* ===== verification/Health.thy ===== *)
theory Health
  imports Filesystem Json Py_Time
begin

text \<open>
  src/card_pulse/application/health.py and the two probes of src/card_pulse/adapters. A probe is a
  function from the state of the world to a status and the next state. psycopg is a parameter: the
  \<open>database\<close> of the world says how a connection attempt with a given DSN and timeout ends, an
  error carrying the exception's class and text (psycopg raises only subclasses of its Error). The
  locale \<open>wired_probes\<close> states what the entrypoints rely on: each probe reports under its own name
  and disturbs nothing else; the API and the Worker interpret it on their \<open>build_probes\<close>.
\<close>

subsection \<open>The state of the world\<close>

datatype driver_outcome = Answered | Driver_error pystr pystr

record world =
  files :: files
  refuse :: "fs_op \<Rightarrow> os_error option"
  database :: "pystr \<Rightarrow> int \<Rightarrow> driver_outcome"
  connections :: nat
  pid :: int
  now :: pydatetime

subsection \<open>Statuses and reports\<close>

definition DATABASE :: pystr where "DATABASE = lit ''database''"
definition ARTIFACT_STORAGE :: pystr where "ARTIFACT_STORAGE = lit ''artifact-storage''"

record dependency_status =
  dep_name :: pystr
  dep_healthy :: bool
  dep_detail :: pystr

type_synonym probe = "world \<Rightarrow> dependency_status \<times> world"

record health_report =
  report_dependencies :: "dependency_status list"

definition report_healthy :: "health_report \<Rightarrow> bool" where
  "report_healthy r \<longleftrightarrow> list_all dep_healthy (report_dependencies r)"

fun run_probes :: "probe list \<Rightarrow> world \<Rightarrow> dependency_status list \<times> world" where
  "run_probes [] w = ([], w)"
| "run_probes (p # ps) w =
     (let (s, w') = p w; (ss, w'') = run_probes ps w' in (s # ss, w''))"

definition check_dependencies :: "probe list \<Rightarrow> world \<Rightarrow> health_report \<times> world" where
  "check_dependencies probes w =
     (let (ss, w') = run_probes probes w in (\<lparr>report_dependencies = ss\<rparr>, w'))"

definition describe :: "dependency_status list \<Rightarrow> pystr" where
  "describe deps =
     join [44, 32]
       (map (\<lambda>d. dep_name d @ [61] @ (if dep_healthy d then lit ''ok'' else lit ''failed'')) deps)"

text \<open>\<open>dataclasses.asdict\<close> and the status word both entrypoints publish.\<close>

definition asdict :: "dependency_status \<Rightarrow> json" where
  "asdict d =
     JObj [(lit ''name'', JStr (dep_name d)), (lit ''healthy'', JBool (dep_healthy d)),
           (lit ''detail'', JStr (dep_detail d))]"

definition status_word :: "health_report \<Rightarrow> pystr" where
  "status_word r = (if report_healthy r then lit ''ok'' else lit ''degraded'')"

subsection \<open>The database probe\<close>

definition DEFAULT_CONNECT_TIMEOUT_SECONDS :: int where
  "DEFAULT_CONNECT_TIMEOUT_SECONDS = 5"

definition describe_error :: "pystr \<Rightarrow> pystr \<Rightarrow> pystr" where
  "describe_error cls txt =
     (let lines = splitlines (strip txt) in
      cls @ lit '': '' @ (case lines of [] \<Rightarrow> lit ''no detail reported'' | l # _ \<Rightarrow> l))"

definition probe_database :: "pystr \<Rightarrow> int \<Rightarrow> probe" where
  "probe_database dsn connect_timeout w =
     (case database w dsn connect_timeout of
        Driver_error cls txt \<Rightarrow>
          \<lparr>dep_name = DATABASE, dep_healthy = False, dep_detail = describe_error cls txt\<rparr>
      | Answered \<Rightarrow>
          \<lparr>dep_name = DATABASE, dep_healthy = True, dep_detail = lit ''connection accepted''\<rparr>,
      w\<lparr>connections := Suc (connections w)\<rparr>)"

subsection \<open>The artifact storage probe\<close>

definition probe_file :: "path \<Rightarrow> int \<Rightarrow> path" where
  "probe_file root p = child root (lit ''.write-probe-'' @ py_str p)"

definition storage_failure :: "os_error \<Rightarrow> dependency_status" where
  "storage_failure e =
     \<lparr>dep_name = ARTIFACT_STORAGE, dep_healthy = False,
      dep_detail = err_class e @ lit '': '' @ (if strerror e \<noteq> [] then strerror e else err_text e)\<rparr>"

definition probe_artifact_storage :: "path \<Rightarrow> probe" where
  "probe_artifact_storage root w =
     (let pf = probe_file root (pid w) in
      case mkdirs (refuse w) root (files w) of
        (f, Some e) \<Rightarrow> (storage_failure e, w\<lparr>files := f\<rparr>)
      | (f, None) \<Rightarrow>
          (case run_ops (refuse w) (write_ops pf [] @ [Unlink pf]) f of
             (tr, Some e) \<Rightarrow> (storage_failure e, w\<lparr>files := final f tr\<rparr>)
           | (tr, None) \<Rightarrow>
               (\<lparr>dep_name = ARTIFACT_STORAGE, dep_healthy = True,
                 dep_detail = path_str root @ lit '' is writable''\<rparr>, w\<lparr>files := final f tr\<rparr>)))"

declare DATABASE_def [py_eval] ARTIFACT_STORAGE_def [py_eval] report_healthy_def [py_eval]
  check_dependencies_def [py_eval] describe_def [py_eval] asdict_def [py_eval]
  status_word_def [py_eval] describe_error_def [py_eval] probe_database_def [py_eval]
  probe_file_def [py_eval] storage_failure_def [py_eval] probe_artifact_storage_def [py_eval]

subsection \<open>What the entrypoints rely on\<close>

locale wired_probes =
  fixes probes :: "probe list" and names :: "pystr list" and R :: "world \<Rightarrow> world \<Rightarrow> bool"
  assumes named: "list_all2 (\<lambda>p n. \<forall>w. dep_name (fst (p w)) = n) probes names"
    and keeps: "p \<in> set probes \<Longrightarrow> R w (snd (p w))"
    and refl: "R w w"
    and trans: "R u v \<Longrightarrow> R v w \<Longrightarrow> R u w"
begin

lemma run_names: "map dep_name (fst (run_probes probes w)) = names"
  using named
proof (induction probes names arbitrary: w rule: list_all2_induct)
  case Nil
  then show ?case by simp
next
  case (Cons p ps n ns)
  then show ?case by (simp add: split_beta Let_def)
qed

lemma run_keeps: "R w (snd (run_probes probes w))"
proof -
  have "R w (snd (run_probes ps w))" if "set ps \<subseteq> set probes" for ps
    using that
  proof (induction ps arbitrary: w)
    case Nil
    then show ?case by (simp add: refl)
  next
    case (Cons p ps)
    then have "R w (snd (p w))" "R (snd (p w)) (snd (run_probes ps (snd (p w))))"
      using keeps by auto
    then show ?case using trans by (simp add: split_beta Let_def)
  qed
  then show ?thesis by blast
qed

text \<open>One unreachable dependency never hides the others: every one is reported, in order.\<close>

lemma report_names:
  "map dep_name (report_dependencies (fst (check_dependencies probes w))) = names"
  using run_names [of w] by (simp add: check_dependencies_def split_beta Let_def)

lemma check_keeps: "R w (snd (check_dependencies probes w))"
  using run_keeps [of w] by (simp add: check_dependencies_def split_beta Let_def)

end

subsection \<open>The probes\<close>

lemma probe_database_name: "dep_name (fst (probe_database dsn t w)) = DATABASE"
  by (simp add: probe_database_def split: driver_outcome.splits)

lemma probe_database_world:
  "snd (probe_database dsn t w) = w\<lparr>connections := Suc (connections w)\<rparr>"
  by (simp add: probe_database_def)

lemma probe_database_healthy:
  "dep_healthy (fst (probe_database dsn t w)) \<longleftrightarrow> database w dsn t = Answered"
  by (simp add: probe_database_def split: driver_outcome.splits)

lemma probe_storage_name: "dep_name (fst (probe_artifact_storage root w)) = ARTIFACT_STORAGE"
  by (simp add: probe_artifact_storage_def storage_failure_def Let_def
      split: prod.splits option.splits)

text \<open>The storage probe touches no file but its own.\<close>

definition undisturbed :: "path \<Rightarrow> world \<Rightarrow> world \<Rightarrow> bool" where
  "undisturbed root w w' \<longleftrightarrow>
     (\<forall>p. files w p \<noteq> None \<longrightarrow> p \<noteq> probe_file root (pid w) \<longrightarrow> files w' p = files w p) \<and>
     refuse w' = refuse w \<and> database w' = database w \<and> pid w' = pid w \<and> now w' = now w"

lemma undisturbed_refl: "undisturbed root w w"
  by (simp add: undisturbed_def)

lemma undisturbed_trans: "undisturbed root u v \<Longrightarrow> undisturbed root v w \<Longrightarrow> undisturbed root u w"
  by (simp add: undisturbed_def)

lemma probe_storage_undisturbed: "undisturbed root w (snd (probe_artifact_storage root w))"
proof -
  let ?pf = "probe_file root (pid w)"
  obtain f r where f: "mkdirs (refuse w) root (files w) = (f, r)" by force
  have mk: "files w p \<noteq> None \<Longrightarrow> f p = files w p" for p
    by (rule mkdirs_keeps [OF f]) blast
  let ?ops = "write_ops ?pf [] @ [Unlink ?pf]"
  obtain tr s where tr: "run_ops (refuse w) ?ops f = (tr, s)" by force
  have "p \<noteq> ?pf \<Longrightarrow> final f tr p = f p" for p
    using final_in [of f tr] run_ops_frame [of _ "refuse w" ?ops f p] tr by (auto simp: write_ops_def)
  then show ?thesis
    using f tr mk by (auto simp: probe_artifact_storage_def undisturbed_def Let_def split: option.splits)
qed

lemma probe_database_undisturbed: "undisturbed root w (snd (probe_database dsn t w))"
  by (simp add: probe_database_world undisturbed_def)

text \<open>
  A run of the storage probe that reports success leaves the root a directory, and no probe file.
\<close>

lemma mkdir_exist_ok_dir: "mkdir_exist_ok rf p f = (f', None) \<Longrightarrow> is_dir f' p"
  by (auto simp: mkdir_exist_ok_def run_op_Inr is_dir_def split: sum.splits if_splits option.splits)

lemma mkdirs_dir: "mkdirs rf p f = (f', None) \<Longrightarrow> is_dir f' p"
proof -
  assume a: "mkdirs rf p f = (f', None)"
  show ?thesis
  proof (cases "run_op rf (Mkdir p) f")
    case (Inr g)
    with a show ?thesis
      by (auto simp: mkdirs.simps [of rf p f] run_op_Inr is_dir_def split: if_splits option.splits)
  next
    case (Inl e)
    with a show ?thesis
      by (auto simp: mkdirs.simps [of rf p f] mkdir_exist_ok_dir
          split: if_splits option.splits prod.splits)
  qed
qed

lemma child_neq: "child root n \<noteq> root" "root \<noteq> child root n"
  by (cases root; simp add: child_def)+

lemma probe_storage_healthy:
  assumes "dep_healthy (fst (probe_artifact_storage root w))"
  shows "is_dir (files (snd (probe_artifact_storage root w))) root \<and>
    files (snd (probe_artifact_storage root w)) (probe_file root (pid w)) = None"
proof -
  let ?pf = "probe_file root (pid w)"
  obtain f r where f: "mkdirs (refuse w) root (files w) = (f, r)" by force
  obtain tr s where tr: "run_ops (refuse w) (write_ops ?pf [] @ [Unlink ?pf]) f = (tr, s)" by force
  have r: "r = None" and s: "s = None"
    using assms f tr
    by (auto simp: probe_artifact_storage_def storage_failure_def Let_def split: option.splits)
  have "is_dir f root" using f r mkdirs_dir by simp
  moreover have "final f tr ?pf = None" "p \<noteq> ?pf \<Longrightarrow> final f tr p = f p" for p
    using tr s by (auto simp: write_ops_def run_op_Inr final_def split: sum.splits if_splits option.splits)
  ultimately show ?thesis
    using f tr r s
    by (auto simp: probe_artifact_storage_def Let_def is_dir_def probe_file_def child_neq)
qed

end
