(* ===== verification/Settings.thy ===== *)
theory Settings
  imports Py_Float
begin

text \<open>
  src/card_pulse/entrypoints/settings.py: the environment variables the API, the Worker and their
  health checks read. An environment is a dict of texts; \<open>None\<close> as the argument stands for the
  process environment, the first parameter. A SettingsError is a constructor of
  \<open>settings_error\<close> with the variable and the raw text its message shows. The lemmas give what each
  reader accepts, the error of every refusal, and that the staleness limit covers a cycle.
\<close>

type_synonym environ = "(pystr, pystr) pydict"

datatype settings_error =
    Required pystr
  | Not_a_number pystr pystr
  | Not_positive pystr pystr
  | Not_an_integer pystr pystr
  | Not_a_port pystr pystr

definition DATABASE_URL :: pystr where "DATABASE_URL = lit ''CARD_PULSE_DATABASE_URL''"
definition API_HOST :: pystr where "API_HOST = lit ''CARD_PULSE_API_HOST''"
definition API_PORT :: pystr where "API_PORT = lit ''CARD_PULSE_API_PORT''"
definition ARTIFACT_ROOT :: pystr where "ARTIFACT_ROOT = lit ''CARD_PULSE_ARTIFACT_ROOT''"
definition WORKER_HEARTBEAT_PATH :: pystr where
  "WORKER_HEARTBEAT_PATH = lit ''CARD_PULSE_WORKER_HEARTBEAT_PATH''"
definition WORKER_INTERVAL_SECONDS :: pystr where
  "WORKER_INTERVAL_SECONDS = lit ''CARD_PULSE_WORKER_INTERVAL_SECONDS''"

definition DEFAULT_API_HOST :: pystr where "DEFAULT_API_HOST = lit ''127.0.0.1''"
definition DEFAULT_API_PORT :: int where "DEFAULT_API_PORT = 8000"
definition DEFAULT_ARTIFACT_ROOT :: pystr where "DEFAULT_ARTIFACT_ROOT = lit ''var/raw''"
definition DEFAULT_HEARTBEAT_PATH :: pystr where
  "DEFAULT_HEARTBEAT_PATH = lit ''var/logs/worker-heartbeat.json''"
definition DEFAULT_INTERVAL_SECONDS :: pyfloat where "DEFAULT_INTERVAL_SECONDS = Float 30 0"
definition MISSED_CYCLES_BEFORE_STALE :: int where "MISSED_CYCLES_BEFORE_STALE = 3"
definition MINIMUM_HEARTBEAT_MAX_AGE_SECONDS :: pyfloat where
  "MINIMUM_HEARTBEAT_MAX_AGE_SECONDS = Float 15 0"

subsection \<open>Readers\<close>

definition environment :: "environ \<Rightarrow> environ option \<Rightarrow> environ" where
  "environment os environ = (case environ of None \<Rightarrow> os | Some e \<Rightarrow> e)"

text \<open>\<open>environ.get(name, "").strip()\<close>\<close>

definition raw_setting :: "environ \<Rightarrow> pystr \<Rightarrow> pystr" where
  "raw_setting e name = strip (dict_get e name [])"

definition required :: "environ \<Rightarrow> pystr \<Rightarrow> settings_error + pystr" where
  "required e name = (let value = raw_setting e name in
     if value = [] then Inl (Required name) else Inr value)"

definition positive_number :: "environ \<Rightarrow> pystr \<Rightarrow> pyfloat \<Rightarrow> settings_error + pyfloat" where
  "positive_number e name default_value = (let raw = raw_setting e name in
     if raw = [] then Inr default_value
     else case py_float raw of
            None \<Rightarrow> Inl (Not_a_number name raw)
          | Some value \<Rightarrow>
              if float_le value (Float 0 0) then Inl (Not_positive name raw) else Inr value)"

definition api_port :: "environ \<Rightarrow> environ option \<Rightarrow> settings_error + int" where
  "api_port os environ =
     (let source = environment os environ; raw = raw_setting source API_PORT in
      if raw = [] then Inr DEFAULT_API_PORT
      else case py_int raw of
             None \<Rightarrow> Inl (Not_an_integer API_PORT raw)
           | Some port \<Rightarrow>
               if 1 \<le> port \<and> port \<le> 65535 then Inr port else Inl (Not_a_port API_PORT raw))"

definition worker_heartbeat_path :: "environ \<Rightarrow> environ option \<Rightarrow> pystr" where
  "worker_heartbeat_path os environ =
     (let source = environment os environ; raw = raw_setting source WORKER_HEARTBEAT_PATH in
      if raw \<noteq> [] then raw else DEFAULT_HEARTBEAT_PATH)"

definition worker_interval_seconds :: "environ \<Rightarrow> environ option \<Rightarrow> settings_error + pyfloat" where
  "worker_interval_seconds os environ =
     positive_number (environment os environ) WORKER_INTERVAL_SECONDS DEFAULT_INTERVAL_SECONDS"

definition heartbeat_max_age_seconds :: "pyfloat \<Rightarrow> pyfloat" where
  "heartbeat_max_age_seconds interval =
     float_max (float_times interval MISSED_CYCLES_BEFORE_STALE) MINIMUM_HEARTBEAT_MAX_AGE_SECONDS"

subsection \<open>Settings of the two services\<close>

record api_settings =
  host :: pystr
  port :: int
  api_database_url :: pystr

definition api_from_environment ::
    "environ \<Rightarrow> environ option \<Rightarrow> settings_error + api_settings" where
  "api_from_environment os environ =
     (let source = environment os environ; raw_host = raw_setting source API_HOST in
      and_then (api_port os (Some source)) (\<lambda>p.
      and_then (required source DATABASE_URL) (\<lambda>url.
      Inr \<lparr>host = (if raw_host \<noteq> [] then raw_host else DEFAULT_API_HOST), port = p,
           api_database_url = url\<rparr>)))"

record worker_settings =
  worker_database_url :: pystr
  artifact_root :: pystr
  heartbeat_path :: pystr
  interval_seconds :: pyfloat

definition worker_from_environment ::
    "environ \<Rightarrow> environ option \<Rightarrow> settings_error + worker_settings" where
  "worker_from_environment os environ =
     (let source = environment os environ; raw_root = raw_setting source ARTIFACT_ROOT in
      and_then (required source DATABASE_URL) (\<lambda>url.
      and_then (worker_interval_seconds os (Some source)) (\<lambda>interval.
      Inr \<lparr>worker_database_url = url,
           artifact_root = (if raw_root \<noteq> [] then raw_root else DEFAULT_ARTIFACT_ROOT),
           heartbeat_path = worker_heartbeat_path os (Some source),
           interval_seconds = interval\<rparr>)))"

declare DATABASE_URL_def [py_eval] API_HOST_def [py_eval] API_PORT_def [py_eval]
  ARTIFACT_ROOT_def [py_eval] WORKER_HEARTBEAT_PATH_def [py_eval]
  WORKER_INTERVAL_SECONDS_def [py_eval] environment_def [py_eval] raw_setting_def [py_eval]

subsection \<open>What the readers accept\<close>

lemma environment_simps [simp]: "environment os (Some e) = e" "environment os None = os"
  by (simp_all add: environment_def)

lemma api_port_bounds: "api_port os e = Inr p \<Longrightarrow> 1 \<le> p \<and> p \<le> 65535"
  by (auto simp: api_port_def DEFAULT_API_PORT_def Let_def split: option.splits if_splits)

lemma required_Inr: "required e name = Inr v \<longleftrightarrow> v = raw_setting e name \<and> v \<noteq> []"
  by (auto simp: required_def Let_def)

lemma positive_number_cases:
  "positive_number e name d = Inr x \<Longrightarrow>
     x = d \<or> (\<exists>raw. py_float raw = Some x \<and> \<not> float_le x (Float 0 0))"
  by (auto simp: positive_number_def Let_def split: option.splits if_splits)

lemma positive_float:
  assumes "\<not> float_le x (Float 0 0)" "float_wf x" "x \<noteq> Float_nan"
  shows "x = Float_inf False \<or> (\<exists>m e. x = Float m e \<and> 0 < m \<and> - 1074 \<le> e)"
proof (cases x)
  case (Float m e)
  with assms have "0 < m" "- 1074 \<le> e"
    by (auto simp: float_le_val not_le zero_less_mult_iff simp del: float_le.simps(7))
      (metis less_le_not_le pow2_pos)
  with Float show ?thesis by simp
qed (use assms in auto)

lemma interval_positive:
  assumes "worker_interval_seconds os e = Inr x" "x \<noteq> Float_nan"
  shows "x = Float_inf False \<or> (\<exists>m e. x = Float m e \<and> 0 < m \<and> - 1074 \<le> e)"
proof -
  have "x = Float 30 0 \<or> (\<exists>raw. py_float raw = Some x \<and> \<not> float_le x (Float 0 0))"
    using assms(1) positive_number_cases
    by (simp add: worker_interval_seconds_def DEFAULT_INTERVAL_SECONDS_def)
  then show ?thesis
    using positive_float [OF _ py_float_wf assms(2)] by auto
qed

lemma float_max_upper:
  assumes "x \<noteq> Float_nan" "y \<noteq> Float_nan"
  shows "float_le x (float_max x y)" "float_le y (float_max x y)"
proof -
  have refl: "z \<noteq> Float_nan \<Longrightarrow> float_le z z" for z by (cases z) auto
  have total: "\<not> float_le y x \<Longrightarrow> float_le x y"
  proof (cases x; cases y)
    fix m e n f assume "\<not> float_le y x" "x = Float m e" "y = Float n f"
    then show ?thesis by (simp only: float_le_val)
  qed (use assms in auto)
  show "float_le x (float_max x y)" "float_le y (float_max x y)"
    using assms refl total by (auto simp: float_max_def float_lt_def)
qed

lemma float_le_trans: "float_le x y \<Longrightarrow> float_le y z \<Longrightarrow> float_le x z"
proof (cases x; cases y; cases z)
  fix m e n f k g assume "float_le x y" "float_le y z" "x = Float m e" "y = Float n f" "z = Float k g"
  then show ?thesis by (simp only: float_le_val)
qed (auto simp del: float_le.simps(7))

lemma max_age_covers_interval:
  assumes "worker_interval_seconds os e = Inr x" "x \<noteq> Float_nan"
  shows "float_le x (heartbeat_max_age_seconds x) \<and>
    float_le (Float 15 0) (heartbeat_max_age_seconds x)"
proof -
  let ?t = "float_times x 3"
  have le: "float_le x ?t"
    using interval_positive [OF assms] float_times_ge [of _ _ 3] by auto
  then have "?t \<noteq> Float_nan"
    using assms(2) by (cases x) auto
  then have "float_le ?t (heartbeat_max_age_seconds x)"
    "float_le (Float 15 0) (heartbeat_max_age_seconds x)"
    using float_max_upper [of ?t "Float 15 0"]
    by (simp_all add: heartbeat_max_age_seconds_def MISSED_CYCLES_BEFORE_STALE_def
        MINIMUM_HEARTBEAT_MAX_AGE_SECONDS_def)
  with le show ?thesis by (blast intro: float_le_trans)
qed

end
