(* ===== verification/Py_Regex.thy ===== *)
theory Py_Regex
  imports Py_Prelude
begin

text \<open>
  Python's \<open>re\<close> for the patterns the sources use: a pattern gives the list of its matches at a position in
  the order the backtracking search tries them, so that the first is the one \<open>re.match\<close> takes. \<open>find_all\<close>
  and \<open>sub_all\<close> scan from left to right without overlap, as \<open>finditer\<close> and \<open>sub\<close> do. No pattern here
  repeats a part that can match the empty text.
\<close>

subsection \<open>Patterns and positions\<close>

datatype regex =
    Empty
  | Chr "int \<Rightarrow> bool"
  | Seq regex regex
  | Alt regex regex
  | Many regex
  | Few regex
  | Group nat regex
  | Edge "int \<Rightarrow> bool"
  | Line_end

text \<open>
  Where a search stands: the character before, the text that follows, and the groups that matched, the
  latest first. \<open>Edge w\<close> is \<open>\b\<close> for the word characters \<open>w\<close>.
\<close>

type_synonym spot = "int option \<times> pystr \<times> (nat \<times> pystr) list"

fun spot_rest :: "spot \<Rightarrow> pystr" where
  "spot_rest (p, s, g) = s"

text \<open>\<open>r*\<close> and \<open>r*?\<close>: more matches first, or fewer; the fuel is the length of the text.\<close>

fun greedy :: "(spot \<Rightarrow> spot list) \<Rightarrow> nat \<Rightarrow> spot \<Rightarrow> spot list" where
  "greedy f 0 x = [x]"
| "greedy f (Suc n) x =
     concat (map (\<lambda>y. if length (spot_rest y) < length (spot_rest x) then greedy f n y else []) (f x)) @ [x]"

fun lazily :: "(spot \<Rightarrow> spot list) \<Rightarrow> nat \<Rightarrow> spot \<Rightarrow> spot list" where
  "lazily f 0 x = [x]"
| "lazily f (Suc n) x =
     x # concat (map (\<lambda>y. if length (spot_rest y) < length (spot_rest x) then lazily f n y else []) (f x))"

definition word_edge :: "(int \<Rightarrow> bool) \<Rightarrow> int option \<Rightarrow> pystr \<Rightarrow> bool" where
  "word_edge w p s \<longleftrightarrow> (case p of None \<Rightarrow> False | Some c \<Rightarrow> w c) \<noteq> (s \<noteq> [] \<and> w (hd s))"

fun matches :: "regex \<Rightarrow> spot \<Rightarrow> spot list" where
  "matches Empty x = [x]"
| "matches (Chr P) (p, s, g) = (case s of [] \<Rightarrow> [] | c # s' \<Rightarrow> if P c then [(Some c, s', g)] else [])"
| "matches (Seq r t) x = concat (map (matches t) (matches r x))"
| "matches (Alt r t) x = matches r x @ matches t x"
| "matches (Many r) x = greedy (matches r) (length (spot_rest x)) x"
| "matches (Few r) x = lazily (matches r) (length (spot_rest x)) x"
| "matches (Group n r) (p, s, g) =
     map (\<lambda>(p', s', g'). (p', s', (n, take (length s - length s') s) # g')) (matches r (p, s, g))"
| "matches (Edge w) (p, s, g) = (if word_edge w p s then [(p, s, g)] else [])"
| "matches Line_end (p, s, g) = (if s = [] \<or> s = [10] then [(p, s, g)] else [])"

subsection \<open>Searching\<close>

definition match_at :: "regex \<Rightarrow> int option \<Rightarrow> pystr \<Rightarrow> spot option" where
  "match_at r p s = (case matches r (p, s, []) of [] \<Rightarrow> None | x # _ \<Rightarrow> Some x)"

text \<open>\<open>re.match\<close>: the groups of the match at the start.\<close>

definition re_match :: "regex \<Rightarrow> pystr \<Rightarrow> (nat \<times> pystr) list option" where
  "re_match r s = map_option (\<lambda>(p, s', g). g) (match_at r None s)"

function find_all :: "regex \<Rightarrow> int option \<Rightarrow> pystr \<Rightarrow> (nat \<times> pystr) list list" where
  "find_all r p s =
     (case match_at r p s of
        Some (p', s', g) \<Rightarrow>
          if length s' < length s then g # find_all r p' s'
          else g # (case s of [] \<Rightarrow> [] | c # cs \<Rightarrow> find_all r (Some c) cs)
      | None \<Rightarrow> (case s of [] \<Rightarrow> [] | c # cs \<Rightarrow> find_all r (Some c) cs))"
  by auto
termination
  by (relation "measure (\<lambda>(r, p, s). length s)") auto

text \<open>\<open>r.sub(f, s)\<close>: \<open>f\<close> gets the text of the match and its groups.\<close>

function sub_all :: "regex \<Rightarrow> (pystr \<Rightarrow> (nat \<times> pystr) list \<Rightarrow> pystr) \<Rightarrow> int option \<Rightarrow> pystr \<Rightarrow> pystr" where
  "sub_all r f p s =
     (case match_at r p s of
        Some (p', s', g) \<Rightarrow>
          if length s' < length s
          then f (take (length s - length s') s) g @ sub_all r f p' s'
          else f [] g @ (case s of [] \<Rightarrow> [] | c # cs \<Rightarrow> c # sub_all r f (Some c) cs)
      | None \<Rightarrow> (case s of [] \<Rightarrow> [] | c # cs \<Rightarrow> c # sub_all r f (Some c) cs))"
  by auto
termination
  by (relation "measure (\<lambda>(r, f, p, s). length s)") auto

declare find_all.simps [simp del] sub_all.simps [simp del]

definition re_find :: "regex \<Rightarrow> pystr \<Rightarrow> (nat \<times> pystr) list list" where
  "re_find r s = find_all r None s"

definition re_sub :: "regex \<Rightarrow> (pystr \<Rightarrow> (nat \<times> pystr) list \<Rightarrow> pystr) \<Rightarrow> pystr \<Rightarrow> pystr" where
  "re_sub r f s = sub_all r f None s"

text \<open>\<open>match.group(n)\<close>\<close>

definition group_of :: "(nat \<times> pystr) list \<Rightarrow> nat \<Rightarrow> pystr option" where
  "group_of g n = map_of g n"

declare word_edge_def [py_eval] match_at_def [py_eval] re_match_def [py_eval] re_find_def [py_eval]
  re_sub_def [py_eval] group_of_def [py_eval]

subsection \<open>Derived patterns\<close>

fun seq :: "regex list \<Rightarrow> regex" where
  "seq [] = Empty"
| "seq [r] = r"
| "seq (r # rs) = Seq r (seq rs)"

definition opt :: "regex \<Rightarrow> regex" where
  "opt r = Alt r Empty"

definition plus :: "regex \<Rightarrow> regex" where
  "plus r = Seq r (Many r)"

text \<open>\<open>r{0,n}\<close> and \<open>r{m,n}\<close>\<close>

fun up_to :: "nat \<Rightarrow> regex \<Rightarrow> regex" where
  "up_to 0 r = Empty"
| "up_to (Suc n) r = opt (Seq r (up_to n r))"

fun times_to :: "nat \<Rightarrow> nat \<Rightarrow> regex \<Rightarrow> regex" where
  "times_to 0 n r = up_to n r"
| "times_to (Suc m) n r = Seq r (times_to m (n - 1) r)"

definition char :: "int \<Rightarrow> regex" where
  "char c = Chr (\<lambda>d. d = c)"

definition not_in :: "int list \<Rightarrow> regex" where
  "not_in cs = Chr (\<lambda>c. c \<notin> set cs)"

definition white :: regex where
  "white = Chr is_space"

definition not_white :: regex where
  "not_white = Chr (\<lambda>c. \<not> is_space c)"

text \<open>A word under IGNORECASE: both cases of an ASCII letter, and the letters Unicode folds to s and i.\<close>

definition either_case :: "int \<Rightarrow> int list" where
  "either_case c = [c, c - 32] @ (if c = 115 then [383] else if c = 105 then [304, 305] else [])"

definition any_case :: "string \<Rightarrow> regex" where
  "any_case w = seq (map (\<lambda>c. Chr (\<lambda>d. d \<in> set (either_case c))) (lit w))"

declare opt_def [py_eval] plus_def [py_eval] char_def [py_eval] not_in_def [py_eval] white_def [py_eval]
  not_white_def [py_eval] either_case_def [py_eval] any_case_def [py_eval]

subsection \<open>What the search finds\<close>

text \<open>The matches of a pattern as a relation, without the order in which they are tried.\<close>

inductive accepts :: "regex \<Rightarrow> spot \<Rightarrow> spot \<Rightarrow> bool" where
  Empty [intro!]: "accepts Empty x x"
| Chr [intro!]: "P c \<Longrightarrow> accepts (Chr P) (p, c # s, g) (Some c, s, g)"
| Seq [intro]: "accepts r x y \<Longrightarrow> accepts t y z \<Longrightarrow> accepts (Seq r t) x z"
| Alt_left [intro]: "accepts r x y \<Longrightarrow> accepts (Alt r t) x y"
| Alt_right [intro]: "accepts t x y \<Longrightarrow> accepts (Alt r t) x y"
| Many_none [intro]: "accepts (Many r) x x"
| Many_more: "accepts r x y \<Longrightarrow> length (spot_rest y) < length (spot_rest x) \<Longrightarrow> accepts (Many r) y z \<Longrightarrow> accepts (Many r) x z"
| Few_none [intro]: "accepts (Few r) x x"
| Few_more: "accepts r x y \<Longrightarrow> length (spot_rest y) < length (spot_rest x) \<Longrightarrow> accepts (Few r) y z \<Longrightarrow> accepts (Few r) x z"
| Group [intro]: "accepts r (p, s, g) (p', s', g') \<Longrightarrow>
    accepts (Group n r) (p, s, g) (p', s', (n, take (length s - length s') s) # g')"
| Edge [intro]: "word_edge w p s \<Longrightarrow> accepts (Edge w) (p, s, g) (p, s, g)"
| Line_end [intro]: "s = [] \<or> s = [10] \<Longrightarrow> accepts Line_end (p, s, g) (p, s, g)"

lemma in_greedy: "y \<in> set (greedy f (Suc n) x) \<longleftrightarrow>
    y = x \<or> (\<exists>z \<in> set (f x). length (spot_rest z) < length (spot_rest x) \<and> y \<in> set (greedy f n z))"
  by (auto split: if_splits)

lemma in_lazily: "y \<in> set (lazily f (Suc n) x) \<longleftrightarrow>
    y = x \<or> (\<exists>z \<in> set (f x). length (spot_rest z) < length (spot_rest x) \<and> y \<in> set (lazily f n z))"
  by (auto split: if_splits)

lemma greedy_accepts:
  assumes "\<And>x y. y \<in> set (matches r x) \<Longrightarrow> accepts r x y"
  shows "y \<in> set (greedy (matches r) n x) \<Longrightarrow> accepts (Many r) x y"
  by (induction n arbitrary: x) (auto intro: Many_more assms split: if_splits)

lemma lazily_accepts:
  assumes "\<And>x y. y \<in> set (matches r x) \<Longrightarrow> accepts r x y"
  shows "y \<in> set (lazily (matches r) n x) \<Longrightarrow> accepts (Few r) x y"
  by (induction n arbitrary: x) (auto intro: Few_more assms split: if_splits)

lemma greedy_more: "y \<in> set (greedy f n x) \<Longrightarrow> n \<le> m \<Longrightarrow> y \<in> set (greedy f m x)"
proof (induction n arbitrary: m x)
  case 0
  then show ?case by (cases m) auto
next
  case (Suc n)
  then obtain k where "m = Suc k" "n \<le> k" by (cases m) auto
  with Suc show ?case by (simp only: in_greedy) blast
qed

lemma lazily_more: "y \<in> set (lazily f n x) \<Longrightarrow> n \<le> m \<Longrightarrow> y \<in> set (lazily f m x)"
proof (induction n arbitrary: m x)
  case 0
  then show ?case by (cases m) auto
next
  case (Suc n)
  then obtain k where "m = Suc k" "n \<le> k" by (cases m) auto
  with Suc show ?case by (simp only: in_lazily) blast
qed

lemma matches_accepts: "y \<in> set (matches r x) \<Longrightarrow> accepts r x y"
proof (induction r arbitrary: x y)
  case (Seq r t)
  then obtain z where "z \<in> set (matches r x)" "y \<in> set (matches t z)" by auto
  with Seq.IH show ?case by blast
next
  case (Many r)
  then show ?case by (auto intro: greedy_accepts)
next
  case (Few r)
  then show ?case by (auto intro: lazily_accepts)
next
  case (Group n r)
  obtain p s g where "x = (p, s, g)" by (rule prod_cases3)
  with Group show ?case by auto
next
  case (Chr P)
  obtain p s g where "x = (p, s, g)" by (rule prod_cases3)
  with Chr show ?case by (auto split: list.splits if_splits)
next
  case (Edge w)
  obtain p s g where "x = (p, s, g)" by (rule prod_cases3)
  with Edge show ?case by (auto split: if_splits)
next
  case Line_end
  obtain p s g where "x = (p, s, g)" by (rule prod_cases3)
  with Line_end show ?case by (auto split: if_splits)
qed auto

lemma accepts_matches: "accepts r x y \<Longrightarrow> y \<in> set (matches r x)"
proof (induction rule: accepts.induct)
  case (Many_none r x)
  then show ?case by (cases "length (spot_rest x)") simp_all
next
  case (Many_more r x y z)
  then obtain n where n: "length (spot_rest x) = Suc n" "length (spot_rest y) \<le> n"
    by (cases "length (spot_rest x)") auto
  moreover have "z \<in> set (greedy (matches r) n y)"
    using Many_more n(2) by (auto intro: greedy_more)
  ultimately have "z \<in> set (greedy (matches r) (Suc n) x)"
    using Many_more unfolding in_greedy by auto
  with n(1) show ?case by simp
next
  case (Few_none r x)
  then show ?case by (cases "length (spot_rest x)") simp_all
next
  case (Few_more r x y z)
  then obtain n where n: "length (spot_rest x) = Suc n" "length (spot_rest y) \<le> n"
    by (cases "length (spot_rest x)") auto
  moreover have "z \<in> set (lazily (matches r) n y)"
    using Few_more n(2) by (auto intro: lazily_more)
  ultimately have "z \<in> set (lazily (matches r) (Suc n) x)"
    using Few_more unfolding in_lazily by auto
  with n(1) show ?case by simp
qed (auto intro: rev_image_eqI)

lemma matches_exact: "y \<in> set (matches r x) \<longleftrightarrow> accepts r x y"
  using matches_accepts accepts_matches by blast

lemma match_at_None: "match_at r p s = None \<longleftrightarrow> (\<nexists>y. accepts r (p, s, []) y)"
  by (auto simp: match_at_def matches_exact [symmetric] split: list.splits)

subsection \<open>The match a search takes\<close>

definition first_match :: "regex \<Rightarrow> spot \<Rightarrow> spot \<Rightarrow> bool" where
  "first_match r x y \<longleftrightarrow> (\<exists>ys. matches r x = y # ys)"

lemma first_Seq: "first_match r x y \<Longrightarrow> first_match t y z \<Longrightarrow> first_match (Seq r t) x z"
  by (auto simp: first_match_def)

lemma first_Alt: "first_match r x y \<Longrightarrow> first_match (Alt r t) x y" "matches r x = [] \<Longrightarrow> first_match t x y \<Longrightarrow> first_match (Alt r t) x y"
  by (auto simp: first_match_def)

lemma first_Chr: "P c \<Longrightarrow> first_match (Chr P) (p, c # s, g) (Some c, s, g)"
  by (simp add: first_match_def)

lemma first_Group: "first_match r (p, s, g) (p', s', g') \<Longrightarrow>
    first_match (Group n r) (p, s, g) (p', s', (n, take (length s - length s') s) # g')"
  by (auto simp: first_match_def)

lemma first_Empty: "first_match Empty x x"
  by (simp add: first_match_def)

text \<open>A run of characters is taken as a whole.\<close>

definition after_run :: "int option \<Rightarrow> pystr \<Rightarrow> int option" where
  "after_run p xs = (if xs = [] then p else Some (last xs))"

definition stops :: "(int \<Rightarrow> bool) \<Rightarrow> pystr \<Rightarrow> bool" where
  "stops P s \<longleftrightarrow> (case s of [] \<Rightarrow> True | c # s \<Rightarrow> \<not> P c)"

lemma greedy_run:
  "list_all P xs \<Longrightarrow> stops P s \<Longrightarrow> length xs \<le> n \<Longrightarrow>
     \<exists>ys. greedy (matches (Chr P)) n (p, xs @ s, g) = (after_run p xs, s, g) # ys"
proof (induction xs arbitrary: p n)
  case Nil
  then show ?case by (cases n; cases s) (auto simp: after_run_def stops_def)
next
  case (Cons x xs)
  then obtain m where m: "n = Suc m" "length xs \<le> m" by (cases n) auto
  obtain ys where "greedy (matches (Chr P)) m (Some x, xs @ s, g) = (after_run (Some x) xs, s, g) # ys"
    using Cons.IH [of m "Some x"] Cons.prems m by auto
  then have "greedy (matches (Chr P)) n (p, (x # xs) @ s, g) = (after_run (Some x) xs, s, g) # (ys @ [(p, (x # xs) @ s, g)])"
    using m Cons.prems(1) by simp
  moreover have "after_run (Some x) xs = after_run p (x # xs)" by (simp add: after_run_def)
  ultimately show ?case by auto
qed

lemma first_Many: "list_all P xs \<Longrightarrow> stops P s \<Longrightarrow> first_match (Many (Chr P)) (p, xs @ s, g) (after_run p xs, s, g)"
  unfolding first_match_def matches.simps by (rule greedy_run) auto

lemma first_Many_none: "stops P s \<Longrightarrow> first_match (Many (Chr P)) (p, s, g) (p, s, g)"
  using first_Many [of P "[]" s p g] by (simp add: after_run_def)

lemma first_plus: "list_all P xs \<Longrightarrow> xs \<noteq> [] \<Longrightarrow> stops P s \<Longrightarrow> first_match (plus (Chr P)) (p, xs @ s, g) (Some (last xs), s, g)"
proof -
  assume xs: "list_all P xs" "xs \<noteq> []" "stops P s"
  then obtain y ys where "xs = y # ys" by (cases xs) auto
  with xs first_Seq [OF first_Chr first_Many, of P y P ys s p g] show ?thesis
    by (simp add: plus_def after_run_def split: if_splits)
qed

lemma first_opt: "matches r x = [] \<Longrightarrow> first_match (opt r) x x"
  by (simp add: first_match_def opt_def)

lemma match_at_first: "first_match r (p, s, []) x \<Longrightarrow> match_at r p s = Some x"
  by (auto simp: first_match_def match_at_def)

lemma head_fails:
  "stops P s \<Longrightarrow> matches (Chr P) (p, s, g) = []" "matches r x = [] \<Longrightarrow> matches (Seq r t) x = []"
  by (auto simp: stops_def split: list.splits)

text \<open>A search passes over characters with which no match starts.\<close>

lemma find_all_skip:
  "list_all (\<lambda>c. \<forall>p s. match_at r p (c # s) = None) xs \<Longrightarrow> find_all r p (xs @ s) = find_all r (after_run p xs) s"
proof (induction xs arbitrary: p)
  case (Cons x xs)
  then show ?case by (subst find_all.simps) (auto simp: after_run_def)
qed (simp add: after_run_def)

lemma sub_all_none:
  "list_all (\<lambda>c. \<forall>p s. match_at r p (c # s) = None) xs \<Longrightarrow> (\<forall>p. match_at r p [] = None) \<Longrightarrow> sub_all r f p xs = xs"
  by (induction xs arbitrary: p) (subst sub_all.simps, auto)+

end
