(* ===== verification/Py_Web.thy ===== *)
theory Py_Web
  imports Py_Regex Json
begin

text \<open>
  The parts of urllib.parse and html the sources call: \<open>urlsplit\<close>, \<open>unquote\<close> and \<open>unescape\<close>. The table
  of the named character references of HTML 5 is a parameter, and so is \<open>host_ok\<close>, the check of a
  network location with brackets (the ipaddress module) or with characters beyond ASCII (their
  normalisation).
\<close>

subsection \<open>Splitting a URL\<close>

definition is_scheme_char :: "int \<Rightarrow> bool" where
  "is_scheme_char c \<longleftrightarrow> (97 \<le> c \<and> c \<le> 122) \<or> (65 \<le> c \<and> c \<le> 90) \<or> (48 \<le> c \<and> c \<le> 57) \<or>
     c \<in> {43, 45, 46}"

definition is_ascii_alpha :: "int \<Rightarrow> bool" where
  "is_ascii_alpha c \<longleftrightarrow> (97 \<le> c \<and> c \<le> 122) \<or> (65 \<le> c \<and> c \<le> 90)"

definition until :: "int list \<Rightarrow> pystr \<Rightarrow> pystr" where
  "until cs s = takeWhile (\<lambda>c. c \<notin> set cs) s"

definition cut_scheme :: "pystr \<Rightarrow> pystr \<times> pystr" where
  "cut_scheme s =
     (let scheme = until [58] s in
      if scheme \<noteq> s \<and> scheme \<noteq> [] \<and> is_ascii_alpha (hd s) \<and> list_all is_scheme_char scheme
      then (ascii_lower scheme, drop (length scheme + 1) s) else ([], s))"

record split_url =
  url_scheme :: pystr
  url_netloc :: pystr
  url_path_part :: pystr
  url_query :: pystr
  url_fragment :: pystr

text \<open>\<open>None\<close> is the ValueError of a malformed network location.\<close>

definition urlsplit :: "(pystr \<Rightarrow> bool) \<Rightarrow> pystr \<Rightarrow> split_url option" where
  "urlsplit host_ok s =
     (let s = filter (\<lambda>c. c \<notin> {9, 10, 13}) (dropWhile (\<lambda>c. c \<le> 32) s);
          (scheme, s) = cut_scheme s;
          netloc = (if prefix [47, 47] s then until [47, 63, 35] (drop 2 s) else []);
          s = (if prefix [47, 47] s then drop (2 + length netloc) s else s);
          head = until [35] s; path = until [63] head in
      if (91 \<in> set netloc) \<noteq> (93 \<in> set netloc) \<or>
         (91 \<in> set netloc \<or> list_ex (\<lambda>c. 127 < c) netloc) \<and> \<not> host_ok netloc
      then None
      else Some \<lparr>url_scheme = scheme, url_netloc = netloc, url_path_part = path,
             url_query = drop (length path + 1) head, url_fragment = drop (length head + 1) s\<rparr>)"

declare is_scheme_char_def [py_eval] is_ascii_alpha_def [py_eval] until_def [py_eval]
  cut_scheme_def [py_eval] urlsplit_def [py_eval]

subsection \<open>Percent encoding\<close>

text \<open>
  \<open>bytes.decode("utf-8", errors="replace")\<close>: the character at the head and how many bytes after the
  first it takes. Every longest part that begins a character is replaced as a whole.
\<close>

definition byte_in :: "int \<Rightarrow> int \<Rightarrow> nat \<Rightarrow> int list \<Rightarrow> bool" where
  "byte_in lo hi i bs \<longleftrightarrow> i < length bs \<and> lo \<le> bs ! i \<and> bs ! i \<le> hi"

definition utf8_first :: "int \<Rightarrow> int list \<Rightarrow> int \<times> nat" where
  "utf8_first b bs =
     (if b < 128 then (b, 0)
      else if 194 \<le> b \<and> b \<le> 223 then
        if byte_in 128 191 0 bs then ((b - 192) * 64 + (bs ! 0 - 128), 1) else (65533, 0)
      else if 224 \<le> b \<and> b \<le> 239 then
        if \<not> byte_in (if b = 224 then 160 else 128) (if b = 237 then 159 else 191) 0 bs then (65533, 0)
        else if \<not> byte_in 128 191 1 bs then (65533, 1)
        else ((b - 224) * 4096 + (bs ! 0 - 128) * 64 + (bs ! 1 - 128), 2)
      else if 240 \<le> b \<and> b \<le> 244 then
        if \<not> byte_in (if b = 240 then 144 else 128) (if b = 244 then 143 else 191) 0 bs then (65533, 0)
        else if \<not> byte_in 128 191 1 bs then (65533, 1)
        else if \<not> byte_in 128 191 2 bs then (65533, 2)
        else ((b - 240) * 262144 + (bs ! 0 - 128) * 4096 + (bs ! 1 - 128) * 64 + (bs ! 2 - 128), 3)
      else (65533, 0))"

function utf8_replace :: "int list \<Rightarrow> pystr" where
  "utf8_replace [] = []"
| "utf8_replace (b # bs) = fst (utf8_first b bs) # utf8_replace (drop (snd (utf8_first b bs)) bs)"
  by pat_completeness auto
termination
  by (relation "measure length") auto

fun unquote_bytes :: "pystr \<Rightarrow> int list" where
  "unquote_bytes (p # a # b # cs) =
     (if p = 37 then
        case (hex_value a, hex_value b) of
          (Some x, Some y) \<Rightarrow> (16 * x + y) # unquote_bytes cs
        | _ \<Rightarrow> p # unquote_bytes (a # b # cs)
      else p # unquote_bytes (a # b # cs))"
| "unquote_bytes s = s"

text \<open>Only the runs of ASCII characters are decoded, each by itself.\<close>

function unquote_runs :: "pystr \<Rightarrow> pystr" where
  "unquote_runs [] = []"
| "unquote_runs (c # cs) =
     (if c < 128
      then utf8_replace (unquote_bytes (c # takeWhile (\<lambda>c. c < 128) cs)) @ unquote_runs (dropWhile (\<lambda>c. c < 128) cs)
      else c # unquote_runs cs)"
  by pat_completeness auto
termination
  by (relation "measure length") (auto simp: less_Suc_eq_le length_dropWhile_le)

definition unquote :: "pystr \<Rightarrow> pystr" where
  "unquote s = (if 37 \<in> set s then unquote_runs s else s)"

declare byte_in_def [py_eval] utf8_first_def [py_eval] unquote_def [py_eval]

subsection \<open>Character references\<close>

type_synonym entities = "pystr \<Rightarrow> pystr option"

definition charref :: regex where
  "charref =
     seq [char 38,
       Group 1 (Alt (seq [char 35, plus (Chr (\<lambda>c. 48 \<le> c \<and> c \<le> 57)), opt (char 59)])
         (Alt (seq [char 35, Chr (\<lambda>c. c = 120 \<or> c = 88), plus (Chr (\<lambda>c. hex_value c \<noteq> None)), opt (char 59)])
           (seq [times_to 1 32 (not_in [9, 10, 12, 32, 60, 38, 35, 59]), opt (char 59)])))]"

definition invalid_charrefs :: "(int \<times> int) list" where
  "invalid_charrefs =
     [(0, 65533), (13, 13), (128, 8364), (129, 129), (130, 8218), (131, 402), (132, 8222), (133, 8230),
      (134, 8224), (135, 8225), (136, 710), (137, 8240), (138, 352), (139, 8249), (140, 338), (141, 141),
      (142, 381), (143, 143), (144, 144), (145, 8216), (146, 8217), (147, 8220), (148, 8221), (149, 8226),
      (150, 8211), (151, 8212), (152, 732), (153, 8482), (154, 353), (155, 8250), (156, 339), (157, 157),
      (158, 382), (159, 376)]"

definition invalid_codepoint :: "int \<Rightarrow> bool" where
  "invalid_codepoint n \<longleftrightarrow> (1 \<le> n \<and> n \<le> 8) \<or> n = 11 \<or> (14 \<le> n \<and> n \<le> 31) \<or> (127 \<le> n \<and> n \<le> 159) \<or>
     (64976 \<le> n \<and> n \<le> 65007) \<or> 65534 \<le> n mod 65536"

fun hex_number :: "int \<Rightarrow> pystr \<Rightarrow> int" where
  "hex_number acc [] = acc"
| "hex_number acc (c # cs) = hex_number (16 * acc + (case hex_value c of Some d \<Rightarrow> d | None \<Rightarrow> 0)) cs"

definition code_point :: "int \<Rightarrow> pystr" where
  "code_point n =
     (case map_of invalid_charrefs n of
        Some c \<Rightarrow> [c]
      | None \<Rightarrow> if (55296 \<le> n \<and> n \<le> 57343) \<or> 1114111 < n then [65533]
          else if invalid_codepoint n then [] else [n])"

fun longest_name :: "entities \<Rightarrow> pystr \<Rightarrow> nat \<Rightarrow> pystr" where
  "longest_name names s 0 = 38 # s"
| "longest_name names s (Suc n) =
     (if n = 0 then 38 # s
      else case names (take (Suc n) s) of
        Some t \<Rightarrow> t @ drop (Suc n) s
      | None \<Rightarrow> longest_name names s n)"

definition reference_digits :: "pystr \<Rightarrow> pystr" where
  "reference_digits s = filter (\<lambda>c. c \<noteq> 59) (if s ! 1 \<in> {120, 88} then drop 2 s else drop 1 s)"

definition replace_charref :: "entities \<Rightarrow> pystr \<Rightarrow> pystr" where
  "replace_charref names s =
     (if hd s = 35 then
        code_point (if s ! 1 \<in> {120, 88} then hex_number 0 (reference_digits s) else digits_value 0 (reference_digits s))
      else case names s of Some t \<Rightarrow> t | None \<Rightarrow> longest_name names s (length s - 1))"

text \<open>A decimal reference with more than 4300 digits makes int() raise ValueError, the \<open>None\<close>.\<close>

definition html_unescape :: "entities \<Rightarrow> pystr \<Rightarrow> pystr option" where
  "html_unescape names s =
     (if 38 \<notin> set s then Some s
      else if list_ex (\<lambda>g. case group_of g 1 of
             Some r \<Rightarrow> hd r = 35 \<and> r ! 1 \<notin> {120, 88} \<and> 4300 < length (reference_digits r) | None \<Rightarrow> False)
           (re_find charref s)
      then None
      else Some (re_sub charref (\<lambda>_ g. case group_of g 1 of Some r \<Rightarrow> replace_charref names r | None \<Rightarrow> []) s))"

declare charref_def [py_eval] invalid_charrefs_def [py_eval] invalid_codepoint_def [py_eval]
  code_point_def [py_eval] reference_digits_def [py_eval] replace_charref_def [py_eval] html_unescape_def [py_eval]

end
