(* ===== verification/Api.thy ===== *)
theory Api
  imports Health Settings Py_Web
begin

text \<open>
  src/card_pulse/entrypoints/api and runtime.wait_for_shutdown: the GET handler of the health server,
  the life of the server process, and the container health check. The request path arrives as
  http.server hands it over (\<open>host_ok\<close> is the parameter of \<open>urlsplit\<close>). A network is a function from a
  URL to what a client gets. The lemmas: liveness never consults a probe, the dependency route
  answers 200 with every dependency in its body, and the health check asks the port the server binds.
\<close>

subsection \<open>Routing\<close>

text \<open>\<open>urlsplit(s).path\<close>; \<open>None\<close> is the ValueError of a malformed host.\<close>

definition url_path :: "(pystr \<Rightarrow> bool) \<Rightarrow> pystr \<Rightarrow> pystr option" where
  "url_path host_ok s = map_option url_path_part (urlsplit host_ok s)"

definition route_of :: "pystr \<Rightarrow> pystr" where
  "route_of p = (let r = rev (dropWhile (\<lambda>c. c = 47) (rev p)) in if r = [] then [47] else r)"

record response =
  response_status :: int
  content_type :: pystr
  content_length :: int
  response_body :: pystr

datatype handler_exn = Bad_url | Body_not_encodable

text \<open>\<open>_write\<close>: the body is encoded before the first header goes out.\<close>

definition write_response :: "int \<Rightarrow> json \<Rightarrow> handler_exn + response" where
  "write_response status payload =
     (let body = json_dumps payload in
      if \<not> encodable body then Inl Body_not_encodable
      else Inr \<lparr>response_status = status, content_type = lit ''application/json; charset=utf-8'',
                content_length = utf8_length body, response_body = body\<rparr>)"

definition live_payload :: json where
  "live_payload = JObj [(lit ''service'', JStr (lit ''api'')), (lit ''status'', JStr (lit ''ok''))]"

definition dependencies_payload :: "health_report \<Rightarrow> json" where
  "dependencies_payload report =
     JObj [(lit ''service'', JStr (lit ''api'')), (lit ''status'', JStr (status_word report)),
           (lit ''dependencies'', JArr (map asdict (report_dependencies report)))]"

definition not_found_payload :: json where
  "not_found_payload = JObj [(lit ''error'', JStr (lit ''unknown route''))]"

definition do_GET ::
    "(pystr \<Rightarrow> bool) \<Rightarrow> probe list \<Rightarrow> pystr \<Rightarrow> world \<Rightarrow> (handler_exn + response) \<times> world" where
  "do_GET host_ok probes p w =
     (case url_path host_ok p of
        None \<Rightarrow> (Inl Bad_url, w)
      | Some url \<Rightarrow>
          let route = route_of url in
          if route = lit ''/health'' then (write_response 200 live_payload, w)
          else if route = lit ''/health/dependencies'' then
            let (report, w) = check_dependencies probes w in
            (write_response 200 (dependencies_payload report), w)
          else (write_response 404 not_found_payload, w))"

subsection \<open>The server process\<close>

definition api_build_probes :: "api_settings \<Rightarrow> probe list" where
  "api_build_probes s = [probe_database (api_database_url s) DEFAULT_CONNECT_TIMEOUT_SECONDS]"

datatype serve_event =
    Handlers_installed
  | Thread_started
  | Listening pystr int
  | Dependencies_logged pystr
  | Server_shutdown
  | Thread_joined
  | Server_closed
  | Stop_logged
  | Settings_logged settings_error

datatype serve_end = Serve_exit int | Serve_raised os_error | Serving

text \<open>The polls of the stop event, until one finds it set; a list that ends before is a process that
  still waits.\<close>

fun wait_for_shutdown :: "bool list \<Rightarrow> bool" where
  "wait_for_shutdown [] = False"
| "wait_for_shutdown (stopped # polls) = (if stopped then True else wait_for_shutdown polls)"

text \<open>\<open>bound\<close> is what binding the socket gives: the bound address, or the error the constructor raises.\<close>

definition serve ::
    "api_settings \<Rightarrow> os_error + (pystr \<times> int) \<Rightarrow> bool list \<Rightarrow> world \<Rightarrow>
     serve_end \<times> world \<times> serve_event list" where
  "serve s bound polls w =
     (case bound of
        Inl e \<Rightarrow> (Serve_raised e, w, [])
      | Inr (h, p) \<Rightarrow>
          let (report, w) = check_dependencies (api_build_probes s) w;
              started = [Handlers_installed, Thread_started, Listening h p,
                         Dependencies_logged (describe (report_dependencies report))] in
          if wait_for_shutdown polls
          then (Serve_exit 0, w, started @ [Server_shutdown, Thread_joined, Server_closed, Stop_logged])
          else (Serving, w, started))"

definition api_main ::
    "environ \<Rightarrow> (pystr \<Rightarrow> int \<Rightarrow> os_error + (pystr \<times> int)) \<Rightarrow> bool list \<Rightarrow> world \<Rightarrow>
     serve_end \<times> world \<times> serve_event list" where
  "api_main os bound polls w =
     (case api_from_environment os None of
        Inl e \<Rightarrow> (Serve_exit 2, w, [Settings_logged e])
      | Inr s \<Rightarrow> serve s (bound (host s) (port s)) polls w)"

subsection \<open>The health check\<close>

datatype http_outcome = Http_status int | Connection_failed

definition health_url :: "int \<Rightarrow> pystr" where
  "health_url p = lit ''http://127.0.0.1:'' @ py_str p @ lit ''/health''"

definition api_healthcheck :: "environ \<Rightarrow> (pystr \<Rightarrow> http_outcome) \<Rightarrow> int" where
  "api_healthcheck os http =
     (case api_port os None of
        Inl e \<Rightarrow> 2
      | Inr p \<Rightarrow>
          (case http (health_url p) of
             Connection_failed \<Rightarrow> 1
           | Http_status st \<Rightarrow> if st \<noteq> 200 then 1 else 0))"

text \<open>What a client gets from the handler: its status, or a connection closed without an answer.\<close>

fun answer :: "handler_exn + response \<Rightarrow> http_outcome" where
  "answer (Inl e) = Connection_failed"
| "answer (Inr r) = Http_status (response_status r)"

declare url_path_def [py_eval] route_of_def [py_eval]
  write_response_def [py_eval] live_payload_def [py_eval] dependencies_payload_def [py_eval]
  not_found_payload_def [py_eval] health_url_def [py_eval]

subsection \<open>Responses\<close>

lemma live_encodable: "encodable (json_dumps live_payload)"
  by code_simp

lemma not_found_encodable: "encodable (json_dumps not_found_payload)"
  by code_simp

lemma write_live: "\<exists>r. write_response 200 live_payload = Inr r \<and> response_status r = 200 \<and>
    response_body r = json_dumps live_payload"
  using live_encodable by (simp add: write_response_def Let_def)

text \<open>Only the dependency route consults the probes.\<close>

lemma do_GET_world:
  assumes "\<And>url. url_path br p = Some url \<Longrightarrow> route_of url \<noteq> lit ''/health/dependencies''"
  shows "do_GET br probes p w = do_GET br [] p w \<and> snd (do_GET br probes p w) = w"
  using assms by (auto simp: do_GET_def Let_def split: option.splits)

lemma do_GET_live:
  assumes "url_path br p = Some url" "route_of url = lit ''/health''"
  shows "do_GET br probes p w = (write_response 200 live_payload, w)"
  using assms by (simp add: do_GET_def Let_def)

lemma do_GET_dependencies:
  assumes "url_path br p = Some url" "route_of url = lit ''/health/dependencies''"
    and "check_dependencies probes w = (report, w')"
  shows "do_GET br probes p w = (write_response 200 (dependencies_payload report), w')"
  using assms by (simp add: do_GET_def Let_def lit_distinct)

interpretation api: wired_probes "api_build_probes s" "[DATABASE]"
    "\<lambda>w w'. w' = w\<lparr>connections := connections w'\<rparr>" for s
proof unfold_locales
  show "list_all2 (\<lambda>p n. \<forall>w. dep_name (fst (p w)) = n) (api_build_probes s) [DATABASE]"
    by (simp add: api_build_probes_def probe_database_name)
  show "p \<in> set (api_build_probes s) \<Longrightarrow>
      snd (p w) = w\<lparr>connections := connections (snd (p w))\<rparr>" for p w
    by (auto simp: api_build_probes_def probe_database_world)
  show "w = u\<lparr>connections := connections w\<rparr>"
    if "v = u\<lparr>connections := connections v\<rparr>" "w = v\<lparr>connections := connections w\<rparr>" for u v w :: world
    using that by (cases u; cases v; cases w) simp
qed simp

lemma health_request:
  "url_path br (lit ''/health'') = Some (lit ''/health'')" "route_of (lit ''/health'') = lit ''/health''"
  by (simp_all add: lit_def url_path_def urlsplit_def route_of_def cut_scheme_def until_def Let_def)

lemma api_port_of_settings:
  "api_from_environment os None = Inr s \<Longrightarrow> api_port os None = Inr (port s)"
  by (auto simp: api_from_environment_def api_port_def Let_def)


subsection \<open>Properties\<close>

text \<open>
  liveness does not depend on any dependency. Whatever probes the server was given and whatever
  they would do, a request that routes to /health gets the fixed 200 answer and leaves the world as it
  was; a request to any route but the two health routes gets a 404, and consults no probe either.
\<close>

theorem liveness_independent:
  assumes "url_path br p = Some url" "route_of url \<noteq> lit ''/health/dependencies''"
  shows "\<exists>r. do_GET br probes p w = (Inr r, w) \<and>
    (if route_of url = lit ''/health''
     then response_status r = 200 \<and> json_loads (response_body r) = Some live_payload
     else response_status r = 404)"
proof -
  have "json_loads (json_dumps live_payload) = Some live_payload"
    by (rule loads_dumps) code_simp
  then show ?thesis
    using assms live_encodable not_found_encodable
    by (auto simp: do_GET_def write_response_def Let_def)
qed

definition down_world :: world where
  "down_world = \<lparr>files = (\<lambda>_. None), refuse = (\<lambda>_. None),
     database = (\<lambda>_ _. Driver_error (lit ''OperationalError'') (lit ''down'')), connections = 0, pid = 1,
     now = \<lparr>year = 2026, month = 1, day = 1, hour = 0, minute = 0, second = 0, microsecond = 0,
            utcoffset = Some 0\<rparr>\<rparr>"

theorem liveness_independent_witness:
  "\<exists>r. do_GET (\<lambda>_. False) [probe_database (lit ''x'') 5] (lit ''/health/?a=1'') down_world = (Inr r, down_world) \<and>
     response_status r = 200"
proof -
  have u: "url_path (\<lambda>_. False) (lit ''/health/?a=1'') = Some (lit ''/health/'')"
    "route_of (lit ''/health/'') = lit ''/health''"
    "lit ''/health'' \<noteq> lit ''/health/dependencies''"
    by code_simp+
  then have "route_of (lit ''/health/'') \<noteq> lit ''/health/dependencies''" by simp
  from liveness_independent [OF u(1) this, of "[probe_database (lit ''x'') 5]" down_world] u(2)
  show ?thesis by auto
qed

text \<open>
  the dependency route reports an outage instead of failing. The API's probes give one entry for
  the database, the answer is a 200 whose declared length is the number of bytes of its body, the body
  reads back as the report, and it says degraded exactly when the connection attempt failed.
\<close>

theorem dependency_route:
  assumes "url_path br p = Some url" "route_of url = lit ''/health/dependencies''"
    and "check_dependencies (api_build_probes s) w = (report, w')"
    and "list_all (\<lambda>d. text_ok (dep_name d) \<and> text_ok (dep_detail d)) (report_dependencies report)"
    and "encodable (json_dumps (dependencies_payload report))"
  shows "\<exists>r. do_GET br (api_build_probes s) p w = (Inr r, w') \<and> response_status r = 200 \<and>
    content_length r = utf8_length (response_body r) \<and>
    json_loads (response_body r) = Some (dependencies_payload report) \<and>
    map dep_name (report_dependencies report) = [DATABASE] \<and>
    (report_healthy report \<longleftrightarrow>
       database w (api_database_url s) DEFAULT_CONNECT_TIMEOUT_SECONDS = Answered)"
proof -
  have "json_ok (dependencies_payload report)"
    using assms(4) by (auto simp: dependencies_payload_def status_word_def asdict_def list_all_iff lit_distinct)
  then have "json_loads (json_dumps (dependencies_payload report)) = Some (dependencies_payload report)"
    by (rule loads_dumps)
  moreover have "map dep_name (report_dependencies report) = [DATABASE]"
    using api.report_names [of s w] assms(3) by simp
  moreover have "report_healthy report \<longleftrightarrow>
      database w (api_database_url s) DEFAULT_CONNECT_TIMEOUT_SECONDS = Answered"
    using assms(3)
    by (auto simp: check_dependencies_def api_build_probes_def report_healthy_def split_beta Let_def
        probe_database_healthy)
  ultimately show ?thesis
    using do_GET_dependencies [OF assms(1,2,3)] assms(5) by (simp add: write_response_def Let_def)
qed

definition sample_api :: api_settings where
  "sample_api = \<lparr>host = DEFAULT_API_HOST, port = 8000, api_database_url = lit ''db''\<rparr>"

theorem dependency_route_witness:
  "\<exists>r w'. do_GET (\<lambda>_. False) (api_build_probes sample_api) (lit ''/health/dependencies'') down_world = (Inr r, w') \<and>
     response_status r = 200"
proof -
  have u: "url_path (\<lambda>_. False) (lit ''/health/dependencies'') = Some (lit ''/health/dependencies'')"
    "route_of (lit ''/health/dependencies'') = lit ''/health/dependencies''"
    by code_simp+
  let ?chk = "check_dependencies (api_build_probes sample_api) down_world"
  have "list_all (\<lambda>d. text_ok (dep_name d) \<and> text_ok (dep_detail d)) (report_dependencies (fst ?chk))"
    "encodable (json_dumps (dependencies_payload (fst ?chk)))"
    by code_simp+
  from dependency_route [OF u prod.collapse [symmetric] this] show ?thesis by blast
qed

text \<open>
  the container health check asks the port the API binds, and passes while the server answers. If
  the network hands requests for the API's port to its handler, the check ends with status 0 in every
  environment the API starts in, for every state of the database.
\<close>

theorem healthcheck_follows_server:
  assumes "api_from_environment os None = Inr s"
    and "\<forall>p. http (lit ''http://127.0.0.1:'' @ py_str (port s) @ p) =
      answer (fst (do_GET br (api_build_probes s) p w))"
  shows "api_healthcheck os http = 0 \<and> 1 \<le> port s \<and> port s \<le> 65535"
proof -
  have p: "api_port os None = Inr (port s)" by (rule api_port_of_settings [OF assms(1)])
  obtain r where "write_response 200 live_payload = Inr r" "response_status r = 200"
    using write_live by blast
  then have "http (health_url (port s)) = Http_status 200"
    using assms(2) do_GET_live [OF health_request] by (simp add: health_url_def)
  then show ?thesis
    using p api_port_bounds [OF p] by (simp add: api_healthcheck_def)
qed

theorem healthcheck_follows_server_witness:
  "\<exists>http. api_healthcheck [(DATABASE_URL, lit ''db'')] http = 0"
proof -
  let ?http = "\<lambda>u. case strip_prefix (lit ''http://127.0.0.1:'' @ py_str 8000) u of
      Some p \<Rightarrow> answer (fst (do_GET (\<lambda>_. False) (api_build_probes sample_api) p down_world))
    | None \<Rightarrow> Connection_failed"
  have s: "api_from_environment [(DATABASE_URL, lit ''db'')] None = Inr sample_api" by code_simp
  have sp: "strip_prefix (lit ''http://127.0.0.1:'' @ py_str 8000) (lit ''http://127.0.0.1:'' @ py_str 8000 @ p) = Some p" for p
    by simp
  have "port sample_api = 8000" by (simp add: sample_api_def)
  then have "\<forall>p. ?http (lit ''http://127.0.0.1:'' @ py_str (port sample_api) @ p) =
      answer (fst (do_GET (\<lambda>_. False) (api_build_probes sample_api) p down_world))"
    by (simp add: sp)
  from healthcheck_follows_server [OF s this] show ?thesis by blast
qed


end
