(* ===== verification/Worker.thy ===== *)
theory Worker
  imports Health Settings
begin

text \<open>
  src/card_pulse/entrypoints/worker: the Worker's cycle (service.py) and its container health check
  (healthcheck.py). \<open>write_heartbeat\<close> gives the states of the file system its calls pass through
  and the exception, if any; \<open>worker_loop\<close> consumes one \<open>cycle\<close> of the outside world per turn (what
  the operating system and the database answer, the clock, whether the stop event is set), so that
  a list of cycles that ends without a stop is a Worker still running. The lemmas: the heartbeat is
  replaced atomically, what is written is what the health check reads, and a run ends only by the
  stop event or by an exception.
\<close>

subsection \<open>The heartbeat file\<close>

datatype worker_exn = Os_exn os_error | Encode_error | Value_error | Overflow_error

definition heartbeat_payload :: "health_report \<Rightarrow> pydatetime \<Rightarrow> json" where
  "heartbeat_payload report checked_at =
     JObj [(lit ''service'', JStr (lit ''worker'')),
           (lit ''checked_at'', JStr (isoformat checked_at)),
           (lit ''status'', JStr (status_word report)),
           (lit ''dependencies'', JArr (map asdict (report_dependencies report)))]"

definition temporary :: "path \<Rightarrow> path option" where
  "temporary p = with_name p (path_name p @ lit ''.tmp'')"

definition write_heartbeat ::
    "(fs_op \<Rightarrow> os_error option) \<Rightarrow> path \<Rightarrow> health_report \<Rightarrow> pydatetime \<Rightarrow> files \<Rightarrow>
     files list \<times> worker_exn option" where
  "write_heartbeat rf p report checked_at f =
     (let payload = heartbeat_payload report checked_at in
      case mkdirs rf (parent p) f of
        (g, Some e) \<Rightarrow> ([g], Some (Os_exn e))
      | (g, None) \<Rightarrow>
          (case temporary p of
             None \<Rightarrow> ([g], Some Value_error)
           | Some tmp \<Rightarrow>
               let body = json_dumps payload;
                   ops = (if encodable body then write_ops tmp body @ [Rename tmp p]
                          else [Truncate tmp]);
                   (tr, e) = run_ops rf ops g in
               (g # tr,
                case e of Some e \<Rightarrow> Some (Os_exn e)
                | None \<Rightarrow> if encodable body then None else Some Encode_error)))"

subsection \<open>The loop\<close>

text \<open>\<open>stop.wait(timeout)\<close>: an event that is set answers at once; otherwise a timeout that is not
  positive (a NaN among them) only polls, and one over TIMEOUT_MAX raises OverflowError.\<close>

definition TIMEOUT_MAX :: pyfloat where "TIMEOUT_MAX = Float 9223372036 0"

definition event_wait :: "pyfloat \<Rightarrow> bool \<Rightarrow> bool \<Rightarrow> worker_exn + bool" where
  "event_wait timeout is_set set_during =
     (if is_set then Inr True
      else if \<not> float_lt (Float 0 0) timeout then Inr False
      else if float_lt TIMEOUT_MAX timeout then Inl Overflow_error
      else Inr set_during)"

record cycle =
  c_refuse :: "fs_op \<Rightarrow> os_error option"
  c_database :: "pystr \<Rightarrow> int \<Rightarrow> driver_outcome"
  c_now :: pydatetime
  c_stop_set :: bool
  c_stop_during :: bool

datatype log_entry =
    Worker_started pystr pystr pyfloat
  | No_job_notice
  | Dependencies_info pystr
  | Dependencies_warning pystr
  | Worker_stopped
  | Settings_problem settings_error

datatype run_end = Exit int | Raised worker_exn | Running

definition worker_build_probes :: "worker_settings \<Rightarrow> probe list" where
  "worker_build_probes s =
     [probe_database (worker_database_url s) DEFAULT_CONNECT_TIMEOUT_SECONDS,
      probe_artifact_storage (py_path (artifact_root s))]"

definition enter_cycle :: "cycle \<Rightarrow> world \<Rightarrow> world" where
  "enter_cycle c w = w\<lparr>refuse := c_refuse c, database := c_database c, now := c_now c\<rparr>"

text \<open>One turn: the checks, the heartbeat, and the log record of a turn that did not raise.\<close>

definition worker_turn ::
    "worker_settings \<Rightarrow> cycle \<Rightarrow> world \<Rightarrow> worker_exn option \<times> world \<times> log_entry" where
  "worker_turn s c w =
     (let (report, w) = check_dependencies (worker_build_probes s) (enter_cycle c w);
          (tr, e) = write_heartbeat (refuse w) (py_path (heartbeat_path s)) report (now w) (files w) in
      (e, w\<lparr>files := final (files w) tr\<rparr>,
       (if report_healthy report then Dependencies_info else Dependencies_warning)
         (describe (report_dependencies report))))"

fun worker_loop :: "worker_settings \<Rightarrow> cycle list \<Rightarrow> world \<Rightarrow> run_end \<times> world \<times> log_entry list" where
  "worker_loop s [] w = (Running, w, [])"
| "worker_loop s (c # cs) w =
     (case worker_turn s c w of
        (Some x, w, entry) \<Rightarrow> (Raised x, w, [])
      | (None, w, entry) \<Rightarrow>
          (case event_wait (interval_seconds s) (c_stop_set c) (c_stop_during c) of
             Inl x \<Rightarrow> (Raised x, w, [entry])
           | Inr True \<Rightarrow> (Exit 0, w, [entry, Worker_stopped])
           | Inr False \<Rightarrow> (case worker_loop s cs w of (r, w, lg) \<Rightarrow> (r, w, entry # lg))))"

definition worker_run :: "worker_settings \<Rightarrow> cycle list \<Rightarrow> world \<Rightarrow> run_end \<times> world \<times> log_entry list" where
  "worker_run s cycles w =
     (let (r, w, lg) = worker_loop s cycles w in
      (r, w, Worker_started (artifact_root s) (heartbeat_path s) (interval_seconds s) #
             No_job_notice # lg))"

definition worker_main :: "environ \<Rightarrow> cycle list \<Rightarrow> world \<Rightarrow> run_end \<times> world \<times> log_entry list" where
  "worker_main os cycles w =
     (case worker_from_environment os None of
        Inl e \<Rightarrow> (Exit 2, w, [Settings_problem e])
      | Inr s \<Rightarrow> worker_run s cycles w)"

subsection \<open>The health check\<close>

datatype heartbeat_error =
    Cannot_be_read os_error
  | Not_a_text
  | Not_valid_json
  | No_checked_at
  | Unreadable_checked_at
  | Without_timezone

text \<open>
  \<open>str(payload["checked_at"])\<close>. A number with a fraction, an array or an object never reads as a
  time with a zone, so their text is left out: the message may differ, the exception does not.
\<close>

fun checked_at_text :: "json \<Rightarrow> pystr option" where
  "checked_at_text (JStr s) = Some s"
| "checked_at_text (JInt n) = Some (py_str n)"
| "checked_at_text (JBool b) = Some (if b then lit ''True'' else lit ''False'')"
| "checked_at_text JNull = Some (lit ''None'')"
| "checked_at_text _ = None"

definition heartbeat_age_seconds ::
    "files \<Rightarrow> path \<Rightarrow> pydatetime \<Rightarrow> heartbeat_error + pyfloat" where
  "heartbeat_age_seconds f p at_time =
     (case read_text f p of
        Inl (Read_os e) \<Rightarrow> Inl (Cannot_be_read e)
      | Inl Read_unicode \<Rightarrow> Inl Not_a_text
      | Inr s \<Rightarrow>
          (case json_loads s of
             None \<Rightarrow> Inl Not_valid_json
           | Some (JObj payload) \<Rightarrow>
               (case map_of payload (lit ''checked_at'') of
                  None \<Rightarrow> Inl No_checked_at
                | Some v \<Rightarrow>
                    (case Option.bind (checked_at_text v) fromisoformat of
                       None \<Rightarrow> Inl Unreadable_checked_at
                     | Some t \<Rightarrow>
                         if utcoffset t = None then Inl Without_timezone
                         else Inr (round64 (utc_micros at_time - utc_micros t) 1000000)))
           | Some _ \<Rightarrow> Inl No_checked_at))"

definition worker_healthcheck :: "environ \<Rightarrow> files \<Rightarrow> pydatetime \<Rightarrow> int" where
  "worker_healthcheck os f at_time =
     (let p = py_path (worker_heartbeat_path os None) in
      case worker_interval_seconds os None of
        Inl e \<Rightarrow> 2
      | Inr interval \<Rightarrow>
          let max_age = heartbeat_max_age_seconds interval in
          (case heartbeat_age_seconds f p at_time of
             Inl e \<Rightarrow> 1
           | Inr age \<Rightarrow> if float_lt max_age age then 1 else 0))"

declare heartbeat_payload_def [py_eval] temporary_def [py_eval] TIMEOUT_MAX_def [py_eval]
  event_wait_def [py_eval]

subsection \<open>The write is atomic\<close>

lemma child_inject: "child (parent p) n = p \<Longrightarrow> path_parts p \<noteq> [] \<Longrightarrow> n = path_name p"
  by (cases p) (auto simp: child_def parent_def path_name_def dest: arg_cong [of _ _ last])

lemma temporary_neq: "temporary p = Some tmp \<Longrightarrow> tmp \<noteq> p"
  using child_inject [of p "path_name p @ lit ''.tmp''"]
  by (auto simp: temporary_def with_name_def lit_def split: if_splits)

lemma temporary_parent:
  "temporary p = Some tmp \<Longrightarrow> parent tmp = parent p \<and> path_parts tmp \<noteq> [] \<and> path_parts p \<noteq> []"
  by (auto simp: temporary_def with_name_def parent_def child_def split: if_splits)

text \<open>Writing a text character by character, once the file is empty.\<close>

lemma run_appends:
  "f tmp = Some (Text t) \<Longrightarrow> run_ops rf (map (\<lambda>c. Append tmp [c]) s) f = (tr, None) \<Longrightarrow>
     final f tr = f(tmp := Some (Text (t @ s)))"
proof (induction s arbitrary: f t tr)
  case Nil
  then show ?case by auto
next
  case (Cons c s)
  let ?f = "f(tmp := Some (Text (t @ [c])))"
  obtain tr' where tr': "tr = ?f # tr'" "run_ops rf (map (\<lambda>c. Append tmp [c]) s) ?f = (tr', None)"
    using Cons.prems by (auto simp: run_op_def apfst_eq_Pair split: sum.splits option.splits)
  have "final ?f tr' = ?f(tmp := Some (Text ((t @ [c]) @ s)))"
    by (rule Cons.IH [OF _ tr'(2)]) simp
  with tr'(1) show ?case by simp
qed

lemma run_write_ops:
  assumes "run_ops rf (write_ops tmp s) f = (tr, None)"
  shows "final f tr = f(tmp := Some (Text s))" "\<not> is_dir f tmp" "parent_error f tmp = None"
proof -
  obtain g tr' where g: "run_op rf (Truncate tmp) f = Inr g" "tr = g # tr'"
      "run_ops rf (map (\<lambda>c. Append tmp [c]) s) g = (tr', None)"
    using assms by (auto simp: write_ops_def apfst_eq_Pair split: sum.splits)
  then have gt: "g = f(tmp := Some (Text []))" "\<not> is_dir f tmp" "parent_error f tmp = None"
    by (auto simp: run_op_Inr split: if_splits option.splits)
  then show "final f tr = f(tmp := Some (Text s))"
    using run_appends [OF _ g(3), of "[]"] g(2) by simp
  show "\<not> is_dir f tmp" "parent_error f tmp = None" by (fact gt)+
qed

lemma append_trace_frame:
  assumes "run_ops rf (write_ops tmp s) f = (tr, r)" "g \<in> set tr" "q \<noteq> tmp"
  shows "g q = f q"
  using run_ops_frame [of g rf "write_ops tmp s" f q] assms by (auto simp: write_ops_def)

lemma heartbeat_ops_trace:
  assumes "run_ops rf (write_ops tmp s @ [Rename tmp p]) f = (tr, r)" "tmp \<noteq> p"
  shows "\<forall>g \<in> set tr. g p = f p \<or> g p = Some (Text s)"
    "r = None \<Longrightarrow> final f tr = (f(tmp := None))(p := Some (Text s))"
proof -
  obtain t1 r1 where t1: "run_ops rf (write_ops tmp s) f = (t1, r1)" by force
  have frame: "g \<in> set t1 \<Longrightarrow> g p = f p" for g
    using append_trace_frame [OF t1, of g p] assms(2) by simp
  show "\<forall>g \<in> set tr. g p = f p \<or> g p = Some (Text s)"
  proof (cases r1)
    case (Some e)
    with assms(1) t1 frame show ?thesis by (auto simp: run_ops_append)
  next
    case None
    have fin: "final f t1 = f(tmp := Some (Text s))"
      using run_write_ops t1 None by simp
    show ?thesis
    proof (cases "run_op rf (Rename tmp p) (final f t1)")
      case (Inl e)
      with assms(1) t1 None frame show ?thesis by (auto simp: run_ops_append)
    next
      case (Inr h)
      then have "h p = Some (Text s)"
        by (auto simp: run_op_Inr fin split: if_splits option.splits)
      with Inr assms(1) t1 None frame show ?thesis by (auto simp: run_ops_append)
    qed
  qed
  assume "r = None"
  then have r1: "r1 = None" using assms(1) t1 by (cases r1) (auto simp: run_ops_append)
  have fin: "final f t1 = f(tmp := Some (Text s))"
    using run_write_ops t1 r1 by simp
  obtain h where h: "run_op rf (Rename tmp p) (final f t1) = Inr h" "tr = t1 @ [h]"
    using assms(1) t1 r1 \<open>r = None\<close> by (auto simp: run_ops_append split: sum.splits)
  then show "final f tr = (f(tmp := None))(p := Some (Text s))"
    by (auto simp: run_op_Inr fin split: if_splits option.splits)
qed

lemma mkdirs_parent_keeps:
  assumes "mkdirs rf (parent p) f = (g, r)"
  shows "g p = f p"
proof (cases "path_parts p = []")
  case True
  then have "is_dir f p" "parent p = p" by (cases p; simp add: is_dir_def parent_def)+
  then have "g = f"
    using assms True
    by (auto simp: mkdirs.simps [of rf p f] run_op_def split: option.splits if_splits)
  then show ?thesis by simp
next
  case False
  then have "length (path_parts (parent p)) < length (path_parts p)"
    by (simp add: parent_def)
  then show ?thesis using mkdirs_keeps [OF assms, of p] by blast
qed

lemma write_heartbeat_trace:
  assumes "write_heartbeat rf p report t f = (tr, r)"
  shows "\<forall>g \<in> set tr. g p = f p \<or> g p = Some (Text (json_dumps (heartbeat_payload report t)))"
proof -
  let ?body = "json_dumps (heartbeat_payload report t)"
  obtain g s where g: "mkdirs rf (parent p) f = (g, s)" by force
  have gp: "g p = f p" by (rule mkdirs_parent_keeps [OF g])
  show ?thesis
  proof (cases "s \<noteq> None \<or> temporary p = None")
    case True
    with assms g gp show ?thesis
      by (auto simp: write_heartbeat_def Let_def split: option.splits)
  next
    case False
    then obtain tmp where tmp: "temporary p = Some tmp" and s: "s = None" by auto
    have neq: "tmp \<noteq> p" by (rule temporary_neq [OF tmp])
    show ?thesis
    proof (cases "encodable ?body")
      case True
      then obtain tr' e where tr': "run_ops rf (write_ops tmp ?body @ [Rename tmp p]) g = (tr', e)"
          "tr = g # tr'"
        using assms g s tmp by (auto simp: write_heartbeat_def Let_def split: prod.splits)
      then show ?thesis using heartbeat_ops_trace(1) [OF tr'(1) neq] gp by simp
    next
      case False
      then obtain tr' e where tr': "run_ops rf [Truncate tmp] g = (tr', e)" "tr = g # tr'"
        using assms g s tmp by (auto simp: write_heartbeat_def Let_def split: prod.splits)
      then show ?thesis using run_ops_frame [of _ rf "[Truncate tmp]" g p] neq gp by auto
    qed
  qed
qed

lemma write_heartbeat_done:
  assumes "write_heartbeat rf p report t f = (tr, None)"
  shows "final f tr p = Some (Text (json_dumps (heartbeat_payload report t)))"
    "temporary p = Some tmp \<Longrightarrow> final f tr tmp = None"
    "\<not> is_dir (final f tr) p"
proof -
  let ?body = "json_dumps (heartbeat_payload report t)"
  obtain g s where g: "mkdirs rf (parent p) f = (g, s)" by force
  obtain tp tr' where tp: "temporary p = Some tp" "encodable ?body" "tr = g # tr'"
      "run_ops rf (write_ops tp ?body @ [Rename tp p]) g = (tr', None)"
    using assms g
    by (auto simp: write_heartbeat_def Let_def split: option.splits if_splits prod.splits)
  have neq: "tp \<noteq> p" by (rule temporary_neq [OF tp(1)])
  have fin: "final f tr = (g(tp := None))(p := Some (Text ?body))"
    using heartbeat_ops_trace(2) [OF tp(4) neq] tp(3) by simp
  then show "final f tr p = Some (Text ?body)" by simp
  show "temporary p = Some tmp \<Longrightarrow> final f tr tmp = None" using fin tp(1) neq by simp
  show "\<not> is_dir (final f tr) p"
    using fin temporary_parent [OF tp(1)] by (simp add: is_dir_def)
qed

subsection \<open>What is written is what is read\<close>

definition report_text_ok :: "health_report \<Rightarrow> bool" where
  "report_text_ok r \<longleftrightarrow>
     list_all (\<lambda>d. text_ok (dep_name d) \<and> text_ok (dep_detail d)) (report_dependencies r)"

lemma text_ok_dd: "0 \<le> n \<Longrightarrow> text_ok (dd w n)"
  using dec_digits_range [of n] by (force simp: dd_def zero_pad_def text_ok_def)

lemma text_ok_isoformat: "datetime_ok t \<Longrightarrow> text_ok (isoformat t)"
  by (simp add: isoformat_def iso_offset_def Let_def text_ok_dd datetime_ok_def split: option.splits)

lemma payload_ok:
  assumes "report_text_ok report" "datetime_ok t"
  shows "json_ok (heartbeat_payload report t)"
  using assms text_ok_isoformat [of t]
  by (auto simp: heartbeat_payload_def report_text_ok_def status_word_def asdict_def list_all_iff
      lit_distinct)

lemma read_heartbeat:
  assumes "write_heartbeat rf p report t f = (tr, None)" "report_text_ok report" "datetime_ok t"
  shows "heartbeat_age_seconds (final f tr) p s =
    (if utcoffset t = None then Inl Without_timezone
     else Inr (round64 (utc_micros s - utc_micros t) 1000000))"
proof -
  let ?pl = "heartbeat_payload report t"
  have "read_text (final f tr) p = Inr (json_dumps ?pl)"
    using write_heartbeat_done [OF assms(1)] by (simp add: read_text_def)
  moreover have "json_loads (json_dumps ?pl) = Some ?pl"
    by (rule loads_dumps [OF payload_ok [OF assms(2,3)]])
  moreover have "lit ''service'' \<noteq> lit ''checked_at''"
    by (simp add: lit_def)
  ultimately show ?thesis
    using fromisoformat_isoformat [OF assms(3)]
    by (simp add: heartbeat_age_seconds_def heartbeat_payload_def)
qed

subsection \<open>The probes as wired\<close>

interpretation worker: wired_probes "worker_build_probes s" "[DATABASE, ARTIFACT_STORAGE]"
    "undisturbed (py_path (artifact_root s))" for s
proof unfold_locales
  show "list_all2 (\<lambda>p n. \<forall>w. dep_name (fst (p w)) = n) (worker_build_probes s)
      [DATABASE, ARTIFACT_STORAGE]"
    by (simp add: worker_build_probes_def probe_database_name probe_storage_name)
  show "p \<in> set (worker_build_probes s) \<Longrightarrow> undisturbed (py_path (artifact_root s)) w (snd (p w))"
    for p w
    by (auto simp: worker_build_probes_def probe_database_undisturbed probe_storage_undisturbed)
qed (auto intro: undisturbed_refl undisturbed_trans)

text \<open>The texts of a report come from the driver, the operating system and the settings.\<close>

definition error_text_ok :: "os_error \<Rightarrow> bool" where
  "error_text_ok e \<longleftrightarrow> text_ok (err_class e) \<and> text_ok (strerror e) \<and> text_ok (err_text e)"

definition cycle_ok :: "cycle \<Rightarrow> bool" where
  "cycle_ok c \<longleftrightarrow>
     datetime_ok (c_now c) \<and> utcoffset (c_now c) = Some 0 \<and>
     (\<forall>call e. c_refuse c call = Some e \<longrightarrow> error_text_ok e) \<and>
     (\<forall>dsn t cls txt. c_database c dsn t = Driver_error cls txt \<longrightarrow> text_ok cls \<and> text_ok txt)"

lemma text_ok_splitlines_from:
  "text_ok cur \<Longrightarrow> text_ok s \<Longrightarrow> l \<in> set (splitlines_from cur s) \<Longrightarrow> text_ok l"
proof (induction cur s rule: splitlines_from.induct)
  case (1 cur)
  then show ?case by (auto split: if_splits)
next
  case (2 cur c cs)
  have tl: "text_ok (tl cs)" using 2 by (cases cs) auto
  show ?case
  proof (cases "c = 13 \<and> cs \<noteq> [] \<and> hd cs = 10")
    case True
    with 2 tl show ?thesis by auto
  next
    case False
    with 2 show ?thesis by (cases "is_line_break c") auto
  qed
qed

lemma text_ok_strip: "text_ok s \<Longrightarrow> text_ok (strip s)"
  by (auto simp: text_ok_def strip_def dest!: set_dropWhileD)

lemma text_ok_describe_error: "text_ok cls \<Longrightarrow> text_ok txt \<Longrightarrow> text_ok (describe_error cls txt)"
  using text_ok_splitlines_from [OF _ text_ok_strip, of "[]"]
  by (auto simp: describe_error_def Let_def splitlines_def split: list.splits)


lemma text_ok_split_on: "text_ok s \<Longrightarrow> x \<in> set (split_on c s) \<Longrightarrow> text_ok x"
proof (induction s arbitrary: x)
  case Nil
  then show ?case by simp
next
  case (Cons a s)
  have ne: "split_on c s \<noteq> []" by (cases s) auto
  with Cons show ?case
    by (auto split: if_splits dest: list.set_sel(2))
qed

lemma text_ok_join: "text_ok sep \<Longrightarrow> \<forall>x \<in> set xs. text_ok x \<Longrightarrow> text_ok (join sep xs)"
  by (induction sep xs rule: join.induct) auto

lemma text_ok_path: "text_ok s \<Longrightarrow> text_ok (path_str (py_path s))"
  using text_ok_split_on [of s _ 47]
  by (auto simp: path_str_def py_path_def Let_def intro!: text_ok_join)

lemma std_error_ok:
  "error_text_ok file_not_found" "error_text_ok file_exists" "error_text_ok not_a_directory"
  "error_text_ok is_a_directory"
  by (simp_all add: error_text_ok_def file_not_found_def file_exists_def not_a_directory_def
      is_a_directory_def os_err_def)

lemma run_op_error_ok:
  assumes "\<And>c e. rf c = Some e \<Longrightarrow> error_text_ok e" "run_op rf c f = Inl e"
  shows "error_text_ok e"
proof (cases "rf c")
  case None
  then have "apply_op c f = Inl e" using assms(2) by (simp add: run_op_def)
  then show ?thesis
    using std_error_ok
    by (cases c) (auto simp: parent_error_def split: if_splits option.splits node.splits)
qed (use assms in \<open>auto simp: run_op_def\<close>)

lemma run_ops_error_ok:
  assumes "\<And>c e. rf c = Some e \<Longrightarrow> error_text_ok e" "run_ops rf cs f = (tr, Some e)"
  shows "error_text_ok e"
  using assms(2)
proof (induction cs arbitrary: f tr)
  case (Cons c cs)
  show ?case
  proof (cases "run_op rf c f")
    case (Inl e')
    with Cons.prems show ?thesis using run_op_error_ok [of rf, OF assms(1)] by auto
  next
    case (Inr g)
    with Cons show ?thesis by (auto simp: apfst_eq_Pair)
  qed
qed simp

lemma mkdirs_error_ok:
  "(\<And>c e. rf c = Some e \<Longrightarrow> error_text_ok e) \<Longrightarrow> mkdirs rf p f = (g, Some e) \<Longrightarrow> error_text_ok e"
proof (induction rf p f arbitrary: g e rule: mkdirs.induct)
  case (1 rf p f)
  have rok: "run_op rf c h = Inl e \<Longrightarrow> error_text_ok e" for c h e
    by (rule run_op_error_ok [of rf]) (use "1.prems"(1) in auto)
  show ?case
  proof (cases "run_op rf (Mkdir p) f")
    case (Inr h)
    with "1.prems"(2) show ?thesis by (simp add: mkdirs.simps [of rf p f])
  next
    case (Inl e')
    show ?thesis
    proof (cases "err_class e' = err_class file_not_found \<and> path_parts p \<noteq> []")
      case True
      obtain h s where h: "mkdirs rf (parent p) f = (h, s)" by force
      show ?thesis
      proof (cases s)
        case None
        with True Inl h "1.prems"(2) have "mkdir_exist_ok rf p h = (g, Some e)"
          by (simp add: mkdirs.simps [of rf p f])
        then show ?thesis
          using rok by (auto simp: mkdir_exist_ok_def split: sum.splits if_splits)
      next
        case (Some e'')
        have "error_text_ok e''"
          using "1.IH" [OF Inl True] "1.prems"(1) h Some by blast
        with True Inl h Some "1.prems"(2) show ?thesis
          by (simp add: mkdirs.simps [of rf p f])
      qed
    next
      case False
      with Inl "1.prems"(2) rok [OF Inl] show ?thesis
        by (auto simp: mkdirs.simps [of rf p f] split: if_splits)
    qed
  qed
qed

lemma storage_text_ok:
  assumes "\<And>c e. refuse w c = Some e \<Longrightarrow> error_text_ok e" "text_ok dir"
  shows "text_ok (dep_detail (fst (probe_artifact_storage (py_path dir) w)))"
proof -
  have "text_ok (dep_detail (storage_failure e))" if "error_text_ok e" for e
    using that by (simp add: storage_failure_def error_text_ok_def)
  moreover note mkdirs_error_ok [of "refuse w", OF assms(1)] run_ops_error_ok [of "refuse w", OF assms(1)]
  ultimately show ?thesis
    using text_ok_path [OF assms(2)]
    by (auto simp: probe_artifact_storage_def Let_def split: prod.splits option.splits)
qed

lemma database_text_ok:
  assumes "\<And>dsn t a b. database w dsn t = Driver_error a b \<Longrightarrow> text_ok a \<and> text_ok b"
  shows "text_ok (dep_detail (fst (probe_database dsn t w)))"
  using assms text_ok_describe_error
  by (auto simp: probe_database_def split: driver_outcome.splits)

lemma worker_report_ok:
  assumes "cycle_ok c" "text_ok (artifact_root s)"
  shows "report_text_ok (fst (check_dependencies (worker_build_probes s) (enter_cycle c w)))"
proof -
  let ?w = "enter_cycle c w"
  let ?u = "snd (probe_database (worker_database_url s) DEFAULT_CONNECT_TIMEOUT_SECONDS ?w)"
  have "text_ok (dep_detail (fst (probe_database (worker_database_url s) DEFAULT_CONNECT_TIMEOUT_SECONDS ?w)))"
    by (rule database_text_ok) (use assms in \<open>auto simp: cycle_ok_def enter_cycle_def\<close>)
  moreover have "text_ok (dep_detail (fst (probe_artifact_storage (py_path (artifact_root s)) ?u)))"
    by (rule storage_text_ok)
      (use assms in \<open>auto simp: cycle_ok_def enter_cycle_def probe_database_world\<close>)
  ultimately show ?thesis
    by (simp add: report_text_ok_def check_dependencies_def worker_build_probes_def split_beta
        Let_def probe_database_name probe_storage_name DATABASE_def ARTIFACT_STORAGE_def)
qed


subsection \<open>The turns of a run\<close>

lemma worker_turn_heartbeat:
  assumes "worker_turn s c w = (None, w', entry)" "cycle_ok c" "text_ok (artifact_root s)"
  shows "heartbeat_age_seconds (files w') (py_path (heartbeat_path s)) t =
    Inr (round64 (utc_micros t - utc_micros (c_now c)) 1000000)"
proof -
  obtain report u where u: "check_dependencies (worker_build_probes s) (enter_cycle c w) = (report, u)"
    by force
  have "undisturbed (py_path (artifact_root s)) (enter_cycle c w) u"
    using worker.check_keeps [of s "enter_cycle c w"] by (simp add: u)
  then have now: "now u = c_now c" by (simp add: undisturbed_def enter_cycle_def)
  obtain tr where tr: "write_heartbeat (refuse u) (py_path (heartbeat_path s)) report (c_now c) (files u) = (tr, None)"
      "files w' = final (files u) tr"
    using assms(1) by (auto simp: worker_turn_def u now split: prod.splits)
  have "report_text_ok report"
    using worker_report_ok [OF assms(2,3), of w] by (simp add: u)
  then show ?thesis
    using read_heartbeat [OF tr(1)] assms(2) tr(2) by (simp add: cycle_ok_def)
qed

text \<open>The cycle a run stopped in, or the last one of a run that goes on.\<close>

lemma worker_loop_heartbeat:
  assumes "worker_loop s cycles w = (r, w', lg)" "list_all cycle_ok cycles" "text_ok (artifact_root s)"
    and "r \<noteq> Running \<or> cycles \<noteq> []" "\<And>x. r \<noteq> Raised x"
  shows "\<exists>pre c post. cycles = pre @ c # post \<and>
    (r = Exit 0 \<and> (c_stop_set c \<or> c_stop_during c) \<or> r = Running \<and> post = []) \<and>
    (\<forall>b \<in> set pre. \<not> c_stop_set b) \<and>
    (\<forall>t. heartbeat_age_seconds (files w') (py_path (heartbeat_path s)) t =
       Inr (round64 (utc_micros t - utc_micros (c_now c)) 1000000))"
  using assms
proof (induction cycles arbitrary: w lg)
  case Nil
  then show ?case by auto
next
  case (Cons c cs)
  obtain e u entry where u: "worker_turn s c w = (e, u, entry)" by (cases "worker_turn s c w") auto
  have e: "e = None" using Cons.prems(1,5) u by (cases e) auto
  have hb: "heartbeat_age_seconds (files u) (py_path (heartbeat_path s)) t =
      Inr (round64 (utc_micros t - utc_micros (c_now c)) 1000000)" for t
    using worker_turn_heartbeat u e Cons.prems(2,3) by simp
  obtain b where b: "event_wait (interval_seconds s) (c_stop_set c) (c_stop_during c) = Inr b"
    using Cons.prems(1,5) u e by (auto split: sum.splits)
  have stop: "b \<Longrightarrow> c_stop_set c \<or> c_stop_during c" "\<not> b \<Longrightarrow> \<not> c_stop_set c"
    using b by (auto simp: event_wait_def split: if_splits)
  show ?case
  proof (cases b)
    case True
    then have "r = Exit 0" "w' = u" using Cons.prems(1) u e b by auto
    with True stop hb show ?thesis by (intro exI [of _ "[]"] exI [of _ c] exI [of _ cs]) simp
  next
    case False
    then obtain lg' where l: "worker_loop s cs u = (r, w', lg')"
      using Cons.prems(1) u e b by (auto split: prod.splits)
    show ?thesis
    proof (cases cs)
      case Nil
      with l hb show ?thesis by (intro exI [of _ "[]"] exI [of _ c]) auto
    next
      case (Cons c' cs')
      then obtain pre d post where d: "cs = pre @ d # post"
          "r = Exit 0 \<and> (c_stop_set d \<or> c_stop_during d) \<or> r = Running \<and> post = []"
          "\<forall>b \<in> set pre. \<not> c_stop_set b"
          "\<forall>t. heartbeat_age_seconds (files w') (py_path (heartbeat_path s)) t =
             Inr (round64 (utc_micros t - utc_micros (c_now d)) 1000000)"
        using Cons.IH [OF l] Cons.prems by auto
      with False stop(2) show ?thesis
        by (intro exI [of _ "c # pre"] exI [of _ d] exI [of _ post]) auto
    qed
  qed
qed

lemma worker_loop_exit: "worker_loop s cycles w = (Exit k, w', lg) \<Longrightarrow> k = 0"
proof (induction cycles arbitrary: w lg)
  case (Cons c cs)
  then show ?case by (auto split: prod.splits option.splits sum.splits bool.splits)
qed simp

lemma worker_loop_stops:
  assumes "worker_loop s cycles w = (Running, w', lg)"
  shows "\<forall>c \<in> set cycles. \<not> c_stop_set c"
  using assms
proof (induction cycles arbitrary: w lg)
  case (Cons c cs)
  have "\<not> c_stop_set c"
    using Cons.prems by (auto simp: event_wait_def split: prod.splits option.splits)
  with Cons show ?case by (auto split: prod.splits option.splits sum.splits bool.splits)
qed simp

text \<open>The health check reads the age and nothing else of the heartbeat.\<close>

lemma fresh_heartbeat_passes:
  assumes "worker_interval_seconds os None = Inr interval" "interval \<noteq> Float_nan"
    and "heartbeat_age_seconds f (py_path (worker_heartbeat_path os None)) t = Inr age"
    and "float_le age interval"
  shows "worker_healthcheck os f t = 0"
proof -
  have "float_le age (heartbeat_max_age_seconds interval)"
    using max_age_covers_interval [OF assms(1,2)] assms(4) float_le_trans by blast
  then show ?thesis
    by (simp add: worker_healthcheck_def assms(1,3) float_lt_def Let_def)
qed

lemma from_environment_parts:
  assumes "worker_from_environment os None = Inr s"
  shows "worker_interval_seconds os None = Inr (interval_seconds s)"
    "worker_heartbeat_path os None = heartbeat_path s"
  using assms
  by (auto simp: worker_from_environment_def worker_interval_seconds_def worker_heartbeat_path_def Let_def)

text \<open>
  When nothing is refused, the directory is there, neither name is a directory and the text can be
  encoded, the write succeeds.
\<close>

lemma run_appends_ok: "\<forall>call. rf call = None \<Longrightarrow> snd (run_ops rf (map (\<lambda>c. Append tmp [c]) s) f) = None"
proof (induction s arbitrary: f)
  case (Cons c s)
  obtain g where "apply_op (Append tmp [c]) f = Inr g"
    by (cases "f tmp"; cases "the (f tmp)") auto
  with Cons show ?case by (simp add: run_op_def del: apply_op.simps)
qed simp

lemma write_heartbeat_ok:
  assumes "\<forall>call. rf call = None" "temporary p = Some tmp" "is_dir f (parent p)"
    and "\<not> is_dir f p" "\<not> is_dir f tmp" "encodable (json_dumps (heartbeat_payload report t))"
  shows "snd (write_heartbeat rf p report t f) = None"
proof -
  let ?body = "json_dumps (heartbeat_payload report t)"
  have mk: "mkdirs rf (parent p) f = (f, None)"
    using assms(1,3) by (simp add: mkdirs.simps [of rf "parent p"] run_op_def is_dir_def
        file_exists_def file_not_found_def os_err_def lit_distinct)
  have pe: "parent_error f p = None" "parent_error f tmp = None"
    using assms(2,3) temporary_parent [OF assms(2)] by (simp_all add: parent_error_def)
  let ?g = "f(tmp := Some (Text []))"
  obtain tr' where tr': "run_ops rf (map (\<lambda>c. Append tmp [c]) ?body) ?g = (tr', None)"
    using run_appends_ok [OF assms(1), of tmp ?body ?g] by (metis prod.collapse)
  have trunc: "run_op rf (Truncate tmp) f = Inr ?g"
    using assms(1,5) pe by (simp add: run_op_def)
  obtain tr where tr: "run_ops rf (write_ops tmp ?body) f = (tr, None)"
    using trunc tr' by (simp add: write_ops_def)
  have fin: "final f tr = f(tmp := Some (Text ?body))" by (rule run_write_ops(1) [OF tr])
  have neq: "tmp \<noteq> p" by (rule temporary_neq [OF assms(2)])
  have "is_dir (f(tmp := Some (Text ?body))) (parent p)"
    using assms(3,5) by (auto simp: is_dir_def)
  then have "\<exists>h. run_op rf (Rename tmp p) (final f tr) = Inr h"
    using assms(1,4) neq by (auto simp: fin run_op_def is_dir_def parent_error_def)
  then have "snd (run_ops rf (write_ops tmp ?body @ [Rename tmp p]) f) = None"
    using tr by (auto simp: run_ops_append)
  then show ?thesis
    using assms(2,6) by (simp add: write_heartbeat_def mk Let_def split_beta)
qed

subsection \<open>Properties\<close>

text \<open>
  C21: replacing the heartbeat is atomic. Whatever the operating system refuses and wherever the write
  stops, every state of the file system it passes through holds at the heartbeat path what was there
  before or the complete new text; a write that raises nothing leaves the new text and no temporary
  file.
\<close>

theorem heartbeat_atomic:
  assumes "write_heartbeat rf p report t f = (tr, r)"
  shows "(\<forall>g \<in> set tr. g p = f p \<or> g p = Some (Text (json_dumps (heartbeat_payload report t)))) \<and>
    (r = None \<longrightarrow>
      final f tr p = Some (Text (json_dumps (heartbeat_payload report t))) \<and>
      (\<forall>tmp. temporary p = Some tmp \<longrightarrow> final f tr tmp = None))"
proof -
  have "r = None \<Longrightarrow> final f tr p = Some (Text (json_dumps (heartbeat_payload report t)))"
    "\<And>tmp. r = None \<Longrightarrow> temporary p = Some tmp \<Longrightarrow> final f tr tmp = None"
    using write_heartbeat_done assms by blast+
  with write_heartbeat_trace [OF assms] show ?thesis by blast
qed

definition sample_report :: health_report where
  "sample_report = \<lparr>report_dependencies =
     [\<lparr>dep_name = DATABASE, dep_healthy = False, dep_detail = lit ''no''\<rparr>]\<rparr>"

definition sample_time :: pydatetime where
  "sample_time = \<lparr>year = 2026, month = 9, day = 13, hour = 12, minute = 0, second = 0,
     microsecond = 0, utcoffset = Some 0\<rparr>"

definition sample_write :: "files list \<times> worker_exn option" where
  "sample_write = write_heartbeat (\<lambda>_. None) (py_path (lit ''h'')) sample_report sample_time (\<lambda>_. None)"

lemma sample_encodable: "encodable (json_dumps (heartbeat_payload sample_report sample_time))"
  by code_simp

lemma sample_write_done: "snd sample_write = None"
proof -
  have "temporary (py_path (lit ''h'')) = Some (py_path (lit ''h.tmp''))" by code_simp
  moreover have "is_dir (\<lambda>_. None) (parent (py_path (lit ''h'')))"
    "\<not> is_dir (\<lambda>_. None) (py_path (lit ''h''))" "\<not> is_dir (\<lambda>_. None) (py_path (lit ''h.tmp''))"
    by code_simp+
  ultimately show ?thesis
    unfolding sample_write_def using sample_encodable by (intro write_heartbeat_ok [where tmp = "py_path (lit ''h.tmp'')"]) auto
qed

theorem heartbeat_atomic_witness:
  "\<exists>tr. write_heartbeat (\<lambda>_. None) (py_path (lit ''h'')) sample_report sample_time (\<lambda>_. None) = (tr, None) \<and>
     final (\<lambda>_. None) tr (py_path (lit ''h'')) =
       Some (Text (json_dumps (heartbeat_payload sample_report sample_time)))"
proof -
  obtain tr where "write_heartbeat (\<lambda>_. None) (py_path (lit ''h'')) sample_report sample_time (\<lambda>_. None) = (tr, None)"
    using sample_write_done by (cases sample_write) (auto simp: sample_write_def)
  then show ?thesis using heartbeat_atomic by blast
qed

text \<open>
  what the Worker writes, its health check reads: the age of a heartbeat written at an aware time
  is the exact difference of the two instants in microseconds, rounded once to a float, whatever the
  report says about the dependencies.
\<close>

theorem heartbeat_read_back:
  assumes "write_heartbeat rf p report t f = (tr, None)" "report_text_ok report"
    and "datetime_ok t" "utcoffset t \<noteq> None"
  shows "heartbeat_age_seconds (final f tr) p s =
    Inr (round64 (utc_micros s - utc_micros t) 1000000)"
  using read_heartbeat [OF assms(1-3)] assms(4) by simp

theorem heartbeat_read_back_witness:
  "\<exists>tr. write_heartbeat (\<lambda>_. None) (py_path (lit ''h'')) sample_report sample_time (\<lambda>_. None) = (tr, None) \<and>
     heartbeat_age_seconds (final (\<lambda>_. None) tr) (py_path (lit ''h'')) (sample_time\<lparr>minute := 1\<rparr>) =
       Inr (round64 60000000 1000000)"
proof -
  obtain tr where tr: "write_heartbeat (\<lambda>_. None) (py_path (lit ''h'')) sample_report sample_time (\<lambda>_. None) = (tr, None)"
    using sample_write_done by (cases sample_write) (auto simp: sample_write_def)
  have ok: "report_text_ok sample_report" "datetime_ok sample_time" "utcoffset sample_time \<noteq> None"
    by code_simp+
  have "utc_micros (sample_time\<lparr>minute := 1\<rparr>) - utc_micros sample_time = 60000000"
    by code_simp
  with tr heartbeat_read_back [OF tr ok] show ?thesis by metis
qed

text \<open>
  C22: a run of the Worker never ends by itself. If no exception ended it, it is still running or it
  ended with status 0 after a cycle in which the stop event was set; and the heartbeat on disk is the
  one of its last cycle.
\<close>

theorem worker_run_heartbeat:
  assumes "worker_run s cycles w = (r, w', lg)" "list_all cycle_ok cycles" "text_ok (artifact_root s)"
    and "cycles \<noteq> []" "\<forall>x. r \<noteq> Raised x"
  shows "\<exists>pre c post. cycles = pre @ c # post \<and> (\<forall>b \<in> set pre. \<not> c_stop_set b) \<and>
    (r = Exit 0 \<and> (c_stop_set c \<or> c_stop_during c) \<or> r = Running \<and> post = []) \<and>
    (\<forall>t. heartbeat_age_seconds (files w') (py_path (heartbeat_path s)) t =
       Inr (round64 (utc_micros t - utc_micros (c_now c)) 1000000))"
proof -
  obtain lg' where "worker_loop s cycles w = (r, w', lg')"
    using assms(1) by (auto simp: worker_run_def split: prod.splits)
  from worker_loop_heartbeat [OF this assms(2,3)] assms(4,5) show ?thesis by blast
qed

definition sample_settings :: worker_settings where
  "sample_settings = \<lparr>worker_database_url = lit ''db'', artifact_root = lit ''a'',
     heartbeat_path = lit ''h'', interval_seconds = Float 30 0\<rparr>"

definition sample_cycle :: "bool \<Rightarrow> cycle" where
  "sample_cycle stop = \<lparr>c_refuse = (\<lambda>_. None), c_database = (\<lambda>_ _. Driver_error (lit ''E'') []),
     c_now = sample_time, c_stop_set = stop, c_stop_during = False\<rparr>"

definition sample_world :: world where
  "sample_world = \<lparr>files = (\<lambda>_. None), refuse = (\<lambda>_. None), database = (\<lambda>_ _. Answered),
     connections = 0, pid = 1, now = sample_time\<rparr>"

lemma sample_turn: "fst (worker_turn sample_settings (sample_cycle True) sample_world) = None"
proof -
  obtain report u where u: "check_dependencies (worker_build_probes sample_settings)
      (enter_cycle (sample_cycle True) sample_world) = (report, u)" by force
  let ?chk = "check_dependencies (worker_build_probes sample_settings)
      (enter_cycle (sample_cycle True) sample_world)"
  have "encodable (json_dumps (heartbeat_payload (fst ?chk) sample_time))" by code_simp
  moreover have "temporary (py_path (lit ''h'')) = Some (py_path (lit ''h.tmp''))" by code_simp
  moreover have "is_dir (files (snd ?chk)) (parent (py_path (lit ''h'')))"
    "\<not> is_dir (files (snd ?chk)) (py_path (lit ''h''))"
    "\<not> is_dir (files (snd ?chk)) (py_path (lit ''h.tmp''))" by code_simp+
  moreover have "undisturbed (py_path (artifact_root sample_settings))
      (enter_cycle (sample_cycle True) sample_world) u"
    using worker.check_keeps [of sample_settings] u by (metis snd_conv)
  then have "\<forall>call. refuse u call = None" "now u = sample_time"
    by (simp_all add: undisturbed_def enter_cycle_def sample_cycle_def)
  ultimately have "snd (write_heartbeat (refuse u) (py_path (lit ''h'')) report (now u) (files u)) = None"
    using u by (intro write_heartbeat_ok [where tmp = "py_path (lit ''h.tmp'')"]) auto
  then show ?thesis
    using u by (simp add: worker_turn_def sample_settings_def split_beta Let_def)
qed

lemma sample_run: "fst (worker_run sample_settings [sample_cycle True] sample_world) = Exit 0"
  using sample_turn
  by (auto simp: worker_run_def event_wait_def sample_cycle_def split_beta Let_def split: prod.splits)

lemma sample_cycle_ok: "cycle_ok (sample_cycle b)"
  by (simp add: cycle_ok_def sample_cycle_def) code_simp

theorem worker_run_heartbeat_witness:
  "\<exists>w' lg. worker_run sample_settings [sample_cycle True] sample_world = (Exit 0, w', lg) \<and>
     heartbeat_age_seconds (files w') (py_path (lit ''h'')) sample_time = Inr (round64 0 1000000)"
proof -
  obtain w' lg where run: "worker_run sample_settings [sample_cycle True] sample_world = (Exit 0, w', lg)"
    using sample_run by (metis prod.collapse)
  have root: "text_ok (artifact_root sample_settings)" by code_simp
  have "\<exists>pre c post. [sample_cycle True] = pre @ c # post \<and>
      (\<forall>t. heartbeat_age_seconds (files w') (py_path (heartbeat_path sample_settings)) t =
         Inr (round64 (utc_micros t - utc_micros (c_now c)) 1000000))"
    using worker_run_heartbeat [OF run _ root] sample_cycle_ok by auto
  then obtain c where "c \<in> {sample_cycle True}"
      "heartbeat_age_seconds (files w') (py_path (heartbeat_path sample_settings)) sample_time =
         Inr (round64 (utc_micros sample_time - utc_micros (c_now c)) 1000000)"
    by (metis in_set_conv_decomp list.set(1,2) list.simps(15))
  with run show ?thesis
    by (intro exI [of _ w'] exI [of _ lg]) (auto simp: sample_cycle_def sample_settings_def)
qed


definition sample_environ :: environ where
  "sample_environ = [(DATABASE_URL, lit ''db''), (ARTIFACT_ROOT, lit ''a''), (WORKER_HEARTBEAT_PATH, lit ''h'')]"

lemma sample_environ_settings: "worker_from_environment sample_environ None = Inr sample_settings"
  by code_simp


text \<open>
  the staleness limit leaves room for a slow cycle. For every interval the settings accept that is
  not a NaN, infinite and subnormal ones included, the limit is at least the interval and at least
  15 seconds, in spite of the rounding of the product.
\<close>

theorem staleness_limit:
  assumes "worker_interval_seconds os e = Inr x" "x \<noteq> Float_nan"
  shows "float_le x (heartbeat_max_age_seconds x) \<and>
    float_le MINIMUM_HEARTBEAT_MAX_AGE_SECONDS (heartbeat_max_age_seconds x)"
  using max_age_covers_interval [OF assms] by (simp add: MINIMUM_HEARTBEAT_MAX_AGE_SECONDS_def)

theorem staleness_limit_witness:
  "worker_interval_seconds [(WORKER_INTERVAL_SECONDS, lit ''5'')] None = Inr (Float 5629499534213120 (-50)) \<and>
   float_le (Float 5629499534213120 (-50)) (heartbeat_max_age_seconds (Float 5629499534213120 (-50)))"
proof -
  have "worker_interval_seconds [(WORKER_INTERVAL_SECONDS, lit ''5'')] None = Inr (Float 5629499534213120 (-50))"
    by code_simp
  then show ?thesis using staleness_limit by blast
qed

text \<open>
  the text nan passes the check for a number greater than zero, and disables what it configures:
  the limit is a NaN, no age is ever stale, and the wait between two cycles returns at once.
\<close>

theorem nan_interval_accepted:
  "worker_interval_seconds [(WORKER_INTERVAL_SECONDS, lit ''nan'')] None = Inr Float_nan \<and>
   \<not> float_lt (heartbeat_max_age_seconds Float_nan) age \<and>
   event_wait Float_nan False later = Inr False"
proof -
  have "worker_interval_seconds [(WORKER_INTERVAL_SECONDS, lit ''nan'')] None = Inr Float_nan"
    by code_simp
  then show ?thesis
    by (simp add: heartbeat_max_age_seconds_def float_max_def float_lt_def event_wait_def)
qed

text \<open>
  an accepted interval over the largest timeout of the threading module, such as 1e10 or inf, ends
  the Worker with an OverflowError in its first wait; every other accepted interval that is a number
  waits.
\<close>

theorem interval_overflow:
  assumes "worker_interval_seconds os e = Inr x" "x \<noteq> Float_nan"
  shows "event_wait x False later =
    (if float_lt TIMEOUT_MAX x then Inl Overflow_error else Inr later)"
proof -
  have "0 < real_of_int m * pow2 e" if "0 < m" for m e
    using that by simp
  then have "float_lt (Float 0 0) x"
    using interval_positive [OF assms]
    by (fastforce simp: float_lt_def float_le_val not_le simp del: float_le.simps(7))
  then show ?thesis by (simp add: event_wait_def)
qed

theorem interval_overflow_witness:
  "worker_interval_seconds [(WORKER_INTERVAL_SECONDS, lit ''inf'')] None = Inr (Float_inf False) \<and>
   event_wait (Float_inf False) False True = Inl Overflow_error"
proof -
  have "worker_interval_seconds [(WORKER_INTERVAL_SECONDS, lit ''inf'')] None = Inr (Float_inf False)"
    by code_simp
  moreover have "float_lt TIMEOUT_MAX (Float_inf False)" by code_simp
  ultimately show ?thesis using interval_overflow by fastforce
qed

end
