(* ===== verification/Schema.thy ===== *)
theory Schema
  imports Py_Prelude
begin

text \<open>
  scripts/db_poc/dbpoc/schema.py: the tables of the PoC schema as values, one definition per
  \<open>sa.Table\<close>, and the load order. A column is its name, type, nullability and the
  autoincrement flag when the source states one; an index carries whether it is unique and whether
  the server generated it for a foreign key. The storage options (engine, character set, row
  format) are the same for every table and are not kept. The lemmas: the load order lists every
  table once, each after the tables its foreign keys refer to.
\<close>

subsection \<open>Table definitions\<close>

text \<open>The two candidate products.\<close>

datatype engine = Postgres | Mariadb

datatype sqltype =
    Small_int | Integer | Big_int | Varchar nat | Char_n nat | Uuid | Timestamp | Json
  | Numeric nat nat | Bool_t

datatype column = Col (col_name: string) (col_type: sqltype) (col_nullable: bool) (col_autoinc: "bool option")

datatype check = In_list string "string list" | At_least string int | Score_range string

datatype index = Index (idx_name: string) (idx_cols: "string list") (idx_unique: bool) (idx_generated: bool)

record table_def =
  tbl_name :: string
  tbl_columns :: "column list"
  tbl_pk :: "string list"
  tbl_uniques :: "(string option \<times> string list) list"
  tbl_fks :: "(string \<times> string \<times> string) list"
  tbl_checks :: "(string \<times> check) list"
  tbl_indexes :: "index list"

definition t_source :: table_def where
  "t_source =
     \<lparr>tbl_name = ''source'',
      tbl_columns =
        [Col ''id'' Small_int False (Some False),
         Col ''slug'' (Varchar 64) False None,
         Col ''kind'' (Varchar 32) False None,
         Col ''state'' (Varchar 32) False None,
         Col ''stopped_reason'' (Varchar 200) True None,
         Col ''last_success_run_id'' Big_int True None],
      tbl_pk = [''id''],
      tbl_uniques =
        [(None, [''slug''])],
      tbl_fks =
        [],
      tbl_checks =
        [(''ck_source_state'', In_list ''state'' [''active'', ''paused'', ''stopped''])],
      tbl_indexes =
        []\<rparr>"

definition t_shop :: table_def where
  "t_shop =
     \<lparr>tbl_name = ''shop'',
      tbl_columns =
        [Col ''id'' Small_int False (Some False),
         Col ''slug'' (Varchar 64) False None,
         Col ''display_name'' (Varchar 120) False None,
         Col ''normalized_name'' (Varchar 120) False None],
      tbl_pk = [''id''],
      tbl_uniques =
        [(None, [''slug''])],
      tbl_fks =
        [],
      tbl_checks =
        [],
      tbl_indexes =
        []\<rparr>"

definition t_card_identity :: table_def where
  "t_card_identity =
     \<lparr>tbl_name = ''card_identity'',
      tbl_columns =
        [Col ''id'' Uuid False None,
         Col ''tcg'' (Varchar 32) False None,
         Col ''set_code'' (Varchar 32) False None,
         Col ''card_number'' (Varchar 32) False None,
         Col ''rarity'' (Varchar 32) False None,
         Col ''edition'' (Varchar 32) False None,
         Col ''language'' (Varchar 8) False None,
         Col ''normalized_name'' (Varchar 200) False None,
         Col ''created_at'' Timestamp False None],
      tbl_pk = [''id''],
      tbl_uniques =
        [(Some ''uq_card_identity_attributes'', [''tcg'', ''set_code'', ''card_number'', ''rarity'', ''edition'', ''language''])],
      tbl_fks =
        [],
      tbl_checks =
        [],
      tbl_indexes =
        [Index ''ix_card_identity_normalized_name'' [''normalized_name''] False False]\<rparr>"

definition t_card_external_reference :: table_def where
  "t_card_external_reference =
     \<lparr>tbl_name = ''card_external_reference'',
      tbl_columns =
        [Col ''id'' Big_int False (Some True),
         Col ''card_identity_id'' Uuid False None,
         Col ''namespace'' (Varchar 32) False None,
         Col ''external_id'' (Varchar 64) False None,
         Col ''evidence'' (Varchar 120) False None,
         Col ''confirmed'' Bool_t False None,
         Col ''created_at'' Timestamp False None],
      tbl_pk = [''id''],
      tbl_uniques =
        [(Some ''uq_card_external_reference'', [''namespace'', ''external_id''])],
      tbl_fks =
        [(''card_identity_id'', ''card_identity'', ''id'')],
      tbl_checks =
        [],
      tbl_indexes =
        []\<rparr>"

definition t_ingest_run :: table_def where
  "t_ingest_run =
     \<lparr>tbl_name = ''ingest_run'',
      tbl_columns =
        [Col ''id'' Big_int False (Some False),
         Col ''source_id'' Small_int False None,
         Col ''started_at'' Timestamp False None,
         Col ''finished_at'' Timestamp True None,
         Col ''status'' (Varchar 24) False None,
         Col ''fetched_count'' Integer False None,
         Col ''parsed_count'' Integer False None,
         Col ''stored_count'' Integer False None,
         Col ''error_class'' (Varchar 40) True None],
      tbl_pk = [''id''],
      tbl_uniques =
        [],
      tbl_fks =
        [(''source_id'', ''source'', ''id'')],
      tbl_checks =
        [(''ck_ingest_run_status'', In_list ''status'' [''succeeded'', ''partial'', ''failed'', ''empty'', ''running''])],
      tbl_indexes =
        [Index ''ix_ingest_run_source_started'' [''source_id'', ''started_at''] False False]\<rparr>"

definition t_raw_artifact :: table_def where
  "t_raw_artifact =
     \<lparr>tbl_name = ''raw_artifact'',
      tbl_columns =
        [Col ''id'' Big_int False (Some False),
         Col ''ingest_run_id'' Big_int False None,
         Col ''source_id'' Small_int False None,
         Col ''source_item_id'' (Varchar 128) False None,
         Col ''url'' (Varchar 500) True None,
         Col ''mime_type'' (Varchar 64) False None,
         Col ''content_hash'' (Char_n 64) False None,
         Col ''byte_size'' Big_int False None,
         Col ''fetched_at'' Timestamp False None,
         Col ''published_at'' Timestamp True None,
         Col ''storage_ref'' (Varchar 300) False None],
      tbl_pk = [''id''],
      tbl_uniques =
        [(Some ''uq_raw_artifact_source_hash'', [''source_id'', ''content_hash''])],
      tbl_fks =
        [(''ingest_run_id'', ''ingest_run'', ''id''),
         (''source_id'', ''source'', ''id'')],
      tbl_checks =
        [(''ck_raw_artifact_byte_size'', At_least ''byte_size'' 0)],
      tbl_indexes =
        [Index ''ix_raw_artifact_fetched_at'' [''fetched_at''] False False]\<rparr>"

definition t_processing_run :: table_def where
  "t_processing_run =
     \<lparr>tbl_name = ''processing_run'',
      tbl_columns =
        [Col ''id'' Big_int False (Some False),
         Col ''raw_artifact_id'' Big_int False None,
         Col ''processor_name'' (Varchar 64) False None,
         Col ''processor_version'' (Varchar 32) False None,
         Col ''config_ref'' (Varchar 64) False None,
         Col ''attempt_no'' Small_int False None,
         Col ''started_at'' Timestamp False None,
         Col ''finished_at'' Timestamp True None,
         Col ''status'' (Varchar 24) False None,
         Col ''extracted_count'' Integer False None,
         Col ''promoted_count'' Integer False None,
         Col ''error_class'' (Varchar 40) True None],
      tbl_pk = [''id''],
      tbl_uniques =
        [(Some ''uq_processing_run_reparse'', [''raw_artifact_id'', ''processor_name'', ''processor_version'', ''config_ref'', ''attempt_no''])],
      tbl_fks =
        [(''raw_artifact_id'', ''raw_artifact'', ''id'')],
      tbl_checks =
        [],
      tbl_indexes =
        []\<rparr>"

definition t_extracted_record :: table_def where
  "t_extracted_record =
     \<lparr>tbl_name = ''extracted_record'',
      tbl_columns =
        [Col ''id'' Big_int False (Some False),
         Col ''processing_run_id'' Big_int False None,
         Col ''raw_artifact_id'' Big_int False None,
         Col ''locator'' (Varchar 160) False None,
         Col ''payload'' Json False None,
         Col ''value_origin'' (Varchar 32) False None,
         Col ''confidence'' (Numeric 5 4) True None,
         Col ''warnings'' (Varchar 200) True None,
         Col ''created_at'' Timestamp False None],
      tbl_pk = [''id''],
      tbl_uniques =
        [],
      tbl_fks =
        [(''processing_run_id'', ''processing_run'', ''id''),
         (''raw_artifact_id'', ''raw_artifact'', ''id'')],
      tbl_checks =
        [],
      tbl_indexes =
        [Index ''ix_extracted_record_processing_run'' [''processing_run_id''] False False,
         Index ''ix_extracted_record_artifact'' [''raw_artifact_id''] False False]\<rparr>"

definition t_observation_candidate :: table_def where
  "t_observation_candidate =
     \<lparr>tbl_name = ''observation_candidate'',
      tbl_columns =
        [Col ''id'' Big_int False (Some False),
         Col ''extracted_record_id'' Big_int False None,
         Col ''shop_id'' Small_int False None,
         Col ''source_id'' Small_int False None,
         Col ''tcg'' (Varchar 32) False None,
         Col ''amount_minor'' Big_int False None,
         Col ''currency'' (Char_n 3) False None,
         Col ''price_type'' (Varchar 16) False None,
         Col ''raw_card_name'' (Varchar 200) False None,
         Col ''raw_card_number'' (Varchar 32) True None,
         Col ''raw_set'' (Varchar 32) True None,
         Col ''raw_rarity'' (Varchar 32) True None,
         Col ''raw_edition'' (Varchar 32) True None,
         Col ''raw_language'' (Varchar 8) True None,
         Col ''raw_condition'' (Varchar 16) True None,
         Col ''observed_at'' Timestamp False None,
         Col ''promotion_rule_version'' (Varchar 16) False None,
         Col ''created_at'' Timestamp False None],
      tbl_pk = [''id''],
      tbl_uniques =
        [(Some ''uq_candidate_record_rule'', [''extracted_record_id'', ''promotion_rule_version''])],
      tbl_fks =
        [(''extracted_record_id'', ''extracted_record'', ''id''),
         (''shop_id'', ''shop'', ''id''),
         (''source_id'', ''source'', ''id'')],
      tbl_checks =
        [(''ck_candidate_amount_non_negative'', At_least ''amount_minor'' 0),
         (''ck_candidate_price_type'', In_list ''price_type'' [''buy'', ''sell''])],
      tbl_indexes =
        []\<rparr>"

definition t_identity_resolution_attempt :: table_def where
  "t_identity_resolution_attempt =
     \<lparr>tbl_name = ''identity_resolution_attempt'',
      tbl_columns =
        [Col ''id'' Big_int False (Some False),
         Col ''observation_candidate_id'' Big_int False None,
         Col ''matcher_name'' (Varchar 64) False None,
         Col ''matcher_version'' (Varchar 32) False None,
         Col ''card_identity_id'' Uuid True None,
         Col ''match_score'' (Numeric 5 4) False None,
         Col ''result'' (Varchar 16) False None,
         Col ''evidence'' (Varchar 120) False None,
         Col ''created_at'' Timestamp False None],
      tbl_pk = [''id''],
      tbl_uniques =
        [],
      tbl_fks =
        [(''observation_candidate_id'', ''observation_candidate'', ''id''),
         (''card_identity_id'', ''card_identity'', ''id'')],
      tbl_checks =
        [(''ck_attempt_result'', In_list ''result'' [''confirmed'', ''rejected'', ''ambiguous'']),
         (''ck_attempt_score_range'', Score_range ''match_score'')],
      tbl_indexes =
        [Index ''ix_attempt_candidate'' [''observation_candidate_id''] False False]\<rparr>"

definition t_price_observation :: table_def where
  "t_price_observation =
     \<lparr>tbl_name = ''price_observation'',
      tbl_columns =
        [Col ''id'' Big_int False (Some False),
         Col ''observation_candidate_id'' Big_int False None,
         Col ''card_identity_id'' Uuid False None,
         Col ''shop_id'' Small_int False None,
         Col ''source_id'' Small_int False None,
         Col ''raw_artifact_id'' Big_int False None,
         Col ''tcg'' (Varchar 32) False None,
         Col ''amount_minor'' Big_int False None,
         Col ''currency'' (Char_n 3) False None,
         Col ''price_type'' (Varchar 16) False None,
         Col ''card_condition'' (Varchar 16) False None,
         Col ''observed_at'' Timestamp False None,
         Col ''collected_at'' Timestamp False None,
         Col ''published_at'' Timestamp True None,
         Col ''valid_until'' Timestamp True None,
         Col ''idempotency_key'' (Varchar 120) False None,
         Col ''created_at'' Timestamp False None],
      tbl_pk = [''id''],
      tbl_uniques =
        [(Some ''uq_price_observation_idempotency'', [''idempotency_key''])],
      tbl_fks =
        [(''observation_candidate_id'', ''observation_candidate'', ''id''),
         (''card_identity_id'', ''card_identity'', ''id''),
         (''shop_id'', ''shop'', ''id''),
         (''source_id'', ''source'', ''id''),
         (''raw_artifact_id'', ''raw_artifact'', ''id'')],
      tbl_checks =
        [(''ck_observation_amount_non_negative'', At_least ''amount_minor'' 0),
         (''ck_observation_price_type'', In_list ''price_type'' [''buy'', ''sell''])],
      tbl_indexes =
        [Index ''ix_observation_card_observed'' [''card_identity_id'', ''observed_at''] False False,
         Index ''ix_observation_card_shop_observed'' [''card_identity_id'', ''shop_id'', ''observed_at''] False False,
         Index ''ix_observation_candidate'' [''observation_candidate_id''] False False,
         Index ''ix_observation_collected_at'' [''collected_at''] False False]\<rparr>"

definition t_price_observation_correction :: table_def where
  "t_price_observation_correction =
     \<lparr>tbl_name = ''price_observation_correction'',
      tbl_columns =
        [Col ''id'' Big_int False (Some True),
         Col ''price_observation_id'' Big_int False None,
         Col ''action'' (Varchar 24) False None,
         Col ''reason'' (Varchar 200) False None,
         Col ''actor'' (Varchar 64) False None,
         Col ''rule_version'' (Varchar 32) False None,
         Col ''replacement_id'' Big_int True None,
         Col ''created_at'' Timestamp False None],
      tbl_pk = [''id''],
      tbl_uniques =
        [],
      tbl_fks =
        [(''price_observation_id'', ''price_observation'', ''id''),
         (''replacement_id'', ''price_observation'', ''id'')],
      tbl_checks =
        [(''ck_correction_action'', In_list ''action'' [''invalidate'', ''supersede'', ''restore''])],
      tbl_indexes =
        [Index ''ix_correction_observation'' [''price_observation_id'', ''id''] False False]\<rparr>"

definition t_review_item :: table_def where
  "t_review_item =
     \<lparr>tbl_name = ''review_item'',
      tbl_columns =
        [Col ''id'' Big_int False (Some False),
         Col ''ingest_run_id'' Big_int False None,
         Col ''raw_artifact_id'' Big_int False None,
         Col ''extracted_record_id'' Big_int True None,
         Col ''identity_resolution_attempt_id'' Big_int True None,
         Col ''reason'' (Varchar 40) False None,
         Col ''state'' (Varchar 16) False None,
         Col ''priority'' Small_int False None,
         Col ''created_at'' Timestamp False None,
         Col ''decided_at'' Timestamp True None,
         Col ''decided_by'' (Varchar 64) True None,
         Col ''decision'' (Varchar 32) True None,
         Col ''lock_version'' Integer False None],
      tbl_pk = [''id''],
      tbl_uniques =
        [],
      tbl_fks =
        [(''ingest_run_id'', ''ingest_run'', ''id''),
         (''raw_artifact_id'', ''raw_artifact'', ''id''),
         (''extracted_record_id'', ''extracted_record'', ''id''),
         (''identity_resolution_attempt_id'', ''identity_resolution_attempt'', ''id'')],
      tbl_checks =
        [(''ck_review_state'', In_list ''state'' [''pending'', ''decided'', ''dismissed''])],
      tbl_indexes =
        [Index ''ix_review_state_priority'' [''state'', ''priority'', ''created_at''] False False]\<rparr>"

definition metadata :: "table_def list" where
  "metadata =
    [t_source, t_shop, t_card_identity, t_card_external_reference, t_ingest_run,
     t_raw_artifact, t_processing_run, t_extracted_record, t_observation_candidate,
     t_identity_resolution_attempt, t_price_observation, t_price_observation_correction,
     t_review_item]"

definition table_order :: "string list" where
  "table_order =
    [''source'', ''shop'', ''card_identity'', ''card_external_reference'', ''ingest_run'',
     ''raw_artifact'', ''processing_run'', ''extracted_record'', ''observation_candidate'',
     ''identity_resolution_attempt'', ''price_observation'', ''price_observation_correction'',
     ''review_item'']"

definition bulk_tables :: "string list" where
  "bulk_tables =
    [''card_identity'', ''ingest_run'', ''raw_artifact'', ''processing_run'',
     ''extracted_record'', ''observation_candidate'', ''identity_resolution_attempt'',
     ''price_observation'', ''review_item'']"

lemmas table_defs = t_source_def t_shop_def t_card_identity_def t_card_external_reference_def t_ingest_run_def t_raw_artifact_def t_processing_run_def t_extracted_record_def t_observation_candidate_def t_identity_resolution_attempt_def t_price_observation_def t_price_observation_correction_def t_review_item_def

subsection \<open>The load order\<close>

text \<open>Every foreign key points to the key column of a table that is already there.\<close>

fun references_ok :: "string list \<Rightarrow> table_def list \<Rightarrow> bool" where
  "references_ok seen [] = True"
| "references_ok seen (t # ts) =
     (list_all (\<lambda>(c, rt, rc). rt \<in> set seen \<and> rc = ''id'' \<and> c \<in> set (map col_name (tbl_columns t)))
        (tbl_fks t) \<and> references_ok (tbl_name t # seen) ts)"

lemma metadata_names: "map tbl_name metadata = table_order"
  by (simp add: metadata_def table_order_def table_defs)

lemma metadata_references: "references_ok [] metadata"
  by code_simp

end
