(* ===== verification/Migration.thy ===== *)
theory Migration
  imports Schema
begin

text \<open>
  scripts/db_poc/alembic/versions and dbpoc/migrate.py: the DDL operations of the three revisions as
  lists, applied to a catalog of tables. PostgreSQL runs an Alembic command in one transaction, so a
  failing statement leaves nothing; MariaDB commits each statement, keeps the index a foreign key
  rests on (a generated one until an explicit index covers it) and refuses to drop the last such
  index. Whether the rows of a table violate a unique index is a parameter, \<open>violates\<close>. The lemmas:
  the first revision builds the catalog of \<open>Schema.metadata\<close>, downgrades invert upgrades where the
  product allows it, and \<open>repair_partial\<close> undoes the partial third revision.
\<close>

subsection \<open>Operations\<close>

datatype ddl =
    Create_table table_def
  | Drop_table string
  | Create_index string string "string list" bool
  | Drop_index string string
  | Add_column string column
  | Drop_column string string

datatype ddl_error =
    Duplicate_table | Missing_table | Missing_reference | Still_referenced | Duplicate_index
  | Missing_index | Duplicate_column | Missing_column | Unique_violation | Needed_in_foreign_key

type_synonym catalog = "table_def list"

definition find_table :: "catalog \<Rightarrow> string \<Rightarrow> table_def option" where
  "find_table cat n = find (\<lambda>t. tbl_name t = n) cat"

definition put_table :: "table_def \<Rightarrow> catalog \<Rightarrow> catalog" where
  "put_table t cat = map (\<lambda>u. if tbl_name u = tbl_name t then t else u) cat"

text \<open>Some key or index of the table starts with the column.\<close>

definition leads :: "string \<Rightarrow> string list \<Rightarrow> bool" where
  "leads c cols \<longleftrightarrow> cols \<noteq> [] \<and> hd cols = c"

definition supported :: "table_def \<Rightarrow> string \<Rightarrow> bool" where
  "supported t c \<longleftrightarrow>
     leads c (tbl_pk t) \<or> list_ex (\<lambda>(n, cols). leads c cols) (tbl_uniques t) \<or>
     list_ex (\<lambda>i. leads c (idx_cols i)) (tbl_indexes t)"

text \<open>InnoDB generates an index for each foreign key no index supports yet.\<close>

definition generate_indexes :: "table_def \<Rightarrow> table_def" where
  "generate_indexes t =
     fold (\<lambda>(c, _) t. if supported t c then t
                     else t\<lparr>tbl_indexes := tbl_indexes t @ [Index c [c] False True]\<rparr>)
       (tbl_fks t) t"

definition prefix_of :: "string list \<Rightarrow> string list \<Rightarrow> bool" where
  "prefix_of xs ys \<longleftrightarrow> take (length xs) ys = xs"

definition has_index :: "table_def \<Rightarrow> string \<Rightarrow> bool" where
  "has_index t n \<longleftrightarrow> list_ex (\<lambda>i. idx_name i = n) (tbl_indexes t)"

definition column_names :: "table_def \<Rightarrow> string list" where
  "column_names t = map col_name (tbl_columns t)"

fun apply_ddl ::
    "engine \<Rightarrow> (string \<Rightarrow> string list \<Rightarrow> bool) \<Rightarrow> ddl \<Rightarrow> catalog \<Rightarrow> ddl_error + catalog" where
  "apply_ddl e violates (Create_table t) cat =
     (if find_table cat (tbl_name t) \<noteq> None then Inl Duplicate_table
      else if \<not> list_all (\<lambda>(c, rt, rc). rt = tbl_name t \<or> find_table cat rt \<noteq> None) (tbl_fks t)
      then Inl Missing_reference
      else Inr (cat @ [if e = Mariadb then generate_indexes t else t]))"
| "apply_ddl e violates (Drop_table n) cat =
     (if find_table cat n = None then Inl Missing_table
      else if list_ex (\<lambda>t. tbl_name t \<noteq> n \<and> list_ex (\<lambda>(c, rt, rc). rt = n) (tbl_fks t)) cat
      then Inl Still_referenced
      else Inr (filter (\<lambda>t. tbl_name t \<noteq> n) cat))"
| "apply_ddl e violates (Create_index i n cols u) cat =
     (case find_table cat n of
        None \<Rightarrow> Inl Missing_table
      | Some t \<Rightarrow>
          if has_index t i \<or> e = Postgres \<and> list_ex (\<lambda>t. has_index t i) cat then Inl Duplicate_index
          else if \<not> set cols \<subseteq> set (column_names t) then Inl Missing_column
          else if u \<and> violates n cols then Inl Unique_violation
          else Inr (put_table (t\<lparr>tbl_indexes :=
                 filter (\<lambda>j. \<not> (idx_generated j \<and> prefix_of (idx_cols j) cols)) (tbl_indexes t)
                 @ [Index i cols u False]\<rparr>) cat))"
| "apply_ddl e violates (Drop_index i n) cat =
     (case find_table cat n of
        None \<Rightarrow> Inl Missing_table
      | Some t \<Rightarrow>
          let rest = t\<lparr>tbl_indexes := filter (\<lambda>j. idx_name j \<noteq> i) (tbl_indexes t)\<rparr> in
          if \<not> has_index t i then Inl Missing_index
          else if e = Mariadb \<and> \<not> list_all (\<lambda>(c, _). supported rest c) (tbl_fks t)
          then Inl Needed_in_foreign_key
          else Inr (put_table rest cat))"
| "apply_ddl e violates (Add_column n c) cat =
     (case find_table cat n of
        None \<Rightarrow> Inl Missing_table
      | Some t \<Rightarrow>
          if col_name c \<in> set (column_names t) then Inl Duplicate_column
          else Inr (put_table (t\<lparr>tbl_columns := tbl_columns t @ [c]\<rparr>) cat))"
| "apply_ddl e violates (Drop_column n c) cat =
     (case find_table cat n of
        None \<Rightarrow> Inl Missing_table
      | Some t \<Rightarrow>
          if c \<notin> set (column_names t) then Inl Missing_column
          else Inr (put_table (t\<lparr>tbl_columns := filter (\<lambda>d. col_name d \<noteq> c) (tbl_columns t)\<rparr>) cat))"

text \<open>The statements of a migration up to the first error, and the catalog they leave.\<close>

fun apply_all ::
    "engine \<Rightarrow> (string \<Rightarrow> string list \<Rightarrow> bool) \<Rightarrow> ddl list \<Rightarrow> catalog \<Rightarrow> catalog \<times> ddl_error option" where
  "apply_all e violates [] cat = (cat, None)"
| "apply_all e violates (op # ops) cat =
     (case apply_ddl e violates op cat of
        Inl x \<Rightarrow> (cat, Some x)
      | Inr cat' \<Rightarrow> apply_all e violates ops cat')"

subsection \<open>The revisions\<close>

definition m_card_identity :: "ddl list" where
  "m_card_identity =
    [Create_table
      \<lparr>tbl_name = ''card_identity'',
       tbl_columns =
         [Col ''id'' Uuid False None,
          Col ''tcg'' (Varchar 32) False None,
          Col ''set_code'' (Varchar 32) False None,
          Col ''card_number'' (Varchar 32) False None,
          Col ''rarity'' (Varchar 32) False None,
          Col ''edition'' (Varchar 32) False None,
          Col ''language'' (Varchar 8) False None,
          Col ''normalized_name'' (Varchar 200) False None,
          Col ''created_at'' Timestamp False None],
       tbl_pk = [''id''],
       tbl_uniques =
         [(Some ''uq_card_identity_attributes'', [''tcg'', ''set_code'', ''card_number'', ''rarity'', ''edition'', ''language''])],
       tbl_fks =
         [],
       tbl_checks =
         [],
       tbl_indexes =
         []\<rparr>,
     Create_index ''ix_card_identity_normalized_name'' ''card_identity'' [''normalized_name''] False]"

definition m_shop :: "ddl list" where
  "m_shop =
    [Create_table
      \<lparr>tbl_name = ''shop'',
       tbl_columns =
         [Col ''id'' Small_int False (Some False),
          Col ''slug'' (Varchar 64) False None,
          Col ''display_name'' (Varchar 120) False None,
          Col ''normalized_name'' (Varchar 120) False None],
       tbl_pk = [''id''],
       tbl_uniques =
         [(None, [''slug''])],
       tbl_fks =
         [],
       tbl_checks =
         [],
       tbl_indexes =
         []\<rparr>]"

definition m_source :: "ddl list" where
  "m_source =
    [Create_table
      \<lparr>tbl_name = ''source'',
       tbl_columns =
         [Col ''id'' Small_int False (Some False),
          Col ''slug'' (Varchar 64) False None,
          Col ''kind'' (Varchar 32) False None,
          Col ''state'' (Varchar 32) False None,
          Col ''stopped_reason'' (Varchar 200) True None,
          Col ''last_success_run_id'' Big_int True None],
       tbl_pk = [''id''],
       tbl_uniques =
         [(None, [''slug''])],
       tbl_fks =
         [],
       tbl_checks =
         [(''ck_source_state'', In_list ''state'' [''active'', ''paused'', ''stopped''])],
       tbl_indexes =
         []\<rparr>]"

definition m_card_external_reference :: "ddl list" where
  "m_card_external_reference =
    [Create_table
      \<lparr>tbl_name = ''card_external_reference'',
       tbl_columns =
         [Col ''id'' Big_int False (Some True),
          Col ''card_identity_id'' Uuid False None,
          Col ''namespace'' (Varchar 32) False None,
          Col ''external_id'' (Varchar 64) False None,
          Col ''evidence'' (Varchar 120) False None,
          Col ''confirmed'' Bool_t False None,
          Col ''created_at'' Timestamp False None],
       tbl_pk = [''id''],
       tbl_uniques =
         [(Some ''uq_card_external_reference'', [''namespace'', ''external_id''])],
       tbl_fks =
         [(''card_identity_id'', ''card_identity'', ''id'')],
       tbl_checks =
         [],
       tbl_indexes =
         []\<rparr>]"

definition m_ingest_run :: "ddl list" where
  "m_ingest_run =
    [Create_table
      \<lparr>tbl_name = ''ingest_run'',
       tbl_columns =
         [Col ''id'' Big_int False (Some False),
          Col ''source_id'' Small_int False None,
          Col ''started_at'' Timestamp False None,
          Col ''finished_at'' Timestamp True None,
          Col ''status'' (Varchar 24) False None,
          Col ''fetched_count'' Integer False None,
          Col ''parsed_count'' Integer False None,
          Col ''stored_count'' Integer False None,
          Col ''error_class'' (Varchar 40) True None],
       tbl_pk = [''id''],
       tbl_uniques =
         [],
       tbl_fks =
         [(''source_id'', ''source'', ''id'')],
       tbl_checks =
         [(''ck_ingest_run_status'', In_list ''status'' [''succeeded'', ''partial'', ''failed'', ''empty'', ''running''])],
       tbl_indexes =
         []\<rparr>,
     Create_index ''ix_ingest_run_source_started'' ''ingest_run'' [''source_id'', ''started_at''] False]"

definition m_raw_artifact :: "ddl list" where
  "m_raw_artifact =
    [Create_table
      \<lparr>tbl_name = ''raw_artifact'',
       tbl_columns =
         [Col ''id'' Big_int False (Some False),
          Col ''ingest_run_id'' Big_int False None,
          Col ''source_id'' Small_int False None,
          Col ''source_item_id'' (Varchar 128) False None,
          Col ''url'' (Varchar 500) True None,
          Col ''mime_type'' (Varchar 64) False None,
          Col ''content_hash'' (Char_n 64) False None,
          Col ''byte_size'' Big_int False None,
          Col ''fetched_at'' Timestamp False None,
          Col ''published_at'' Timestamp True None,
          Col ''storage_ref'' (Varchar 300) False None],
       tbl_pk = [''id''],
       tbl_uniques =
         [(Some ''uq_raw_artifact_source_hash'', [''source_id'', ''content_hash''])],
       tbl_fks =
         [(''ingest_run_id'', ''ingest_run'', ''id''),
          (''source_id'', ''source'', ''id'')],
       tbl_checks =
         [(''ck_raw_artifact_byte_size'', At_least ''byte_size'' 0)],
       tbl_indexes =
         []\<rparr>,
     Create_index ''ix_raw_artifact_fetched_at'' ''raw_artifact'' [''fetched_at''] False]"

definition m_processing_run :: "ddl list" where
  "m_processing_run =
    [Create_table
      \<lparr>tbl_name = ''processing_run'',
       tbl_columns =
         [Col ''id'' Big_int False (Some False),
          Col ''raw_artifact_id'' Big_int False None,
          Col ''processor_name'' (Varchar 64) False None,
          Col ''processor_version'' (Varchar 32) False None,
          Col ''config_ref'' (Varchar 64) False None,
          Col ''attempt_no'' Small_int False None,
          Col ''started_at'' Timestamp False None,
          Col ''finished_at'' Timestamp True None,
          Col ''status'' (Varchar 24) False None,
          Col ''extracted_count'' Integer False None,
          Col ''promoted_count'' Integer False None,
          Col ''error_class'' (Varchar 40) True None],
       tbl_pk = [''id''],
       tbl_uniques =
         [(Some ''uq_processing_run_reparse'', [''raw_artifact_id'', ''processor_name'', ''processor_version'', ''config_ref'', ''attempt_no''])],
       tbl_fks =
         [(''raw_artifact_id'', ''raw_artifact'', ''id'')],
       tbl_checks =
         [],
       tbl_indexes =
         []\<rparr>]"

definition m_extracted_record :: "ddl list" where
  "m_extracted_record =
    [Create_table
      \<lparr>tbl_name = ''extracted_record'',
       tbl_columns =
         [Col ''id'' Big_int False (Some False),
          Col ''processing_run_id'' Big_int False None,
          Col ''raw_artifact_id'' Big_int False None,
          Col ''locator'' (Varchar 160) False None,
          Col ''payload'' Json False None,
          Col ''value_origin'' (Varchar 32) False None,
          Col ''confidence'' (Numeric 5 4) True None,
          Col ''warnings'' (Varchar 200) True None,
          Col ''created_at'' Timestamp False None],
       tbl_pk = [''id''],
       tbl_uniques =
         [],
       tbl_fks =
         [(''processing_run_id'', ''processing_run'', ''id''),
          (''raw_artifact_id'', ''raw_artifact'', ''id'')],
       tbl_checks =
         [],
       tbl_indexes =
         []\<rparr>,
     Create_index ''ix_extracted_record_artifact'' ''extracted_record'' [''raw_artifact_id''] False,
     Create_index ''ix_extracted_record_processing_run'' ''extracted_record'' [''processing_run_id''] False]"

definition m_observation_candidate :: "ddl list" where
  "m_observation_candidate =
    [Create_table
      \<lparr>tbl_name = ''observation_candidate'',
       tbl_columns =
         [Col ''id'' Big_int False (Some False),
          Col ''extracted_record_id'' Big_int False None,
          Col ''shop_id'' Small_int False None,
          Col ''source_id'' Small_int False None,
          Col ''tcg'' (Varchar 32) False None,
          Col ''amount_minor'' Big_int False None,
          Col ''currency'' (Char_n 3) False None,
          Col ''price_type'' (Varchar 16) False None,
          Col ''raw_card_name'' (Varchar 200) False None,
          Col ''raw_card_number'' (Varchar 32) True None,
          Col ''raw_set'' (Varchar 32) True None,
          Col ''raw_rarity'' (Varchar 32) True None,
          Col ''raw_edition'' (Varchar 32) True None,
          Col ''raw_language'' (Varchar 8) True None,
          Col ''raw_condition'' (Varchar 16) True None,
          Col ''observed_at'' Timestamp False None,
          Col ''promotion_rule_version'' (Varchar 16) False None,
          Col ''created_at'' Timestamp False None],
       tbl_pk = [''id''],
       tbl_uniques =
         [(Some ''uq_candidate_record_rule'', [''extracted_record_id'', ''promotion_rule_version''])],
       tbl_fks =
         [(''extracted_record_id'', ''extracted_record'', ''id''),
          (''shop_id'', ''shop'', ''id''),
          (''source_id'', ''source'', ''id'')],
       tbl_checks =
         [(''ck_candidate_price_type'', In_list ''price_type'' [''buy'', ''sell'']),
          (''ck_candidate_amount_non_negative'', At_least ''amount_minor'' 0)],
       tbl_indexes =
         []\<rparr>]"

definition m_identity_resolution_attempt :: "ddl list" where
  "m_identity_resolution_attempt =
    [Create_table
      \<lparr>tbl_name = ''identity_resolution_attempt'',
       tbl_columns =
         [Col ''id'' Big_int False (Some False),
          Col ''observation_candidate_id'' Big_int False None,
          Col ''matcher_name'' (Varchar 64) False None,
          Col ''matcher_version'' (Varchar 32) False None,
          Col ''card_identity_id'' Uuid True None,
          Col ''match_score'' (Numeric 5 4) False None,
          Col ''result'' (Varchar 16) False None,
          Col ''evidence'' (Varchar 120) False None,
          Col ''created_at'' Timestamp False None],
       tbl_pk = [''id''],
       tbl_uniques =
         [],
       tbl_fks =
         [(''card_identity_id'', ''card_identity'', ''id''),
          (''observation_candidate_id'', ''observation_candidate'', ''id'')],
       tbl_checks =
         [(''ck_attempt_result'', In_list ''result'' [''confirmed'', ''rejected'', ''ambiguous'']),
          (''ck_attempt_score_range'', Score_range ''match_score'')],
       tbl_indexes =
         []\<rparr>,
     Create_index ''ix_attempt_candidate'' ''identity_resolution_attempt'' [''observation_candidate_id''] False]"

definition m_price_observation :: "ddl list" where
  "m_price_observation =
    [Create_table
      \<lparr>tbl_name = ''price_observation'',
       tbl_columns =
         [Col ''id'' Big_int False (Some False),
          Col ''observation_candidate_id'' Big_int False None,
          Col ''card_identity_id'' Uuid False None,
          Col ''shop_id'' Small_int False None,
          Col ''source_id'' Small_int False None,
          Col ''raw_artifact_id'' Big_int False None,
          Col ''tcg'' (Varchar 32) False None,
          Col ''amount_minor'' Big_int False None,
          Col ''currency'' (Char_n 3) False None,
          Col ''price_type'' (Varchar 16) False None,
          Col ''card_condition'' (Varchar 16) False None,
          Col ''observed_at'' Timestamp False None,
          Col ''collected_at'' Timestamp False None,
          Col ''published_at'' Timestamp True None,
          Col ''valid_until'' Timestamp True None,
          Col ''idempotency_key'' (Varchar 120) False None,
          Col ''created_at'' Timestamp False None],
       tbl_pk = [''id''],
       tbl_uniques =
         [(Some ''uq_price_observation_idempotency'', [''idempotency_key''])],
       tbl_fks =
         [(''card_identity_id'', ''card_identity'', ''id''),
          (''observation_candidate_id'', ''observation_candidate'', ''id''),
          (''raw_artifact_id'', ''raw_artifact'', ''id''),
          (''shop_id'', ''shop'', ''id''),
          (''source_id'', ''source'', ''id'')],
       tbl_checks =
         [(''ck_observation_price_type'', In_list ''price_type'' [''buy'', ''sell'']),
          (''ck_observation_amount_non_negative'', At_least ''amount_minor'' 0)],
       tbl_indexes =
         []\<rparr>,
     Create_index ''ix_observation_candidate'' ''price_observation'' [''observation_candidate_id''] False,
     Create_index ''ix_observation_card_observed'' ''price_observation'' [''card_identity_id'', ''observed_at''] False,
     Create_index ''ix_observation_card_shop_observed'' ''price_observation'' [''card_identity_id'', ''shop_id'', ''observed_at''] False,
     Create_index ''ix_observation_collected_at'' ''price_observation'' [''collected_at''] False]"

definition m_price_observation_correction :: "ddl list" where
  "m_price_observation_correction =
    [Create_table
      \<lparr>tbl_name = ''price_observation_correction'',
       tbl_columns =
         [Col ''id'' Big_int False (Some True),
          Col ''price_observation_id'' Big_int False None,
          Col ''action'' (Varchar 24) False None,
          Col ''reason'' (Varchar 200) False None,
          Col ''actor'' (Varchar 64) False None,
          Col ''rule_version'' (Varchar 32) False None,
          Col ''replacement_id'' Big_int True None,
          Col ''created_at'' Timestamp False None],
       tbl_pk = [''id''],
       tbl_uniques =
         [],
       tbl_fks =
         [(''price_observation_id'', ''price_observation'', ''id''),
          (''replacement_id'', ''price_observation'', ''id'')],
       tbl_checks =
         [(''ck_correction_action'', In_list ''action'' [''invalidate'', ''supersede'', ''restore''])],
       tbl_indexes =
         []\<rparr>,
     Create_index ''ix_correction_observation'' ''price_observation_correction'' [''price_observation_id'', ''id''] False]"

definition m_review_item :: "ddl list" where
  "m_review_item =
    [Create_table
      \<lparr>tbl_name = ''review_item'',
       tbl_columns =
         [Col ''id'' Big_int False (Some False),
          Col ''ingest_run_id'' Big_int False None,
          Col ''raw_artifact_id'' Big_int False None,
          Col ''extracted_record_id'' Big_int True None,
          Col ''identity_resolution_attempt_id'' Big_int True None,
          Col ''reason'' (Varchar 40) False None,
          Col ''state'' (Varchar 16) False None,
          Col ''priority'' Small_int False None,
          Col ''created_at'' Timestamp False None,
          Col ''decided_at'' Timestamp True None,
          Col ''decided_by'' (Varchar 64) True None,
          Col ''decision'' (Varchar 32) True None,
          Col ''lock_version'' Integer False None],
       tbl_pk = [''id''],
       tbl_uniques =
         [],
       tbl_fks =
         [(''extracted_record_id'', ''extracted_record'', ''id''),
          (''identity_resolution_attempt_id'', ''identity_resolution_attempt'', ''id''),
          (''ingest_run_id'', ''ingest_run'', ''id''),
          (''raw_artifact_id'', ''raw_artifact'', ''id'')],
       tbl_checks =
         [(''ck_review_state'', In_list ''state'' [''pending'', ''decided'', ''dismissed''])],
       tbl_indexes =
         []\<rparr>,
     Create_index ''ix_review_state_priority'' ''review_item'' [''state'', ''priority'', ''created_at''] False]"

definition upgrade_0001 :: "ddl list" where
  "upgrade_0001 =
    m_card_identity @ m_shop @ m_source @ m_card_external_reference @ m_ingest_run @
     m_raw_artifact @ m_processing_run @ m_extracted_record @ m_observation_candidate @
     m_identity_resolution_attempt @ m_price_observation @ m_price_observation_correction @
     m_review_item"

definition downgrade_0001 :: "ddl list" where
  "downgrade_0001 =
    [Drop_index ''ix_review_state_priority'' ''review_item'',
     Drop_table ''review_item'',
     Drop_index ''ix_correction_observation'' ''price_observation_correction'',
     Drop_table ''price_observation_correction'',
     Drop_index ''ix_observation_collected_at'' ''price_observation'',
     Drop_index ''ix_observation_card_shop_observed'' ''price_observation'',
     Drop_index ''ix_observation_card_observed'' ''price_observation'',
     Drop_index ''ix_observation_candidate'' ''price_observation'',
     Drop_table ''price_observation'',
     Drop_index ''ix_attempt_candidate'' ''identity_resolution_attempt'',
     Drop_table ''identity_resolution_attempt'',
     Drop_table ''observation_candidate'',
     Drop_index ''ix_extracted_record_processing_run'' ''extracted_record'',
     Drop_index ''ix_extracted_record_artifact'' ''extracted_record'',
     Drop_table ''extracted_record'',
     Drop_table ''processing_run'',
     Drop_index ''ix_raw_artifact_fetched_at'' ''raw_artifact'',
     Drop_table ''raw_artifact'',
     Drop_index ''ix_ingest_run_source_started'' ''ingest_run'',
     Drop_table ''ingest_run'',
     Drop_table ''card_external_reference'',
     Drop_table ''source'',
     Drop_table ''shop'',
     Drop_index ''ix_card_identity_normalized_name'' ''card_identity'',
     Drop_table ''card_identity'']"

definition upgrade_0002 :: "ddl list" where
  "upgrade_0002 =
    [Add_column ''price_observation'' (Col ''freshness_note'' (Varchar 120) True None),
     Create_index ''ix_observation_shop_observed'' ''price_observation'' [''shop_id'', ''observed_at''] False,
     Create_table
      \<lparr>tbl_name = ''price_alert_rule'',
       tbl_columns =
         [Col ''id'' Big_int False (Some True),
          Col ''card_identity_id'' Uuid False None,
          Col ''threshold_minor'' Big_int False None,
          Col ''created_at'' Timestamp False None],
       tbl_pk = [''id''],
       tbl_uniques =
         [],
       tbl_fks =
         [(''card_identity_id'', ''card_identity'', ''id'')],
       tbl_checks =
         [],
       tbl_indexes =
         []\<rparr>]"

definition downgrade_0002 :: "ddl list" where
  "downgrade_0002 =
    [Drop_table ''price_alert_rule'',
     Drop_index ''ix_observation_shop_observed'' ''price_observation'',
     Drop_column ''price_observation'' ''freshness_note'']"

definition upgrade_0003 :: "ddl list" where
  "upgrade_0003 =
    [Add_column ''review_item'' (Col ''triage_note'' (Varchar 64) True None),
     Create_table
      \<lparr>tbl_name = ''migration_probe'',
       tbl_columns =
         [Col ''id'' Integer False (Some True),
          Col ''label'' (Varchar 32) False None],
       tbl_pk = [''id''],
       tbl_uniques =
         [],
       tbl_fks =
         [],
       tbl_checks =
         [],
       tbl_indexes =
         []\<rparr>,
     Create_index ''ix_observation_card_unique'' ''price_observation'' [''card_identity_id''] True]"

definition downgrade_0003 :: "ddl list" where
  "downgrade_0003 =
    [Drop_index ''ix_observation_card_unique'' ''price_observation'',
     Drop_table ''migration_probe'',
     Drop_column ''review_item'' ''triage_note'']"

text \<open>The revisions from the base upwards.\<close>

definition revisions :: "(string \<times> ddl list \<times> ddl list) list" where
  "revisions =
    [(''0001'', upgrade_0001, downgrade_0001),
     (''0002'', upgrade_0002, downgrade_0002),
     (''0003'', upgrade_0003, downgrade_0003)]"

subsection \<open>Alembic commands\<close>

text \<open>The catalog and the content of \<open>alembic_version\<close>.\<close>

record database =
  catalog :: catalog
  revision :: "string option"

text \<open>
  The steps of a command: the operations of each revision it passes, with the version it records
  after them.
\<close>

definition upgrade_steps :: "string option \<Rightarrow> string \<Rightarrow> (ddl list \<times> string option) list" where
  "upgrade_steps cur target =
     (let pending = (case cur of None \<Rightarrow> revisions
                     | Some r \<Rightarrow> tl (dropWhile (\<lambda>(n, _). n \<noteq> r) revisions)) in
      if target \<in> set (map fst pending)
      then map (\<lambda>(n, up, _). (up, Some n))
             (takeWhile (\<lambda>(n, _). n \<noteq> target) pending @
              filter (\<lambda>(n, _). n = target) pending)
      else [])"

definition downgrade_steps :: "string option \<Rightarrow> string \<Rightarrow> (ddl list \<times> string option) list" where
  "downgrade_steps cur target =
     (case cur of
        None \<Rightarrow> []
      | Some r \<Rightarrow>
          let applied = rev (takeWhile (\<lambda>(n, _). n \<noteq> r) revisions @ filter (\<lambda>(n, _). n = r) revisions);
              undone = takeWhile (\<lambda>(n, _). n \<noteq> target) applied in
          map2 (\<lambda>(n, _, down) below. (down, below)) undone
            (map Some (tl (map fst applied)) @ [None]))"

text \<open>Without a transaction around DDL, each statement and each version update is permanent.\<close>

fun run_steps ::
    "engine \<Rightarrow> (string \<Rightarrow> string list \<Rightarrow> bool) \<Rightarrow> (ddl list \<times> string option) list \<Rightarrow> database \<Rightarrow>
     database \<times> ddl_error option" where
  "run_steps e violates [] db = (db, None)"
| "run_steps e violates ((ops, r) # steps) db =
     (case apply_all e violates ops (catalog db) of
        (cat, Some x) \<Rightarrow> (db\<lparr>catalog := cat\<rparr>, Some x)
      | (cat, None) \<Rightarrow> run_steps e violates steps \<lparr>catalog = cat, revision = r\<rparr>)"

definition run_command ::
    "engine \<Rightarrow> (string \<Rightarrow> string list \<Rightarrow> bool) \<Rightarrow> (ddl list \<times> string option) list \<Rightarrow> database \<Rightarrow>
     database \<times> ddl_error option" where
  "run_command e violates steps db =
     (case run_steps e violates steps db of
        (db', None) \<Rightarrow> (db', None)
      | (db', Some x) \<Rightarrow> (if e = Postgres then db else db', Some x))"

definition upgrade ::
    "engine \<Rightarrow> (string \<Rightarrow> string list \<Rightarrow> bool) \<Rightarrow> string \<Rightarrow> database \<Rightarrow> database \<times> ddl_error option" where
  "upgrade e violates target db = run_command e violates (upgrade_steps (revision db) target) db"

definition downgrade ::
    "engine \<Rightarrow> (string \<Rightarrow> string list \<Rightarrow> bool) \<Rightarrow> string \<Rightarrow> database \<Rightarrow> database \<times> ddl_error option" where
  "downgrade e violates target db = run_command e violates (downgrade_steps (revision db) target) db"

subsection \<open>The failing migration and its repair\<close>

definition object_state :: "catalog \<Rightarrow> bool \<times> bool \<times> bool" where
  "object_state cat =
     ((case find_table cat ''review_item'' of None \<Rightarrow> False
       | Some t \<Rightarrow> ''triage_note'' \<in> set (column_names t)),
      find_table cat ''migration_probe'' \<noteq> None,
      (case find_table cat ''price_observation'' of None \<Rightarrow> False
       | Some t \<Rightarrow> has_index t ''ix_observation_card_unique''))"

definition repair_statements :: "bool \<times> bool \<times> bool \<Rightarrow> ddl list" where
  "repair_statements state =
     (case state of (note, probe, idx) \<Rightarrow>
        (if idx then [Drop_index ''ix_observation_card_unique'' ''price_observation''] else []) @
        (if probe then [Drop_table ''migration_probe''] else []) @
        (if note then [Drop_column ''review_item'' ''triage_note''] else []))"

text \<open>The connection is in autocommit mode, so each statement is permanent on both products.\<close>

definition repair_partial ::
    "engine \<Rightarrow> (string \<Rightarrow> string list \<Rightarrow> bool) \<Rightarrow> database \<Rightarrow> database \<times> ddl_error option" where
  "repair_partial e violates db =
     (case apply_all e violates (repair_statements (object_state (catalog db))) (catalog db) of
        (cat, x) \<Rightarrow> (db\<lparr>catalog := cat\<rparr>, x))"

record failing_report =
  upgrade_error :: "ddl_error option"
  revision_before :: "string option"
  revision_after :: "string option"
  objects_after_failure :: "bool \<times> bool \<times> bool"
  partially_applied :: bool
  repair_error :: "ddl_error option"
  objects_after_repair :: "bool \<times> bool \<times> bool"

definition failing_step ::
    "engine \<Rightarrow> (string \<Rightarrow> string list \<Rightarrow> bool) \<Rightarrow> database \<Rightarrow> failing_report \<times> database" where
  "failing_step e violates db =
     (let (db1, x) = upgrade e violates ''0003'' db;
          state = object_state (catalog db1);
          partial = (case state of (a, b, c) \<Rightarrow> a \<or> b \<or> c);
          (db2, y) = (if partial then repair_partial e violates db1 else (db1, None)) in
      (\<lparr>upgrade_error = x, revision_before = revision db, revision_after = revision db1,
        objects_after_failure = state, partially_applied = partial, repair_error = y,
        objects_after_repair = object_state (catalog db2)\<rparr>, db2))"

record downgrade_report =
  downgrade_error :: "ddl_error option"
  revision_after_downgrade :: "string option"
  freshness_note_after_downgrade :: bool
  reupgrade_error :: "ddl_error option"
  revision_after_reupgrade :: "string option"

definition downgrade_step ::
    "engine \<Rightarrow> (string \<Rightarrow> string list \<Rightarrow> bool) \<Rightarrow> database \<Rightarrow> downgrade_report \<times> database" where
  "downgrade_step e violates db =
     (let (db1, x) = downgrade e violates ''0001'' db;
          columns = (case find_table (catalog db1) ''price_observation'' of None \<Rightarrow> []
                     | Some t \<Rightarrow> column_names t);
          (db2, y) = upgrade e violates ''0002'' db1 in
      (\<lparr>downgrade_error = x, revision_after_downgrade = revision db1,
        freshness_note_after_downgrade = (''freshness_note'' \<in> set columns), reupgrade_error = y,
        revision_after_reupgrade = revision db2\<rparr>, db2))"

definition empty_database :: database where
  "empty_database = \<lparr>catalog = [], revision = None\<rparr>"

text \<open>Two tables with the same columns and key and the same sets of constraints and indexes.\<close>

definition same_table :: "table_def \<Rightarrow> table_def \<Rightarrow> bool" where
  "same_table t u \<longleftrightarrow>
     tbl_name t = tbl_name u \<and> tbl_columns t = tbl_columns u \<and> tbl_pk t = tbl_pk u \<and>
     set (tbl_uniques t) = set (tbl_uniques u) \<and> set (tbl_fks t) = set (tbl_fks u) \<and>
     set (tbl_checks t) = set (tbl_checks u) \<and> set (tbl_indexes t) = set (tbl_indexes u)"

definition same_catalog :: "catalog \<Rightarrow> catalog \<Rightarrow> bool" where
  "same_catalog a b \<longleftrightarrow>
     length a = length b \<and>
     list_all (\<lambda>t. case find_table b (tbl_name t) of None \<Rightarrow> False | Some u \<Rightarrow> same_table t u) a"

subsection \<open>Well-formed catalogs\<close>

definition references :: "table_def \<Rightarrow> string list" where
  "references t = map (\<lambda>f. fst (snd f)) (tbl_fks t)"

definition catalog_ok :: "catalog \<Rightarrow> bool" where
  "catalog_ok cat \<longleftrightarrow>
     distinct (map tbl_name cat) \<and> (\<forall>t \<in> set cat. set (references t) \<subseteq> tbl_name ` set cat)"

lemma find_table_Some: "find_table cat n = Some t \<Longrightarrow> t \<in> set cat \<and> tbl_name t = n"
  by (auto simp: find_table_def find_Some_iff)

lemma find_table_None: "find_table cat n = None \<longleftrightarrow> n \<notin> tbl_name ` set cat"
  by (auto simp: find_table_def find_None_iff)

lemma find_table_names: "find_table cat n \<noteq> None \<longleftrightarrow> n \<in> tbl_name ` set cat"
  by (simp add: find_table_None)

lemma put_table_names: "map tbl_name (put_table t cat) = map tbl_name cat"
  by (simp add: put_table_def)

lemma put_table_set: "u \<in> set (put_table t cat) \<Longrightarrow> u = t \<or> u \<in> set cat"
  by (auto simp: put_table_def)

lemma catalog_ok_put:
  assumes "catalog_ok cat" "find_table cat (tbl_name t) = Some u" "tbl_fks t = tbl_fks u"
  shows "catalog_ok (put_table t cat)"
proof -
  have names: "tbl_name ` set (put_table t cat) = tbl_name ` set cat"
    using put_table_names [of t cat] by (metis set_map)
  have "references t = references u" using assms(3) by (simp add: references_def)
  then have "set (references v) \<subseteq> tbl_name ` set cat" if "v \<in> set (put_table t cat)" for v
    using put_table_set [OF that] assms(1) find_table_Some [OF assms(2)]
    unfolding catalog_ok_def by metis
  then show ?thesis
    using assms(1) by (simp add: catalog_ok_def names put_table_names)
qed

lemma generate_indexes_keeps:
  "tbl_name (generate_indexes t) = tbl_name t \<and> tbl_fks (generate_indexes t) = tbl_fks t"
proof -
  have "tbl_name (fold (\<lambda>(c, _) t. if supported t c then t
      else t\<lparr>tbl_indexes := tbl_indexes t @ [Index c [c] False True]\<rparr>) fks t) = tbl_name t \<and>
    tbl_fks (fold (\<lambda>(c, _) t. if supported t c then t
      else t\<lparr>tbl_indexes := tbl_indexes t @ [Index c [c] False True]\<rparr>) fks t) = tbl_fks t"
    for fks :: "(string \<times> string \<times> string) list" and t
    by (induction fks arbitrary: t) auto
  then show ?thesis by (simp add: generate_indexes_def)
qed

lemma apply_ddl_ok:
  assumes "catalog_ok cat" "apply_ddl e v op cat = Inr cat'"
  shows "catalog_ok cat'"
proof (cases op)
  case (Create_table t)
  have new: "find_table cat (tbl_name t) = None"
    and refs: "\<forall>r \<in> set (references t). r = tbl_name t \<or> r \<in> tbl_name ` set cat"
    and cat': "cat' = cat @ [if e = Mariadb then generate_indexes t else t]"
    using assms(2) Create_table
    by (auto simp: list_all_iff references_def split_beta find_table_None split: if_splits)
  let ?t = "if e = Mariadb then generate_indexes t else t"
  have t: "tbl_name ?t = tbl_name t" "references ?t = references t"
    using generate_indexes_keeps [of t] by (simp_all add: references_def)
  have "set (references u) \<subseteq> tbl_name ` set cat'" if u: "u \<in> set cat'" for u
  proof (cases "u \<in> set cat")
    case True
    then have "set (references u) \<subseteq> tbl_name ` set cat" using assms(1) by (simp add: catalog_ok_def)
    then show ?thesis by (auto simp: cat')
  next
    case False
    then have "references u = references t" using u t by (simp add: cat' split: if_splits)
    then show ?thesis using refs t(1) by (auto simp: cat')
  qed
  moreover have "distinct (map tbl_name cat')"
    using assms(1) new t(1) by (simp add: cat' catalog_ok_def find_table_None)
  ultimately show ?thesis by (simp add: catalog_ok_def)
next
  case (Drop_table n)
  have free: "\<forall>t \<in> set cat. tbl_name t \<noteq> n \<longrightarrow> n \<notin> set (references t)"
    and cat': "cat' = filter (\<lambda>t. tbl_name t \<noteq> n) cat"
    using assms(2) Drop_table by (auto simp: list_ex_iff references_def split_beta split: if_splits)
  have "distinct (map tbl_name cat')"
    using assms(1) by (simp add: cat' catalog_ok_def distinct_map_filter)
  moreover have "set (references t) \<subseteq> tbl_name ` set cat'" if "t \<in> set cat'" for t
    using that free assms(1) by (fastforce simp: cat' catalog_ok_def)
  ultimately show ?thesis by (simp add: catalog_ok_def)
next
  case (Create_index i n cols u)
  then obtain t where "find_table cat n = Some t"
    "cat' = put_table (t\<lparr>tbl_indexes :=
      filter (\<lambda>j. \<not> (idx_generated j \<and> prefix_of (idx_cols j) cols)) (tbl_indexes t) @ [Index i cols u False]\<rparr>) cat"
    using assms(2) by (auto split: option.splits if_splits)
  then show ?thesis using assms(1) find_table_Some by (auto intro!: catalog_ok_put)
next
  case (Drop_index i n)
  then obtain t where "find_table cat n = Some t"
    "cat' = put_table (t\<lparr>tbl_indexes := filter (\<lambda>j. idx_name j \<noteq> i) (tbl_indexes t)\<rparr>) cat"
    using assms(2) by (auto simp: Let_def split: option.splits if_splits)
  then show ?thesis using assms(1) find_table_Some by (auto intro!: catalog_ok_put)
next
  case (Add_column n c)
  then obtain t where "find_table cat n = Some t"
    "cat' = put_table (t\<lparr>tbl_columns := tbl_columns t @ [c]\<rparr>) cat"
    using assms(2) by (auto split: option.splits if_splits)
  then show ?thesis using assms(1) find_table_Some by (auto intro!: catalog_ok_put)
next
  case (Drop_column n c)
  then obtain t where "find_table cat n = Some t"
    "cat' = put_table (t\<lparr>tbl_columns := filter (\<lambda>d. col_name d \<noteq> c) (tbl_columns t)\<rparr>) cat"
    using assms(2) by (auto split: option.splits if_splits)
  then show ?thesis using assms(1) find_table_Some by (auto intro!: catalog_ok_put)
qed

lemma apply_all_ok: "catalog_ok cat \<Longrightarrow> apply_all e v ops cat = (cat', x) \<Longrightarrow> catalog_ok cat'"
proof (induction ops arbitrary: cat)
  case (Cons op ops)
  then show ?case
    by (cases "apply_ddl e v op cat") (auto intro: apply_ddl_ok)
qed simp

lemma run_steps_ok:
  "catalog_ok (catalog db) \<Longrightarrow> run_steps e v steps db = (db', x) \<Longrightarrow> catalog_ok (catalog db')"
proof (induction steps arbitrary: db)
  case (Cons s steps)
  obtain ops r where s: "s = (ops, r)" by force
  obtain cat y where a: "apply_all e v ops (catalog db) = (cat, y)" by force
  have "catalog_ok cat" by (rule apply_all_ok [OF Cons.prems(1) a])
  with Cons.IH [of "\<lparr>catalog = cat, revision = r\<rparr>"] Cons.prems s a show ?case by (cases y) auto
qed simp

lemma run_command_ok:
  "catalog_ok (catalog db) \<Longrightarrow> run_command e v steps db = (db', x) \<Longrightarrow> catalog_ok (catalog db')"
  using run_steps_ok [of db e v steps]
  by (auto simp: run_command_def split: prod.splits option.splits if_splits)

lemma run_command_postgres: "run_command Postgres v steps db = (db', Some x) \<Longrightarrow> db' = db"
  by (auto simp: run_command_def split: prod.splits option.splits)

subsection \<open>The failing revision on any database\<close>

lemma find_put_same:
  "find_table cat (tbl_name t) \<noteq> None \<Longrightarrow> find_table (put_table t cat) (tbl_name t) = Some t"
  by (induction cat) (auto simp: find_table_def put_table_def)

lemma find_put_other: "n \<noteq> tbl_name t \<Longrightarrow> find_table (put_table t cat) n = find_table cat n"
  by (induction cat) (auto simp: find_table_def put_table_def)

lemma find_append: "find_table (cat @ [t]) n =
    (case find_table cat n of Some u \<Rightarrow> Some u | None \<Rightarrow> if tbl_name t = n then Some t else None)"
  by (induction cat) (auto simp: find_table_def)

lemma put_put: "tbl_name t = tbl_name u \<Longrightarrow> put_table t (put_table u cat) = put_table t cat"
  by (simp add: put_table_def)

lemma put_found:
  "distinct (map tbl_name cat) \<Longrightarrow> find_table cat n = Some t \<Longrightarrow> put_table t cat = cat"
proof (induction cat)
  case (Cons u cat)
  show ?case
  proof (cases "tbl_name u = n")
    case True
    then have "t = u" using Cons.prems by (simp add: find_table_def)
    moreover have "tbl_name u \<notin> tbl_name ` set cat" using Cons.prems by simp
    ultimately show ?thesis by (auto simp: put_table_def intro!: map_idI) (metis image_eqI)
  next
    case False
    moreover have "tbl_name t = n" using find_table_Some Cons.prems(2) by blast
    ultimately show ?thesis using Cons by (simp add: put_table_def find_table_def)
  qed
qed (simp add: put_table_def)

text \<open>A database at revision 0002 in which no object of revision 0003 exists yet.\<close>

definition ready_for_0003 :: "database \<Rightarrow> table_def \<Rightarrow> table_def \<Rightarrow> bool" where
  "ready_for_0003 db review obs \<longleftrightarrow>
     revision db = Some ''0002'' \<and> catalog_ok (catalog db) \<and>
     find_table (catalog db) ''review_item'' = Some review \<and> ''triage_note'' \<notin> set (column_names review) \<and>
     find_table (catalog db) ''price_observation'' = Some obs \<and>
     ''card_identity_id'' \<in> set (column_names obs) \<and>
     (\<forall>t \<in> set (catalog db). \<not> has_index t ''ix_observation_card_unique'') \<and>
     find_table (catalog db) ''migration_probe'' = None"


lemma upgrade_steps_0003: "upgrade_steps (Some ''0002'') ''0003'' = [(upgrade_0003, Some ''0003'')]"
  by (simp add: upgrade_steps_def revisions_def)

definition note_column :: column where
  "note_column = Col ''triage_note'' (Varchar 64) True None"

definition probe_table :: table_def where
  "probe_table = \<lparr>tbl_name = ''migration_probe'',
     tbl_columns = [Col ''id'' Integer False (Some True), Col ''label'' (Varchar 32) False None],
     tbl_pk = [''id''], tbl_uniques = [], tbl_fks = [], tbl_checks = [], tbl_indexes = []\<rparr>"

lemma upgrade_0003_parts:
  "upgrade_0003 = [Add_column ''review_item'' note_column, Create_table probe_table,
     Create_index ''ix_observation_card_unique'' ''price_observation'' [''card_identity_id''] True]"
  by (simp add: upgrade_0003_def note_column_def probe_table_def)

lemma probe_table_simps: "tbl_name probe_table = ''migration_probe''" "tbl_fks probe_table = []"
    "generate_indexes probe_table = probe_table" "has_index probe_table n = False"
  by (simp_all add: probe_table_def generate_indexes_def has_index_def)

text \<open>The third statement fails, with the first two applied.\<close>

lemma upgrade_0003_fails:
  assumes "ready_for_0003 db review obs" "v ''price_observation'' [''card_identity_id'']"
  shows "apply_all e v upgrade_0003 (catalog db) =
    (put_table (review\<lparr>tbl_columns := tbl_columns review @ [note_column]\<rparr>) (catalog db) @ [probe_table],
     Some Unique_violation)"
proof -
  let ?cat = "catalog db"
  let ?rev = "review\<lparr>tbl_columns := tbl_columns review @ [note_column]\<rparr>"
  let ?cat1 = "put_table ?rev ?cat"
  have rn: "tbl_name review = ''review_item''"
    using assms(1) find_table_Some by (auto simp: ready_for_0003_def)
  have s1: "apply_ddl e v (Add_column ''review_item'' note_column) ?cat = Inr ?cat1"
    using assms(1) by (simp add: ready_for_0003_def note_column_def)
  have "find_table ?cat1 ''migration_probe'' = None"
    using assms(1) rn by (simp add: ready_for_0003_def find_put_other)
  then have s2: "apply_ddl e v (Create_table probe_table) ?cat1 = Inr (?cat1 @ [probe_table])"
    by (simp add: probe_table_simps)
  have f: "find_table (?cat1 @ [probe_table]) ''price_observation'' = Some obs"
    using assms(1) rn by (simp add: ready_for_0003_def find_put_other find_append)
  have "\<not> has_index t ''ix_observation_card_unique''" if "t \<in> set (?cat1 @ [probe_table])" for t
    using that put_table_set [of t ?rev ?cat] assms(1) find_table_Some [of ?cat "''review_item''" review]
    by (auto simp: ready_for_0003_def probe_table_simps) (simp add: has_index_def)
  then have "\<not> list_ex (\<lambda>t. has_index t ''ix_observation_card_unique'') (?cat1 @ [probe_table])"
    "\<not> has_index obs ''ix_observation_card_unique''"
    using find_table_Some [OF f] by (auto simp: list_ex_iff)
  then have s3: "apply_ddl e v (Create_index ''ix_observation_card_unique'' ''price_observation''
      [''card_identity_id''] True) (?cat1 @ [probe_table]) = Inl Unique_violation"
    using f assms by (simp add: ready_for_0003_def)
  show ?thesis
    unfolding upgrade_0003_parts by (simp only: apply_all.simps s1 s2 s3 sum.case)
qed

lemma object_state_partial:
  assumes "ready_for_0003 db review obs"
  shows "object_state (put_table (review\<lparr>tbl_columns := tbl_columns review @ [note_column]\<rparr>) (catalog db)
      @ [probe_table]) = (True, True, False)"
    "object_state (catalog db) = (False, False, False)"
proof -
  let ?rev = "review\<lparr>tbl_columns := tbl_columns review @ [note_column]\<rparr>"
  have rn: "tbl_name review = ''review_item''"
    using assms find_table_Some by (auto simp: ready_for_0003_def)
  have r: "find_table (put_table ?rev (catalog db)) ''review_item'' = Some ?rev"
    using find_put_same [of "catalog db" ?rev] assms rn by (simp add: ready_for_0003_def)
  have obs: "obs \<in> set (catalog db)"
    using assms find_table_Some by (auto simp: ready_for_0003_def)
  show "object_state (put_table ?rev (catalog db) @ [probe_table]) = (True, True, False)"
    using assms r rn obs
    by (auto simp: object_state_def find_append find_put_other ready_for_0003_def probe_table_simps
        column_names_def note_column_def)
  show "object_state (catalog db) = (False, False, False)"
    using assms obs by (auto simp: object_state_def ready_for_0003_def)
qed

text \<open>Dropping the probe table and the column gives the catalog back.\<close>

lemma repair_restores:
  assumes "ready_for_0003 db review obs"
  shows "apply_all e v (repair_statements (True, True, False))
      (put_table (review\<lparr>tbl_columns := tbl_columns review @ [note_column]\<rparr>) (catalog db) @ [probe_table]) =
    (catalog db, None)"
proof -
  let ?cat = "catalog db"
  let ?rev = "review\<lparr>tbl_columns := tbl_columns review @ [note_column]\<rparr>"
  let ?cat1 = "put_table ?rev ?cat"
  have ok: "catalog_ok ?cat" and find: "find_table ?cat ''review_item'' = Some review"
    and no_note: "''triage_note'' \<notin> set (column_names review)"
    and no_probe: "''migration_probe'' \<notin> tbl_name ` set ?cat"
    using assms by (auto simp: ready_for_0003_def find_table_None)
  have rn: "tbl_name review = ''review_item''" using find_table_Some [OF find] by simp
  have names: "tbl_name ` set ?cat1 = tbl_name ` set ?cat"
    using put_table_names [of ?rev ?cat] by (metis set_map)
  have "references ?rev = references review" by (simp add: references_def)
  then have refs: "set (references t) \<subseteq> tbl_name ` set ?cat" if "t \<in> set ?cat1" for t
    using put_table_set [OF that] ok find_table_Some [OF find]
    unfolding catalog_ok_def by metis
  have unref: "\<not> list_ex (\<lambda>t. tbl_name t \<noteq> ''migration_probe'' \<and>
      list_ex (\<lambda>(c, rt, rc). rt = ''migration_probe'') (tbl_fks t)) (?cat1 @ [probe_table])"
  proof (rule notI, unfold list_ex_iff, elim bexE conjE)
    fix t f
    assume t: "t \<in> set (?cat1 @ [probe_table])" "tbl_name t \<noteq> ''migration_probe''"
      and f: "f \<in> set (tbl_fks t)" "case f of (c, rt, rc) \<Rightarrow> rt = ''migration_probe''"
    then have "t \<in> set ?cat1" by (auto simp: probe_table_simps)
    moreover have "''migration_probe'' \<in> set (references t)"
      using f by (force simp: references_def split: prod.splits)
    ultimately show False using refs no_probe by blast
  qed
  have "filter (\<lambda>t. tbl_name t \<noteq> ''migration_probe'') ?cat1 = ?cat1"
    using names no_probe by (intro filter_True) (metis image_eqI)
  then have s1: "apply_ddl e v (Drop_table ''migration_probe'') (?cat1 @ [probe_table]) = Inr ?cat1"
    using unref find_append [of ?cat1 probe_table "''migration_probe''"]
    by (simp add: probe_table_simps split: option.splits)
  have f: "find_table ?cat1 ''review_item'' = Some ?rev"
    using find_put_same [of ?cat ?rev] find rn by simp
  have "filter (\<lambda>d. col_name d \<noteq> ''triage_note'') (tbl_columns review) = tbl_columns review"
    using no_note by (intro filter_True) (auto simp: column_names_def image_iff)
  then have "?rev\<lparr>tbl_columns := filter (\<lambda>d. col_name d \<noteq> ''triage_note'') (tbl_columns ?rev)\<rparr> = review"
    by (simp add: note_column_def)
  moreover have "put_table review ?cat1 = ?cat"
    using ok find by (simp add: put_put put_found catalog_ok_def)
  ultimately have s2: "apply_ddl e v (Drop_column ''review_item'' ''triage_note'') ?cat1 = Inr ?cat"
    using f by (simp add: column_names_def note_column_def)
  show ?thesis
    unfolding repair_statements_def prod.case if_True if_False append_Nil append_Cons
      apply_all.simps s1 s2 sum.case ..
qed

lemma failing_step_postgres:
  assumes "ready_for_0003 db review obs" "v ''price_observation'' [''card_identity_id'']"
  shows "failing_step Postgres v db =
    (\<lparr>upgrade_error = Some Unique_violation, revision_before = Some ''0002'', revision_after = Some ''0002'',
      objects_after_failure = (False, False, False), partially_applied = False, repair_error = None,
      objects_after_repair = (False, False, False)\<rparr>, db)"
proof -
  have "upgrade Postgres v ''0003'' db = (db, Some Unique_violation)"
    using assms(1) upgrade_0003_fails [of db review obs v, OF assms]
    by (simp add: upgrade_def ready_for_0003_def upgrade_steps_0003 run_command_def)
  then show ?thesis
    using assms(1) object_state_partial(2) [OF assms(1)]
    by (simp add: failing_step_def ready_for_0003_def Let_def)
qed

lemma failing_step_mariadb:
  assumes "ready_for_0003 db review obs" "v ''price_observation'' [''card_identity_id'']"
  shows "failing_step Mariadb v db =
    (\<lparr>upgrade_error = Some Unique_violation, revision_before = Some ''0002'', revision_after = Some ''0002'',
      objects_after_failure = (True, True, False), partially_applied = True, repair_error = None,
      objects_after_repair = (False, False, False)\<rparr>, db)"
proof -
  let ?part = "put_table (review\<lparr>tbl_columns := tbl_columns review @ [note_column]\<rparr>) (catalog db) @ [probe_table]"
  have rev: "revision db = Some ''0002''" using assms(1) by (simp add: ready_for_0003_def)
  have up: "upgrade Mariadb v ''0003'' db = (db\<lparr>catalog := ?part\<rparr>, Some Unique_violation)"
    using upgrade_0003_fails [of db review obs v, OF assms]
    by (simp add: upgrade_def rev upgrade_steps_0003 run_command_def)
  have "repair_partial Mariadb v (db\<lparr>catalog := ?part\<rparr>) = (db, None)"
    using repair_restores [OF assms(1)] object_state_partial(1) [OF assms(1)]
    by (simp add: repair_partial_def)
  then show ?thesis
    using up object_state_partial [OF assms(1)] by (simp add: failing_step_def rev Let_def)
qed

subsection \<open>Properties\<close>

definition never :: "string \<Rightarrow> string list \<Rightarrow> bool" where
  "never = (\<lambda>_ _. False)"

text \<open>Explicit indexes only: what the models declare, without those InnoDB generates.\<close>

definition explicit_indexes :: "table_def \<Rightarrow> table_def" where
  "explicit_indexes t = t\<lparr>tbl_indexes := filter (\<lambda>i. \<not> idx_generated i) (tbl_indexes t)\<rparr>"

definition at_revision :: "engine \<Rightarrow> string \<Rightarrow> database" where
  "at_revision e r = fst (upgrade e never r empty_database)"

definition builds_models :: "engine \<Rightarrow> bool" where
  "builds_models e \<longleftrightarrow>
     (case upgrade e never ''0001'' empty_database of
        (db, x) \<Rightarrow> x = None \<and> revision db = Some ''0001'' \<and>
          same_catalog (map explicit_indexes (catalog db)) metadata \<and>
          same_catalog metadata (map explicit_indexes (catalog db)))"

text \<open>
  C5: the first migration builds exactly the schema the models declare. On both products it applies to
  an empty database without an error and records revision 0001, and its tables have the columns, keys,
  constraints and indexes of the metadata (on MariaDB after leaving out the generated indexes); the
  load order of the harness lists every table after those its foreign keys refer to.
\<close>

theorem initial_migration_matches_models:
  "builds_models Postgres \<and> builds_models Mariadb \<and>
   map tbl_name metadata = table_order \<and> references_ok [] metadata \<and> catalog_ok metadata"
proof -
  have "builds_models Postgres" "builds_models Mariadb" "catalog_ok metadata" by code_simp+
  then show ?thesis using metadata_names metadata_references by blast
qed



lemma downgrade_step_mariadb:
  "fst (downgrade_step Mariadb never (at_revision Mariadb ''0002'')) =
     \<lparr>downgrade_error = Some Needed_in_foreign_key, revision_after_downgrade = Some ''0002'',
      freshness_note_after_downgrade = True, reupgrade_error = None,
      revision_after_reupgrade = Some ''0002''\<rparr>"
  "find_table (catalog (snd (downgrade_step Mariadb never (at_revision Mariadb ''0002'')))) ''price_alert_rule'' = None"
  "find_table (catalog (at_revision Mariadb ''0002'')) ''price_alert_rule'' \<noteq> None"
  by code_simp+

lemma downgrade_step_postgres:
  "fst (downgrade_step Postgres never (at_revision Postgres ''0002'')) =
     \<lparr>downgrade_error = None, revision_after_downgrade = Some ''0001'',
      freshness_note_after_downgrade = False, reupgrade_error = None,
      revision_after_reupgrade = Some ''0002''\<rparr>"
  "same_catalog (catalog (snd (downgrade_step Postgres never (at_revision Postgres ''0002''))))
     (catalog (at_revision Postgres ''0002''))"
  by code_simp+

lemma ready_at_0002: "ready_for_0003 (at_revision Mariadb ''0002'')
    (the (find_table (catalog (at_revision Mariadb ''0002'')) ''review_item''))
    (the (find_table (catalog (at_revision Mariadb ''0002'')) ''price_observation''))"
  by code_simp

text \<open>
  C6: the failing third revision, on any database at revision 0002 with rows that break the unique
  index. PostgreSQL reports the violation, is not partially applied and needs no repair; MariaDB keeps
  the new column and the probe table, and the repair removes both, so that on both products the step
  ends with the database it began with and the version it recorded before.
\<close>

theorem failing_migration_repaired:
  assumes "ready_for_0003 db review obs" "v ''price_observation'' [''card_identity_id'']"
  shows "failing_step e v db =
    (\<lparr>upgrade_error = Some Unique_violation, revision_before = Some ''0002'', revision_after = Some ''0002'',
      objects_after_failure = (e = Mariadb, e = Mariadb, False), partially_applied = (e = Mariadb),
      repair_error = None, objects_after_repair = (False, False, False)\<rparr>, db)"
  using failing_step_postgres [of db review obs v, OF assms]
    failing_step_mariadb [of db review obs v, OF assms]
  by (cases e) simp_all

theorem failing_migration_repaired_witness:
  "snd (failing_step Mariadb (\<lambda>t c. t = ''price_observation'') (at_revision Mariadb ''0002'')) =
     at_revision Mariadb ''0002''"
proof -
  have "(\<lambda>t (c :: string list). t = ''price_observation'') ''price_observation'' [''card_identity_id'']" by simp
  from failing_migration_repaired [OF ready_at_0002, of "\<lambda>t c. t = ''price_observation''" Mariadb] this
  show ?thesis by simp
qed


end
