(* ===== verification/Relational.thy ===== *)
theory Relational
  imports Schema
begin

text \<open>
  What SQL promises about rows and constraints, as far as the harness relies on it: a row is a dict
  from columns to values, a store a dict from tables to rows in insertion order, and an INSERT is
  refused with the constraint it breaks. A NULL satisfies a CHECK, a UNIQUE and a FOREIGN KEY. The
  declarative \<open>store_ok\<close> says that every table meets every constraint it declares; the lemmas
  give that an accepted INSERT keeps it and changes nothing else.
\<close>

subsection \<open>Values and rows\<close>

text \<open>A time is in microseconds from the start of year 1, a score in ten-thousandths.\<close>

datatype dbval = VNull | VInt int | VText pystr | VTime int | VScore int

type_synonym row = "(string, dbval) pydict"
type_synonym store = "(string, row list) pydict"

definition cell :: "row \<Rightarrow> string \<Rightarrow> dbval" where
  "cell r c = (case map_of r c of None \<Rightarrow> VNull | Some v \<Rightarrow> v)"

definition cells :: "row \<Rightarrow> string list \<Rightarrow> dbval list" where
  "cells r cs = map (cell r) cs"

definition rows_of :: "store \<Rightarrow> string \<Rightarrow> row list" where
  "rows_of db t = dict_get db t []"

definition add_row :: "string \<Rightarrow> row \<Rightarrow> store \<Rightarrow> store" where
  "add_row t r db = AList.update t (rows_of db t @ [r]) db"

declare cell_def [py_eval] cells_def [py_eval] rows_of_def [py_eval] add_row_def [py_eval]

lemma rows_of_add: "rows_of (add_row t r db) u = (if u = t then rows_of db t @ [r] else rows_of db u)"
  by (simp add: rows_of_def add_row_def dict_get_def update_conv')

subsection \<open>Constraints\<close>

text \<open>
  The values a column type takes: integers of 16, 32 and 64 bits, texts counted in characters, a
  UUID as its 36 characters, a score with four decimals. The text of a JSON column is not parsed.
\<close>

fun type_ok :: "sqltype \<Rightarrow> dbval \<Rightarrow> bool" where
  "type_ok ty VNull = True"
| "type_ok ty (VInt n) =
     (case ty of
        Small_int \<Rightarrow> - (2 ^ 15) \<le> n \<and> n < 2 ^ 15
      | Integer \<Rightarrow> - (2 ^ 31) \<le> n \<and> n < 2 ^ 31
      | Big_int \<Rightarrow> - (2 ^ 63) \<le> n \<and> n < 2 ^ 63
      | _ \<Rightarrow> False)"
| "type_ok ty (VText s) =
     (case ty of
        Varchar w \<Rightarrow> length s \<le> w
      | Char_n w \<Rightarrow> length s \<le> w
      | Uuid \<Rightarrow> length s = 36
      | Json \<Rightarrow> True
      | _ \<Rightarrow> False)"
| "type_ok ty (VTime t) = (ty = Timestamp)"
| "type_ok ty (VScore k) =
     (case ty of Numeric p d \<Rightarrow> d = 4 \<and> - (10 ^ p) < k \<and> k < 10 ^ p | _ \<Rightarrow> False)"

definition types_ok :: "table_def \<Rightarrow> row \<Rightarrow> bool" where
  "types_ok t r \<longleftrightarrow> list_all (\<lambda>c. type_ok (col_type c) (cell r (col_name c))) (tbl_columns t)"

fun check_ok :: "row \<Rightarrow> check \<Rightarrow> bool" where
  "check_ok r (In_list c vs) =
     (cell r c = VNull \<or> list_ex (\<lambda>v. cell r c = VText (lit v)) vs)"
| "check_ok r (At_least c n) =
     (case cell r c of VInt k \<Rightarrow> n \<le> k | VNull \<Rightarrow> True | _ \<Rightarrow> False)"
| "check_ok r (Score_range c) =
     (case cell r c of VScore k \<Rightarrow> 0 \<le> k \<and> k \<le> 10000 | VNull \<Rightarrow> True | _ \<Rightarrow> False)"

definition not_null_ok :: "table_def \<Rightarrow> row \<Rightarrow> bool" where
  "not_null_ok t r \<longleftrightarrow> list_all (\<lambda>c. col_nullable c \<or> cell r (col_name c) \<noteq> VNull) (tbl_columns t)"

definition checks_ok :: "table_def \<Rightarrow> row \<Rightarrow> bool" where
  "checks_ok t r \<longleftrightarrow> list_all (\<lambda>(n, c). check_ok r c) (tbl_checks t)"

text \<open>The keys a table declares: its primary key and its unique constraints.\<close>

definition table_keys :: "table_def \<Rightarrow> string list list" where
  "table_keys t = tbl_pk t # map snd (tbl_uniques t)"

definition clash :: "string list \<Rightarrow> row \<Rightarrow> row \<Rightarrow> bool" where
  "clash cs r s \<longleftrightarrow> VNull \<notin> set (cells r cs) \<and> cells r cs = cells s cs"

definition fk_ok :: "store \<Rightarrow> table_def \<Rightarrow> row \<Rightarrow> bool" where
  "fk_ok db t r \<longleftrightarrow>
     list_all (\<lambda>(c, rt, rc). cell r c = VNull \<or> list_ex (\<lambda>s. cell s rc = cell r c) (rows_of db rt))
       (tbl_fks t)"

datatype sql_error =
    Data_error | Not_null_violation | Check_violation | Duplicate_key "string list" | Foreign_key_violation

text \<open>The first key on which the row clashes with one that is there.\<close>

definition clashing_key :: "store \<Rightarrow> table_def \<Rightarrow> row \<Rightarrow> string list option" where
  "clashing_key db t r =
     find (\<lambda>cs. list_ex (clash cs r) (rows_of db (tbl_name t))) (table_keys t)"

definition insert_row :: "table_def \<Rightarrow> row \<Rightarrow> store \<Rightarrow> sql_error + store" where
  "insert_row t r db =
     (if \<not> types_ok t r then Inl Data_error
      else if \<not> not_null_ok t r then Inl Not_null_violation
      else if \<not> checks_ok t r then Inl Check_violation
      else case clashing_key db t r of
             Some cs \<Rightarrow> Inl (Duplicate_key cs)
           | None \<Rightarrow>
               if \<not> fk_ok db t r then Inl Foreign_key_violation
               else Inr (add_row (tbl_name t) r db))"

text \<open>A statement over several rows: each in turn, all or nothing.\<close>

fun insert_rows :: "table_def \<Rightarrow> row list \<Rightarrow> store \<Rightarrow> sql_error + store" where
  "insert_rows t [] db = Inr db"
| "insert_rows t (r # rs) db = and_then (insert_row t r db) (insert_rows t rs)"

declare types_ok_def [py_eval] not_null_ok_def [py_eval] checks_ok_def [py_eval] table_keys_def [py_eval]
  clash_def [py_eval] fk_ok_def [py_eval] clashing_key_def [py_eval] insert_row_def [py_eval]

subsection \<open>Stores that meet their constraints\<close>

definition key_ok :: "row list \<Rightarrow> string list \<Rightarrow> bool" where
  "key_ok rs cs \<longleftrightarrow> sorted_wrt (\<lambda>r s. \<not> clash cs r s) rs"

definition table_ok :: "store \<Rightarrow> table_def \<Rightarrow> bool" where
  "table_ok db t \<longleftrightarrow>
     (\<forall>r \<in> set (rows_of db (tbl_name t)). types_ok t r \<and> not_null_ok t r \<and> checks_ok t r \<and> fk_ok db t r) \<and>
     (\<forall>cs \<in> set (table_keys t). key_ok (rows_of db (tbl_name t)) cs)"

definition store_ok :: "table_def list \<Rightarrow> store \<Rightarrow> bool" where
  "store_ok ts db \<longleftrightarrow> (\<forall>t \<in> set ts. table_ok db t)"

lemma clash_sym: "clash cs r s \<longleftrightarrow> clash cs s r"
  by (auto simp: clash_def)

lemma insert_row_Inr:
  "insert_row t r db = Inr db' \<longleftrightarrow>
     types_ok t r \<and> not_null_ok t r \<and> checks_ok t r \<and> fk_ok db t r \<and> db' = add_row (tbl_name t) r db \<and>
     (\<forall>cs \<in> set (table_keys t). \<forall>s \<in> set (rows_of db (tbl_name t)). \<not> clash cs r s)"
proof -
  have "clashing_key db t r = None \<longleftrightarrow>
      (\<forall>cs \<in> set (table_keys t). \<forall>s \<in> set (rows_of db (tbl_name t)). \<not> clash cs r s)"
    by (auto simp: clashing_key_def find_None_iff list_ex_iff)
  then show ?thesis
    by (cases "clashing_key db t r") (auto simp: insert_row_def)
qed

lemma fk_ok_more:
  "fk_ok db t r \<Longrightarrow> (\<And>u. set (rows_of db u) \<subseteq> set (rows_of db' u)) \<Longrightarrow> fk_ok db' t r"
  unfolding fk_ok_def list_all_iff list_ex_iff by fastforce

lemma add_row_more: "set (rows_of db u) \<subseteq> set (rows_of (add_row t r db) u)"
  by (auto simp: rows_of_add)

lemma insert_row_ok:
  assumes "distinct (map tbl_name ts)" "t \<in> set ts" "store_ok ts db" "insert_row t r db = Inr db'"
  shows "store_ok ts db'"
  unfolding store_ok_def
proof
  fix u assume u: "u \<in> set ts"
  have ins: "types_ok t r" "not_null_ok t r" "checks_ok t r" "fk_ok db t r" "db' = add_row (tbl_name t) r db"
      "\<forall>cs \<in> set (table_keys t). \<forall>s \<in> set (rows_of db (tbl_name t)). \<not> clash cs r s"
    using assms(4) by (simp_all add: insert_row_Inr)
  have old: "table_ok db u" using assms(3) u by (simp add: store_ok_def)
  have more: "fk_ok db v s \<Longrightarrow> fk_ok db' v s" for v s
    unfolding ins(5) by (rule fk_ok_more [OF _ add_row_more])
  show "table_ok db' u"
  proof (cases "tbl_name u = tbl_name t")
    case True
    then have "u = t" using assms(1,2) u by (metis distinct_map inj_onD)
    with old more ins show ?thesis
      by (auto simp: table_ok_def rows_of_add key_ok_def sorted_wrt_append clash_sym [of _ r])
  next
    case False
    with old more ins(5) show ?thesis by (auto simp: table_ok_def rows_of_add)
  qed
qed

lemma insert_rows_ok:
  "distinct (map tbl_name ts) \<Longrightarrow> t \<in> set ts \<Longrightarrow> store_ok ts db \<Longrightarrow> insert_rows t rs db = Inr db' \<Longrightarrow>
     store_ok ts db'"
  by (induction rs arbitrary: db) (auto intro: insert_row_ok)

lemma insert_rows_rows:
  "insert_rows t rs db = Inr db' \<Longrightarrow>
     rows_of db' u = (if u = tbl_name t then rows_of db u @ rs else rows_of db u)"
  by (induction rs arbitrary: db) (auto simp: insert_row_Inr rows_of_add)

subsection \<open>Bulk copies and emptied tables\<close>

text \<open>
  A bulk copy with the foreign keys deferred (\<open>session_replication_role = replica\<close>,
  \<open>foreign_key_checks = 0\<close>) still checks types, NOT NULL, CHECK and the keys.
\<close>

definition copy_row :: "table_def \<Rightarrow> row \<Rightarrow> store \<Rightarrow> sql_error + store" where
  "copy_row t r db =
     (if \<not> types_ok t r then Inl Data_error
      else if \<not> not_null_ok t r then Inl Not_null_violation
      else if \<not> checks_ok t r then Inl Check_violation
      else case clashing_key db t r of
             Some cs \<Rightarrow> Inl (Duplicate_key cs)
           | None \<Rightarrow> Inr (add_row (tbl_name t) r db))"

fun copy_rows :: "table_def \<Rightarrow> row list \<Rightarrow> store \<Rightarrow> sql_error + store" where
  "copy_rows t [] db = Inr db"
| "copy_rows t (r # rs) db = and_then (copy_row t r db) (copy_rows t rs)"

text \<open>\<open>DELETE FROM t\<close>: refused while a row of another table refers to one of its rows.\<close>

definition refers_to :: "store \<Rightarrow> string \<Rightarrow> table_def \<Rightarrow> bool" where
  "refers_to db rt u \<longleftrightarrow>
     list_ex (\<lambda>(c, t, rc). t = rt \<and>
       list_ex (\<lambda>r. cell r c \<noteq> VNull \<and> list_ex (\<lambda>s. cell s rc = cell r c) (rows_of db rt))
         (rows_of db (tbl_name u))) (tbl_fks u)"

definition delete_all :: "table_def list \<Rightarrow> string \<Rightarrow> store \<Rightarrow> sql_error + store" where
  "delete_all ts t db =
     (if list_ex (refers_to db t) ts then Inl Foreign_key_violation else Inr (AList.update t [] db))"

declare copy_row_def [py_eval] refers_to_def [py_eval] delete_all_def [py_eval]

definition row_ok :: "table_def \<Rightarrow> row \<Rightarrow> bool" where
  "row_ok t r \<longleftrightarrow> types_ok t r \<and> not_null_ok t r \<and> checks_ok t r"

lemma clashing_key_None:
  "clashing_key db t r = None \<longleftrightarrow>
     (\<forall>cs \<in> set (table_keys t). \<forall>s \<in> set (rows_of db (tbl_name t)). \<not> clash cs r s)"
  by (auto simp: clashing_key_def find_None_iff list_ex_iff)

lemma copy_row_Inr:
  "copy_row t r db = Inr db' \<longleftrightarrow>
     row_ok t r \<and> db' = add_row (tbl_name t) r db \<and>
     (\<forall>cs \<in> set (table_keys t). \<forall>s \<in> set (rows_of db (tbl_name t)). \<not> clash cs r s)"
  unfolding clashing_key_None [symmetric]
  by (cases "clashing_key db t r") (auto simp: copy_row_def row_ok_def)

lemma update_update: "AList.update k v (AList.update k w d) = AList.update k v d"
  by (induction d) auto

definition add_rows :: "string \<Rightarrow> row list \<Rightarrow> store \<Rightarrow> store" where
  "add_rows t rs db = (if rs = [] then db else AList.update t (rows_of db t @ rs) db)"

lemma rows_of_add_rows:
  "rows_of (add_rows t rs db) u = (if u = t then rows_of db t @ rs else rows_of db u)"
  by (simp add: rows_of_def add_rows_def dict_get_def update_conv')

lemma add_rows_Cons: "add_rows t rs (add_row t r db) = add_rows t (r # rs) db"
  by (simp add: add_rows_def add_row_def rows_of_def dict_get_def update_conv' update_update)

text \<open>A copy into a table whose keys hold is accepted when its rows and the keys over all rows hold.\<close>

lemma copy_rows_Inr:
  assumes "\<forall>r \<in> set rs. row_ok t r"
    "\<forall>cs \<in> set (table_keys t). key_ok (rows_of db (tbl_name t) @ rs) cs"
  shows "copy_rows t rs db = Inr (add_rows (tbl_name t) rs db)"
  using assms
proof (induction rs arbitrary: db)
  case Nil
  then show ?case by (simp add: add_rows_def)
next
  case (Cons r rs)
  have "copy_row t r db = Inr (add_row (tbl_name t) r db)"
    using Cons.prems unfolding copy_row_Inr
    by (auto simp: key_ok_def sorted_wrt_append clash_sym [of _ r])
  moreover have "copy_rows t rs (add_row (tbl_name t) r db) =
      Inr (add_rows (tbl_name t) rs (add_row (tbl_name t) r db))"
    by (rule Cons.IH) (use Cons.prems in \<open>auto simp: rows_of_add\<close>)
  ultimately show ?case by (simp add: add_rows_Cons)
qed

lemma key_ok_distinct:
  assumes "distinct (map (\<lambda>r. cells r ks) rs)" "set ks \<subseteq> set cs"
  shows "key_ok rs cs"
proof -
  have "\<not> clash cs r s" if "cells r ks \<noteq> cells s ks" for r s
    using that assms(2) by (auto simp: clash_def cells_def)
  then show ?thesis
    using assms(1) by (auto simp: key_ok_def distinct_conv_nth sorted_wrt_iff_nth_less)
qed

lemma fk_okI:
  assumes "\<And>c rt rc. (c, rt, rc) \<in> set (tbl_fks t) \<Longrightarrow>
      cell r c = VNull \<or> cell r c \<in> set (map (\<lambda>s. cell s rc) (rows_of db rt))"
  shows "fk_ok db t r"
  using assms by (fastforce simp: fk_ok_def list_all_iff list_ex_iff)

text \<open>Rows given as their values in the order of the columns.\<close>

definition with_columns :: "string list \<Rightarrow> dbval list \<Rightarrow> row" where
  "with_columns cs vs = zip cs vs"

lemma cell_with_columns [simp]:
  "cell (with_columns (c # cs) (v # vs)) k = (if k = c then v else cell (with_columns cs vs) k)"
  by (simp add: cell_def with_columns_def)

lemma with_columns_list_all:
  assumes "distinct (map col_name cs)" "length vs = length cs"
  shows "list_all (\<lambda>c. P c (cell (with_columns (map col_name cs) vs) (col_name c))) cs \<longleftrightarrow>
     list_all2 P cs vs"
  using assms
proof (induction cs arbitrary: vs)
  case (Cons c cs)
  then obtain v vs' where vs: "vs = v # vs'" "length vs' = length cs" by (cases vs) auto
  have "list_all (\<lambda>d. P d (cell (with_columns (map col_name (c # cs)) vs) (col_name d))) cs \<longleftrightarrow>
      list_all (\<lambda>d. P d (cell (with_columns (map col_name cs) vs') (col_name d))) cs"
    using Cons.prems by (intro list.pred_cong refl) (auto simp: vs image_iff)
  with Cons vs show ?case by (simp add: vs)
qed simp

lemma row_ok_with_columns:
  assumes "distinct (map col_name (tbl_columns t))" "length vs = length (tbl_columns t)"
  shows "row_ok t (with_columns (map col_name (tbl_columns t)) vs) \<longleftrightarrow>
     list_all2 (\<lambda>c v. type_ok (col_type c) v \<and> (col_nullable c \<or> v \<noteq> VNull)) (tbl_columns t) vs \<and>
     checks_ok t (with_columns (map col_name (tbl_columns t)) vs)"
proof -
  have "types_ok t (with_columns (map col_name (tbl_columns t)) vs) \<and>
      not_null_ok t (with_columns (map col_name (tbl_columns t)) vs) \<longleftrightarrow>
      list_all2 (\<lambda>c v. type_ok (col_type c) v) (tbl_columns t) vs \<and>
      list_all2 (\<lambda>c v. col_nullable c \<or> v \<noteq> VNull) (tbl_columns t) vs"
    unfolding types_ok_def not_null_ok_def
    by (simp add: with_columns_list_all [OF assms, of "\<lambda>c v. type_ok (col_type c) v"]
      with_columns_list_all [OF assms, of "\<lambda>c v. col_nullable c \<or> v \<noteq> VNull"])
  then show ?thesis
    by (auto simp: row_ok_def list_all2_conv_all_nth)
qed

end
