(* ===== verification/Config.thy ===== *)
theory Config
  imports Relational
begin

text \<open>
  scripts/db_poc/dbpoc/config.py: the ports, the connection strings, the load profiles and the
  dimension values the harness shares. A profile is a record of its fields; its properties are
  functions of it.
\<close>

subsection \<open>Ports and connection strings\<close>

text \<open>\<open>int(os.environ.get(name, default))\<close>: None is the ValueError of a bad value.\<close>

definition env_port :: "pystr option \<Rightarrow> string \<Rightarrow> int option" where
  "env_port var other = py_int (case var of None \<Rightarrow> lit other | Some s \<Rightarrow> s)"

record ports =
  pg_port :: int
  pg_restore_port :: int
  maria_port :: int
  maria_restore_port :: int

definition ports_from ::
    "pystr option \<Rightarrow> pystr option \<Rightarrow> pystr option \<Rightarrow> pystr option \<Rightarrow> ports option" where
  "ports_from pg pgr ma mar =
     (case (env_port pg ''55432'', env_port pgr ''55433'', env_port ma ''53306'',
            env_port mar ''53307'') of
        (Some a, Some b, Some c, Some d) \<Rightarrow>
          Some \<lparr>pg_port = a, pg_restore_port = b, maria_port = c, maria_restore_port = d\<rparr>
      | _ \<Rightarrow> None)"

definition db_name :: pystr where
  "db_name = lit ''card_pulse_poc''"

definition role_password :: pystr where
  "role_password = lit ''poc_local_only''"

definition login_roles :: "string list" where
  "login_roles = [''cp_api'', ''cp_worker'', ''cp_migration'', ''cp_backup'', ''cp_admin'']"

text \<open>\<open>port or default\<close>: a missing port and port 0 both take the default.\<close>

definition port_or :: "int option \<Rightarrow> int \<Rightarrow> int" where
  "port_or port other = (case port of None \<Rightarrow> other | Some n \<Rightarrow> if n = 0 then other else n)"

definition pg_dsn :: "ports \<Rightarrow> pystr \<Rightarrow> int option \<Rightarrow> pystr \<Rightarrow> pystr" where
  "pg_dsn ps role port dbname =
     lit ''postgresql://'' @ role @ lit '':'' @ role_password @ lit ''@127.0.0.1:'' @
     py_str (port_or port (pg_port ps)) @ lit ''/'' @ dbname"

definition maria_dsn :: "ports \<Rightarrow> pystr \<Rightarrow> int option \<Rightarrow> pystr \<Rightarrow> pystr" where
  "maria_dsn ps role port dbname =
     lit ''mariadb+pymysql://'' @ role @ lit '':'' @ role_password @ lit ''@127.0.0.1:'' @
     py_str (port_or port (maria_port ps)) @ lit ''/'' @ dbname"

definition dsn :: "ports \<Rightarrow> engine \<Rightarrow> pystr \<Rightarrow> int option \<Rightarrow> pystr \<Rightarrow> pystr" where
  "dsn ps eng role port dbname =
     (case eng of Postgres \<Rightarrow> pg_dsn ps role port dbname | Mariadb \<Rightarrow> maria_dsn ps role port dbname)"

subsection \<open>Load profiles\<close>

record profile =
  pf_scale :: int
  pf_days :: int
  pf_history_cards :: int
  pf_history_days :: int
  pf_history_shops :: int

definition new_profile :: "int \<Rightarrow> profile" where
  "new_profile s =
     \<lparr>pf_scale = s, pf_days = 28, pf_history_cards = 200, pf_history_days = 365,
      pf_history_shops = 3\<rparr>"

definition pf_raw_artifact :: "profile \<Rightarrow> int" where
  "pf_raw_artifact p = 500 * pf_days p * pf_scale p"

definition pf_extracted_record :: "profile \<Rightarrow> int" where
  "pf_extracted_record p = 30000 * pf_days p * pf_scale p"

definition pf_observation_candidate :: "profile \<Rightarrow> int" where
  "pf_observation_candidate p = 30000 * pf_days p * pf_scale p"

definition pf_identity_resolution_attempt :: "profile \<Rightarrow> int" where
  "pf_identity_resolution_attempt p = 60000 * pf_days p * pf_scale p"

definition pf_price_observation :: "profile \<Rightarrow> int" where
  "pf_price_observation p = 30000 * pf_days p * pf_scale p"

definition pf_review_item :: "profile \<Rightarrow> int" where
  "pf_review_item p = 3000 * pf_days p * pf_scale p"

definition pf_history_rows :: "profile \<Rightarrow> int" where
  "pf_history_rows p = pf_history_cards p * pf_history_days p * pf_history_shops p"

definition pf_cards :: "profile \<Rightarrow> int" where
  "pf_cards p = 12000 * pf_scale p"

definition pf_total_rows :: "profile \<Rightarrow> int" where
  "pf_total_rows p =
     pf_raw_artifact p + pf_extracted_record p + pf_observation_candidate p +
     pf_identity_resolution_attempt p + pf_price_observation p + pf_review_item p +
     pf_history_rows p"

text \<open>PROFILES: a scale without a profile is a KeyError, None.\<close>

definition profiles :: "int \<Rightarrow> profile option" where
  "profiles s = (if s = 1 then Some (new_profile 1) else if s = 10 then Some (new_profile 10) else None)"

lemma profiles_Some: "profiles s = Some p \<longleftrightarrow> (s = 1 \<or> s = 10) \<and> p = new_profile s"
  by (auto simp: profiles_def)

lemmas profile_simps =
  new_profile_def pf_raw_artifact_def pf_extracted_record_def pf_observation_candidate_def
  pf_identity_resolution_attempt_def pf_price_observation_def pf_review_item_def
  pf_history_rows_def pf_cards_def

subsection \<open>Dimension values\<close>

text \<open>SOURCES: id, slug, kind, state. SHOPS: id, slug, display name.\<close>

definition sources :: "(int \<times> string \<times> string \<times> string) list" where
  "sources =
     [(1, ''hareruya2'', ''web'', ''active''),
      (2, ''yuyutei'', ''web'', ''active''),
      (3, ''fullcomp-ikebukuro'', ''web'', ''active''),
      (4, ''manual-import'', ''manual'', ''active'')]"

definition shops :: "(int \<times> string \<times> pystr) list" where
  "shops =
     [(1, ''hareruya2'', [26228, 12428, 12427, 23627, 50]),
      (2, ''yuyutei'', [36938, 12293, 20141]),
      (3, ''fullcomp-ikebukuro'', [12501, 12523, 12467, 12531, 12503, 27744, 34955, 24215]),
      (4, ''manual'', [25163, 21205, 21462, 36796])]"

definition conditions :: "string list" where
  "conditions = [''A'', ''B'', ''C'', ''PSA10'']"

definition currency :: pystr where
  "currency = lit ''JPY''"

definition tcg :: pystr where
  "tcg = lit ''pokemon''"

text \<open>\<open>config.SOURCES[source_id - 1][1]\<close>\<close>

definition source_slug :: "int \<Rightarrow> pystr" where
  "source_slug source_id = lit (fst (snd (sources ! nat (source_id - 1))))"

end
