(* ===== verification/Py_Uuid.thy ===== *)
theory Py_Uuid
  imports Py_Prelude "HOL-Library.Word"
begin

text \<open>
  \<open>uuid.uuid5\<close> of the standard library: SHA-1 on 32-bit words, the first sixteen bytes of the
  digest with the variant and version bits set, and the text form of the result. A text has the 36
  characters a UUID column takes.
\<close>

unbundle bit_operations_syntax

subsection \<open>SHA-1\<close>

text \<open>Bytes are integers from 0 to 255; words are read most significant byte first.\<close>

definition be_word :: "int list \<Rightarrow> 32 word" where
  "be_word bs = foldl (\<lambda>w b. push_bit 8 w OR of_int b) 0 bs"

definition be_bytes :: "nat \<Rightarrow> int \<Rightarrow> int list" where
  "be_bytes n v = map (\<lambda>i. v div 256 ^ (n - 1 - i) mod 256) [0..<n]"

fun words_of :: "int list \<Rightarrow> 32 word list" where
  "words_of (a # b # c # d # bs) = be_word [a, b, c, d] # words_of bs"
| "words_of bs = []"

definition sha1_pad :: "int list \<Rightarrow> int list" where
  "sha1_pad m =
     m @ [128] @ replicate ((119 - length m mod 64) mod 64) 0 @ be_bytes 8 (8 * int (length m))"

text \<open>The 80 words of a block's schedule, newest first.\<close>

fun schedule :: "nat \<Rightarrow> 32 word list \<Rightarrow> 32 word list" where
  "schedule 0 ws = ws"
| "schedule (Suc n) ws =
     schedule n (word_rotl 1 (ws ! 2 XOR ws ! 7 XOR ws ! 13 XOR ws ! 15) # ws)"

type_synonym sha1_state = "32 word \<times> 32 word \<times> 32 word \<times> 32 word \<times> 32 word"

definition sha1_round :: "nat \<Rightarrow> 32 word \<Rightarrow> sha1_state \<Rightarrow> sha1_state" where
  "sha1_round i w s =
     (case s of (a, b, c, d, e) \<Rightarrow>
        let (f, k) =
          (if i < 20 then ((b AND c) OR (NOT b AND d), 0x5A827999)
           else if i < 40 then (b XOR c XOR d, 0x6ED9EBA1)
           else if i < 60 then ((b AND c) OR (b AND d) OR (c AND d), 0x8F1BBCDC)
           else (b XOR c XOR d, 0xCA62C1D6))
        in (word_rotl 5 a + f + e + k + w, a, word_rotl 30 b, c, d))"

fun sha1_rounds :: "nat \<Rightarrow> 32 word list \<Rightarrow> sha1_state \<Rightarrow> sha1_state" where
  "sha1_rounds i [] s = s"
| "sha1_rounds i (w # ws) s = sha1_rounds (i + 1) ws (sha1_round i w s)"

definition sha1_block :: "32 word list \<Rightarrow> sha1_state \<Rightarrow> sha1_state" where
  "sha1_block ws s =
     (case (s, sha1_rounds 0 (rev (schedule 64 (rev ws))) s) of
        ((a, b, c, d, e), (a', b', c', d', e')) \<Rightarrow> (a + a', b + b', c + c', d + d', e + e'))"

fun sha1_blocks :: "nat \<Rightarrow> 32 word list \<Rightarrow> sha1_state \<Rightarrow> sha1_state" where
  "sha1_blocks 0 ws s = s"
| "sha1_blocks (Suc n) ws s = sha1_blocks n (drop 16 ws) (sha1_block (take 16 ws) s)"

definition sha1 :: "int list \<Rightarrow> 32 word list" where
  "sha1 m =
     (let ws = words_of (sha1_pad m) in
      case sha1_blocks (length ws div 16) ws
             (0x67452301, 0xEFCDAB89, 0x98BADCFE, 0x10325476, 0xC3D2E1F0) of
        (a, b, c, d, e) \<Rightarrow> [a, b, c, d, e])"

subsection \<open>uuid5\<close>

text \<open>The digest's first 128 bits, the variant RFC 4122 and version 5.\<close>

definition uuid5_word :: "int list \<Rightarrow> 128 word" where
  "uuid5_word m =
     (let n = foldl (\<lambda>w d. push_bit 32 w OR ucast d) 0 (take 4 (sha1 m)) in
      ((n AND NOT (push_bit 48 0xC000) OR push_bit 48 0x8000) AND NOT (push_bit 64 0xF000))
        OR push_bit 76 5)"

definition uuid_text :: "128 word \<Rightarrow> pystr" where
  "uuid_text w =
     (let s = zero_pad 32 (hex_digits (uint w)) in
      take 8 s @ [45] @ take 4 (drop 8 s) @ [45] @ take 4 (drop 12 s) @ [45] @
      take 4 (drop 16 s) @ [45] @ drop 20 s)"

text \<open>The namespace's sixteen bytes, then the name; the names used are ASCII.\<close>

definition uuid5 :: "int \<Rightarrow> pystr \<Rightarrow> pystr" where
  "uuid5 namespace name = uuid_text (uuid5_word (be_bytes 16 namespace @ name))"

subsection \<open>The length of a text\<close>

lemma hex_digits_length: "n < 16 ^ w \<Longrightarrow> 0 < w \<Longrightarrow> length (hex_digits n) \<le> w"
proof (induction w arbitrary: n)
  case (Suc w)
  show ?case
  proof (cases "n < 16")
    case True
    then show ?thesis by (simp add: hex_digits.simps [of n])
  next
    case False
    then have "0 < w" using Suc.prems by (cases w) auto
    moreover have "n div 16 < 16 ^ w" using Suc.prems(1) unfolding power_Suc by linarith
    ultimately have "length (hex_digits (n div 16)) \<le> w" using Suc.IH by simp
    with False show ?thesis by (simp add: hex_digits.simps [of n])
  qed
qed simp

lemma zero_pad_hex_length: "n < 16 ^ w \<Longrightarrow> 0 < w \<Longrightarrow> length (zero_pad w (hex_digits n)) = w"
  using hex_digits_length [of n w] by (simp add: zero_pad_def)

lemma uuid_text_length: "length (uuid_text w) = 36"
proof -
  have "uint w < 2 ^ 128" using uint_lt2p [of w] by simp
  then have "length (zero_pad 32 (hex_digits (uint w))) = 32"
    by (intro zero_pad_hex_length) simp_all
  then show ?thesis by (simp add: uuid_text_def Let_def)
qed

lemma uuid5_length [simp]: "length (uuid5 n s) = 36"
  by (simp add: uuid5_def uuid_text_length)

end
