(* ===== verification/Generate.thy ===== *)
theory Generate
  imports Config Py_Uuid Py_Time Json
begin

text \<open>
  scripts/db_poc/dbpoc/generate.py: the deterministic data of a load profile. A row of a file is the
  list of its values in the order of \<open>COLUMNS\<close>; \<open>tsv_line\<close> writes it the way the generator's
  f-strings do and \<open>copy_read\<close> is the COPY text format the loaders read. Times are microseconds from
  the start of year 1; scores are ten-thousandths, which is what the four decimals of the files
  hold. The buffering of the writer and the process pool do not change what is written.
\<close>

subsection \<open>Constants\<close>

definition namespace_id :: int where
  "namespace_id = 0x6b3f2f4e0f4b4a2a9a0f1d6f5c3f9b21"

definition micros :: "int \<Rightarrow> int \<Rightarrow> int \<Rightarrow> int \<Rightarrow> int" where
  "micros d hr mi se = (((d * 24 + hr) * 60 + mi) * 60 + se) * 1000000"

definition base_day :: int where
  "base_day = micros (ymd2ord 2026 8 15) 0 0 0"

definition history_id_offset :: int where
  "history_id_offset = 900000000"

definition history_run_offset :: int where
  "history_run_offset = 9000000"

definition records_per_run :: int where
  "records_per_run = 60"

definition rarities :: "string list" where
  "rarities = [''C'', ''U'', ''R'', ''RR'', ''SR'', ''SAR'', ''UR'']"

definition editions :: "string list" where
  "editions = [''1st'', ''unlimited'']"

definition languages :: "string list" where
  "languages = [''ja'', ''en'']"

definition name_head :: "pystr list" where
  "name_head =
     [[12500, 12459, 12481, 12517, 12454], [12522, 12470, 12540, 12489, 12531],
      [12511, 12517, 12454, 12484, 12540], [12523, 12462, 12450], [12466, 12531, 12460, 12540],
      [12459, 12499, 12468, 12531], [12452, 12540, 12502, 12452],
      [12511, 12521, 12452, 12489, 12531], [12467, 12521, 12452, 12489, 12531],
      [12462, 12521, 12486, 12451, 12490]]"

definition name_tail :: "pystr list" where
  "name_tail = map lit [''ex'', ''V'', ''VMAX'', ''VSTAR'', '''', ''GX'', ''AR'']"

definition mime_types :: "string list" where
  "mime_types = [''application/json'', ''text/html'', ''text/csv'']"

definition review_reasons_pending :: "string list" where
  "review_reasons_pending = [''parse_ambiguous'', ''price_out_of_range'', ''missing_condition'']"

text \<open>\<open>COLUMNS\<close>: the columns of each file in order.\<close>

definition file_columns :: "(string, string list) pydict" where
  "file_columns =
     [(''card_identity'', [''id'', ''tcg'', ''set_code'', ''card_number'', ''rarity'', ''edition'',
        ''language'', ''normalized_name'', ''created_at'']),
      (''ingest_run'', [''id'', ''source_id'', ''started_at'', ''finished_at'', ''status'',
        ''fetched_count'', ''parsed_count'', ''stored_count'', ''error_class'']),
      (''raw_artifact'', [''id'', ''ingest_run_id'', ''source_id'', ''source_item_id'', ''url'',
        ''mime_type'', ''content_hash'', ''byte_size'', ''fetched_at'', ''published_at'',
        ''storage_ref'']),
      (''processing_run'', [''id'', ''raw_artifact_id'', ''processor_name'', ''processor_version'',
        ''config_ref'', ''attempt_no'', ''started_at'', ''finished_at'', ''status'',
        ''extracted_count'', ''promoted_count'', ''error_class'']),
      (''extracted_record'', [''id'', ''processing_run_id'', ''raw_artifact_id'', ''locator'',
        ''payload'', ''value_origin'', ''confidence'', ''warnings'', ''created_at'']),
      (''observation_candidate'', [''id'', ''extracted_record_id'', ''shop_id'', ''source_id'',
        ''tcg'', ''amount_minor'', ''currency'', ''price_type'', ''raw_card_name'',
        ''raw_card_number'', ''raw_set'', ''raw_rarity'', ''raw_edition'', ''raw_language'',
        ''raw_condition'', ''observed_at'', ''promotion_rule_version'', ''created_at'']),
      (''identity_resolution_attempt'', [''id'', ''observation_candidate_id'', ''matcher_name'',
        ''matcher_version'', ''card_identity_id'', ''match_score'', ''result'', ''evidence'',
        ''created_at'']),
      (''price_observation'', [''id'', ''observation_candidate_id'', ''card_identity_id'',
        ''shop_id'', ''source_id'', ''raw_artifact_id'', ''tcg'', ''amount_minor'', ''currency'',
        ''price_type'', ''card_condition'', ''observed_at'', ''collected_at'', ''published_at'',
        ''valid_until'', ''idempotency_key'', ''created_at'']),
      (''review_item'', [''id'', ''ingest_run_id'', ''raw_artifact_id'', ''extracted_record_id'',
        ''identity_resolution_attempt_id'', ''reason'', ''state'', ''priority'', ''created_at'',
        ''decided_at'', ''decided_by'', ''decision'', ''lock_version''])]"

subsection \<open>Derived values\<close>

text \<open>A multiplicative hash kept to 32 bits.\<close>

definition h :: "int \<Rightarrow> int" where
  "h v =
     (let x = (v * 2654435761) AND 0xFFFFFFFF;
          x = x XOR drop_bit 15 x;
          x = (x * 2246822519) AND 0xFFFFFFFF
      in x XOR drop_bit 13 x)"

definition pick :: "'a list \<Rightarrow> int \<Rightarrow> 'a" where
  "pick xs n = xs ! nat (n mod int (length xs))"

definition card_uuid :: "int \<Rightarrow> pystr" where
  "card_uuid i = uuid5 namespace_id (lit ''card:'' @ py_str i)"

text \<open>\<open>strftime("%Y-%m-%d")\<close> and \<open>strftime("%Y-%m-%d %H:%M:%S.%f")\<close>.\<close>

definition date_text :: "int \<Rightarrow> pystr" where
  "date_text t =
     (case ord2ymd (t div micros 1 0 0 0) of
        (y, m, d) \<Rightarrow> py_str y @ [45] @ dd 2 m @ [45] @ dd 2 d)"

definition ts_text :: "int \<Rightarrow> pystr" where
  "ts_text t =
     date_text t @ [32] @ dd 2 (t div micros 0 1 0 0 mod 24) @ [58] @
     dd 2 (t div micros 0 0 1 0 mod 60) @ [58] @ dd 2 (t div 1000000 mod 60) @ [46] @
     dd 6 (t mod 1000000)"

definition price_for :: "int \<Rightarrow> int" where
  "price_for i =
     (let bucket = h (i * 7 + 11) mod 1000 in
      if bucket < 700 then 50 + h i mod 1200
      else if bucket < 950 then 1200 + h (i * 3) mod 12000
      else if bucket < 999 then 13000 + h (i * 5) mod 90000
      else 100000 + h (i * 13) mod 400000)"

definition card_name :: "int \<Rightarrow> int \<Rightarrow> pystr" where
  "card_name hv i = pick name_head hv @ pick name_tail (drop_bit 4 hv) @ py_str i"

definition card_for :: "int \<Rightarrow> int \<Rightarrow> int" where
  "card_for record_index cards = h (record_index * 31 + 7) mod cards"

text \<open>\<open>f"{n:,}"\<close> for \<open>n \<ge> 0\<close>.\<close>

fun comma_digits :: "int \<Rightarrow> pystr" where
  "comma_digits n = (if n < 1000 then dec_digits n else comma_digits (n div 1000) @ [44] @ dd 3 (n mod 1000))"

declare comma_digits.simps [simp del]

text \<open>\<open>json.dumps(..., ensure_ascii=False, separators=(",", ":"))\<close> of a flat object.\<close>

definition compact_object :: "(string \<times> json) list \<Rightarrow> pystr" where
  "compact_object kvs =
     [123] @ join [44] (map (\<lambda>(k, v). json_string (lit k) @ [58] @ json_dumps v) kvs) @ [125]"

definition payload :: "int \<Rightarrow> int \<Rightarrow> int \<Rightarrow> pystr \<Rightarrow> pystr" where
  "payload record_index card_index amount condition =
     compact_object
       [(''row'', JInt (record_index mod records_per_run)),
        (''name'', JStr (card_name (h card_index) card_index)),
        (''number'', JStr (dd 3 (card_index mod 1000) @ lit ''/165'')),
        (''set'', JStr (lit ''SV'' @ dd 3 (card_index div 1000))),
        (''price_text'', JStr ([165] @ comma_digits amount)),
        (''condition'', JStr condition),
        (''stock'', JInt (h record_index mod 9))]"

definition idempotency_key :: "pystr \<Rightarrow> int \<Rightarrow> int \<Rightarrow> pystr \<Rightarrow> pystr \<Rightarrow> pystr \<Rightarrow> pystr" where
  "idempotency_key slug artifact_index row price_type observed_date condition =
     slug @ [124] @ py_str artifact_index @ [124] @ py_str row @ [124] @ price_type @ [124] @
     observed_date @ [124] @ condition"

definition hex8 :: "int \<Rightarrow> pystr" where
  "hex8 n = zero_pad 8 (hex_digits n)"

definition hex2 :: "int \<Rightarrow> pystr" where
  "hex2 n = zero_pad 2 (hex_digits n)"

subsection \<open>The rows of each file\<close>

text \<open>\<open>range(n)\<close>, and the start of a day counted from \<open>BASE_DAY\<close> at an hour.\<close>

definition py_range :: "int \<Rightarrow> int list" where
  "py_range n = [0..n - 1]"

definition moment :: "int \<Rightarrow> int \<Rightarrow> int \<Rightarrow> int \<Rightarrow> int" where
  "moment d hr mi se = base_day + micros d hr mi se"

definition card_identity_row :: "int \<Rightarrow> dbval list" where
  "card_identity_row i =
     (let hv = h i in
      [VText (card_uuid i), VText tcg, VText (lit ''SV'' @ dd 3 (i div 1000)),
       VText (dd 3 (i mod 1000) @ lit ''/165''), VText (lit (pick rarities hv)),
       VText (lit (pick editions (drop_bit 8 hv))), VText (lit (pick languages (drop_bit 12 hv))),
       VText (card_name hv i), VTime (base_day - micros 400 0 0 0)])"

definition gen_card_identity :: "profile \<Rightarrow> dbval list list" where
  "gen_card_identity p = map card_identity_row (py_range (pf_cards p))"

definition ingest_run_row :: "profile \<Rightarrow> int \<Rightarrow> int \<Rightarrow> dbval list" where
  "ingest_run_row p dy slot =
     (let run_id = dy * (4 * pf_scale p) + slot + 1;
          started = moment dy 3 (slot mod 60) 0;
          succeeded = h run_id mod 50 \<noteq> 0 in
      [VInt run_id, VInt (slot mod 4 + 1), VTime started, VTime (started + micros 0 0 12 0),
       VText (lit (if succeeded then ''succeeded'' else ''partial'')), VInt 500, VInt 500, VInt 500,
       if succeeded then VNull else VText (lit ''parser_error'')])"

definition ingest_run_history_row :: "profile \<Rightarrow> int \<Rightarrow> int \<Rightarrow> dbval list" where
  "ingest_run_history_row p dy slot =
     (let started = base_day - micros (pf_history_days p - dy) 0 0 0 + micros 0 3 0 0 in
      [VInt (history_run_offset + dy * pf_history_shops p + slot + 1), VInt (slot + 1),
       VTime started, VTime (started + micros 0 0 5 0), VText (lit ''succeeded''),
       VInt 200, VInt 200, VInt 200, VNull])"

text \<open>Two nested loops as one over the pairs, the inner index changing first.\<close>

definition nested :: "(int \<Rightarrow> int \<Rightarrow> 'a) \<Rightarrow> int \<Rightarrow> int \<Rightarrow> 'a list" where
  "nested f m n = concat (map (\<lambda>i. map (f i) (py_range n)) (py_range m))"

definition gen_ingest_run :: "profile \<Rightarrow> dbval list list" where
  "gen_ingest_run p =
     nested (ingest_run_row p) (pf_days p) (4 * pf_scale p) @
     nested (ingest_run_history_row p) (pf_history_days p) (pf_history_shops p)"

definition raw_artifact_row :: "profile \<Rightarrow> int \<Rightarrow> dbval list" where
  "raw_artifact_row p i =
     (let dy = i div (500 * pf_scale p); offset = i mod (500 * pf_scale p);
          slot = offset mod (4 * pf_scale p);
          source_id = slot mod 4 + 1;
          hv = h (i + 1) in
      [VInt (i + 1), VInt (dy * (4 * pf_scale p) + slot + 1), VInt source_id,
       VText (source_slug source_id @ [45] @ py_str i),
       VText (lit ''https://example.invalid/'' @ source_slug source_id @ lit ''/page/'' @ py_str i),
       VText (lit (pick mime_types hv)),
       VText (take 56 (hex8 hv @ hex8 (h (i + 2)) @ hex8 (h (i + 3)) @ hex8 (h (i + 4))) @ hex8 i),
       VInt (5000 + hv mod 2000000), VTime (moment dy 3 0 (offset mod 3600)), VNull,
       VText (lit ''artifacts/'' @ hex2 (i mod 256) @ lit ''/'' @ py_str i @ lit ''.json'')])"

definition raw_artifact_history_row :: "profile \<Rightarrow> int \<Rightarrow> int \<Rightarrow> dbval list" where
  "raw_artifact_history_row p dy slot =
     (let index = dy * pf_history_shops p + slot;
          artifact_id = history_id_offset + index + 1 in
      [VInt artifact_id, VInt (history_run_offset + index + 1), VInt (slot + 1),
       VText (lit ''history-'' @ py_str index),
       VText (lit ''https://example.invalid/history/'' @ py_str index),
       VText (lit ''application/json''),
       VText (take 64 (concat (replicate 7 (hex8 (h artifact_id))) @ hex8 index)),
       VInt 120000, VTime (base_day - micros (pf_history_days p - dy) 0 0 0 + micros 0 3 0 0),
       VNull, VText (lit ''artifacts/hi/'' @ py_str index @ lit ''.json'')])"

definition gen_raw_artifact :: "profile \<Rightarrow> dbval list list" where
  "gen_raw_artifact p =
     map (raw_artifact_row p) (py_range (pf_raw_artifact p)) @
     nested (raw_artifact_history_row p) (pf_history_days p) (pf_history_shops p)"

definition processing_run_row :: "profile \<Rightarrow> int \<Rightarrow> dbval list" where
  "processing_run_row p i =
     (let dy = i div (500 * pf_scale p); offset = i mod (500 * pf_scale p);
          started = moment dy 4 0 (offset mod 3600) in
      [VInt (i + 1), VInt (i + 1), VText (lit ''price_table_parser''), VText (lit ''1.0.0''),
       VText (lit ''config/v1''), VInt 1, VTime started, VTime (started + micros 0 0 0 8),
       VText (lit ''succeeded''), VInt records_per_run, VInt records_per_run, VNull])"

definition processing_run_history_row :: "profile \<Rightarrow> int \<Rightarrow> dbval list" where
  "processing_run_history_row p index =
     (let run_id = history_id_offset + index + 1;
          started = base_day - micros (pf_history_days p) 0 0 0 +
            micros (index div pf_history_shops p) 4 0 0 in
      [VInt run_id, VInt run_id, VText (lit ''price_table_parser''), VText (lit ''1.0.0''),
       VText (lit ''config/v1''), VInt 1, VTime started, VTime (started + micros 0 0 0 4),
       VText (lit ''succeeded''), VInt (pf_history_cards p), VInt (pf_history_cards p), VNull])"

definition gen_processing_run :: "profile \<Rightarrow> dbval list list" where
  "gen_processing_run p =
     map (processing_run_row p) (py_range (pf_raw_artifact p)) @
     map (processing_run_history_row p) (py_range (pf_history_days p * pf_history_shops p))"

text \<open>
  \<open>f"{0.90 + (hv % 100) / 1000:.4f}"\<close>: the rounding error of the sum is below \<open>10 ^ -15\<close>, so the
  four decimals are exact.
\<close>

definition extracted_record_row :: "profile \<Rightarrow> int \<Rightarrow> dbval list" where
  "extracted_record_row p i =
     (let run_index = i div records_per_run;
          dy = run_index div (500 * pf_scale p); offset = run_index mod (500 * pf_scale p);
          hv = h (i + 9) in
      [VInt (i + 1), VInt (run_index + 1), VInt (run_index + 1),
       VText (lit ''$.items['' @ py_str (i mod records_per_run) @ lit '']''),
       VText (payload i (card_for i (pf_cards p)) (price_for i) (lit (pick conditions (h (i + 5))))),
       VText (lit (if hv mod 10 \<noteq> 0 then ''artifact'' else ''ingest_config'')),
       if hv mod 17 = 0 then VNull else VScore (9000 + hv mod 100 * 10),
       if hv mod 23 \<noteq> 0 then VNull else VText (lit ''ambiguous_condition''),
       VTime (moment dy 4 0 (offset mod 3600))])"

text \<open>A history row's day, shop slot and card.\<close>

definition history_day :: "profile \<Rightarrow> int \<Rightarrow> int" where
  "history_day p index = index div (pf_history_cards p * pf_history_shops p)"

definition history_slot :: "profile \<Rightarrow> int \<Rightarrow> int" where
  "history_slot p index = index mod (pf_history_cards p * pf_history_shops p) div pf_history_cards p"

definition history_card :: "profile \<Rightarrow> int \<Rightarrow> int" where
  "history_card p index = index mod (pf_history_cards p * pf_history_shops p) mod pf_history_cards p"

definition history_moment :: "profile \<Rightarrow> int \<Rightarrow> int \<Rightarrow> int" where
  "history_moment p index hr =
     base_day - micros (pf_history_days p - history_day p index) 0 0 0 + micros 0 hr 0 0"

definition extracted_record_history_row :: "profile \<Rightarrow> int \<Rightarrow> dbval list" where
  "extracted_record_history_row p index =
     (let card_index = history_card p index;
          run_id = history_id_offset + history_day p index * pf_history_shops p +
            history_slot p index + 1 in
      [VInt (history_id_offset + index + 1), VInt run_id, VInt run_id,
       VText (lit ''$.items['' @ py_str card_index @ lit '']''),
       VText (payload index card_index (price_for (card_index * 1000 + history_day p index))
         (lit (pick conditions (h card_index)))),
       VText (lit ''artifact''), VScore 9900, VNull, VTime (history_moment p index 4)])"

definition gen_extracted_record :: "profile \<Rightarrow> dbval list list" where
  "gen_extracted_record p =
     map (extracted_record_row p) (py_range (pf_extracted_record p)) @
     map (extracted_record_history_row p) (py_range (pf_history_rows p))"

definition observation_candidate_row :: "profile \<Rightarrow> int \<Rightarrow> dbval list" where
  "observation_candidate_row p i =
     (let run_index = i div records_per_run;
          dy = run_index div (500 * pf_scale p); offset = run_index mod (500 * pf_scale p);
          source_id = offset mod (4 * pf_scale p) mod 4 + 1;
          observed = moment dy 3 0 (offset mod 3600);
          card_index = card_for i (pf_cards p);
          hv = h card_index in
      [VInt (i + 1), VInt (i + 1), VInt source_id, VInt source_id, VText tcg, VInt (price_for i),
       VText currency, VText (lit (if h (i + 3) mod 4 \<noteq> 0 then ''buy'' else ''sell'')),
       VText (card_name hv card_index), VText (dd 3 (card_index mod 1000) @ lit ''/165''),
       VText (lit ''SV'' @ dd 3 (card_index div 1000)), VText (lit (pick rarities hv)),
       VText (lit (pick editions (drop_bit 8 hv))), VText (lit (pick languages (drop_bit 12 hv))),
       VText (lit (pick conditions (h (i + 5)))), VTime observed, VText (lit ''v1''),
       VTime observed])"

definition observation_candidate_history_row :: "profile \<Rightarrow> int \<Rightarrow> dbval list" where
  "observation_candidate_history_row p index =
     (let card_index = history_card p index;
          hv = h card_index;
          observed = history_moment p index 3 in
      [VInt (history_id_offset + index + 1), VInt (history_id_offset + index + 1),
       VInt (history_slot p index + 1), VInt (history_slot p index + 1), VText tcg,
       VInt (price_for (card_index * 1000 + history_day p index)), VText currency,
       VText (lit ''buy''), VText (card_name hv card_index),
       VText (dd 3 (card_index mod 1000) @ lit ''/165''),
       VText (lit ''SV'' @ dd 3 (card_index div 1000)), VText (lit (pick rarities hv)),
       VText (lit (pick editions (drop_bit 8 hv))), VText (lit (pick languages (drop_bit 12 hv))),
       VText (lit (pick conditions (h card_index))), VTime observed, VText (lit ''v1''),
       VTime observed])"

definition gen_observation_candidate :: "profile \<Rightarrow> dbval list list" where
  "gen_observation_candidate p =
     map (observation_candidate_row p) (py_range (pf_observation_candidate p)) @
     map (observation_candidate_history_row p) (py_range (pf_history_rows p))"

definition attempt_row ::
    "int \<Rightarrow> int \<Rightarrow> int \<Rightarrow> int \<Rightarrow> string \<Rightarrow> string \<Rightarrow> int \<Rightarrow> dbval list" where
  "attempt_row attempt_id candidate_id crd score res ev created =
     [VInt attempt_id, VInt candidate_id, VText (lit ''attribute_matcher''), VText (lit ''1.0.0''),
      VText (card_uuid crd), VScore score, VText (lit res), VText (lit ev), VTime created]"

text \<open>Two lines per candidate: the confirmed and the rejected match.\<close>

definition attempt_rows :: "profile \<Rightarrow> int \<Rightarrow> dbval list list" where
  "attempt_rows p i =
     (let run_index = i div records_per_run;
          dy = run_index div (500 * pf_scale p); offset = run_index mod (500 * pf_scale p);
          created = moment dy 5 0 (offset mod 3600);
          card_index = card_for i (pf_cards p);
          other = (card_index + 1 + h i mod 97) mod pf_cards p in
      [attempt_row (2 * i + 1) (i + 1) card_index (9700 + h i mod 30 * 10)
         ''confirmed'' ''set+number+rarity'' created,
       attempt_row (2 * i + 2) (i + 1) other (4000 + h (i + 1) mod 400 * 10)
         ''rejected'' ''name_similarity'' created])"

definition attempt_history_rows :: "profile \<Rightarrow> int \<Rightarrow> dbval list list" where
  "attempt_history_rows p index =
     (let card_index = history_card p index;
          created = history_moment p index 5;
          base_id = history_id_offset * 2 + 2 * index;
          other = (card_index + 3) mod pf_cards p in
      [attempt_row (base_id + 1) (history_id_offset + index + 1) card_index 9900
         ''confirmed'' ''set+number+rarity'' created,
       attempt_row (base_id + 2) (history_id_offset + index + 1) other 5100
         ''rejected'' ''name_similarity'' created])"

definition gen_identity_resolution_attempt :: "profile \<Rightarrow> dbval list list" where
  "gen_identity_resolution_attempt p =
     concat (map (attempt_rows p) (py_range (pf_observation_candidate p))) @
     concat (map (attempt_history_rows p) (py_range (pf_history_rows p)))"

text \<open>The observation that extracted row \<open>i\<close> gives, shared with the reparse workload.\<close>

record obs_fields =
  of_run_index :: int
  of_row :: int
  of_source_id :: int
  of_slug :: pystr
  of_observed :: int
  of_card_index :: int
  of_amount :: int
  of_condition :: pystr
  of_price_type :: pystr
  of_key :: pystr

definition observation_fields :: "int \<Rightarrow> profile \<Rightarrow> obs_fields" where
  "observation_fields i p =
     (let run_index = i div records_per_run;
          dy = run_index div (500 * pf_scale p); offset = run_index mod (500 * pf_scale p);
          source_id = offset mod (4 * pf_scale p) mod 4 + 1;
          slug = source_slug source_id;
          observed = moment dy 3 0 (offset mod 3600);
          condition = lit (pick conditions (h (i + 5)));
          price_type = lit (if h (i + 3) mod 4 \<noteq> 0 then ''buy'' else ''sell'') in
      \<lparr>of_run_index = run_index, of_row = i mod records_per_run, of_source_id = source_id,
       of_slug = slug, of_observed = observed, of_card_index = card_for i (pf_cards p),
       of_amount = price_for i, of_condition = condition, of_price_type = price_type,
       of_key = idempotency_key slug run_index (i mod records_per_run) price_type
         (date_text observed) condition\<rparr>)"

definition price_observation_row :: "profile \<Rightarrow> int \<Rightarrow> dbval list" where
  "price_observation_row p i =
     (let run_index = i div records_per_run;
          dy = run_index div (500 * pf_scale p); offset = run_index mod (500 * pf_scale p);
          source_id = offset mod (4 * pf_scale p) mod 4 + 1;
          slug = source_slug source_id;
          observed = moment dy 3 0 (offset mod 3600);
          collected = observed + micros 0 0 6 0;
          card_index = card_for i (pf_cards p);
          condition = lit (pick conditions (h (i + 5)));
          price_type = lit (if h (i + 3) mod 4 \<noteq> 0 then ''buy'' else ''sell'') in
      [VInt (i + 1), VInt (i + 1), VText (card_uuid card_index), VInt source_id, VInt source_id,
       VInt (run_index + 1), VText tcg, VInt (price_for i), VText currency, VText price_type,
       VText condition, VTime observed, VTime collected, VNull, VNull,
       VText (idempotency_key slug run_index (i mod records_per_run) price_type
         (date_text observed) condition),
       VTime collected])"

definition price_observation_history_row :: "profile \<Rightarrow> int \<Rightarrow> dbval list" where
  "price_observation_history_row p index =
     (let dy = history_day p index; shop_slot = history_slot p index;
          card_index = history_card p index;
          observed = history_moment p index 3;
          condition = lit (pick conditions (h card_index));
          key = idempotency_key (source_slug (shop_slot + 1)) (history_id_offset + index) card_index
            (lit ''buy'') (date_text observed) condition in
      [VInt (history_id_offset + index + 1), VInt (history_id_offset + index + 1),
       VText (card_uuid card_index), VInt (shop_slot + 1), VInt (shop_slot + 1),
       VInt (history_id_offset + dy * pf_history_shops p + shop_slot + 1), VText tcg,
       VInt (price_for (card_index * 1000 + dy)), VText currency, VText (lit ''buy''),
       VText condition, VTime observed, VTime (observed + micros 0 0 6 0), VNull, VNull, VText key,
       VTime (observed + micros 0 0 6 0)])"

definition gen_price_observation :: "profile \<Rightarrow> dbval list list" where
  "gen_price_observation p =
     map (price_observation_row p) (py_range (pf_price_observation p)) @
     map (price_observation_history_row p) (py_range (pf_history_rows p))"

definition review_item_row :: "profile \<Rightarrow> int \<Rightarrow> dbval list" where
  "review_item_row p i =
     (let record_index = i * 10;
          run_index = record_index div records_per_run;
          dy = run_index div (500 * pf_scale p); offset = run_index mod (500 * pf_scale p);
          slot = offset mod (4 * pf_scale p);
          created = moment dy 6 0 (offset mod 3600);
          hv = h (i + 77);
          head = [VInt (i + 1), VInt (dy * (4 * pf_scale p) + slot + 1), VInt (run_index + 1)];
          priority = VInt (hv mod 5 + 1) in
      if hv mod 10 < 3 then
        head @ [VNull, VInt (2 * record_index + 2), VText (lit ''identity_ambiguous''),
          VText (lit ''decided''), priority, VTime created, VTime (created + micros 0 5 0 0),
          VText (lit ''owner''), VText (lit ''confirmed_primary_match''), VInt 0]
      else
        head @ [VInt (record_index + 1), VNull, VText (lit (pick review_reasons_pending hv)),
          VText (lit ''pending''), priority, VTime created, VNull, VNull, VNull, VInt 0])"

definition gen_review_item :: "profile \<Rightarrow> dbval list list" where
  "gen_review_item p = map (review_item_row p) (py_range (pf_review_item p))"

text \<open>\<open>GENERATORS\<close>, and the counts \<open>generate\<close> returns.\<close>

definition generators :: "(string, profile \<Rightarrow> dbval list list) pydict" where
  "generators =
     [(''card_identity'', gen_card_identity), (''ingest_run'', gen_ingest_run),
      (''raw_artifact'', gen_raw_artifact), (''processing_run'', gen_processing_run),
      (''extracted_record'', gen_extracted_record),
      (''observation_candidate'', gen_observation_candidate),
      (''identity_resolution_attempt'', gen_identity_resolution_attempt),
      (''price_observation'', gen_price_observation), (''review_item'', gen_review_item)]"

definition generate :: "int \<Rightarrow> (string, dbval list list) pydict option" where
  "generate scale = map_option (\<lambda>p. map (\<lambda>(t, g). (t, g p)) generators) (profiles scale)"

definition generated_counts :: "(string, dbval list list) pydict \<Rightarrow> (string, int) pydict" where
  "generated_counts d = map (\<lambda>(t, rows). (t, int (length rows))) d"

subsection \<open>The files\<close>

definition field_text :: "dbval \<Rightarrow> pystr" where
  "field_text v =
     (case v of
        VNull \<Rightarrow> [92, 78]
      | VInt n \<Rightarrow> py_str n
      | VText s \<Rightarrow> s
      | VTime t \<Rightarrow> ts_text t
      | VScore k \<Rightarrow> py_str (k div 10000) @ [46] @ dd 4 (k mod 10000))"

definition tsv_line :: "dbval list \<Rightarrow> pystr" where
  "tsv_line vs = join [9] (map field_text vs) @ [10]"

definition file_text :: "dbval list list \<Rightarrow> pystr" where
  "file_text rows = concat (map tsv_line rows)"

text \<open>\<open>generate_artifacts\<close>: the files written under the artifact directory, kept when they exist.\<close>

definition write_missing :: "pystr \<Rightarrow> pystr \<Rightarrow> (pystr, pystr) pydict \<Rightarrow> (pystr, pystr) pydict" where
  "write_missing path body files =
     (if map_of files path = None then AList.update path body files else files)"

definition artifact_body :: "int \<Rightarrow> pystr" where
  "artifact_body i =
     json_dumps (JObj [(lit ''artifact'', JInt i), (lit ''rows'', JInt records_per_run),
       (lit ''note'', JStr (lit ''poc placeholder''))])"

definition generate_artifacts :: "profile \<Rightarrow> (pystr, pystr) pydict \<Rightarrow> (pystr, pystr) pydict \<times> int" where
  "generate_artifacts p files =
     (let files = fold (\<lambda>i. write_missing (hex2 (i mod 256) @ lit ''/'' @ py_str i @ lit ''.json'')
                    (artifact_body i)) (py_range (pf_raw_artifact p)) files;
          files = fold (\<lambda>index. write_missing (lit ''hi/'' @ py_str index @ lit ''.json'')
                    (json_dumps (JObj [(lit ''artifact'', JStr (lit ''history-'' @ py_str index))])))
                    (py_range (pf_history_days p * pf_history_shops p)) files
      in (files, int (length (py_range (pf_raw_artifact p))) +
            int (length (py_range (pf_history_days p * pf_history_shops p)))))"

subsection \<open>The hash\<close>

lemma and_mask32: "n AND 0xFFFFFFFF = take_bit 32 (n :: int)"
proof -
  have "(0xFFFFFFFF :: int) = mask 32" by (simp add: mask_eq_exp_minus_1)
  then show ?thesis by (simp only: take_bit_eq_mask)
qed

definition xorshift :: "nat \<Rightarrow> int \<Rightarrow> int" where
  "xorshift k x = x XOR drop_bit k x"

lemma h_alt:
  "h v = xorshift 13 (take_bit 32 (xorshift 15 (take_bit 32 (v * 2654435761)) * 2246822519))"
  by (simp only: h_def and_mask32 xorshift_def Let_def)

lemma xorshift_range: "take_bit 32 (x :: int) = x \<Longrightarrow> take_bit 32 (xorshift k x) = xorshift k x"
proof -
  assume x: "take_bit 32 x = x"
  have r: "0 \<le> x" "x < 2 ^ 32" using x by (simp_all add: take_bit_int_eq_self_iff)
  have "drop_bit k x \<le> x"
    using zdiv_mono2 [of x 1 "2 ^ k"] r by (simp add: drop_bit_eq_div)
  then have "take_bit 32 (drop_bit k x) = drop_bit k x"
    using r by (simp add: take_bit_int_eq_self_iff)
  with x show ?thesis by (simp add: xorshift_def)
qed

lemma xorshift_inj:
  assumes "take_bit 32 x = x" "take_bit 32 y = y" "0 < k" "xorshift k x = xorshift k y"
  shows "x = y"
proof -
  define z where "z = x XOR y"
  have z0: "0 \<le> z" using assms(1,2) z_def
    by (metis take_bit_nonnegative take_bit_xor)
  have "z = drop_bit k z"
  proof -
    have "(x XOR drop_bit k x) XOR (y XOR drop_bit k y) = 0"
      using assms(4) by (simp add: xorshift_def)
    then have "z XOR drop_bit k z = 0"
      by (simp add: z_def ac_simps)
    then have "z XOR (z XOR drop_bit k z) = z" by simp
    then show ?thesis by (simp only: xor.assoc [symmetric] xor_self_eq xor.left_neutral)
  qed
  then have "z = z div 2 ^ k" by (simp add: drop_bit_eq_div)
  moreover have "z div 2 ^ k < z" if "0 < z"
    using that \<open>0 < k\<close> by (intro int_div_less_self) simp_all
  ultimately have "z = 0" using z0 by fastforce
  then have "x XOR (x XOR y) = x" by (simp add: z_def)
  then show ?thesis by (simp only: xor.assoc [symmetric] xor_self_eq xor.left_neutral)
qed

lemma odd_multiple_inj:
  assumes "(c * d) mod 2 ^ 32 = (1 :: int)"
  shows "take_bit 32 (x * c) = take_bit 32 (y * c) \<longleftrightarrow> take_bit 32 x = take_bit 32 y"
proof
  assume "take_bit 32 (x * c) = take_bit 32 (y * c)"
  then have "(x * c) mod 2 ^ 32 = (y * c) mod 2 ^ 32" by (simp add: take_bit_eq_mod)
  then have "(x * c * d) mod 2 ^ 32 = (y * c * d) mod 2 ^ 32" by (metis mod_mult_left_eq)
  then have "(x * (c * d mod 2 ^ 32)) mod 2 ^ 32 = (y * (c * d mod 2 ^ 32)) mod 2 ^ 32"
    by (simp add: mod_mult_right_eq mult.assoc)
  with assms show "take_bit 32 x = take_bit 32 y" by (simp add: take_bit_eq_mod)
next
  assume "take_bit 32 x = take_bit 32 y"
  then show "take_bit 32 (x * c) = take_bit 32 (y * c)"
    by (metis take_bit_eq_mod mod_mult_left_eq)
qed

lemma h_take: "take_bit 32 (h v) = h v"
  unfolding h_alt by (rule xorshift_range) simp

lemma h_range: "0 \<le> h v" "h v < 4294967296"
proof -
  show "0 \<le> h v" using take_bit_nonnegative [of 32 "h v"] by (simp add: h_take)
  show "h v < 4294967296" using take_bit_int_less_exp [of 32 "h v"] by (simp add: h_take)
qed

lemma h_eq: "h u = h v \<longleftrightarrow> u mod 4294967296 = v mod 4294967296"
proof -
  let ?a = "\<lambda>v. take_bit 32 (v * 2654435761) :: int"
  let ?b = "\<lambda>v. take_bit 32 (xorshift 15 (?a v) * 2246822519)"
  have "h u = h v \<longleftrightarrow> ?b u = ?b v"
    unfolding h_alt by (auto dest: xorshift_inj [rotated 3])
  also have "\<dots> \<longleftrightarrow> xorshift 15 (?a u) = xorshift 15 (?a v)"
    using odd_multiple_inj [of 2246822519 3066638151] xorshift_range [of "?a u" 15] xorshift_range [of "?a v" 15]
    by simp
  also have "\<dots> \<longleftrightarrow> ?a u = ?a v"
    by (auto dest: xorshift_inj [rotated 3])
  also have "\<dots> \<longleftrightarrow> u mod 4294967296 = v mod 4294967296"
    using odd_multiple_inj [of 2654435761 244002641 u v] by (simp add: take_bit_eq_mod)
  finally show ?thesis .
qed

lemma price_for_range: "50 \<le> price_for i" "price_for i < 500000"
proof -
  have m: "0 \<le> h x mod n \<and> h x mod n < n" if "0 < n" for x n using that by simp
  show "50 \<le> price_for i"
    using m [of 1200 i] m [of 12000 "i * 3"] m [of 90000 "i * 5"] m [of 400000 "i * 13"]
    unfolding price_for_def Let_def by (auto split: if_splits)
  show "price_for i < 500000"
    using m [of 1200 i] m [of 12000 "i * 3"] m [of 90000 "i * 5"] m [of 400000 "i * 13"]
    unfolding price_for_def Let_def by (auto split: if_splits)
qed

lemma card_for_range: "0 < n \<Longrightarrow> 0 \<le> card_for i n \<and> card_for i n < n"
  by (simp add: card_for_def)

end
