(* ===== verification/Seed.thy ===== *)
theory Seed
  imports Generate
begin

text \<open>
  The seed: scripts/db_poc/dbpoc/bootstrap.py (\<open>seed_dimensions\<close>) and scripts/db_poc/dbpoc/load.py
  (the bulk copy with the foreign keys deferred, and the check for dangling references), on the rows
  the generator writes. The lemmas show row by row that the generated data meets the types, checks,
  keys and foreign keys of the schema; the only assumption left is that no two card UUIDs of the
  profile collide.
\<close>

subsection \<open>Dimension rows\<close>

definition source_row :: "int \<times> string \<times> string \<times> string \<Rightarrow> row" where
  "source_row s =
     (case s of (source_id, slug, kind, state) \<Rightarrow>
        [(''id'', VInt source_id), (''slug'', VText (lit slug)), (''kind'', VText (lit kind)),
         (''state'', VText (lit state))])"

definition shop_row :: "int \<times> string \<times> pystr \<Rightarrow> row" where
  "shop_row s =
     (case s of (shop_id, slug, name) \<Rightarrow>
        [(''id'', VInt shop_id), (''slug'', VText (lit slug)), (''display_name'', VText name),
         (''normalized_name'', VText (lit slug))])"

text \<open>One transaction: both tables emptied and written again.\<close>

definition seed_dimensions :: "store \<Rightarrow> sql_error + store" where
  "seed_dimensions db =
     and_then (delete_all metadata ''shop'' db) (\<lambda>db.
     and_then (delete_all metadata ''source'' db) (\<lambda>db.
     and_then (insert_rows t_source (map source_row sources) db)
       (insert_rows t_shop (map shop_row shops))))"

subsection \<open>Bulk load\<close>

definition table_of :: "string \<Rightarrow> table_def option" where
  "table_of t = find (\<lambda>d. tbl_name d = t) metadata"

definition file_row :: "string \<Rightarrow> dbval list \<Rightarrow> row" where
  "file_row t vs = with_columns (dict_get file_columns t []) vs"

text \<open>
  \<open>LOAD DATA LOCAL\<close> works as with IGNORE: a row that repeats a key is dropped, and a value its
  column refuses is stored adjusted with a warning. How the server adjusts it is the argument.
\<close>

fun copy_ignore :: "(table_def \<Rightarrow> row \<Rightarrow> row) \<Rightarrow> table_def \<Rightarrow> row list \<Rightarrow> store \<Rightarrow> store" where
  "copy_ignore adjust t [] db = db"
| "copy_ignore adjust t (r # rs) db =
     (let r = if row_ok t r then r else adjust t r in
      copy_ignore adjust t rs
        (if clashing_key db t r = None then add_row (tbl_name t) r db else db))"

text \<open>\<open>_load_postgres\<close> and \<open>_load_mariadb\<close> of one file.\<close>

definition load_table ::
    "(table_def \<Rightarrow> row \<Rightarrow> row) \<Rightarrow> engine \<Rightarrow> (string, dbval list list) pydict \<Rightarrow> string \<Rightarrow> store \<Rightarrow>
     sql_error + store" where
  "load_table adjust eng files t db =
     (case table_of t of
        None \<Rightarrow> Inl Data_error
      | Some d \<Rightarrow>
          (let rs = map (file_row t) (dict_get files t []) in
           case eng of
             Postgres \<Rightarrow> copy_rows d rs db
           | Mariadb \<Rightarrow> Inr (copy_ignore adjust d rs db)))"

text \<open>Each file is a transaction of its own; the first that fails ends the run.\<close>

fun load_tables ::
    "(table_def \<Rightarrow> row \<Rightarrow> row) \<Rightarrow> engine \<Rightarrow> (string, dbval list list) pydict \<Rightarrow> string list \<Rightarrow>
     store \<Rightarrow> sql_error option \<times> store" where
  "load_tables adjust eng files [] db = (None, db)"
| "load_tables adjust eng files (t # ts) db =
     (case load_table adjust eng files t db of
        Inl e \<Rightarrow> (Some e, db)
      | Inr db' \<Rightarrow> load_tables adjust eng files ts db')"

definition load ::
    "(table_def \<Rightarrow> row \<Rightarrow> row) \<Rightarrow> engine \<Rightarrow> (string, dbval list list) pydict \<Rightarrow> store \<Rightarrow>
     sql_error option \<times> store" where
  "load adjust eng files db = load_tables adjust eng files bulk_tables db"

definition dangling_checks :: "(string \<times> string \<times> string \<times> string) list" where
  "dangling_checks =
     [(''raw_artifact_to_ingest_run'', ''raw_artifact'', ''ingest_run_id'', ''ingest_run''),
      (''processing_run_to_artifact'', ''processing_run'', ''raw_artifact_id'', ''raw_artifact''),
      (''extracted_record_to_processing_run'', ''extracted_record'', ''processing_run_id'',
        ''processing_run''),
      (''candidate_to_record'', ''observation_candidate'', ''extracted_record_id'',
        ''extracted_record''),
      (''attempt_to_candidate'', ''identity_resolution_attempt'', ''observation_candidate_id'',
        ''observation_candidate''),
      (''observation_to_card'', ''price_observation'', ''card_identity_id'', ''card_identity''),
      (''review_to_run'', ''review_item'', ''ingest_run_id'', ''ingest_run'')]"

text \<open>\<open>LEFT JOIN parent ON parent.id = child.c WHERE parent.id IS NULL\<close>\<close>

definition dangling :: "store \<Rightarrow> string \<Rightarrow> string \<Rightarrow> string \<Rightarrow> int" where
  "dangling db child c parent =
     int (length (filter (\<lambda>r. \<not> list_ex (\<lambda>s. cell r c \<noteq> VNull \<and> cell s ''id'' = cell r c)
       (rows_of db parent)) (rows_of db child)))"

definition verify_foreign_keys :: "store \<Rightarrow> (string, int) pydict" where
  "verify_foreign_keys db =
     map (\<lambda>(name, child, c, parent). (name, dangling db child c parent)) dangling_checks"

lemma file_columns_match:
  "list_all (\<lambda>t. dict_get file_columns t [] = map col_name (tbl_columns (the (table_of t)))) bulk_tables"
  by code_simp

lemma seed_dims: "seed_dimensions [] = Inr
   [(''shop'', map shop_row shops), (''source'', map source_row sources)]"
  by code_simp

text \<open>Lengths of the texts.\<close>

lemma dd_length: "0 \<le> n \<Longrightarrow> n < 10 ^ w \<Longrightarrow> 0 < w \<Longrightarrow> length (dd w n) = w"
  using dec_digits_length [of n w] by (simp add: dd_def zero_pad_def)

lemma dd_3 [simp]: "length (dd 3 (i mod 1000)) = 3"
  by (rule dd_length) simp_all

lemma py_str_length: "0 \<le> n \<Longrightarrow> n < 10 ^ w \<Longrightarrow> 0 < w \<Longrightarrow> length (py_str n) \<le> w"
  using dec_digits_length [of n w] by (simp add: py_str_def)

lemma hex8_length [simp]: "0 \<le> n \<Longrightarrow> n < 4294967296 \<Longrightarrow> length (hex8 n) = 8"
  unfolding hex8_def by (rule zero_pad_hex_length) simp_all

lemma hex2_length [simp]: "length (hex2 (n mod 256)) = 2"
  unfolding hex2_def by (rule zero_pad_hex_length) (simp_all add: less_imp_le)

lemma card_uuid_length [simp]: "length (card_uuid i) = 36"
  by (simp add: card_uuid_def)

lemma pick_in: "xs \<noteq> [] \<Longrightarrow> pick xs n \<in> set xs"
  by (simp add: pick_def nat_less_iff)

lemma pick_length: "list_all (\<lambda>s. length s \<le> w) xs \<Longrightarrow> xs \<noteq> [] \<Longrightarrow> length (pick xs n) \<le> w"
  using pick_in [of xs n] by (auto simp: list_all_iff)

lemma pick_in_iff: "list_all P xs \<Longrightarrow> xs \<noteq> [] \<Longrightarrow> P (pick xs n)"
  using pick_in [of xs n] by (auto simp: list_all_iff)

lemma small_range:
  assumes "0 \<le> x" "x < 10 ^ w" "0 < w"
  shows "length (py_str x) \<le> w"
  by (rule py_str_length [OF assms])

lemma month_day_bounds:
  "0 \<le> n \<Longrightarrow> list_all (\<lambda>l. 0 \<le> l) ls \<Longrightarrow>
     m \<le> fst (month_day m ls n) \<and> fst (month_day m ls n) \<le> m + int (length ls) \<and>
     1 \<le> snd (month_day m ls n) \<and> snd (month_day m ls n) \<le> n + 1"
  by (induction m ls n rule: month_day.induct) (fastforce simp: not_less)+

lemma ord2ymd_bounds:
  assumes "1 \<le> n" "n \<le> 3000000" "ord2ymd n = (y, m, d)"
  shows "1 \<le> y" "y \<le> 9999" "1 \<le> m" "m \<le> 13" "1 \<le> d" "d \<le> 366"
proof -
  define k where "k = n - 1"
  define k1 where "k1 = k mod 146097"
  define k2 where "k2 = k1 mod 36524"
  define k3 where "k3 = k2 mod 1461"
  define k4 where "k4 = k3 mod 365"
  define yr where "yr = k div 146097 * 400 + k1 div 36524 * 100 + k2 div 1461 * 4 + k3 div 365 + 1"
  have k: "0 \<le> k" "k < 3000000" using assms by (simp_all add: k_def)
  have r: "0 \<le> k1" "k1 < 146097" "0 \<le> k2" "k2 < 36524" "0 \<le> k3" "k3 < 1461" "0 \<le> k4" "k4 < 365"
    by (simp_all add: k1_def k2_def k3_def k4_def)
  have q: "0 \<le> k div 146097" "k div 146097 \<le> 20" "0 \<le> k1 div 36524" "k1 div 36524 \<le> 4"
      "0 \<le> k2 div 1461" "k2 div 1461 \<le> 25" "0 \<le> k3 div 365" "k3 div 365 \<le> 4"
    using k r by linarith+
  then have yr: "1 \<le> yr" "yr \<le> 9000" unfolding yr_def by linarith+
  have e: "ord2ymd n = (if k3 div 365 = 4 \<or> k1 div 36524 = 4 then (yr - 1, 12, 31)
      else (yr, month_day 1 (month_lengths (is_leap yr)) k4))"
    by (simp add: ord2ymd_def Let_def k_def k1_def k2_def k3_def k4_def yr_def)
  have y2: "2 \<le> yr" if "k3 div 365 = 4 \<or> k1 div 36524 = 4" using that q unfolding yr_def by linarith
  have md: "1 \<le> fst (month_day 1 (month_lengths (is_leap yr)) k4)"
      "fst (month_day 1 (month_lengths (is_leap yr)) k4) \<le> 13"
      "1 \<le> snd (month_day 1 (month_lengths (is_leap yr)) k4)"
      "snd (month_day 1 (month_lengths (is_leap yr)) k4) \<le> k4 + 1"
    using month_day_bounds [OF r(7), of "month_lengths (is_leap yr)" 1]
    by (auto simp: month_lengths_def)
  show "1 \<le> y" "y \<le> 9999" "1 \<le> m" "m \<le> 13" "1 \<le> d" "d \<le> 366"
    using assms(3) yr y2 md r by (auto simp: e split: if_splits)
qed

lemma date_text_length:
  assumes "86400000000 \<le> t" "t < 3000000 * 86400000000"
  shows "length (date_text t) \<le> 11"
proof -
  let ?n = "t div 86400000000"
  have n: "1 \<le> ?n" "?n \<le> 3000000" using assms by linarith+
  obtain y m d where e: "ord2ymd ?n = (y, m, d)" by (cases "ord2ymd ?n")
  note b = ord2ymd_bounds [OF n e]
  have "length (py_str y) \<le> 4" using b by (intro py_str_length) simp_all
  moreover have "length (dec_digits m) \<le> 2" using b by (intro dec_digits_length) simp_all
  moreover have "length (dec_digits d) \<le> 3" using b by (intro dec_digits_length) simp_all
  ultimately show ?thesis
    by (simp add: date_text_def micros_def e dd_def zero_pad_def)
qed

subsection \<open>Every generated row meets the types and the checks of its table\<close>

lemma file_columns_of:
  "dict_get file_columns ''card_identity'' [] = map col_name (tbl_columns t_card_identity)"
  "dict_get file_columns ''ingest_run'' [] = map col_name (tbl_columns t_ingest_run)"
  "dict_get file_columns ''raw_artifact'' [] = map col_name (tbl_columns t_raw_artifact)"
  "dict_get file_columns ''processing_run'' [] = map col_name (tbl_columns t_processing_run)"
  "dict_get file_columns ''extracted_record'' [] = map col_name (tbl_columns t_extracted_record)"
  "dict_get file_columns ''observation_candidate'' [] = map col_name (tbl_columns t_observation_candidate)"
  "dict_get file_columns ''identity_resolution_attempt'' [] =
     map col_name (tbl_columns t_identity_resolution_attempt)"
  "dict_get file_columns ''price_observation'' [] = map col_name (tbl_columns t_price_observation)"
  "dict_get file_columns ''review_item'' [] = map col_name (tbl_columns t_review_item)"
  by code_simp+

lemma columns_distinct: "list_all (\<lambda>t. distinct (map col_name (tbl_columns t))) metadata"
  by code_simp

lemma file_row_ok:
  assumes "dict_get file_columns (tbl_name t) [] = map col_name (tbl_columns t)" "t \<in> set metadata"
    "list_all2 (\<lambda>c v. type_ok (col_type c) v \<and> (col_nullable c \<or> v \<noteq> VNull)) (tbl_columns t) vs"
    "checks_ok t (file_row (tbl_name t) vs)"
  shows "row_ok t (file_row (tbl_name t) vs)"
proof -
  have "distinct (map col_name (tbl_columns t))"
    using columns_distinct assms(2) by (simp add: list_all_iff)
  moreover have "length vs = length (tbl_columns t)"
    using assms(3) by (simp add: list_all2_lengthD)
  ultimately show ?thesis
    using assms(3,4) by (simp add: file_row_def assms(1) row_ok_with_columns)
qed

lemma source_slug_length: "1 \<le> k \<Longrightarrow> k \<le> 4 \<Longrightarrow> length (source_slug k) \<le> 18"
proof -
  assume "1 \<le> k" "k \<le> 4"
  then have "k = 1 \<or> k = 2 \<or> k = 3 \<or> k = 4" by auto
  then show ?thesis by (auto simp: source_slug_def sources_def)
qed

lemma h_mod [simp]: "0 < n \<Longrightarrow> 0 \<le> h x mod n" "0 < n \<Longrightarrow> h x mod n < n" "0 < n \<Longrightarrow> h x mod n \<le> n"
  by (simp_all add: less_imp_le)

lemma rarities_length [simp]: "length (pick rarities n) \<le> 32"
  by (rule pick_length) (simp_all add: rarities_def)
lemma editions_length [simp]: "length (pick editions n) \<le> 32"
  by (rule pick_length) (simp_all add: editions_def)
lemma languages_length [simp]: "length (pick languages n) \<le> 8"
  by (rule pick_length) (simp_all add: languages_def)
lemma mime_length [simp]: "length (pick mime_types n) \<le> 64"
  by (rule pick_length) (simp_all add: mime_types_def)
lemma reasons_length [simp]: "length (pick review_reasons_pending n) \<le> 40"
  by (rule pick_length) (simp_all add: review_reasons_pending_def)
lemma conditions_length [simp]: "length (pick conditions n) \<le> 5"
  by (rule pick_length) (simp_all add: conditions_def)
lemma tcg_length [simp]: "length tcg = 7" "length currency = 3"
  by (simp_all add: tcg_def currency_def)

lemma pick_pystr_length: "list_all (\<lambda>s. length s \<le> w) xs \<Longrightarrow> xs \<noteq> [] \<Longrightarrow> length (pick xs n :: 'a list) \<le> w"
  using pick_in [of xs n] by (auto simp: list_all_iff)

lemma card_name_length: "0 \<le> i \<Longrightarrow> i < 120000 \<Longrightarrow> length (card_name hv i) \<le> 200"
proof -
  assume i: "0 \<le> i" "i < 120000"
  have "length (pick name_head hv) \<le> 10"
    by (rule pick_pystr_length) (simp_all add: name_head_def)
  moreover have "length (pick name_tail (drop_bit 4 hv)) \<le> 10"
    by (rule pick_pystr_length) (simp_all add: name_tail_def)
  moreover have "length (py_str i) \<le> 6" using i by (intro py_str_length) simp_all
  ultimately show ?thesis
    by (simp add: card_name_def)
qed

lemma card_identity_row_ok:
  assumes "0 \<le> i" "i < 120000"
  shows "row_ok t_card_identity (file_row ''card_identity'' (card_identity_row i))"
proof -
  have "row_ok t_card_identity (file_row (tbl_name t_card_identity) (card_identity_row i))"
  proof (rule file_row_ok)
    have "length (dd 3 (i div 1000)) = 3" using assms by (intro dd_length) simp_all
    then show "list_all2 (\<lambda>c v. type_ok (col_type c) v \<and> (col_nullable c \<or> v \<noteq> VNull))
        (tbl_columns t_card_identity) (card_identity_row i)"
      using card_name_length [OF assms]
      by (simp add: t_card_identity_def card_identity_row_def Let_def le_trans [OF rarities_length])
  qed (simp_all add: file_columns_of t_card_identity_def metadata_def checks_ok_def)
  then show ?thesis by (simp add: t_card_identity_def)
qed

definition seed_profile :: "profile \<Rightarrow> bool" where
  "seed_profile p \<longleftrightarrow> p = new_profile 1 \<or> p = new_profile 10"

lemma file_rowI:
  assumes "tbl_name t = n" "t \<in> set metadata"
    "dict_get file_columns n [] = map col_name (tbl_columns t)"
    "list_all2 (\<lambda>c v. type_ok (col_type c) v \<and> (col_nullable c \<or> v \<noteq> VNull)) (tbl_columns t) vs"
    "checks_ok t (file_row n vs)"
  shows "row_ok t (file_row n vs)"
  using file_row_ok [of t vs] assms by simp

lemma row_checks: "checks_ok t r \<longleftrightarrow> list_all (\<lambda>c. check_ok r (snd c)) (tbl_checks t)"
  by (simp add: checks_ok_def list_all_iff split_beta)

lemmas row_simps = file_columns_of metadata_def row_checks lit_distinct Let_def

lemma mod_bounds: "(0::int) \<le> k mod 4" "k mod 4 < (4::int)" "0 \<le> k mod (10::int)" "k mod 10 < (10::int)"
  by simp_all

lemma scale_cases: "seed_profile p \<Longrightarrow> pf_scale p = 1 \<or> pf_scale p = 10"
  by (auto simp: seed_profile_def new_profile_def)

lemma run_bounds:
  assumes "seed_profile p" "0 \<le> d" "d < 28" "0 \<le> k" "k < 4 * pf_scale p"
  shows "0 \<le> d * (4 * pf_scale p) + k" "d * (4 * pf_scale p) + k < 112 * pf_scale p"
  using scale_cases [OF assms(1)] assms by auto

lemma ingest_run_row_ok:
  assumes "seed_profile p" "0 \<le> d" "d < 28" "0 \<le> k" "k < 4 * pf_scale p"
  shows "row_ok t_ingest_run (file_row ''ingest_run'' (ingest_run_row p d k))"
  using run_bounds [OF assms] scale_cases [OF assms(1)] mod_bounds(2) [of k]
  by (intro file_rowI)
    (auto simp: row_simps t_ingest_run_def ingest_run_row_def file_row_def)

lemma ingest_run_history_row_ok:
  assumes "seed_profile p" "0 \<le> d" "d < 365" "0 \<le> k" "k < 3"
  shows "row_ok t_ingest_run (file_row ''ingest_run'' (ingest_run_history_row p d k))"
proof -
  have "pf_history_shops p = 3" using assms(1) by (auto simp: seed_profile_def new_profile_def)
  then show ?thesis using assms
  by (intro file_rowI)
    (auto simp: row_simps t_ingest_run_def ingest_run_history_row_def file_row_def history_run_offset_def)
qed

lemma history_consts:
  "seed_profile p \<Longrightarrow> pf_history_shops p = 3" "seed_profile p \<Longrightarrow> pf_history_cards p = 200"
  "seed_profile p \<Longrightarrow> pf_history_days p = 365" "seed_profile p \<Longrightarrow> pf_days p = 28"
  by (auto simp: seed_profile_def new_profile_def)

lemma raw_artifact_row_ok:
  assumes "seed_profile p" "0 \<le> i" "i < pf_raw_artifact p"
  shows "row_ok t_raw_artifact (file_row ''raw_artifact'' (raw_artifact_row p i))"
proof -
  have i: "i < 140000" using assms scale_cases [OF assms(1)]
    by (auto simp: pf_raw_artifact_def history_consts)
  have d: "0 \<le> i div (500 * pf_scale p)" "i div (500 * pf_scale p) \<le> i"
    using scale_cases [OF assms(1)] assms(2) by auto
  have k: "0 \<le> i mod (500 * pf_scale p) mod (4 * pf_scale p)"
     "i mod (500 * pf_scale p) mod (4 * pf_scale p) < 4 * pf_scale p"
    using scale_cases [OF assms(1)] by auto
  let ?k = "i mod (500 * pf_scale p) mod (4 * pf_scale p)"
  have run: "0 \<le> i div (500 * pf_scale p) * (4 * pf_scale p) + ?k"
     "i div (500 * pf_scale p) * (4 * pf_scale p) + ?k < 6000000"
    using scale_cases [OF assms(1)] d k i by auto
  have s: "length (source_slug (?k mod 4 + 1)) \<le> 18"
    using mod_bounds(1,2) [of ?k] by (intro source_slug_length) simp_all
  have l: "length (py_str i) \<le> 6" "length (hex8 i) = 8" "length (hex8 (h x)) = 8" for x
    using assms(2) i h_range [of x] by (auto intro: py_str_length)
  show ?thesis
    using run s l mod_bounds(2) [of ?k] assms(2) i
    by (intro file_rowI)
      (auto simp: row_simps t_raw_artifact_def raw_artifact_row_def file_row_def)
qed

lemma raw_artifact_history_row_ok:
  assumes "seed_profile p" "0 \<le> d" "d < 365" "0 \<le> k" "k < 3"
  shows "row_ok t_raw_artifact (file_row ''raw_artifact'' (raw_artifact_history_row p d k))"
proof -
  have i: "0 \<le> d * 3 + k" "d * 3 + k < 10000" using assms by auto
  then have l: "length (py_str (d * 3 + k)) \<le> 4" by (auto intro: py_str_length)
  show ?thesis
    using i l assms history_consts(1) [OF assms(1)]
    by (intro file_rowI)
      (auto simp: row_simps t_raw_artifact_def raw_artifact_history_row_def file_row_def
        history_id_offset_def history_run_offset_def)
qed

lemma processing_run_row_ok:
  assumes "0 \<le> i" "i < 140000"
  shows "row_ok t_processing_run (file_row ''processing_run'' (processing_run_row p i))"
  using assms
  by (intro file_rowI)
    (auto simp: row_simps t_processing_run_def processing_run_row_def file_row_def records_per_run_def)

lemma processing_run_history_row_ok:
  assumes "seed_profile p" "0 \<le> i" "i < 1095"
  shows "row_ok t_processing_run (file_row ''processing_run'' (processing_run_history_row p i))"
  using assms(2,3) history_consts [OF assms(1)]
  by (intro file_rowI)
    (auto simp: row_simps t_processing_run_def processing_run_history_row_def file_row_def
      history_id_offset_def)

lemma extracted_record_row_ok:
  assumes "0 \<le> i" "i < 8400000"
  shows "row_ok t_extracted_record (file_row ''extracted_record'' (extracted_record_row p i))"
proof -
  have run: "0 \<le> i div 60" "i div 60 < 140000" using assms by auto
  have l: "length (py_str (i mod 60)) \<le> 2" by (rule py_str_length) simp_all
  define m where "m = h (i + 9) mod 100"
  have hm: "0 \<le> m" "m < 100" by (simp_all add: m_def)
  define b where "b \<longleftrightarrow> h (i + 9) mod 10 = 0"
  define b' where "b' \<longleftrightarrow> h (i + 9) mod 17 = 0"
  define b'' where "b'' \<longleftrightarrow> h (i + 9) mod 23 = 0"
  show ?thesis
    using assms run l hm
    by (intro file_rowI)
      (auto simp: row_simps t_extracted_record_def extracted_record_row_def file_row_def
        records_per_run_def m_def [symmetric] b_def [symmetric] b'_def [symmetric] b''_def [symmetric])
qed

text \<open>A history index as its day, shop slot and card.\<close>

lemma history_bounds:
  assumes "seed_profile p" "0 \<le> i" "i < pf_history_rows p"
  shows "0 \<le> history_day p i" "history_day p i < 365" "0 \<le> history_slot p i" "history_slot p i < 3"
    "0 \<le> history_card p i" "history_card p i < 200" "i < 219000"
  using assms(2,3)
  by (auto simp: history_day_def history_slot_def history_card_def history_consts [OF assms(1)]
    pf_history_rows_def)

lemma extracted_record_history_row_ok:
  assumes "seed_profile p" "0 \<le> i" "i < pf_history_rows p"
  shows "row_ok t_extracted_record (file_row ''extracted_record'' (extracted_record_history_row p i))"
proof -
  note b = history_bounds [OF assms]
  have l: "length (py_str (history_card p i)) \<le> 3" using b by (intro py_str_length) simp_all
  show ?thesis
    using b l assms(2) history_consts(1) [OF assms(1)]
    by (intro file_rowI)
      (auto simp: row_simps t_extracted_record_def extracted_record_history_row_def file_row_def
        history_id_offset_def)
qed

lemma price_for_big: "0 \<le> price_for i" "- 9223372036854775808 \<le> price_for i"
    "price_for i < 9223372036854775808"
  using price_for_range [of i] by simp_all

lemma card_columns_length:
  assumes "0 \<le> c" "c < 120000"
  shows "length (card_name hv c) \<le> 200" "length (dd 3 (c div 1000)) = 3"
  using card_name_length [OF assms] assms by (auto intro: dd_length)

lemma seed_cards: "seed_profile p \<Longrightarrow> 12000 \<le> pf_cards p \<and> pf_cards p \<le> 120000"
  by (auto simp: seed_profile_def new_profile_def pf_cards_def)

lemma card_for_bounds: "seed_profile p \<Longrightarrow> 0 \<le> card_for i (pf_cards p) \<and> card_for i (pf_cards p) < 120000"
  using card_for_range [of "pf_cards p" i] seed_cards [of p] by linarith

lemma observation_candidate_row_ok:
  assumes "seed_profile p" "0 \<le> i" "i < 8400000"
  shows "row_ok t_observation_candidate
    (file_row ''observation_candidate'' (observation_candidate_row p i))"
proof -
  define c where "c = card_for i (pf_cards p)"
  have c: "0 \<le> c" "c < 120000" using card_for_bounds [OF assms(1), of i] by (simp_all add: c_def)
  define k where "k = i div records_per_run mod (500 * pf_scale p) mod (4 * pf_scale p)"
  show ?thesis
    using assms(2,3) card_columns_length [OF c] mod_bounds(1,2) [of k] price_for_big [of i]
    by (intro file_rowI)
      (auto simp: row_simps t_observation_candidate_def observation_candidate_row_def file_row_def
        c_def [symmetric] k_def [symmetric] le_trans [OF conditions_length])
qed

lemma observation_candidate_history_row_ok:
  assumes "seed_profile p" "0 \<le> i" "i < pf_history_rows p"
  shows "row_ok t_observation_candidate
    (file_row ''observation_candidate'' (observation_candidate_history_row p i))"
proof -
  note b = history_bounds [OF assms]
  show ?thesis
    using assms(2) b card_columns_length [of "history_card p i"] dd_length [of "history_card p i" 3]
      price_for_big [of "history_card p i * 1000 + history_day p i"]
    by (intro file_rowI)
      (auto simp: row_simps t_observation_candidate_def observation_candidate_history_row_def
        file_row_def history_id_offset_def le_trans [OF conditions_length])
qed

lemma attempt_row_ok:
  assumes "0 < a" "a < 2 ^ 62" "0 < c" "c < 2 ^ 62" "0 \<le> s" "s \<le> 10000"
    "r = ''confirmed'' \<or> r = ''rejected''" "length e \<le> 120"
  shows "row_ok t_identity_resolution_attempt
    (file_row ''identity_resolution_attempt'' (attempt_row a c k s r e t))"
  using assms
  by (intro file_rowI)
    (auto simp: row_simps t_identity_resolution_attempt_def attempt_row_def file_row_def)

lemma attempt_rows_ok:
  assumes "0 \<le> i" "i < 8400000" "r \<in> set (attempt_rows p i)"
  shows "row_ok t_identity_resolution_attempt (file_row ''identity_resolution_attempt'' r)"
proof -
  have hm: "0 \<le> h i mod 30" "h i mod 30 < 30" "0 \<le> h (i + 1) mod 400" "h (i + 1) mod 400 < 400"
    by simp_all
  show ?thesis
    using assms hm by (auto simp: attempt_rows_def Let_def intro!: attempt_row_ok)
qed

lemma attempt_history_rows_ok:
  assumes "0 \<le> i" "i < 219000" "r \<in> set (attempt_history_rows p i)"
  shows "row_ok t_identity_resolution_attempt (file_row ''identity_resolution_attempt'' r)"
  using assms
  by (auto simp: attempt_history_rows_def Let_def history_id_offset_def intro!: attempt_row_ok)

lemma review_item_row_ok:
  assumes "seed_profile p" "0 \<le> i" "i < 840000"
  shows "row_ok t_review_item (file_row ''review_item'' (review_item_row p i))"
proof -
  define n where "n = i * 10 div records_per_run"
  have n: "0 \<le> n" "n \<le> 140000" using assms by (auto simp: n_def records_per_run_def)
  define k where "k = n mod (500 * pf_scale p) mod (4 * pf_scale p)"
  have k: "0 \<le> k" "k < 40" using scale_cases [OF assms(1)] by (auto simp: k_def)
  define d where "d = n div (500 * pf_scale p)"
  have d: "0 \<le> d" "d < 300" using scale_cases [OF assms(1)] n by (auto simp: d_def)
  have run: "0 \<le> d * (4 * pf_scale p) + k" "d * (4 * pf_scale p) + k < 1000000"
    using scale_cases [OF assms(1)] d k by auto
  have hm: "0 \<le> h (i + 77) mod 5" "h (i + 77) mod 5 < 5" by simp_all
  show ?thesis
    using run hm n assms(2,3)
    by (intro file_rowI)
      (auto simp: row_simps t_review_item_def review_item_row_def file_row_def
        n_def [symmetric] k_def [symmetric] d_def [symmetric])
qed

lemma base_day_value: "base_day = 63922435200000000"
  by code_simp

lemma date_text_near:
  assumes "base_day - 400 * 86400000000 \<le> t" "t \<le> base_day + 400 * 86400000000"
  shows "length (date_text t) \<le> 11"
  using assms by (intro date_text_length) (simp_all add: base_day_value)

lemma moment_near:
  assumes "0 \<le> d" "d < 300" "0 \<le> s" "s < 3600" "0 \<le> hr" "hr < 24"
  shows "base_day - 400 * 86400000000 \<le> moment d hr 0 s"
    "moment d hr 0 s \<le> base_day + 400 * 86400000000"
  using assms by (simp_all add: moment_def micros_def algebra_simps)

lemma history_moment_near:
  assumes "seed_profile p" "0 \<le> i" "i < pf_history_rows p" "0 \<le> hr" "hr < 24"
  shows "base_day - 400 * 86400000000 \<le> history_moment p i hr"
    "history_moment p i hr \<le> base_day + 400 * 86400000000"
  using history_bounds(1,2) [OF assms(1-3)] assms(4,5) history_consts(3) [OF assms(1)]
  by (simp_all add: history_moment_def micros_def algebra_simps)

lemma key_length:
  assumes "1 \<le> k" "k \<le> 4" "0 \<le> a" "a < 1000000000" "0 \<le> r" "r < 1000" "length pt \<le> 4"
    "length d \<le> 11"
  shows "length (idempotency_key (source_slug k) a r pt d (lit (pick conditions n))) \<le> 120"
proof -
  have "length (source_slug k) \<le> 18" "length (py_str a) \<le> 9" "length (py_str r) \<le> 3"
    using assms by (auto intro: source_slug_length py_str_length)
  with assms(7,8) conditions_length [of n] show ?thesis
    by (simp add: idempotency_key_def del: conditions_length)
qed

lemma price_observation_row_ok:
  assumes "seed_profile p" "0 \<le> i" "i < pf_price_observation p"
  shows "row_ok t_price_observation (file_row ''price_observation'' (price_observation_row p i))"
proof -
  define n where "n = i div records_per_run"
  have i: "i < 8400000"
    using assms scale_cases [OF assms(1)] by (auto simp: pf_price_observation_def history_consts)
  have n: "0 \<le> n" "n < 140000" using assms(2) i by (auto simp: n_def records_per_run_def)
  define k where "k = n mod (500 * pf_scale p) mod (4 * pf_scale p) mod 4"
  have k: "0 \<le> k" "k < 4" by (simp_all add: k_def)
  define d where "d = n div (500 * pf_scale p)"
  define o' where "o' = n mod (500 * pf_scale p) mod 3600"
  have d: "0 \<le> d" "d < 300" "0 \<le> o'" "o' < 3600"
    using scale_cases [OF assms(1)] n by (auto simp: d_def o'_def)
  define key where "key = idempotency_key (source_slug (k + 1)) n (i mod records_per_run)
      (lit (if h (i + 3) mod 4 \<noteq> 0 then ''buy'' else ''sell'')) (date_text (moment d 3 0 o'))
      (lit (pick conditions (h (i + 5))))"
  have key: "length key \<le> 120"
    unfolding key_def using k n d
    by (intro key_length date_text_near moment_near) (simp_all add: records_per_run_def)
  have row: "price_observation_row p i =
    [VInt (i + 1), VInt (i + 1), VText (card_uuid (card_for i (pf_cards p))), VInt (k + 1), VInt (k + 1),
       VInt (n + 1), VText tcg, VInt (price_for i), VText currency,
       VText (lit (if h (i + 3) mod 4 \<noteq> 0 then ''buy'' else ''sell'')),
       VText (lit (pick conditions (h (i + 5)))), VTime (moment d 3 0 o'),
       VTime (moment d 3 0 o' + micros 0 0 6 0), VNull, VNull, VText key,
       VTime (moment d 3 0 o' + micros 0 0 6 0)]"
    by (simp only: price_observation_row_def Let_def n_def k_def d_def o'_def key_def)
  show ?thesis
    unfolding row using k n d key assms(2) i price_for_big [of i]
    by (intro file_rowI)
      (auto simp: row_simps t_price_observation_def file_row_def le_trans [OF conditions_length])
qed

lemma price_observation_history_row_ok:
  assumes "seed_profile p" "0 \<le> i" "i < pf_history_rows p"
  shows "row_ok t_price_observation
    (file_row ''price_observation'' (price_observation_history_row p i))"
proof -
  note b = history_bounds [OF assms]
  have key: "length (idempotency_key (source_slug (history_slot p i + 1)) (history_id_offset + i)
      (history_card p i) (lit ''buy'') (date_text (history_moment p i 3))
      (lit (pick conditions (h (history_card p i))))) \<le> 120"
    using b assms(2) history_moment_near [OF assms, of 3]
    by (intro key_length date_text_near) (simp_all add: history_id_offset_def)
  show ?thesis
    using b key assms(2) price_for_big [of "history_card p i * 1000 + history_day p i"]
      history_consts(1) [OF assms(1)]
    by (intro file_rowI)
      (auto simp: row_simps t_price_observation_def price_observation_history_row_def file_row_def
        history_id_offset_def le_trans [OF conditions_length])
qed

subsection \<open>Identifiers and keys\<close>

lemma set_py_range [simp]: "set (py_range n) = {0..<n}"
  by (auto simp: py_range_def)

lemma distinct_py_range [simp]: "distinct (py_range n)"
  by (simp add: py_range_def)

lemma py_range_Suc: "0 \<le> n \<Longrightarrow> py_range (n + 1) = py_range n @ [n]"
  by (simp add: py_range_def upto_rec2)

lemma py_range_add: "0 \<le> n \<Longrightarrow> 0 \<le> m \<Longrightarrow> py_range (m + n) = py_range m @ map ((+) m) (py_range n)"
proof (induction n rule: int_ge_induct)
  case base
  then show ?case by (simp add: py_range_def)
next
  case (step n)
  then show ?case using py_range_Suc [of "m + n"] py_range_Suc [of n] by (simp add: ac_simps)
qed

lemma nested_flat: "0 \<le> m \<Longrightarrow> 0 \<le> n \<Longrightarrow> nested (\<lambda>i j. f (i * n + j)) m n = map f (py_range (m * n))"
proof (induction m rule: int_ge_induct)
  case base
  then show ?case by (simp add: nested_def py_range_def)
next
  case (step m)
  have "nested (\<lambda>i j. f (i * n + j)) (m + 1) n =
      nested (\<lambda>i j. f (i * n + j)) m n @ map (\<lambda>j. f (m * n + j)) (py_range n)"
    using step.hyps by (simp add: nested_def py_range_Suc)
  also have "\<dots> = map f (py_range (m * n) @ map ((+) (m * n)) (py_range n))"
    using step by simp
  also have "\<dots> = map f (py_range ((m + 1) * n))"
    using step py_range_add [of n "m * n"] by (simp add: distrib_right)
  finally show ?case .
qed

lemma map_nested: "map g (nested f m n) = nested (\<lambda>i j. g (f i j)) m n"
  by (simp add: nested_def map_concat comp_def)

lemma nested_cong:
  "(\<And>i j. 0 \<le> i \<Longrightarrow> i < m \<Longrightarrow> 0 \<le> j \<Longrightarrow> j < n \<Longrightarrow> f i j = g i j) \<Longrightarrow> nested f m n = nested g m n"
  unfolding nested_def by (intro arg_cong [where f = concat] map_cong) auto

lemma set_nested: "set (nested f m n) = {f i j | i j. 0 \<le> i \<and> i < m \<and> 0 \<le> j \<and> j < n}"
  by (fastforce simp: nested_def)

text \<open>Consecutive identifiers from \<open>a + 1\<close> on.\<close>

definition id_block :: "int \<Rightarrow> int \<Rightarrow> dbval list" where
  "id_block a n = map (\<lambda>k. VInt (a + k + 1)) (py_range n)"

lemma in_id_block [simp]: "VInt k \<in> set (id_block a n) \<longleftrightarrow> a < k \<and> k \<le> a + n"
  by (auto simp: id_block_def image_iff intro: bexI [of _ "k - a - 1"])

lemma id_block_ints: "v \<in> set (id_block a n) \<Longrightarrow> \<exists>k. v = VInt k"
  by (auto simp: id_block_def)

lemma distinct_id_blocks:
  "a + n \<le> b \<Longrightarrow> distinct (id_block a n @ id_block b m)"
  by (auto simp: id_block_def distinct_map inj_on_def)

definition column_of :: "string \<Rightarrow> string \<Rightarrow> dbval list list \<Rightarrow> dbval list" where
  "column_of t c vss = map (\<lambda>vs. cell (file_row t vs) c) vss"

lemma column_of_append: "column_of t c (xs @ ys) = column_of t c xs @ column_of t c ys"
  by (simp add: column_of_def)

lemma column_of_list:
  "column_of t c [] = []" "column_of t c (vs # vss) = cell (file_row t vs) c # column_of t c vss"
  by (simp_all add: column_of_def)

lemma column_of_map: "column_of t c (map f xs) = map (\<lambda>x. cell (file_row t (f x)) c) xs"
  by (simp add: column_of_def)

lemma column_of_nested:
  "column_of t c (nested f m n) = nested (\<lambda>i j. cell (file_row t (f i j)) c) m n"
  by (simp add: column_of_def map_nested)

lemma column_of_concat:
  "column_of t c (concat (map f xs)) = concat (map (\<lambda>x. column_of t c (f x)) xs)"
  by (simp add: column_of_def map_concat comp_def)

lemmas column_simps = column_of_append column_of_map column_of_nested column_of_concat

lemma nested_ids:
  "0 \<le> m \<Longrightarrow> 0 \<le> n \<Longrightarrow> nested (\<lambda>i j. VInt (i * n + j + 1)) m n = id_block 0 (m * n)"
  "0 \<le> m \<Longrightarrow> 0 \<le> n \<Longrightarrow> nested (\<lambda>i j. VInt (a + i * n + j + 1)) m n = id_block a (m * n)"
  using nested_flat [of m n "\<lambda>k. VInt (k + 1)"] nested_flat [of m n "\<lambda>k. VInt (a + k + 1)"]
  by (simp_all add: id_block_def ac_simps)

lemma ingest_run_ids:
  assumes "seed_profile p"
  shows "column_of ''ingest_run'' ''id'' (gen_ingest_run p) =
    id_block 0 (112 * pf_scale p) @ id_block history_run_offset 1095"
proof -
  have "nested (\<lambda>i j. VInt (i * (4 * pf_scale p) + j + 1)) (pf_days p) (4 * pf_scale p) =
      id_block 0 (112 * pf_scale p)"
    using nested_ids(1) [of 28 "4 * pf_scale p"] scale_cases [OF assms]
    by (auto simp: history_consts [OF assms])
  moreover have "nested (\<lambda>i j. VInt (history_run_offset + i * 3 + j + 1)) 365 3 =
      id_block history_run_offset 1095"
    using nested_ids(2) [of 365 3 history_run_offset] by simp
  ultimately show ?thesis
    by (simp add: gen_ingest_run_def column_simps ingest_run_row_def ingest_run_history_row_def
      file_row_def file_columns_of t_ingest_run_def Let_def history_consts [OF assms])
qed

lemma raw_artifact_ids:
  assumes "seed_profile p"
  shows "column_of ''raw_artifact'' ''id'' (gen_raw_artifact p) =
    id_block 0 (pf_raw_artifact p) @ id_block history_id_offset 1095"
proof -
  have "nested (\<lambda>i j. VInt (history_id_offset + i * 3 + j + 1)) 365 3 =
      id_block history_id_offset 1095"
    using nested_ids(2) [of 365 3 history_id_offset] by simp
  then show ?thesis
    by (simp add: gen_raw_artifact_def column_simps raw_artifact_row_def raw_artifact_history_row_def
      file_row_def file_columns_of t_raw_artifact_def Let_def history_consts [OF assms]
      id_block_def [of 0] add.assoc [symmetric])
qed

lemma processing_run_ids:
  assumes "seed_profile p" "c = ''id'' \<or> c = ''raw_artifact_id''"
  shows "column_of ''processing_run'' c (gen_processing_run p) =
    id_block 0 (pf_raw_artifact p) @ id_block history_id_offset 1095"
  using assms(2)
  by (auto simp: gen_processing_run_def column_simps processing_run_row_def
    processing_run_history_row_def file_row_def file_columns_of t_processing_run_def Let_def
    history_consts [OF assms(1)] id_block_def)

lemma extracted_record_ids:
  "column_of ''extracted_record'' ''id'' (gen_extracted_record p) =
    id_block 0 (pf_extracted_record p) @ id_block history_id_offset (pf_history_rows p)"
  by (simp add: gen_extracted_record_def column_simps extracted_record_row_def
    extracted_record_history_row_def file_row_def file_columns_of t_extracted_record_def Let_def
    id_block_def)

lemma observation_candidate_ids:
  "c = ''id'' \<or> c = ''extracted_record_id'' \<Longrightarrow>
     column_of ''observation_candidate'' c (gen_observation_candidate p) =
       id_block 0 (pf_observation_candidate p) @ id_block history_id_offset (pf_history_rows p)"
  by (auto simp: gen_observation_candidate_def column_simps observation_candidate_row_def
    observation_candidate_history_row_def file_row_def file_columns_of t_observation_candidate_def
    Let_def id_block_def)

lemma price_observation_ids:
  "column_of ''price_observation'' ''id'' (gen_price_observation p) =
    id_block 0 (pf_price_observation p) @ id_block history_id_offset (pf_history_rows p)"
  by (simp add: gen_price_observation_def column_simps price_observation_row_def
    price_observation_history_row_def file_row_def file_columns_of t_price_observation_def Let_def
    id_block_def)

lemma review_item_ids:
  "column_of ''review_item'' ''id'' (gen_review_item p) = id_block 0 (pf_review_item p)"
  by (simp add: gen_review_item_def column_simps review_item_row_def file_row_def file_columns_of
    t_review_item_def Let_def id_block_def)

lemma pair_ids:
  assumes "0 \<le> n"
  shows "concat (map (\<lambda>i. [VInt (a + 2 * i + 1), VInt (a + 2 * i + 2)]) (py_range n)) =
    id_block a (2 * n)"
proof -
  have "py_range 2 = [0, 1]" by code_simp
  then have "concat (map (\<lambda>i. [VInt (a + 2 * i + 1), VInt (a + 2 * i + 2)]) (py_range n)) =
      nested (\<lambda>i j. VInt (a + i * 2 + j + 1)) n 2"
    by (simp add: nested_def ac_simps)
  with nested_ids(2) [of n 2 a] assms show ?thesis by (simp add: ac_simps)
qed

lemma attempt_ids:
  assumes "seed_profile p"
  shows "column_of ''identity_resolution_attempt'' ''id'' (gen_identity_resolution_attempt p) =
    id_block 0 (2 * pf_observation_candidate p) @
    id_block (history_id_offset * 2) (2 * pf_history_rows p)"
proof -
  have n: "0 \<le> pf_observation_candidate p" "0 \<le> pf_history_rows p"
    using assms by (auto simp: seed_profile_def profile_simps)
  show ?thesis
    by (simp add: gen_identity_resolution_attempt_def column_simps attempt_rows_def
      attempt_history_rows_def attempt_row_def file_row_def file_columns_of
      t_identity_resolution_attempt_def Let_def column_of_list pair_ids [OF n(1), of 0, simplified]
      pair_ids [OF n(2)])
qed

subsection \<open>Unique values\<close>

definition hex_val :: "pystr \<Rightarrow> int" where
  "hex_val s = foldl (\<lambda>a c. 16 * a + (if c < 58 then c - 48 else c - 87)) 0 s"

lemma hex_val_digits: "0 \<le> n \<Longrightarrow> hex_val (hex_digits n) = n"
proof (induction n rule: hex_digits.induct)
  case (1 n)
  show ?case
  proof (cases "n < 16")
    case True
    with "1.prems" show ?thesis by (simp add: hex_digits.simps [of n] hex_val_def hex_digit_def)
  next
    case False
    with "1" have "hex_val (hex_digits (n div 16)) = n div 16" by simp
    with False show ?thesis
      by (simp add: hex_digits.simps [of n] hex_val_def hex_digit_def)
  qed
qed

lemma hex_val_zeros: "hex_val (replicate k 48 @ s) = hex_val s"
  by (induction k) (simp_all add: hex_val_def)

lemma hex8_inj: "0 \<le> m \<Longrightarrow> 0 \<le> n \<Longrightarrow> hex8 m = hex8 n \<longleftrightarrow> m = n"
  unfolding hex8_def zero_pad_def by (metis hex_val_digits hex_val_zeros)

lemma dd_inj: "0 \<le> m \<Longrightarrow> 0 \<le> n \<Longrightarrow> dd w m = dd w n \<longleftrightarrow> m = n"
  unfolding dd_def zero_pad_def by (metis num_value_dec num_value_zeros)

lemma py_str_inj: "0 \<le> m \<Longrightarrow> 0 \<le> n \<Longrightarrow> py_str m = py_str n \<longleftrightarrow> m = n"
  by (simp add: py_str_def dec_digits_inj_iff)

text \<open>The field up to the first separator.\<close>

lemma sep_inj:
  assumes "c \<notin> set s" "c \<notin> set t"
  shows "s @ c # r = t @ c # r' \<longleftrightarrow> s = t \<and> r = r'"
proof
  assume e: "s @ c # r = t @ c # r'"
  have tw: "takeWhile (\<lambda>x. x \<noteq> c) (u @ c # v) = u" if "c \<notin> set u" for u v
    using that by (induction u) auto
  have "s = t" using tw [OF assms(1), of r] tw [OF assms(2), of r'] e by simp
  with e show "s = t \<and> r = r'" by simp
qed simp

lemma py_str_no_sep: "0 \<le> n \<Longrightarrow> 124 \<notin> set (py_str n)"
  using dec_digits_range [of n 124] by (auto simp: py_str_def)

lemma slug_no_sep: "1 \<le> k \<Longrightarrow> k \<le> 4 \<Longrightarrow> 124 \<notin> set (source_slug k)"
proof -
  assume "1 \<le> k" "k \<le> 4"
  then have "k = 1 \<or> k = 2 \<or> k = 3 \<or> k = 4" by auto
  then show ?thesis by (elim disjE) (simp_all add: source_slug_def sources_def lit_def)
qed

text \<open>A key determines the artifact index and the row.\<close>

lemma idempotency_key_inj:
  assumes "1 \<le> k" "k \<le> 4" "1 \<le> k'" "k' \<le> 4" "0 \<le> a" "0 \<le> a'" "0 \<le> r" "0 \<le> r'"
    "idempotency_key (source_slug k) a r pt d c = idempotency_key (source_slug k') a' r' pt' d' c'"
  shows "a = a'" "r = r'"
  using assms(9)
  by (simp_all add: idempotency_key_def sep_inj slug_no_sep py_str_no_sep assms(1-8) py_str_inj)

lemma seed_sizes:
  assumes "seed_profile p"
  shows "0 \<le> pf_raw_artifact p" "pf_raw_artifact p \<le> 140000" "0 \<le> pf_price_observation p"
    "pf_price_observation p \<le> 8400000" "pf_history_rows p = 219000" "0 \<le> pf_cards p"
    "pf_cards p \<le> 120000" "pf_extracted_record p = pf_price_observation p"
    "pf_observation_candidate p = pf_price_observation p" "0 \<le> pf_review_item p"
    "pf_review_item p \<le> 840000"
    "pf_price_observation p = 60 * pf_raw_artifact p" "10 * pf_review_item p = pf_price_observation p"
    "pf_raw_artifact p = 14000 * pf_scale p"
  using assms by (auto simp: seed_profile_def profile_simps)

lemma slot_source:
  assumes "seed_profile p"
  shows "1 \<le> n mod (500 * pf_scale p) mod (4 * pf_scale p) mod 4 + 1"
    "n mod (500 * pf_scale p) mod (4 * pf_scale p) mod 4 + 1 \<le> 4"
  using mod_bounds(1,2) [of "n mod (500 * pf_scale p) mod (4 * pf_scale p)"] by simp_all

lemma of_key_inj:
  assumes "seed_profile p" "0 \<le> i" "0 \<le> j"
    "of_key (observation_fields i p) = of_key (observation_fields j p)"
  shows "i = j"
proof -
  note s = slot_source [OF assms(1)]
  have "i div 60 = j div 60" "i mod 60 = j mod 60"
    using idempotency_key_inj [OF s s, of "i div 60" "j div 60" "i mod 60" "j mod 60"] assms(2-4)
    by (auto simp: observation_fields_def Let_def records_per_run_def)
  then show ?thesis by (metis mult_div_mod_eq)
qed

definition history_key :: "profile \<Rightarrow> int \<Rightarrow> pystr" where
  "history_key p i = idempotency_key (source_slug (history_slot p i + 1)) (history_id_offset + i)
     (history_card p i) (lit ''buy'') (date_text (history_moment p i 3))
     (lit (pick conditions (h (history_card p i))))"

lemma history_key_inj:
  assumes "seed_profile p" "0 \<le> i" "i < pf_history_rows p" "0 \<le> j" "j < pf_history_rows p"
    "history_key p i = history_key p j"
  shows "i = j"
  using idempotency_key_inj(1) [of "history_slot p i + 1" "history_slot p j + 1"
      "history_id_offset + i" "history_id_offset + j" "history_card p i" "history_card p j"]
    history_bounds [OF assms(1-3)] history_bounds [OF assms(1,4,5)] assms
  by (simp add: history_key_def history_id_offset_def)

lemma history_key_new:
  assumes "seed_profile p" "0 \<le> i" "i < pf_price_observation p" "0 \<le> j" "j < pf_history_rows p"
  shows "of_key (observation_fields i p) \<noteq> history_key p j"
proof
  assume e: "of_key (observation_fields i p) = history_key p j"
  note s = slot_source [OF assms(1)]
  have "i div 60 = history_id_offset + j"
    using idempotency_key_inj(1) [OF s, of "history_slot p j + 1" "i div 60" "history_id_offset + j"
        "i mod 60" "history_card p j"] history_bounds [OF assms(1,4,5)] assms(2,4) e
    by (auto simp: observation_fields_def Let_def records_per_run_def history_key_def
      history_id_offset_def)
  with assms seed_sizes(4) [OF assms(1)] show False by (simp add: history_id_offset_def)
qed

lemma price_observation_keys:
  "column_of ''price_observation'' ''idempotency_key'' (gen_price_observation p) =
     map (\<lambda>i. VText (of_key (observation_fields i p))) (py_range (pf_price_observation p)) @
     map (\<lambda>i. VText (history_key p i)) (py_range (pf_history_rows p))"
  by (simp add: gen_price_observation_def column_simps price_observation_row_def
    price_observation_history_row_def file_row_def file_columns_of t_price_observation_def Let_def
    observation_fields_def history_key_def)

lemma price_observation_keys_distinct:
  assumes "seed_profile p"
  shows "distinct (column_of ''price_observation'' ''idempotency_key'' (gen_price_observation p))"
  unfolding price_observation_keys
  using of_key_inj [OF assms] history_key_inj [OF assms] history_key_new [OF assms]
  by (auto simp: distinct_map inj_on_def)

text \<open>Content hashes: the last eight digits are the row's index.\<close>

lemma raw_artifact_hashes:
  assumes "seed_profile p"
  shows "column_of ''raw_artifact'' ''content_hash'' (gen_raw_artifact p) =
     map (\<lambda>i. VText (hex8 (h (i + 1)) @ hex8 (h (i + 2)) @ hex8 (h (i + 3)) @ hex8 (h (i + 4)) @
       hex8 i)) (py_range (pf_raw_artifact p)) @
     map (\<lambda>i. VText (concat (replicate 7 (hex8 (h (history_id_offset + i + 1)))) @ hex8 i))
       (py_range 1095)"
proof -
  have l: "length (hex8 (h x)) = 8" for x using h_range [of x] by simp
  have l7: "length (concat (replicate 7 (hex8 (h x)))) = 56" for x
    by (simp add: l length_concat sum_list_replicate)
  have "nested (\<lambda>i j. VText (concat (replicate 7 (hex8 (h (history_id_offset + (i * 3 + j) + 1)))) @
      hex8 (i * 3 + j))) 365 3 =
    map (\<lambda>i. VText (concat (replicate 7 (hex8 (h (history_id_offset + i + 1)))) @ hex8 i))
       (py_range 1095)"
    using nested_flat [of 365 3 "\<lambda>i. VText (concat (replicate 7 (hex8 (h (history_id_offset + i + 1)))) @ hex8 i)"]
    by simp
  moreover have "nested (\<lambda>i j. VText (take 64 (concat (replicate 7
        (hex8 (h (history_id_offset + (i * 3 + j) + 1)))) @ hex8 (i * 3 + j)))) 365 3 =
    nested (\<lambda>i j. VText (concat (replicate 7 (hex8 (h (history_id_offset + (i * 3 + j) + 1)))) @
      hex8 (i * 3 + j))) 365 3"
    by (rule nested_cong) (simp add: l7)
  ultimately show ?thesis
    by (simp add: gen_raw_artifact_def column_simps raw_artifact_row_def raw_artifact_history_row_def
      file_row_def file_columns_of t_raw_artifact_def Let_def history_consts [OF assms] l)
qed

lemma raw_artifact_hashes_distinct:
  assumes "seed_profile p"
  shows "distinct (column_of ''raw_artifact'' ''content_hash'' (gen_raw_artifact p))"
proof -
  have l: "length (hex8 (h x)) = 8" for x using h_range [of x] by simp
  have li: "length (hex8 i) = 8" if "0 \<le> i" "i < 140000" for i using that by simp
  have l7: "length (concat (replicate 7 (hex8 (h x)))) = 56" for x
    by (simp add: l length_concat sum_list_replicate)
  have tail: "i = j" if "a @ hex8 i = b @ hex8 j" "0 \<le> i" "i < 140000" "0 \<le> j" "j < 140000" for a b i j
    using that li [of i] li [of j] by (simp add: hex8_inj)
  have n: "pf_raw_artifact p \<le> 140000" using seed_sizes(2) [OF assms] .
  have 1: "inj_on (\<lambda>i. VText (hex8 (h (i + 1)) @ hex8 (h (i + 2)) @ hex8 (h (i + 3)) @ hex8 (h (i + 4)) @
       hex8 i)) {0..<pf_raw_artifact p}"
    using tail n by (intro inj_onI) (force simp flip: append_assoc)
  have 2: "inj_on (\<lambda>i. VText (concat (replicate 7 (hex8 (h (history_id_offset + i + 1)))) @ hex8 i)) {0..<1095}"
    using tail by (intro inj_onI) force
  have 3: "hex8 (h (i + 1)) @ hex8 (h (i + 2)) @ hex8 (h (i + 3)) @ hex8 (h (i + 4)) @ hex8 i \<noteq>
      concat (replicate 7 (hex8 (h (history_id_offset + j + 1)))) @ hex8 j"
    if "0 \<le> i" "i < pf_raw_artifact p" "0 \<le> j" "j < 1095" for i j
  proof
    assume "hex8 (h (i + 1)) @ hex8 (h (i + 2)) @ hex8 (h (i + 3)) @ hex8 (h (i + 4)) @ hex8 i =
      concat (replicate 7 (hex8 (h (history_id_offset + j + 1)))) @ hex8 j"
    from arg_cong [where f = length, OF this] that li [of i] li [of j] n show False
      by (simp add: l l7)
  qed
  show ?thesis
    unfolding raw_artifact_hashes [OF assms] using 1 2 3 by (auto simp: distinct_map)
qed

lemma card_attributes_distinct:
  assumes "seed_profile p"
  shows "distinct (map (\<lambda>r. cells (file_row ''card_identity'' r) [''set_code'', ''card_number'']) (gen_card_identity p))"
proof -
  have "i = j" if "0 \<le> i" "0 \<le> j" "cells (file_row ''card_identity'' (card_identity_row i)) [''set_code'', ''card_number''] =
      cells (file_row ''card_identity'' (card_identity_row j)) [''set_code'', ''card_number'']" for i j
  proof -
    have "i div 1000 = j div 1000" "i mod 1000 = j mod 1000"
      using that by (auto simp: cells_def card_identity_row_def Let_def file_row_def file_columns_of
        t_card_identity_def dd_inj pos_imp_zdiv_nonneg_iff)
    then show ?thesis by (metis mult_div_mod_eq)
  qed
  then show ?thesis
    by (auto simp: gen_card_identity_def distinct_map inj_on_def)
qed

subsection \<open>The loaded store\<close>

definition seed_files :: "profile \<Rightarrow> (string, dbval list list) pydict" where
  "seed_files p = map (\<lambda>(t, g). (t, g p)) generators"

definition seed_dims :: store where
  "seed_dims = [(''shop'', map shop_row shops), (''source'', map source_row sources)]"

definition seed_rows :: "profile \<Rightarrow> string \<Rightarrow> row list" where
  "seed_rows p t = map (file_row t) (dict_get (seed_files p) t [])"

text \<open>Every bulk table holds its file, the other tables what they held.\<close>

definition seeded :: "profile \<Rightarrow> store \<Rightarrow> bool" where
  "seeded p db \<longleftrightarrow>
     (\<forall>t. rows_of db t = (if t \<in> set bulk_tables then seed_rows p t else rows_of seed_dims t))"

lemma seed_rows_simps:
  "seed_rows p ''card_identity'' = map (file_row ''card_identity'') (gen_card_identity p)"
  "seed_rows p ''ingest_run'' = map (file_row ''ingest_run'') (gen_ingest_run p)"
  "seed_rows p ''raw_artifact'' = map (file_row ''raw_artifact'') (gen_raw_artifact p)"
  "seed_rows p ''processing_run'' = map (file_row ''processing_run'') (gen_processing_run p)"
  "seed_rows p ''extracted_record'' = map (file_row ''extracted_record'') (gen_extracted_record p)"
  "seed_rows p ''observation_candidate'' =
     map (file_row ''observation_candidate'') (gen_observation_candidate p)"
  "seed_rows p ''identity_resolution_attempt'' =
     map (file_row ''identity_resolution_attempt'') (gen_identity_resolution_attempt p)"
  "seed_rows p ''price_observation'' = map (file_row ''price_observation'') (gen_price_observation p)"
  "seed_rows p ''review_item'' = map (file_row ''review_item'') (gen_review_item p)"
  by (simp_all add: seed_rows_def seed_files_def generators_def dict_get_def)

lemma column_of_rows: "map (\<lambda>r. cell r c) (map (file_row t) vss) = column_of t c vss"
  by (simp add: column_of_def)

text \<open>The identifiers a child row may refer to.\<close>

definition ids :: "store \<Rightarrow> string \<Rightarrow> dbval set" where
  "ids db t = set (map (\<lambda>r. cell r ''id'') (rows_of db t))"

lemma bulk_ids:
  assumes "seeded p db"
  shows "ids db ''card_identity'' = set (column_of ''card_identity'' ''id'' (gen_card_identity p))"
    "ids db ''ingest_run'' = set (column_of ''ingest_run'' ''id'' (gen_ingest_run p))"
    "ids db ''raw_artifact'' = set (column_of ''raw_artifact'' ''id'' (gen_raw_artifact p))"
    "ids db ''processing_run'' = set (column_of ''processing_run'' ''id'' (gen_processing_run p))"
    "ids db ''extracted_record'' = set (column_of ''extracted_record'' ''id'' (gen_extracted_record p))"
    "ids db ''observation_candidate'' =
       set (column_of ''observation_candidate'' ''id'' (gen_observation_candidate p))"
    "ids db ''identity_resolution_attempt'' =
       set (column_of ''identity_resolution_attempt'' ''id'' (gen_identity_resolution_attempt p))"
  using assms
  by (simp_all add: ids_def seeded_def bulk_tables_def seed_rows_simps column_of_rows del: map_map)

lemma ids_seeded:
  assumes "seeded p db" "seed_profile p"
  shows "ids db ''source'' = VInt ` {1..4}" "ids db ''shop'' = VInt ` {1..4}"
    "ids db ''card_identity'' = (\<lambda>i. VText (card_uuid i)) ` {0..<pf_cards p}"
    "VInt k \<in> ids db ''ingest_run'' \<longleftrightarrow>
       0 < k \<and> k \<le> 112 * pf_scale p \<or> history_run_offset < k \<and> k \<le> history_run_offset + 1095"
    "VInt k \<in> ids db ''raw_artifact'' \<longleftrightarrow>
       0 < k \<and> k \<le> pf_raw_artifact p \<or> history_id_offset < k \<and> k \<le> history_id_offset + 1095"
    "VInt k \<in> ids db ''processing_run'' \<longleftrightarrow>
       0 < k \<and> k \<le> pf_raw_artifact p \<or> history_id_offset < k \<and> k \<le> history_id_offset + 1095"
    "VInt k \<in> ids db ''extracted_record'' \<longleftrightarrow>
       0 < k \<and> k \<le> pf_price_observation p \<or> history_id_offset < k \<and> k \<le> history_id_offset + 219000"
    "VInt k \<in> ids db ''observation_candidate'' \<longleftrightarrow>
       0 < k \<and> k \<le> pf_price_observation p \<or> history_id_offset < k \<and> k \<le> history_id_offset + 219000"
    "VInt k \<in> ids db ''identity_resolution_attempt'' \<longleftrightarrow>
       0 < k \<and> k \<le> 2 * pf_price_observation p \<or>
       history_id_offset * 2 < k \<and> k \<le> history_id_offset * 2 + 438000"
proof -
  have s: "{1..4} = {1, 2, 3, 4 :: int}" by auto
  show "ids db ''source'' = VInt ` {1..4}" "ids db ''shop'' = VInt ` {1..4}"
    using assms(1) unfolding s
    by (simp_all add: ids_def seeded_def bulk_tables_def seed_dims_def rows_of_def dict_get_def
      sources_def shops_def source_row_def shop_row_def cell_def)
  show "ids db ''card_identity'' = (\<lambda>i. VText (card_uuid i)) ` {0..<pf_cards p}"
    using assms(1)
    by (auto simp: ids_def seeded_def bulk_tables_def seed_rows_simps gen_card_identity_def
      card_identity_row_def Let_def file_row_def file_columns_of t_card_identity_def)
  note d = seed_sizes(5,8,9) [OF assms(2)]
  note blocks = bulk_ids [OF assms(1)] ingest_run_ids [OF assms(2)] raw_artifact_ids [OF assms(2)]
    processing_run_ids [OF assms(2)] extracted_record_ids observation_candidate_ids
    attempt_ids [OF assms(2)]
  show "VInt k \<in> ids db ''ingest_run'' \<longleftrightarrow>
       0 < k \<and> k \<le> 112 * pf_scale p \<or> history_run_offset < k \<and> k \<le> history_run_offset + 1095"
    by (simp add: blocks d)
  show "VInt k \<in> ids db ''raw_artifact'' \<longleftrightarrow>
       0 < k \<and> k \<le> pf_raw_artifact p \<or> history_id_offset < k \<and> k \<le> history_id_offset + 1095"
    by (simp add: blocks d)
  show "VInt k \<in> ids db ''processing_run'' \<longleftrightarrow>
       0 < k \<and> k \<le> pf_raw_artifact p \<or> history_id_offset < k \<and> k \<le> history_id_offset + 1095"
    by (simp add: blocks d)
  show "VInt k \<in> ids db ''extracted_record'' \<longleftrightarrow>
       0 < k \<and> k \<le> pf_price_observation p \<or> history_id_offset < k \<and> k \<le> history_id_offset + 219000"
    by (simp add: blocks d)
  show "VInt k \<in> ids db ''observation_candidate'' \<longleftrightarrow>
       0 < k \<and> k \<le> pf_price_observation p \<or> history_id_offset < k \<and> k \<le> history_id_offset + 219000"
    by (simp add: blocks d)
  show "VInt k \<in> ids db ''identity_resolution_attempt'' \<longleftrightarrow>
       0 < k \<and> k \<le> 2 * pf_price_observation p \<or>
       history_id_offset * 2 < k \<and> k \<le> history_id_offset * 2 + 438000"
    by (simp add: blocks d)
qed

text \<open>A row whose references are all there.\<close>

lemma fk_ok_ids:
  assumes "list_all (\<lambda>(c, rt, rc). rc = ''id'' \<and> (cell r c = VNull \<or> cell r c \<in> ids db rt)) (tbl_fks t)"
  shows "fk_ok db t r"
  using assms by (intro fk_okI) (fastforce simp: ids_def list_all_iff)

text \<open>
  The hash is a permutation of the 32-bit values: its result has 32 bits, two inputs share one
  exactly when they agree modulo 2^32, and the prices derived from it stay between 50 and 499,999.
\<close>

theorem hash_permutes:
  "0 \<le> h u \<and> h u < 2 ^ 32 \<and> (h u = h v \<longleftrightarrow> u mod 2 ^ 32 = v mod 2 ^ 32) \<and>
   50 \<le> price_for u \<and> price_for u < 500000"
  using h_range [of u] h_eq [of u v] price_for_range [of u] by simp

subsection \<open>Artifact files\<close>

lemma write_missing_map:
  "map_of (write_missing path body files) q =
     (if q = path \<and> map_of files q = None then Some body else map_of files q)"
  by (auto simp: write_missing_def update_conv')

lemma write_missing_fold:
  "map_of (fold (\<lambda>i. write_missing (f i) (g i)) is files) q =
     (case map_of files q of
        Some b \<Rightarrow> Some b
      | None \<Rightarrow> map_option g (find (\<lambda>i. f i = q) is))"
  by (induction "is" arbitrary: files) (auto simp: write_missing_map split: option.splits)

lemma write_missing_found:
  "i \<in> set is \<Longrightarrow> map_of (fold (\<lambda>i. write_missing (f i) (g i)) is files) (f i) \<noteq> None"
  by (cases "find (\<lambda>j. f j = f i) is") (auto simp: write_missing_fold find_None_iff split: option.splits)

lemma write_missing_keeps:
  "map_of files q \<noteq> None \<Longrightarrow> map_of (fold (\<lambda>i. write_missing (f i) (g i)) is files) q \<noteq> None"
  by (auto simp: write_missing_fold)

definition artifact_there :: "(pystr, pystr) pydict \<Rightarrow> dbval \<Rightarrow> bool" where
  "artifact_there files v \<longleftrightarrow>
     (case v of
        VText s \<Rightarrow>
          (case strip_prefix (lit ''artifacts/'') s of
             Some path \<Rightarrow> map_of files path \<noteq> None
           | None \<Rightarrow> False)
      | _ \<Rightarrow> False)"

lemma artifact_path [simp]:
  "artifact_there files (VText (lit ''artifacts/'' @ path)) \<longleftrightarrow> map_of files path \<noteq> None"
proof -
  have e: "strip_prefix (lit ''artifacts/'') (lit ''artifacts/'' @ path) = Some path" by simp
  show ?thesis by (simp only: artifact_there_def dbval.case e option.case)
qed

lemma storage_refs:
  "column_of ''raw_artifact'' ''storage_ref'' (gen_raw_artifact p) =
     map (\<lambda>i. VText (lit ''artifacts/'' @ hex2 (i mod 256) @ lit ''/'' @ py_str i @ lit ''.json''))
       (py_range (pf_raw_artifact p)) @
     nested (\<lambda>d k. VText (lit ''artifacts/'' @ lit ''hi/'' @ py_str (d * pf_history_shops p + k) @ lit ''.json''))
       (pf_history_days p) (pf_history_shops p)"
proof -
  have "lit ''artifacts/hi/'' = lit ''artifacts/'' @ lit ''hi/''" by (simp add: lit_def)
  then show ?thesis
    by (simp add: gen_raw_artifact_def column_simps raw_artifact_row_def raw_artifact_history_row_def
      file_row_def file_columns_of t_raw_artifact_def Let_def)
qed

text \<open>
  After the artifact step every storage reference of the generated raw artifacts names a file
  that exists, files that were there keep their content, and the count returned is the number of
  artifacts of the profile and its history.
\<close>

theorem artifacts_exist:
  "list_all (artifact_there (fst (generate_artifacts p files)))
     (column_of ''raw_artifact'' ''storage_ref'' (gen_raw_artifact p)) \<and>
   map_of files \<subseteq>\<^sub>m map_of (fst (generate_artifacts p files)) \<and>
   snd (generate_artifacts p files) =
     max 0 (pf_raw_artifact p) + max 0 (pf_history_days p * pf_history_shops p)"
proof -
  have index: "0 \<le> d * n + k \<and> d * n + k < m * n" if "0 \<le> d" "d < m" "0 \<le> k" "k < n" for d k m n :: int
  proof -
    have "d * n + k < (d + 1) * n" using that by (simp add: distrib_right)
    also have "\<dots> \<le> m * n" using that by (intro mult_right_mono) auto
    finally show ?thesis using that by simp
  qed
  let ?files = "fst (generate_artifacts p files)"
  have page: "map_of ?files (hex2 (i mod 256) @ lit ''/'' @ py_str i @ lit ''.json'') \<noteq> None"
    if "i \<in> set (py_range (pf_raw_artifact p))" for i
    using write_missing_found [OF that, of "\<lambda>i. hex2 (i mod 256) @ lit ''/'' @ py_str i @ lit ''.json''"]
    by (simp add: generate_artifacts_def Let_def write_missing_keeps)
  have history: "map_of ?files (lit ''hi/'' @ py_str i @ lit ''.json'') \<noteq> None"
    if "i \<in> set (py_range (pf_history_days p * pf_history_shops p))" for i
    using write_missing_found [OF that, of "\<lambda>i. lit ''hi/'' @ py_str i @ lit ''.json''"]
    by (simp add: generate_artifacts_def Let_def)
  have "list_all (artifact_there ?files) (column_of ''raw_artifact'' ''storage_ref'' (gen_raw_artifact p))"
    unfolding storage_refs list_all_append
  proof
    show "list_all (artifact_there ?files)
       (map (\<lambda>i. VText (lit ''artifacts/'' @ hex2 (i mod 256) @ lit ''/'' @ py_str i @ lit ''.json''))
         (py_range (pf_raw_artifact p)))"
      unfolding list_all_iff using page by auto
    show "list_all (artifact_there ?files)
       (nested (\<lambda>d k. VText (lit ''artifacts/'' @ lit ''hi/'' @ py_str (d * pf_history_shops p + k) @ lit ''.json''))
         (pf_history_days p) (pf_history_shops p))"
      unfolding list_all_iff set_nested using history index by auto
  qed
  moreover have "map_of files \<subseteq>\<^sub>m map_of (fst (generate_artifacts p files))"
    by (auto simp: map_le_def generate_artifacts_def Let_def write_missing_fold)
  moreover have "int (length (py_range n)) = max 0 n" for n by (simp add: py_range_def)
  ultimately show ?thesis by (simp add: generate_artifacts_def Let_def)
qed

end
