(* ===== verification/Seed_Load.thy ===== *)
theory Seed_Load
  imports Seed
begin

text \<open>
  The seed as a whole: the foreign keys of every generated row, then the bulk load of the files on
  both products, and the constraints the loaded store meets.
\<close>

subsection \<open>Foreign keys of the seed\<close>

lemma seed_run_slot:
  assumes "seed_profile p" "0 \<le> n" "n < pf_raw_artifact p"
  shows "0 \<le> n div (500 * pf_scale p) * (4 * pf_scale p) + n mod (500 * pf_scale p) mod (4 * pf_scale p)"
    "n div (500 * pf_scale p) * (4 * pf_scale p) + n mod (500 * pf_scale p) mod (4 * pf_scale p)
       < 112 * pf_scale p"
proof -
  have k: "0 \<le> n mod (500 * pf_scale p) mod (4 * pf_scale p)"
     "n mod (500 * pf_scale p) mod (4 * pf_scale p) < 4 * pf_scale p"
    using scale_cases [OF assms(1)] by auto
  have d: "0 \<le> n div (500 * pf_scale p)" "n div (500 * pf_scale p) < 28"
    using scale_cases [OF assms(1)] assms(2,3) seed_sizes(14) [OF assms(1)] by auto
  show "0 \<le> n div (500 * pf_scale p) * (4 * pf_scale p) + n mod (500 * pf_scale p) mod (4 * pf_scale p)"
    "n div (500 * pf_scale p) * (4 * pf_scale p) + n mod (500 * pf_scale p) mod (4 * pf_scale p)
       < 112 * pf_scale p"
    using run_bounds [OF assms(1) d k] by simp_all
qed

lemmas fk_simps = Let_def file_row_def file_columns_of add1_zle_eq

lemma fk_ingest_run:
  assumes "seeded p db" "seed_profile p"
  shows "fk_ok db t_ingest_run (file_row ''ingest_run'' (ingest_run_row p d k))"
    "0 \<le> k \<Longrightarrow> k < 3 \<Longrightarrow> fk_ok db t_ingest_run (file_row ''ingest_run'' (ingest_run_history_row p d k))"
  using mod_bounds(1,2) [of k]
  by (intro fk_ok_ids, simp add: fk_simps ingest_run_row_def ingest_run_history_row_def
      t_ingest_run_def ids_seeded [OF assms] image_iff)+

lemma fk_raw_artifact:
  assumes "seeded p db" "seed_profile p" "0 \<le> i" "i < pf_raw_artifact p"
  shows "fk_ok db t_raw_artifact (file_row ''raw_artifact'' (raw_artifact_row p i))"
  using slot_source [OF assms(2), of i] seed_run_slot [OF assms(2-4)]
  by (intro fk_ok_ids)
    (simp add: fk_simps raw_artifact_row_def t_raw_artifact_def ids_seeded [OF assms(1,2)] image_iff)

lemma fk_raw_artifact_history:
  assumes "seeded p db" "seed_profile p" "0 \<le> d" "d < 365" "0 \<le> k" "k < 3"
  shows "fk_ok db t_raw_artifact (file_row ''raw_artifact'' (raw_artifact_history_row p d k))"
proof -
  have n: "0 \<le> d * 3 + k" "d * 3 + k < 1095" using assms(3-6) by auto
  with assms(3-6) show ?thesis
    by (intro fk_ok_ids)
      (simp add: fk_simps raw_artifact_history_row_def t_raw_artifact_def ids_seeded [OF assms(1,2)]
        history_consts [OF assms(2)] image_iff)
qed

lemma fk_processing_run:
  assumes "seeded p db" "seed_profile p"
  shows "0 \<le> i \<Longrightarrow> i < pf_raw_artifact p \<Longrightarrow>
      fk_ok db t_processing_run (file_row ''processing_run'' (processing_run_row p i))"
    "0 \<le> i \<Longrightarrow> i < 1095 \<Longrightarrow>
      fk_ok db t_processing_run (file_row ''processing_run'' (processing_run_history_row p i))"
  by (intro fk_ok_ids, simp add: fk_simps processing_run_row_def processing_run_history_row_def
      t_processing_run_def ids_seeded [OF assms])+

lemma history_run:
  assumes "seed_profile p" "0 \<le> i" "i < pf_history_rows p"
  shows "0 \<le> history_day p i * 3 + history_slot p i" "history_day p i * 3 + history_slot p i < 1095"
  using history_bounds [OF assms] by auto

lemma run_of_record:
  assumes "seed_profile p" "0 \<le> i" "i < pf_price_observation p"
  shows "0 \<le> i div records_per_run" "i div records_per_run < pf_raw_artifact p"
  using assms(2,3) seed_sizes(12) [OF assms(1)] by (auto simp: records_per_run_def)

lemma fk_extracted_record:
  assumes "seeded p db" "seed_profile p" "0 \<le> i" "i < pf_price_observation p"
  shows "fk_ok db t_extracted_record (file_row ''extracted_record'' (extracted_record_row p i))"
  using run_of_record [OF assms(2-4)]
  by (intro fk_ok_ids)
    (simp add: fk_simps extracted_record_row_def t_extracted_record_def ids_seeded [OF assms(1,2)])

lemma fk_extracted_record_history:
  assumes "seeded p db" "seed_profile p" "0 \<le> i" "i < pf_history_rows p"
  shows "fk_ok db t_extracted_record (file_row ''extracted_record'' (extracted_record_history_row p i))"
  using history_run [OF assms(2-4)]
  by (intro fk_ok_ids)
    (simp add: fk_simps extracted_record_history_row_def t_extracted_record_def
      ids_seeded [OF assms(1,2)] history_consts [OF assms(2)])

lemma fk_observation_candidate:
  assumes "seeded p db" "seed_profile p" "0 \<le> i" "i < pf_price_observation p"
  shows "fk_ok db t_observation_candidate
    (file_row ''observation_candidate'' (observation_candidate_row p i))"
  using slot_source [OF assms(2), of "i div records_per_run"] assms(3,4)
  by (intro fk_ok_ids)
    (simp add: fk_simps observation_candidate_row_def t_observation_candidate_def
      ids_seeded [OF assms(1,2)] image_iff)

lemma fk_observation_candidate_history:
  assumes "seeded p db" "seed_profile p" "0 \<le> i" "i < pf_history_rows p"
  shows "fk_ok db t_observation_candidate
    (file_row ''observation_candidate'' (observation_candidate_history_row p i))"
  using history_bounds(3,4,7) [OF assms(2-4)] assms(3)
  by (intro fk_ok_ids)
    (simp add: fk_simps observation_candidate_history_row_def t_observation_candidate_def
      ids_seeded [OF assms(1,2)] image_iff)

lemma fk_attempt_row:
  assumes "seeded p db" "seed_profile p" "VInt c \<in> ids db ''observation_candidate''" "0 \<le> k"
    "k < pf_cards p"
  shows "fk_ok db t_identity_resolution_attempt
    (file_row ''identity_resolution_attempt'' (attempt_row a c k s r e t))"
proof (rule fk_ok_ids)
  have "VText (card_uuid k) \<in> ids db ''card_identity''"
    using assms(4,5) by (simp add: ids_seeded(3) [OF assms(1,2)])
  with assms(3) show "list_all (\<lambda>(col, rt, rc). rc = ''id'' \<and>
      (cell (file_row ''identity_resolution_attempt'' (attempt_row a c k s r e t)) col = VNull \<or>
       cell (file_row ''identity_resolution_attempt'' (attempt_row a c k s r e t)) col \<in> ids db rt))
      (tbl_fks t_identity_resolution_attempt)"
    by (simp add: fk_simps attempt_row_def t_identity_resolution_attempt_def)
qed

lemma card_bounds:
  assumes "seed_profile p"
  shows "0 \<le> card_for i (pf_cards p)" "card_for i (pf_cards p) < pf_cards p"
    "0 \<le> x mod pf_cards p" "x mod pf_cards p < pf_cards p"
    "0 \<le> j \<Longrightarrow> j < pf_history_rows p \<Longrightarrow> history_card p j < pf_cards p"
proof -
  have n: "0 < pf_cards p" "200 \<le> pf_cards p" using seed_cards [OF assms] by linarith+
  show "0 \<le> card_for i (pf_cards p)" "card_for i (pf_cards p) < pf_cards p"
    "0 \<le> x mod pf_cards p" "x mod pf_cards p < pf_cards p"
    using card_for_range [OF n(1)] n by simp_all
  show "0 \<le> j \<Longrightarrow> j < pf_history_rows p \<Longrightarrow> history_card p j < pf_cards p"
    using history_bounds(6) [OF assms, of j] n by simp
qed

lemma fk_attempts:
  assumes "seeded p db" "seed_profile p" "0 \<le> i" "i < pf_price_observation p" "vs \<in> set (attempt_rows p i)"
  shows "fk_ok db t_identity_resolution_attempt (file_row ''identity_resolution_attempt'' vs)"
proof -
  have "VInt (i + 1) \<in> ids db ''observation_candidate''"
    using assms(3,4) by (simp add: ids_seeded [OF assms(1,2)] add1_zle_eq)
  then show ?thesis
    using assms(5) card_bounds [OF assms(2)]
    by (auto simp: attempt_rows_def Let_def intro: fk_attempt_row [OF assms(1,2)])
qed

lemma fk_attempts_history:
  assumes "seeded p db" "seed_profile p" "0 \<le> i" "i < pf_history_rows p"
    "vs \<in> set (attempt_history_rows p i)"
  shows "fk_ok db t_identity_resolution_attempt (file_row ''identity_resolution_attempt'' vs)"
proof -
  have "VInt (history_id_offset + i + 1) \<in> ids db ''observation_candidate''"
    using history_bounds(7) [OF assms(2-4)] assms(3) by (simp add: ids_seeded [OF assms(1,2)] add1_zle_eq)
  then show ?thesis
    using assms(5) card_bounds(3,4) [OF assms(2)] card_bounds(5) [OF assms(2-4)]
      history_bounds(5) [OF assms(2-4)]
    by (auto simp: attempt_history_rows_def Let_def intro: fk_attempt_row [OF assms(1,2)])
qed

lemma fk_price_observation:
  assumes "seeded p db" "seed_profile p" "0 \<le> i" "i < pf_price_observation p"
  shows "fk_ok db t_price_observation (file_row ''price_observation'' (price_observation_row p i))"
proof -
  have "VText (card_uuid (card_for i (pf_cards p))) \<in> ids db ''card_identity''"
    using card_bounds(1,2) [OF assms(2)] by (simp add: ids_seeded(3) [OF assms(1,2)])
  then show ?thesis
    using slot_source [OF assms(2), of "i div records_per_run"] run_of_record [OF assms(2-4)] assms(3,4)
    by (intro fk_ok_ids)
      (simp add: fk_simps price_observation_row_def t_price_observation_def
        ids_seeded(1,2,4-) [OF assms(1,2)] image_iff)
qed

lemma fk_price_observation_history:
  assumes "seeded p db" "seed_profile p" "0 \<le> i" "i < pf_history_rows p"
  shows "fk_ok db t_price_observation (file_row ''price_observation'' (price_observation_history_row p i))"
proof -
  have "VText (card_uuid (history_card p i)) \<in> ids db ''card_identity''"
    using card_bounds(5) [OF assms(2-4)] history_bounds(5) [OF assms(2-4)]
    by (simp add: ids_seeded(3) [OF assms(1,2)])
  then show ?thesis
    using history_bounds(3,4,7) [OF assms(2-4)] history_run [OF assms(2-4)] assms(3)
    by (intro fk_ok_ids)
      (simp add: fk_simps price_observation_history_row_def t_price_observation_def
        ids_seeded(1,2,4-) [OF assms(1,2)] history_consts [OF assms(2)] image_iff)
qed

lemma fk_review_item:
  assumes "seeded p db" "seed_profile p" "0 \<le> i" "i < pf_review_item p"
  shows "fk_ok db t_review_item (file_row ''review_item'' (review_item_row p i))"
proof -
  define n where "n = i * 10 div records_per_run"
  have r: "0 \<le> i * 10" "i * 10 < pf_price_observation p"
    using assms(3,4) seed_sizes(13) [OF assms(2)] by auto
  have n: "0 \<le> n" "n < pf_raw_artifact p" using run_of_record [OF assms(2) r] by (simp_all add: n_def)
  show ?thesis
    using n r seed_run_slot [OF assms(2) n]
    by (intro fk_ok_ids)
      (simp add: fk_simps review_item_row_def t_review_item_def ids_seeded [OF assms(1,2)]
        n_def [symmetric])
qed

subsection \<open>The whole seed\<close>

definition seed_table :: "profile \<Rightarrow> string \<Rightarrow> bool" where
  "seed_table p n \<longleftrightarrow>
     (case table_of n of
        None \<Rightarrow> False
      | Some t \<Rightarrow>
          tbl_name t = n \<and> (\<forall>r \<in> set (seed_rows p n). row_ok t r) \<and>
          (\<forall>cs \<in> set (table_keys t). cs \<noteq> [''id''] \<or> n \<noteq> ''card_identity'' \<longrightarrow> key_ok (seed_rows p n) cs))"

lemma table_of_simps:
  "table_of ''card_identity'' = Some t_card_identity" "table_of ''ingest_run'' = Some t_ingest_run"
  "table_of ''raw_artifact'' = Some t_raw_artifact"
  "table_of ''processing_run'' = Some t_processing_run"
  "table_of ''extracted_record'' = Some t_extracted_record"
  "table_of ''observation_candidate'' = Some t_observation_candidate"
  "table_of ''identity_resolution_attempt'' = Some t_identity_resolution_attempt"
  "table_of ''price_observation'' = Some t_price_observation"
  "table_of ''review_item'' = Some t_review_item"
  by (simp_all add: table_of_def metadata_def table_defs)

lemma key_ok_column:
  "distinct (column_of n c vss) \<Longrightarrow> c \<in> set cs \<Longrightarrow> key_ok (map (file_row n) vss) cs"
  by (rule key_ok_distinct [of "[c]"])
    (auto simp: column_of_def cells_def distinct_map inj_on_def)

lemma seed_tableI:
  assumes "table_of n = Some t" "tbl_name t = n" "seed_rows p n = map (file_row n) vss"
    "\<And>vs. vs \<in> set vss \<Longrightarrow> row_ok t (file_row n vs)" "distinct (column_of n ''id'' vss)"
    "\<And>cs. cs \<in> set (map snd (tbl_uniques t)) \<Longrightarrow> key_ok (map (file_row n) vss) cs"
    "tbl_pk t = [''id'']"
  shows "seed_table p n"
  using assms key_ok_column [OF assms(5), of "[''id'']"]
  by (auto simp: seed_table_def table_keys_def)

lemma seed_table_card:
  assumes "seed_profile p"
  shows "seed_table p ''card_identity''"
proof -
  have r: "row_ok t_card_identity (file_row ''card_identity'' vs)" if "vs \<in> set (gen_card_identity p)" for vs
    using that seed_sizes(6,7) [OF assms] by (auto simp: gen_card_identity_def intro: card_identity_row_ok)
  have k: "key_ok (map (file_row ''card_identity'') (gen_card_identity p))
      [''tcg'', ''set_code'', ''card_number'', ''rarity'', ''edition'', ''language'']"
    using card_attributes_distinct [OF assms]
    by (intro key_ok_distinct [of "[''set_code'', ''card_number'']"]) (simp_all add: comp_def)
  show ?thesis
    using r k by (auto simp: seed_table_def table_of_simps seed_rows_simps table_keys_def t_card_identity_def)
qed

lemma distinct_offset:
  "0 \<le> n \<Longrightarrow> n \<le> b \<Longrightarrow> distinct (id_block 0 n @ id_block b m)"
  by (rule distinct_id_blocks) simp

lemma seed_table_run:
  assumes "seed_profile p"
  shows "seed_table p ''ingest_run''"
proof (rule seed_tableI [OF table_of_simps(2) _ seed_rows_simps(2)])
  show "row_ok t_ingest_run (file_row ''ingest_run'' vs)" if "vs \<in> set (gen_ingest_run p)" for vs
    using that
    by (auto simp: gen_ingest_run_def set_nested history_consts [OF assms]
      intro: ingest_run_row_ok [OF assms] ingest_run_history_row_ok [OF assms])
  show "distinct (column_of ''ingest_run'' ''id'' (gen_ingest_run p))"
    unfolding ingest_run_ids [OF assms] using scale_cases [OF assms]
    by (intro distinct_offset) (auto simp: history_run_offset_def)
qed (simp_all add: t_ingest_run_def)

lemma seed_table_artifact:
  assumes "seed_profile p"
  shows "seed_table p ''raw_artifact''"
proof (rule seed_tableI [OF table_of_simps(3) _ seed_rows_simps(3)])
  show "row_ok t_raw_artifact (file_row ''raw_artifact'' vs)" if "vs \<in> set (gen_raw_artifact p)" for vs
    using that
    by (auto simp: gen_raw_artifact_def set_nested history_consts [OF assms]
      intro: raw_artifact_row_ok [OF assms] raw_artifact_history_row_ok [OF assms])
  show "distinct (column_of ''raw_artifact'' ''id'' (gen_raw_artifact p))"
    unfolding raw_artifact_ids [OF assms] using seed_sizes(1,2) [OF assms]
    by (intro distinct_offset) (auto simp: history_id_offset_def)
  show "key_ok (map (file_row ''raw_artifact'') (gen_raw_artifact p)) cs"
    if "cs \<in> set (map snd (tbl_uniques t_raw_artifact))" for cs
    using that key_ok_column [OF raw_artifact_hashes_distinct [OF assms]]
    by (simp add: t_raw_artifact_def)
qed (simp_all add: t_raw_artifact_def)

lemma seed_table_processing:
  assumes "seed_profile p"
  shows "seed_table p ''processing_run''"
proof (rule seed_tableI [OF table_of_simps(4) _ seed_rows_simps(4)])
  have d: "distinct (column_of ''processing_run'' c (gen_processing_run p))"
    if "c = ''id'' \<or> c = ''raw_artifact_id''" for c
    unfolding processing_run_ids [OF assms that] using seed_sizes(1,2) [OF assms]
    by (intro distinct_offset) (auto simp: history_id_offset_def)
  show "row_ok t_processing_run (file_row ''processing_run'' vs)" if "vs \<in> set (gen_processing_run p)" for vs
    using that seed_sizes(2) [OF assms]
    by (auto simp: gen_processing_run_def history_consts [OF assms]
      intro: processing_run_row_ok processing_run_history_row_ok [OF assms])
  show "distinct (column_of ''processing_run'' ''id'' (gen_processing_run p))" by (rule d) simp
  show "key_ok (map (file_row ''processing_run'') (gen_processing_run p)) cs"
    if "cs \<in> set (map snd (tbl_uniques t_processing_run))" for cs
    using that key_ok_column [OF d [of "''raw_artifact_id''"]]
    by (simp add: t_processing_run_def)
qed (simp_all add: t_processing_run_def)

lemma distinct_history:
  assumes "seed_profile p"
  shows "distinct (id_block 0 (pf_price_observation p) @ id_block history_id_offset (pf_history_rows p))"
  using seed_sizes(3,4) [OF assms] by (intro distinct_offset) (auto simp: history_id_offset_def)

lemma seed_table_record:
  assumes "seed_profile p"
  shows "seed_table p ''extracted_record''"
proof (rule seed_tableI [OF table_of_simps(5) _ seed_rows_simps(5)])
  show "row_ok t_extracted_record (file_row ''extracted_record'' vs)"
    if "vs \<in> set (gen_extracted_record p)" for vs
    using that seed_sizes(4,8) [OF assms]
    by (auto simp: gen_extracted_record_def
      intro: extracted_record_row_ok extracted_record_history_row_ok [OF assms])
  show "distinct (column_of ''extracted_record'' ''id'' (gen_extracted_record p))"
    unfolding extracted_record_ids seed_sizes(8) [OF assms] by (rule distinct_history [OF assms])
qed (simp_all add: t_extracted_record_def)

lemma seed_table_candidate:
  assumes "seed_profile p"
  shows "seed_table p ''observation_candidate''"
proof (rule seed_tableI [OF table_of_simps(6) _ seed_rows_simps(6)])
  have d: "distinct (column_of ''observation_candidate'' c (gen_observation_candidate p))"
    if "c = ''id'' \<or> c = ''extracted_record_id''" for c
    unfolding observation_candidate_ids [OF that] seed_sizes(9) [OF assms]
    by (rule distinct_history [OF assms])
  show "row_ok t_observation_candidate (file_row ''observation_candidate'' vs)"
    if "vs \<in> set (gen_observation_candidate p)" for vs
    using that seed_sizes(4,9) [OF assms]
    by (auto simp: gen_observation_candidate_def
      intro: observation_candidate_row_ok [OF assms] observation_candidate_history_row_ok [OF assms])
  show "distinct (column_of ''observation_candidate'' ''id'' (gen_observation_candidate p))"
    by (rule d) simp
  show "key_ok (map (file_row ''observation_candidate'') (gen_observation_candidate p)) cs"
    if "cs \<in> set (map snd (tbl_uniques t_observation_candidate))" for cs
    using that key_ok_column [OF d [of "''extracted_record_id''"]]
    by (simp add: t_observation_candidate_def)
qed (simp_all add: t_observation_candidate_def)

lemma seed_table_attempt:
  assumes "seed_profile p"
  shows "seed_table p ''identity_resolution_attempt''"
proof (rule seed_tableI [OF table_of_simps(7) _ seed_rows_simps(7)])
  show "row_ok t_identity_resolution_attempt (file_row ''identity_resolution_attempt'' vs)"
    if "vs \<in> set (gen_identity_resolution_attempt p)" for vs
    using that seed_sizes(4,5,9) [OF assms]
    by (auto simp: gen_identity_resolution_attempt_def intro: attempt_rows_ok attempt_history_rows_ok)
  show "distinct (column_of ''identity_resolution_attempt'' ''id'' (gen_identity_resolution_attempt p))"
    unfolding attempt_ids [OF assms] using seed_sizes(3,4,9) [OF assms]
    by (intro distinct_offset) (auto simp: history_id_offset_def)
qed (simp_all add: t_identity_resolution_attempt_def)

lemma seed_table_observation:
  assumes "seed_profile p"
  shows "seed_table p ''price_observation''"
proof (rule seed_tableI [OF table_of_simps(8) _ seed_rows_simps(8)])
  show "row_ok t_price_observation (file_row ''price_observation'' vs)"
    if "vs \<in> set (gen_price_observation p)" for vs
    using that
    by (auto simp: gen_price_observation_def
      intro: price_observation_row_ok [OF assms] price_observation_history_row_ok [OF assms])
  show "distinct (column_of ''price_observation'' ''id'' (gen_price_observation p))"
    unfolding price_observation_ids by (rule distinct_history [OF assms])
  show "key_ok (map (file_row ''price_observation'') (gen_price_observation p)) cs"
    if "cs \<in> set (map snd (tbl_uniques t_price_observation))" for cs
    using that key_ok_column [OF price_observation_keys_distinct [OF assms]]
    by (simp add: t_price_observation_def)
qed (simp_all add: t_price_observation_def)

lemma seed_table_review:
  assumes "seed_profile p"
  shows "seed_table p ''review_item''"
proof (rule seed_tableI [OF table_of_simps(9) _ seed_rows_simps(9)])
  show "row_ok t_review_item (file_row ''review_item'' vs)" if "vs \<in> set (gen_review_item p)" for vs
    using that seed_sizes(11) [OF assms]
    by (auto simp: gen_review_item_def intro: review_item_row_ok [OF assms])
  show "distinct (column_of ''review_item'' ''id'' (gen_review_item p))"
    unfolding review_item_ids using distinct_offset [of "pf_review_item p" "pf_review_item p" 0] seed_sizes(10) [OF assms]
    by simp
qed (simp_all add: t_review_item_def)

lemmas seed_tables = seed_table_card seed_table_run seed_table_artifact seed_table_processing
  seed_table_record seed_table_candidate seed_table_attempt seed_table_observation seed_table_review

lemma seed_fk_rows:
  assumes "seeded p db" "seed_profile p"
  shows "vs \<in> set (gen_card_identity p) \<Longrightarrow> fk_ok db t_card_identity (file_row ''card_identity'' vs)"
    "vs \<in> set (gen_ingest_run p) \<Longrightarrow>
       fk_ok db t_ingest_run (file_row ''ingest_run'' vs)"
    "vs \<in> set (gen_raw_artifact p) \<Longrightarrow>
       fk_ok db t_raw_artifact (file_row ''raw_artifact'' vs)"
    "vs \<in> set (gen_processing_run p) \<Longrightarrow>
       fk_ok db t_processing_run (file_row ''processing_run'' vs)"
    "vs \<in> set (gen_extracted_record p) \<Longrightarrow>
       fk_ok db t_extracted_record (file_row ''extracted_record'' vs)"
    "vs \<in> set (gen_observation_candidate p) \<Longrightarrow>
       fk_ok db t_observation_candidate (file_row ''observation_candidate'' vs)"
    "vs \<in> set (gen_identity_resolution_attempt p) \<Longrightarrow>
       fk_ok db t_identity_resolution_attempt (file_row ''identity_resolution_attempt'' vs)"
    "vs \<in> set (gen_price_observation p) \<Longrightarrow>
       fk_ok db t_price_observation (file_row ''price_observation'' vs)"
    "vs \<in> set (gen_review_item p) \<Longrightarrow>
       fk_ok db t_review_item (file_row ''review_item'' vs)"
proof -
  show "fk_ok db t_card_identity (file_row ''card_identity'' vs)"
    by (simp add: fk_ok_def t_card_identity_def)
  show "fk_ok db t_ingest_run (file_row ''ingest_run'' vs)" if "vs \<in> set (gen_ingest_run p)"
    using that by (auto simp: gen_ingest_run_def set_nested history_consts [OF assms(2)]
      intro: fk_ingest_run [OF assms(1,2)])
  show "fk_ok db t_raw_artifact (file_row ''raw_artifact'' vs)" if "vs \<in> set (gen_raw_artifact p)"
    using that by (auto simp: gen_raw_artifact_def set_nested history_consts [OF assms(2)]
      intro: fk_raw_artifact [OF assms(1,2)] fk_raw_artifact_history [OF assms(1,2)])
  show "fk_ok db t_processing_run (file_row ''processing_run'' vs)" if "vs \<in> set (gen_processing_run p)"
    using that by (auto simp: gen_processing_run_def history_consts [OF assms(2)]
      intro: fk_processing_run [OF assms(1,2)])
  show "fk_ok db t_extracted_record (file_row ''extracted_record'' vs)" if "vs \<in> set (gen_extracted_record p)"
    using that by (auto simp: gen_extracted_record_def seed_sizes(8) [OF assms(2)]
      intro: fk_extracted_record [OF assms(1,2)] fk_extracted_record_history [OF assms(1,2)])
  show "fk_ok db t_observation_candidate (file_row ''observation_candidate'' vs)" if "vs \<in> set (gen_observation_candidate p)"
    using that by (auto simp: gen_observation_candidate_def seed_sizes(9) [OF assms(2)]
      intro: fk_observation_candidate [OF assms(1,2)] fk_observation_candidate_history [OF assms(1,2)])
  show "fk_ok db t_identity_resolution_attempt (file_row ''identity_resolution_attempt'' vs)" if "vs \<in> set (gen_identity_resolution_attempt p)"
    using that by (auto simp: gen_identity_resolution_attempt_def seed_sizes(9) [OF assms(2)]
      intro: fk_attempts [OF assms(1,2)] fk_attempts_history [OF assms(1,2)])
  show "fk_ok db t_price_observation (file_row ''price_observation'' vs)" if "vs \<in> set (gen_price_observation p)"
    using that by (auto simp: gen_price_observation_def
      intro: fk_price_observation [OF assms(1,2)] fk_price_observation_history [OF assms(1,2)])
  show "fk_ok db t_review_item (file_row ''review_item'' vs)" if "vs \<in> set (gen_review_item p)"
    using that by (auto simp: gen_review_item_def
      intro: fk_review_item [OF assms(1,2)])
qed

subsection \<open>Loading\<close>

lemma copy_ignore_ok:
  assumes "\<forall>r \<in> set rs. row_ok t r"
    "\<forall>cs \<in> set (table_keys t). key_ok (rows_of db (tbl_name t) @ rs) cs"
  shows "copy_ignore adjust t rs db = add_rows (tbl_name t) rs db"
  using assms
proof (induction rs arbitrary: db)
  case Nil
  then show ?case by (simp add: add_rows_def)
next
  case (Cons r rs)
  have "clashing_key db t r = None"
    using Cons.prems unfolding clashing_key_None
    by (auto simp: key_ok_def sorted_wrt_append clash_sym [of _ r])
  moreover have "copy_ignore adjust t rs (add_row (tbl_name t) r db) =
      add_rows (tbl_name t) rs (add_row (tbl_name t) r db)"
    by (rule Cons.IH) (use Cons.prems in \<open>auto simp: rows_of_add\<close>)
  ultimately show ?case using Cons.prems(1) by (simp add: add_rows_Cons)
qed

text \<open>Rows that repeat only the first key stop a copy with that key.\<close>

lemma copy_rows_dup:
  assumes "\<forall>r \<in> set rs. row_ok t r" "key_ok (rows_of db (tbl_name t)) (tbl_pk t)"
    "\<not> key_ok (rows_of db (tbl_name t) @ rs) (tbl_pk t)"
    "\<forall>cs \<in> set (map snd (tbl_uniques t)). key_ok (rows_of db (tbl_name t) @ rs) cs"
  shows "copy_rows t rs db = Inl (Duplicate_key (tbl_pk t))"
  using assms
proof (induction rs arbitrary: db)
  case Nil
  then show ?case by simp
next
  case (Cons r rs)
  show ?case
  proof (cases "\<exists>s \<in> set (rows_of db (tbl_name t)). clash (tbl_pk t) r s")
    case True
    then have "clashing_key db t r = Some (tbl_pk t)"
      by (auto simp: clashing_key_def table_keys_def list_ex_iff)
    with Cons.prems(1) show ?thesis by (simp add: copy_row_def row_ok_def)
  next
    case False
    have "clashing_key db t r = None"
      using Cons.prems(4) False unfolding clashing_key_None table_keys_def
      by (auto simp: key_ok_def sorted_wrt_append clash_sym [of _ r])
    with Cons.prems(1) have "copy_row t r db = Inr (add_row (tbl_name t) r db)"
      by (simp add: copy_row_def row_ok_def)
    moreover have "copy_rows t rs (add_row (tbl_name t) r db) = Inl (Duplicate_key (tbl_pk t))"
    proof (rule Cons.IH)
      show "key_ok (rows_of (add_row (tbl_name t) r db) (tbl_name t)) (tbl_pk t)"
        using Cons.prems(2) False
        by (auto simp: rows_of_add key_ok_def sorted_wrt_append clash_sym [of _ r])
    qed (use Cons.prems in \<open>auto simp: rows_of_add\<close>)
    ultimately show ?thesis by simp
  qed
qed

definition uuids_distinct :: "profile \<Rightarrow> bool" where
  "uuids_distinct p \<longleftrightarrow> distinct (map card_uuid (py_range (pf_cards p)))"

lemma seed_table_keys:
  assumes "uuids_distinct p" "seed_table p n" "table_of n = Some t"
  shows "\<forall>cs \<in> set (table_keys t). key_ok (seed_rows p n) cs"
proof -
  have "distinct (column_of ''card_identity'' ''id'' (gen_card_identity p))"
    using assms(1)
    by (simp add: uuids_distinct_def gen_card_identity_def column_simps card_identity_row_def Let_def
      file_row_def file_columns_of t_card_identity_def distinct_map inj_on_def)
  then have "key_ok (seed_rows p ''card_identity'') [''id'']"
    unfolding seed_rows_simps by (rule key_ok_column) simp
  with assms(2,3) show ?thesis by (auto simp: seed_table_def)
qed

lemma load_table_seed:
  assumes "uuids_distinct p" "seed_table p n" "rows_of db n = []"
  shows "load_table adjust eng (seed_files p) n db = Inr (add_rows n (seed_rows p n) db)"
proof -
  obtain t where t: "table_of n = Some t" "tbl_name t = n" "\<forall>r \<in> set (seed_rows p n). row_ok t r"
    using assms(2) by (auto simp: seed_table_def split: option.splits)
  note k = seed_table_keys [OF assms(1,2) t(1)]
  have "copy_rows t (seed_rows p n) db = Inr (add_rows (tbl_name t) (seed_rows p n) db)"
    by (rule copy_rows_Inr) (use t k assms(3) in simp_all)
  moreover have "copy_ignore adjust t (seed_rows p n) db = add_rows (tbl_name t) (seed_rows p n) db"
    by (rule copy_ignore_ok) (use t k assms(3) in simp_all)
  ultimately show ?thesis
    using t by (cases eng) (simp_all add: load_table_def seed_rows_def [symmetric] Let_def)
qed

lemma load_tables_seed:
  assumes "uuids_distinct p" "\<forall>n \<in> set ns. seed_table p n \<and> rows_of db n = []" "distinct ns"
  shows "\<exists>db'. (\<forall>adjust eng. load_tables adjust eng (seed_files p) ns db = (None, db')) \<and>
    (\<forall>u. rows_of db' u = (if u \<in> set ns then seed_rows p u else rows_of db u))"
  using assms(2,3)
proof (induction ns arbitrary: db)
  case (Cons n ns)
  let ?db = "add_rows n (seed_rows p n) db"
  have "\<forall>m \<in> set ns. seed_table p m \<and> rows_of ?db m = []" "distinct ns"
    using Cons.prems by (auto simp: rows_of_add_rows)
  from Cons.IH [OF this] obtain db' where
      db': "\<forall>adjust eng. load_tables adjust eng (seed_files p) ns ?db = (None, db')"
        "\<forall>u. rows_of db' u = (if u \<in> set ns then seed_rows p u else rows_of ?db u)"
    by auto
  have "load_table adjust eng (seed_files p) n db = Inr ?db" for adjust eng
    using Cons.prems by (intro load_table_seed [OF assms(1)]) simp_all
  with db' Cons.prems show ?case
    by (intro exI [of _ db']) (auto simp: rows_of_add_rows)
qed simp

lemma seed_dims_rows: "t \<in> set bulk_tables \<Longrightarrow> rows_of seed_dims t = []"
  by (auto simp: bulk_tables_def seed_dims_def rows_of_def dict_get_def)

lemma all_seed_tables: "seed_profile p \<Longrightarrow> n \<in> set bulk_tables \<Longrightarrow> seed_table p n"
  using seed_tables [of p] by (auto simp: bulk_tables_def)

lemma seed_load_ok:
  assumes "seed_profile p" "uuids_distinct p"
  shows "\<exists>db. (\<forall>adjust eng. load adjust eng (seed_files p) seed_dims = (None, db)) \<and> seeded p db"
proof -
  have "distinct bulk_tables" by (simp add: bulk_tables_def)
  then show ?thesis
    using load_tables_seed [OF assms(2), of bulk_tables seed_dims] all_seed_tables [OF assms(1)]
    by (auto simp: load_def seeded_def seed_dims_rows)
qed

lemma seed_load_collision:
  assumes "seed_profile p" "\<not> uuids_distinct p"
  shows "load adjust Postgres (seed_files p) seed_dims = (Some (Duplicate_key [''id'']), seed_dims)"
proof -
  note t = all_seed_tables [OF assms(1), of "''card_identity''"]
  have n: "seed_table p ''card_identity''" by (rule t) (simp add: bulk_tables_def)
  have e: "rows_of seed_dims ''card_identity'' = []" by (rule seed_dims_rows) (simp add: bulk_tables_def)
  have pk: "tbl_pk t_card_identity = [''id'']" "tbl_name t_card_identity = ''card_identity''"
    by (simp_all add: t_card_identity_def)
  have c: "cell (file_row ''card_identity'' (card_identity_row i)) ''id'' = VText (card_uuid i)" for i
    by (simp add: card_identity_row_def Let_def file_row_def file_columns_of t_card_identity_def)
  have "\<not> key_ok (seed_rows p ''card_identity'') [''id'']"
    using assms(2)
    by (fastforce simp: uuids_distinct_def key_ok_def seed_rows_simps gen_card_identity_def clash_def
      cells_def c distinct_conv_nth sorted_wrt_iff_nth_less neq_iff)
  then have "copy_rows t_card_identity (seed_rows p ''card_identity'') seed_dims =
      Inl (Duplicate_key (tbl_pk t_card_identity))"
    using n by (intro copy_rows_dup)
      (auto simp: pk e seed_table_def table_of_simps table_keys_def key_ok_def t_card_identity_def)
  then show ?thesis
    by (simp add: load_def bulk_tables_def load_table_def table_of_simps pk seed_rows_def Let_def)
qed

lemma load_mariadb_total: "fst (load_tables adjust Mariadb files ns db) = None"
  if "list_all (\<lambda>n. table_of n \<noteq> None) ns"
  using that by (induction ns arbitrary: db) (auto simp: load_table_def Let_def)

subsection \<open>The seed meets every constraint\<close>

lemma seeded_table_ok:
  assumes "seeded p db" "uuids_distinct p" "seed_profile p" "n \<in> set bulk_tables" "table_of n = Some t"
    "seed_rows p n = map (file_row n) vss" "\<And>vs. vs \<in> set vss \<Longrightarrow> fk_ok db t (file_row n vs)"
  shows "table_ok db t"
proof -
  note n = all_seed_tables [OF assms(3,4)]
  have r: "rows_of db n = seed_rows p n" "tbl_name t = n"
    using assms(1,4,5) n by (simp_all add: seeded_def seed_table_def)
  have "\<forall>r \<in> set (seed_rows p n). row_ok t r" using n assms(5) by (simp add: seed_table_def)
  moreover have "\<forall>r \<in> set (seed_rows p n). fk_ok db t r" using assms(6,7) by auto
  ultimately show ?thesis
    using seed_table_keys [OF assms(2) n assms(5)] by (simp add: table_ok_def r row_ok_def)
qed

lemma dims_table_ok:
  assumes "seeded p db"
  shows "table_ok db t_source" "table_ok db t_shop" "table_ok db t_card_external_reference"
    "table_ok db t_price_observation_correction"
proof -
  have d: "table_ok seed_dims t_source" "table_ok seed_dims t_shop" by code_simp+
  have r: "rows_of db ''source'' = rows_of seed_dims ''source''" "rows_of db ''shop'' = rows_of seed_dims ''shop''"
    "rows_of db ''card_external_reference'' = []" "rows_of db ''price_observation_correction'' = []"
    using assms
    by (simp_all add: seeded_def bulk_tables_def) (simp_all add: seed_dims_def rows_of_def dict_get_def)
  show "table_ok db t_source" "table_ok db t_shop" "table_ok db t_card_external_reference"
    "table_ok db t_price_observation_correction"
    using d by (simp_all add: table_ok_def fk_ok_def t_source_def t_shop_def t_card_external_reference_def
      t_price_observation_correction_def r key_ok_def)
qed

lemma seeded_store_ok:
  assumes "seeded p db" "uuids_distinct p" "seed_profile p"
  shows "store_ok metadata db"
proof -
  have 1: "table_ok db t_card_identity"
    by (rule seeded_table_ok [OF assms _ table_of_simps(1) seed_rows_simps(1)])
      (simp add: bulk_tables_def, rule seed_fk_rows(1) [OF assms(1,3)])
  have 2: "table_ok db t_ingest_run"
    by (rule seeded_table_ok [OF assms _ table_of_simps(2) seed_rows_simps(2)])
      (simp add: bulk_tables_def, rule seed_fk_rows(2) [OF assms(1,3)])
  have 3: "table_ok db t_raw_artifact"
    by (rule seeded_table_ok [OF assms _ table_of_simps(3) seed_rows_simps(3)])
      (simp add: bulk_tables_def, rule seed_fk_rows(3) [OF assms(1,3)])
  have 4: "table_ok db t_processing_run"
    by (rule seeded_table_ok [OF assms _ table_of_simps(4) seed_rows_simps(4)])
      (simp add: bulk_tables_def, rule seed_fk_rows(4) [OF assms(1,3)])
  have 5: "table_ok db t_extracted_record"
    by (rule seeded_table_ok [OF assms _ table_of_simps(5) seed_rows_simps(5)])
      (simp add: bulk_tables_def, rule seed_fk_rows(5) [OF assms(1,3)])
  have 6: "table_ok db t_observation_candidate"
    by (rule seeded_table_ok [OF assms _ table_of_simps(6) seed_rows_simps(6)])
      (simp add: bulk_tables_def, rule seed_fk_rows(6) [OF assms(1,3)])
  have 7: "table_ok db t_identity_resolution_attempt"
    by (rule seeded_table_ok [OF assms _ table_of_simps(7) seed_rows_simps(7)])
      (simp add: bulk_tables_def, rule seed_fk_rows(7) [OF assms(1,3)])
  have 8: "table_ok db t_price_observation"
    by (rule seeded_table_ok [OF assms _ table_of_simps(8) seed_rows_simps(8)])
      (simp add: bulk_tables_def, rule seed_fk_rows(8) [OF assms(1,3)])
  have 9: "table_ok db t_review_item"
    by (rule seeded_table_ok [OF assms _ table_of_simps(9) seed_rows_simps(9)])
      (simp add: bulk_tables_def, rule seed_fk_rows(9) [OF assms(1,3)])
  show ?thesis
    unfolding store_ok_def metadata_def using dims_table_ok [OF assms(1)] 1 2 3 4 5 6 7 8 9 by simp
qed

lemma dangling_zero:
  assumes "\<forall>r \<in> set (rows_of db child). fk_ok db t r \<and> not_null_ok t r" "(c, parent, ''id'') \<in> set (tbl_fks t)"
    "Col c ty False au \<in> set (tbl_columns t)"
  shows "dangling db child c parent = 0"
proof -
  have "list_ex (\<lambda>s. cell r c \<noteq> VNull \<and> cell s ''id'' = cell r c) (rows_of db parent)"
    if "r \<in> set (rows_of db child)" for r
    using that assms by (fastforce simp: fk_ok_def not_null_ok_def list_all_iff list_ex_iff)
  then show ?thesis by (simp add: dangling_def filter_False)
qed

lemma store_ok_dangling:
  assumes "store_ok metadata db"
  shows "list_all (\<lambda>(name, n). n = 0) (verify_foreign_keys db)"
proof -
  have t: "\<forall>r \<in> set (rows_of db (tbl_name t)). fk_ok db t r \<and> not_null_ok t r" if "t \<in> set metadata" for t
    using assms that by (simp add: store_ok_def table_ok_def)
  note d = dangling_zero [OF t]
  have "dangling db ''raw_artifact'' ''ingest_run_id'' ''ingest_run'' = 0"
    using d [of t_raw_artifact "''ingest_run_id''"] by (simp add: t_raw_artifact_def metadata_def)
  moreover have "dangling db ''processing_run'' ''raw_artifact_id'' ''raw_artifact'' = 0"
    using d [of t_processing_run "''raw_artifact_id''"] by (simp add: t_processing_run_def metadata_def)
  moreover have "dangling db ''extracted_record'' ''processing_run_id'' ''processing_run'' = 0"
    using d [of t_extracted_record "''processing_run_id''"] by (simp add: t_extracted_record_def metadata_def)
  moreover have "dangling db ''observation_candidate'' ''extracted_record_id'' ''extracted_record'' = 0"
    using d [of t_observation_candidate "''extracted_record_id''"]
    by (simp add: t_observation_candidate_def metadata_def)
  moreover have "dangling db ''identity_resolution_attempt'' ''observation_candidate_id'' ''observation_candidate'' = 0"
    using d [of t_identity_resolution_attempt "''observation_candidate_id''"]
    by (simp add: t_identity_resolution_attempt_def metadata_def)
  moreover have "dangling db ''price_observation'' ''card_identity_id'' ''card_identity'' = 0"
    using d [of t_price_observation "''card_identity_id''"] by (simp add: t_price_observation_def metadata_def)
  moreover have "dangling db ''review_item'' ''ingest_run_id'' ''ingest_run'' = 0"
    using d [of t_review_item "''ingest_run_id''"] by (simp add: t_review_item_def metadata_def)
  ultimately show ?thesis by (simp add: verify_foreign_keys_def dangling_checks_def)
qed

lemma generate_Some: "generate s = Some files \<longleftrightarrow> (s = 1 \<or> s = 10) \<and> files = seed_files (new_profile s)"
  by (auto simp: generate_def seed_files_def profiles_Some)



text \<open>
  C13: Every row the generators write for a table has, under the columns of its file, a value of the type of
  every column of the table, none missing where the column is NOT NULL, and meets the CHECKs of the table.
\<close>

theorem generated_rows_typed:
  assumes "generate scale = Some files" "(n, rows) \<in> set files"
  shows "\<exists>t \<in> set metadata. tbl_name t = n \<and>
     (\<forall>vs \<in> set rows. types_ok t (file_row n vs) \<and> not_null_ok t (file_row n vs) \<and> checks_ok t (file_row n vs))"
proof -
  have p: "seed_profile (new_profile scale)" "files = seed_files (new_profile scale)"
    using assms(1) by (auto simp: generate_Some seed_profile_def)
  have names: "map fst files = map fst generators" by (simp add: p(2) seed_files_def comp_def split_beta)
  have "distinct (map fst generators)" "set (map fst generators) \<subseteq> set bulk_tables"
    by (simp_all add: generators_def bulk_tables_def)
  moreover have "n \<in> set (map fst files)" using assms(2) by force
  ultimately have n: "dict_get files n [] = rows" "n \<in> set bulk_tables"
    using names assms(2) by (auto simp: dict_get_def)
  then have "seed_rows (new_profile scale) n = map (file_row n) rows" by (simp add: seed_rows_def p(2))
  moreover obtain t where t: "table_of n = Some t" "tbl_name t = n" "\<forall>r \<in> set (seed_rows (new_profile scale) n). row_ok t r"
    using all_seed_tables [OF p(1) n(2)] by (auto simp: seed_table_def split: option.splits)
  moreover have "t \<in> set metadata" using t(1) by (simp add: table_of_def find_in)
  ultimately show ?thesis by (auto simp: row_ok_def)
qed

theorem generated_rows_typed_witness:
  "\<exists>files rows. generate 1 = Some files \<and> (''ingest_run'', rows) \<in> set files \<and> rows \<noteq> [] \<and>
     (\<exists>t \<in> set metadata. tbl_name t = ''ingest_run'' \<and> types_ok t (file_row ''ingest_run'' (hd rows)))"
proof -
  have g: "generate 1 = Some (seed_files (new_profile 1))" by (simp add: generate_Some)
  have r: "(''ingest_run'', gen_ingest_run (new_profile 1)) \<in> set (seed_files (new_profile 1))"
    by (simp add: seed_files_def generators_def)
  have "gen_ingest_run (new_profile 1) \<noteq> []"
    by (simp add: gen_ingest_run_def nested_def py_range_def new_profile_def)
      (rule disjI2, rule exI [of _ 0], simp)
  with generated_rows_typed [OF g r] g r show ?thesis by (meson hd_in_set)
qed

end
