(* ===== verification/Workload.thy ===== *)
theory Workload
  imports Seed_Load
begin

text \<open>
  scripts/db_poc/dbpoc/workload.py: identifier ranges, the INSERT statements, the idempotent append
  of observations on the two products and the batch writer. Statements run against the store of
  Relational; an error of a statement is the value its caller sees. The locale states what callers
  rely on from the append, and both products are interpretations of it.
\<close>

subsection \<open>Identifiers\<close>

definition id_base :: "(string, int) pydict" where
  "id_base =
     [(''ingest_run'', 1000000000000), (''raw_artifact'', 2000000000000),
      (''processing_run'', 3000000000000), (''extracted_record'', 4000000000000),
      (''observation_candidate'', 5000000000000), (''identity_resolution_attempt'', 6000000000000),
      (''price_observation'', 7000000000000), (''review_item'', 8000000000000)]"

definition writer_stride :: int where
  "writer_stride = 10000000000"

definition runtime_id :: "string \<Rightarrow> int \<Rightarrow> int \<Rightarrow> int" where
  "runtime_id table writer counter = dict_get id_base table 0 + writer * writer_stride + counter"

text \<open>\<open>SELECT MAX(id) FROM ingest_run WHERE id >= low AND id < high\<close>, less \<open>low\<close>.\<close>

definition int_cell :: "row \<Rightarrow> string \<Rightarrow> int list" where
  "int_cell r c = (case cell r c of VInt n \<Rightarrow> [n] | _ \<Rightarrow> [])"

definition next_sequence :: "store \<Rightarrow> int \<Rightarrow> int" where
  "next_sequence db writer =
     (let low = dict_get id_base ''ingest_run'' 0 + writer * writer_stride;
          ids = filter (\<lambda>n. low \<le> n \<and> n < low + writer_stride)
            (concat (map (\<lambda>r. int_cell r ''id'') (rows_of db ''ingest_run''))) in
      if ids = [] then 0 else Max (set ids) - low)"

subsection \<open>Statements\<close>

text \<open>A statement's columns: None is the bind parameter of the same name, Some a constant.\<close>

type_synonym insert_spec = "(string \<times> dbval option) list"

definition inserts :: "(string, insert_spec) pydict" where
  "inserts =
     [(''ingest_run'',
        [(''id'', None), (''source_id'', None), (''started_at'', None), (''finished_at'', None),
         (''status'', None), (''fetched_count'', None), (''parsed_count'', None),
         (''stored_count'', None), (''error_class'', Some VNull)]),
      (''raw_artifact'',
        [(''id'', None), (''ingest_run_id'', None), (''source_id'', None),
         (''source_item_id'', None), (''url'', None), (''mime_type'', None),
         (''content_hash'', None), (''byte_size'', None), (''fetched_at'', None),
         (''published_at'', Some VNull), (''storage_ref'', None)]),
      (''processing_run'',
        [(''id'', None), (''raw_artifact_id'', None), (''processor_name'', None),
         (''processor_version'', None), (''config_ref'', None), (''attempt_no'', None),
         (''started_at'', None), (''finished_at'', None),
         (''status'', Some (VText (lit ''succeeded''))), (''extracted_count'', None),
         (''promoted_count'', None), (''error_class'', Some VNull)]),
      (''extracted_record'',
        [(''id'', None), (''processing_run_id'', None), (''raw_artifact_id'', None),
         (''locator'', None), (''payload'', None), (''value_origin'', None),
         (''confidence'', None), (''warnings'', Some VNull), (''created_at'', None)]),
      (''observation_candidate'',
        [(''id'', None), (''extracted_record_id'', None), (''shop_id'', None),
         (''source_id'', None), (''tcg'', None), (''amount_minor'', None), (''currency'', None),
         (''price_type'', None), (''raw_card_name'', None), (''raw_card_number'', None),
         (''raw_set'', None), (''raw_rarity'', None), (''raw_edition'', None),
         (''raw_language'', None), (''raw_condition'', None), (''observed_at'', None),
         (''promotion_rule_version'', None), (''created_at'', None)]),
      (''identity_resolution_attempt'',
        [(''id'', None), (''observation_candidate_id'', None), (''matcher_name'', None),
         (''matcher_version'', None), (''card_identity_id'', None), (''match_score'', None),
         (''result'', None), (''evidence'', None), (''created_at'', None)]),
      (''review_item'',
        [(''id'', None), (''ingest_run_id'', None), (''raw_artifact_id'', None),
         (''extracted_record_id'', None), (''identity_resolution_attempt_id'', Some VNull),
         (''reason'', None), (''state'', Some (VText (lit ''pending''))), (''priority'', None),
         (''created_at'', None), (''decided_at'', Some VNull), (''decided_by'', Some VNull),
         (''decision'', Some VNull), (''lock_version'', Some (VInt 0))])]"

definition observation_spec :: insert_spec where
  "observation_spec =
     [(''id'', None), (''observation_candidate_id'', None), (''card_identity_id'', None),
      (''shop_id'', None), (''source_id'', None), (''raw_artifact_id'', None), (''tcg'', None),
      (''amount_minor'', None), (''currency'', None), (''price_type'', None),
      (''card_condition'', None), (''observed_at'', None), (''collected_at'', None),
      (''published_at'', Some VNull), (''valid_until'', Some VNull), (''idempotency_key'', None),
      (''created_at'', None)]"

definition bind_row :: "insert_spec \<Rightarrow> row \<Rightarrow> row" where
  "bind_row spec params =
     map (\<lambda>(c, e). (c, case e of None \<Rightarrow> cell params c | Some v \<Rightarrow> v)) spec"

text \<open>Whether the statement has \<open>ON CONFLICT (idempotency_key) DO NOTHING\<close>.\<close>

definition observation_insert :: "engine \<Rightarrow> bool \<Rightarrow> insert_spec \<times> bool" where
  "observation_insert eng idempotent = (observation_spec, idempotent \<and> eng = Postgres)"

text \<open>
  The driver's exception: psycopg carries the SQLSTATE, PyMySQL the error number as its first
  argument.
\<close>

record db_exception =
  ex_sqlstate :: "string option"
  ex_diag_sqlstate :: "string option"
  ex_args :: "int list"

definition raised :: "engine \<Rightarrow> sql_error \<Rightarrow> db_exception" where
  "raised eng e =
     (case eng of
        Postgres \<Rightarrow>
          \<lparr>ex_sqlstate = Some (case e of Data_error \<Rightarrow> ''22001'' | Not_null_violation \<Rightarrow> ''23502''
             | Check_violation \<Rightarrow> ''23514'' | Duplicate_key _ \<Rightarrow> ''23505''
             | Foreign_key_violation \<Rightarrow> ''23503''),
           ex_diag_sqlstate = None, ex_args = []\<rparr>
      | Mariadb \<Rightarrow>
          \<lparr>ex_sqlstate = None, ex_diag_sqlstate = None,
           ex_args = [case e of Data_error \<Rightarrow> 1406 | Not_null_violation \<Rightarrow> 1048
             | Check_violation \<Rightarrow> 4025 | Duplicate_key _ \<Rightarrow> 1062 | Foreign_key_violation \<Rightarrow> 1452]\<rparr>)"

definition is_duplicate_key :: "db_exception \<Rightarrow> bool" where
  "is_duplicate_key ex =
     (let sqlstate = (case ex_sqlstate ex of None \<Rightarrow> ex_diag_sqlstate ex | Some s \<Rightarrow> Some s) in
      sqlstate = Some ''23505'' \<or> (ex_args ex \<noteq> [] \<and> hd (ex_args ex) = 1062))"

subsection \<open>Appending observations\<close>

text \<open>One row of the PostgreSQL statement with the conflict clause: the count and the store.\<close>

definition insert_or_skip :: "table_def \<Rightarrow> string list \<Rightarrow> row \<Rightarrow> store \<Rightarrow> sql_error + int \<times> store" where
  "insert_or_skip t key r db =
     (if row_ok t r \<and> list_ex (clash key r) (rows_of db (tbl_name t)) then Inr (0, db)
      else and_then (insert_row t r db) (\<lambda>db. Inr (1, db)))"

fun insert_or_skip_rows ::
    "table_def \<Rightarrow> string list \<Rightarrow> row list \<Rightarrow> store \<Rightarrow> sql_error + int \<times> store" where
  "insert_or_skip_rows t key [] db = Inr (0, db)"
| "insert_or_skip_rows t key (r # rs) db =
     and_then (insert_or_skip t key r db) (\<lambda>(n, db).
     and_then (insert_or_skip_rows t key rs db) (\<lambda>(m, db). Inr (n + m, db)))"

text \<open>The loop of savepoints, one row at a time; a duplicate key rolls its savepoint back.\<close>

fun savepoint_inserts ::
    "engine \<Rightarrow> table_def \<Rightarrow> row list \<Rightarrow> int \<Rightarrow> store \<Rightarrow> sql_error + int \<times> store" where
  "savepoint_inserts eng t [] inserted db = Inr (inserted, db)"
| "savepoint_inserts eng t (r # rs) inserted db =
     (case insert_row t r db of
        Inr db' \<Rightarrow> savepoint_inserts eng t rs (inserted + 1) db'
      | Inl e \<Rightarrow>
          if is_duplicate_key (raised eng e) then savepoint_inserts eng t rs inserted db
          else Inl e)"

definition insert_observations ::
    "engine \<Rightarrow> bool \<Rightarrow> row list \<Rightarrow> store \<Rightarrow> sql_error + int \<times> store" where
  "insert_observations eng idempotent params db =
     (if params = [] then Inr (0, db)
      else
        let (spec, skip) = observation_insert eng idempotent;
            rows = map (bind_row spec) params;
            bulk = and_then (insert_rows t_price_observation rows db) (\<lambda>db. Inr (int (length rows), db)) in
        if eng = Postgres \<or> \<not> idempotent then
          (if skip then insert_or_skip_rows t_price_observation [''idempotency_key''] rows db else bulk)
        else
          case bulk of
            Inr x \<Rightarrow> Inr x
          | Inl e \<Rightarrow>
              if is_duplicate_key (raised eng e)
              then savepoint_inserts eng t_price_observation rows 0 db
              else Inl e)"

subsection \<open>Batches\<close>

type_synonym batch = "(string, row list) pydict"

definition quoted :: "string \<Rightarrow> pystr" where
  "quoted s = [34] @ lit s @ [34]"

definition payload_text :: "int \<Rightarrow> int \<Rightarrow> pystr \<Rightarrow> pystr" where
  "payload_text card_index amount condition =
     [123] @ quoted ''name'' @ lit '':'' @ [34] @ lit ''card'' @ py_str card_index @ [34] @
     lit '','' @ quoted ''price_text'' @ lit '':'' @ [34] @ [165] @ py_str amount @ [34] @
     lit '','' @ quoted ''condition'' @ lit '':'' @ [34] @ condition @ [34] @
     lit '','' @ quoted ''stock'' @ lit '':'' @ py_str (card_index mod 9) @ [125]"

text \<open>The body is stored under the reference without its prefix, replacing what is there.\<close>

definition materialize_artifact ::
    "pystr \<Rightarrow> json \<Rightarrow> (pystr, pystr) pydict \<Rightarrow> (pystr, pystr) pydict" where
  "materialize_artifact storage_ref body files =
     AList.update
       (case strip_prefix (lit ''artifacts/'') storage_ref of Some path \<Rightarrow> path | None \<Rightarrow> storage_ref)
       (json_dumps body) files"

text \<open>
  \<open>observed_at or datetime.now(UTC)\<close> as a naive UTC value: an aware time is converted, a naive one
  taken as it is.
\<close>

definition observed_naive :: "int \<Rightarrow> pydatetime option \<Rightarrow> int" where
  "observed_naive now observed_at =
     (case observed_at of
        None \<Rightarrow> now
      | Some t \<Rightarrow> (case utcoffset t of None \<Rightarrow> local_micros t | Some _ \<Rightarrow> utc_micros t))"

definition batch_source :: "int \<Rightarrow> int \<Rightarrow> int" where
  "batch_source writer seq = (writer + seq) mod 4 + 1"

definition batch_ingest_run :: "int \<Rightarrow> int \<Rightarrow> int \<Rightarrow> int \<Rightarrow> row" where
  "batch_ingest_run writer seq rows observed =
     [(''id'', VInt (runtime_id ''ingest_run'' writer seq)),
      (''source_id'', VInt (batch_source writer seq)), (''started_at'', VTime observed),
      (''finished_at'', VTime (observed + micros 0 0 1 0)), (''status'', VText (lit ''succeeded'')),
      (''fetched_count'', VInt rows), (''parsed_count'', VInt rows), (''stored_count'', VInt rows)]"

definition batch_artifact :: "int \<Rightarrow> int \<Rightarrow> int \<Rightarrow> pystr \<Rightarrow> row" where
  "batch_artifact writer seq observed tag =
     (let source_id = batch_source writer seq;
          artifact_id = runtime_id ''raw_artifact'' writer seq in
      [(''id'', VInt artifact_id), (''ingest_run_id'', VInt (runtime_id ''ingest_run'' writer seq)),
       (''source_id'', VInt source_id),
       (''source_item_id'', VText (tag @ lit ''-'' @ py_str writer @ lit ''-'' @ py_str seq)),
       (''url'', VText (lit ''https://example.invalid/'' @ source_slug source_id @ lit ''/'' @ tag @
          lit ''/'' @ py_str seq)),
       (''mime_type'', VText (lit ''application/json'')),
       (''content_hash'', VText (concat (map (\<lambda>k. hex8 (h (artifact_id + k))) (py_range 8)))),
       (''byte_size'', VInt (1024 + seq mod 4096)), (''fetched_at'', VTime observed),
       (''storage_ref'', VText (lit ''artifacts/runtime/'' @ py_str writer @ lit ''/'' @ py_str seq @
          lit ''.json''))])"

definition batch_processing_run :: "int \<Rightarrow> int \<Rightarrow> int \<Rightarrow> int \<Rightarrow> row" where
  "batch_processing_run writer seq rows observed =
     [(''id'', VInt (runtime_id ''processing_run'' writer seq)),
      (''raw_artifact_id'', VInt (runtime_id ''raw_artifact'' writer seq)),
      (''processor_name'', VText (lit ''price_table_parser'')),
      (''processor_version'', VText (lit ''1.0.0'')), (''config_ref'', VText (lit ''config/v1'')),
      (''attempt_no'', VInt 1), (''started_at'', VTime observed),
      (''finished_at'', VTime (observed + micros 0 0 0 2)), (''extracted_count'', VInt rows),
      (''promoted_count'', VInt rows)]"

text \<open>The counter of row \<open>i\<close> and what is derived from its record identifier.\<close>

definition batch_counter :: "int \<Rightarrow> int \<Rightarrow> int" where
  "batch_counter seq i = seq * records_per_run + i"

definition batch_card :: "int \<Rightarrow> int \<Rightarrow> int" where
  "batch_card record_id cards = h record_id mod cards"

definition batch_condition :: "int \<Rightarrow> pystr" where
  "batch_condition record_id = lit (pick conditions (h (record_id + 5)))"

definition batch_price_type :: "int \<Rightarrow> pystr" where
  "batch_price_type record_id = lit (if h (record_id + 3) mod 4 \<noteq> 0 then ''buy'' else ''sell'')"

definition batch_record :: "int \<Rightarrow> int \<Rightarrow> int \<Rightarrow> int \<Rightarrow> int \<Rightarrow> row" where
  "batch_record writer seq cards observed i =
     (let record_id = runtime_id ''extracted_record'' writer (batch_counter seq i) in
      [(''id'', VInt record_id),
       (''processing_run_id'', VInt (runtime_id ''processing_run'' writer seq)),
       (''raw_artifact_id'', VInt (runtime_id ''raw_artifact'' writer seq)),
       (''locator'', VText (lit ''$.items['' @ py_str i @ lit '']'')),
       (''payload'', VText (payload_text (batch_card record_id cards) (price_for record_id)
          (batch_condition record_id))),
       (''value_origin'', VText (lit ''artifact'')), (''confidence'', VScore 9800),
       (''created_at'', VTime observed)])"

definition batch_candidate :: "int \<Rightarrow> int \<Rightarrow> int \<Rightarrow> int \<Rightarrow> int \<Rightarrow> row" where
  "batch_candidate writer seq cards observed i =
     (let record_id = runtime_id ''extracted_record'' writer (batch_counter seq i);
          card_index = batch_card record_id cards;
          source_id = batch_source writer seq in
      [(''id'', VInt (runtime_id ''observation_candidate'' writer (batch_counter seq i))),
       (''extracted_record_id'', VInt record_id), (''shop_id'', VInt source_id),
       (''source_id'', VInt source_id), (''tcg'', VText tcg),
       (''amount_minor'', VInt (price_for record_id)), (''currency'', VText currency),
       (''price_type'', VText (batch_price_type record_id)),
       (''raw_card_name'', VText (lit ''card'' @ py_str card_index)),
       (''raw_card_number'', VText (dd 3 (card_index mod 1000) @ lit ''/165'')),
       (''raw_set'', VText (lit ''SV'' @ dd 3 (card_index div 1000))),
       (''raw_rarity'', VText (lit ''RR'')), (''raw_edition'', VText (lit ''1st'')),
       (''raw_language'', VText (lit ''ja'')), (''raw_condition'', VText (batch_condition record_id)),
       (''observed_at'', VTime observed), (''promotion_rule_version'', VText (lit ''v1'')),
       (''created_at'', VTime observed)])"

definition batch_attempts :: "int \<Rightarrow> int \<Rightarrow> int \<Rightarrow> int \<Rightarrow> int \<Rightarrow> row list" where
  "batch_attempts writer seq cards observed i =
     (let counter = batch_counter seq i;
          card_index = batch_card (runtime_id ''extracted_record'' writer counter) cards;
          candidate_id = runtime_id ''observation_candidate'' writer counter in
      [[(''id'', VInt (runtime_id ''identity_resolution_attempt'' writer (counter * 2))),
        (''observation_candidate_id'', VInt candidate_id),
        (''matcher_name'', VText (lit ''attribute_matcher'')),
        (''matcher_version'', VText (lit ''1.0.0'')),
        (''card_identity_id'', VText (card_uuid card_index)), (''match_score'', VScore 9900),
        (''result'', VText (lit ''confirmed'')), (''evidence'', VText (lit ''set+number+rarity'')),
        (''created_at'', VTime observed)],
       [(''id'', VInt (runtime_id ''identity_resolution_attempt'' writer (counter * 2 + 1))),
        (''observation_candidate_id'', VInt candidate_id),
        (''matcher_name'', VText (lit ''attribute_matcher'')),
        (''matcher_version'', VText (lit ''1.0.0'')),
        (''card_identity_id'', VText (card_uuid ((card_index + 7) mod cards))),
        (''match_score'', VScore 5500), (''result'', VText (lit ''rejected'')),
        (''evidence'', VText (lit ''name_similarity'')), (''created_at'', VTime observed)]])"

definition batch_observation :: "int \<Rightarrow> int \<Rightarrow> int \<Rightarrow> int \<Rightarrow> int \<Rightarrow> row" where
  "batch_observation writer seq cards observed i =
     (let counter = batch_counter seq i;
          record_id = runtime_id ''extracted_record'' writer counter;
          source_id = batch_source writer seq;
          artifact_id = runtime_id ''raw_artifact'' writer seq in
      [(''id'', VInt (runtime_id ''price_observation'' writer counter)),
       (''observation_candidate_id'', VInt (runtime_id ''observation_candidate'' writer counter)),
       (''card_identity_id'', VText (card_uuid (batch_card record_id cards))),
       (''shop_id'', VInt source_id), (''source_id'', VInt source_id),
       (''raw_artifact_id'', VInt artifact_id), (''tcg'', VText tcg),
       (''amount_minor'', VInt (price_for record_id)), (''currency'', VText currency),
       (''price_type'', VText (batch_price_type record_id)),
       (''card_condition'', VText (batch_condition record_id)), (''observed_at'', VTime observed),
       (''collected_at'', VTime observed),
       (''idempotency_key'', VText (idempotency_key (source_slug source_id) artifact_id i
          (batch_price_type record_id) (date_text observed) (batch_condition record_id))),
       (''created_at'', VTime observed)])"

definition batch_review :: "int \<Rightarrow> int \<Rightarrow> int \<Rightarrow> int \<Rightarrow> row" where
  "batch_review writer seq observed i =
     [(''id'', VInt (runtime_id ''review_item'' writer (batch_counter seq i))),
      (''ingest_run_id'', VInt (runtime_id ''ingest_run'' writer seq)),
      (''raw_artifact_id'', VInt (runtime_id ''raw_artifact'' writer seq)),
      (''extracted_record_id'', VInt (runtime_id ''extracted_record'' writer (batch_counter seq i))),
      (''reason'', VText (lit ''parse_ambiguous'')), (''priority'', VInt (i mod 5 + 1)),
      (''created_at'', VTime observed)]"

definition build_batch :: "int \<Rightarrow> int \<Rightarrow> int \<Rightarrow> int \<Rightarrow> int \<Rightarrow> pystr \<Rightarrow> batch" where
  "build_batch writer seq rows cards observed tag =
     [(''ingest_run'', [batch_ingest_run writer seq rows observed]),
      (''raw_artifact'', [batch_artifact writer seq observed tag]),
      (''processing_run'', [batch_processing_run writer seq rows observed]),
      (''extracted_record'', map (batch_record writer seq cards observed) (py_range rows)),
      (''observation_candidate'', map (batch_candidate writer seq cards observed) (py_range rows)),
      (''identity_resolution_attempt'',
         concat (map (batch_attempts writer seq cards observed) (py_range rows))),
      (''price_observation'', map (batch_observation writer seq cards observed) (py_range rows)),
      (''review_item'', map (batch_review writer seq observed)
         (filter (\<lambda>i. i mod 10 = 0) (py_range rows)))]"

subsection \<open>Writing a batch\<close>

text \<open>One statement over the rows of a table, and the tables a batch writes before the observations.\<close>

definition insert_table :: "string \<Rightarrow> row list \<Rightarrow> store \<Rightarrow> sql_error + store" where
  "insert_table t params db =
     (case table_of t of
        None \<Rightarrow> Inl Data_error
      | Some d \<Rightarrow> insert_rows d (map (bind_row (dict_get inserts t [])) params) db)"

definition batch_tables :: "string list" where
  "batch_tables = [''ingest_run'', ''raw_artifact'', ''processing_run'', ''extracted_record'',
     ''observation_candidate'', ''identity_resolution_attempt'']"

fun insert_tables :: "string list \<Rightarrow> batch \<Rightarrow> store \<Rightarrow> sql_error + store" where
  "insert_tables [] b db = Inr db"
| "insert_tables (t # ts) b db = and_then (insert_table t (dict_get b t []) db) (insert_tables ts b)"

definition batch_counts :: "batch \<Rightarrow> (string, int) pydict" where
  "batch_counts b =
     map (\<lambda>t. (t, int (length (dict_get b t [])))) (batch_tables @ [''price_observation'', ''review_item''])"

definition write_batch :: "engine \<Rightarrow> batch \<Rightarrow> bool \<Rightarrow> store \<Rightarrow> sql_error + (string, int) pydict \<times> store" where
  "write_batch eng b idempotent db =
     and_then (insert_tables batch_tables b db) (\<lambda>db.
     and_then (insert_observations eng idempotent (dict_get b ''price_observation'' []) db) (\<lambda>(n, db).
     and_then (insert_table ''review_item'' (dict_get b ''review_item'' []) db) (\<lambda>db.
     Inr (batch_counts b, db))))"

text \<open>\<open>with eng.begin() as conn\<close>: what an error leaves is the store before.\<close>

definition transaction :: "('e + 'a \<times> store) \<Rightarrow> store \<Rightarrow> ('e + 'a) \<times> store" where
  "transaction res db = (case res of Inl e \<Rightarrow> (Inl e, db) | Inr (x, db') \<Rightarrow> (Inr x, db'))"

definition insert_observation_batch ::
    "engine \<Rightarrow> pystr \<Rightarrow> int \<Rightarrow> int \<Rightarrow> int \<Rightarrow> int \<Rightarrow> int \<Rightarrow> int \<Rightarrow> store \<Rightarrow> (sql_error + int) \<times> store" where
  "insert_observation_batch eng tag batch offset writer cards seq_start now db =
     (case transaction (write_batch eng
        (build_batch writer (seq_start + offset + 1) batch cards now tag) True db) db of
        (Inl e, db') \<Rightarrow> (Inl e, db')
      | (Inr counts, db') \<Rightarrow> (Inr (dict_get counts ''price_observation'' 0), db'))"

text \<open>A batch of stored artifacts processed again: no run, artifact or review of its own.\<close>

definition set_cell :: "string \<Rightarrow> dbval \<Rightarrow> row \<Rightarrow> row" where
  "set_cell c v r = AList.update c v r"

definition reparse_batch_of :: "int \<Rightarrow> int \<Rightarrow> int \<Rightarrow> int \<Rightarrow> int \<Rightarrow> int \<Rightarrow> batch" where
  "reparse_batch_of writer seq artifact_id rows cards observed =
     (let b = build_batch writer seq rows cards observed (lit ''reparse'');
          b = AList.update ''raw_artifact'' [] b;
          b = AList.update ''ingest_run'' [] b;
          b = AList.update ''review_item'' [] b;
          b = AList.update ''processing_run''
            (map (\<lambda>r. set_cell ''attempt_no'' (VInt 2) (set_cell ''raw_artifact_id'' (VInt artifact_id) r))
              (dict_get b ''processing_run'' [])) b;
          b = AList.update ''extracted_record''
            (map (set_cell ''raw_artifact_id'' (VInt artifact_id)) (dict_get b ''extracted_record'' [])) b
      in AList.update ''price_observation''
           (map (set_cell ''raw_artifact_id'' (VInt artifact_id)) (dict_get b ''price_observation'' [])) b)"

definition reparse_batches :: "int \<Rightarrow> int list \<Rightarrow> int \<Rightarrow> int \<Rightarrow> int \<Rightarrow> batch list" where
  "reparse_batches writer artifact_ids rows cards observed =
     map (\<lambda>(seq, artifact_id). reparse_batch_of writer seq artifact_id rows cards observed)
       (zip (py_range (int (length artifact_ids))) artifact_ids)"

end
