(* ===== verification/Append.thy ===== *)
theory Append
  imports Workload
begin

text \<open>
  The idempotent append of scripts/db_poc/dbpoc/workload.py against its specification: a locale
  states it as a refinement of an abstract append, PostgreSQL's conflict clause and MariaDB's
  savepoint loop are interpretations, and what the callers rely on follows once for both. The
  specification needs rows that keep identifier and key together; the last property shows what the
  two products do without that.
\<close>

subsection \<open>What an append promises\<close>

text \<open>
  The abstract append: rows in order, each refused as a whole when it breaks its table, skipped when
  its key is there, added otherwise. None is a failed statement.
\<close>

fun append_spec :: "table_def \<Rightarrow> string list \<Rightarrow> row list \<Rightarrow> store \<Rightarrow> (int \<times> store) option" where
  "append_spec t key [] db = Some (0, db)"
| "append_spec t key (r # rs) db =
     (if \<not> row_ok t r then None
      else if list_ex (clash key r) (rows_of db (tbl_name t)) then append_spec t key rs db
      else if clashing_key db t r \<noteq> None \<or> \<not> fk_ok db t r then None
      else map_option (\<lambda>(n, db). (n + 1, db)) (append_spec t key rs (add_row (tbl_name t) r db)))"

text \<open>Rows that agree on some key of the table agree on the key of the append.\<close>

definition keys_follow :: "table_def \<Rightarrow> string list \<Rightarrow> row list \<Rightarrow> bool" where
  "keys_follow t key rs \<longleftrightarrow>
     list_all (\<lambda>r. list_all (\<lambda>s. list_all (\<lambda>cs. clash cs r s \<longrightarrow> clash key r s) (table_keys t)) rs) rs"

lemma insert_row_good:
  assumes "row_ok t r"
  shows "clashing_key db t r = None \<Longrightarrow>
      insert_row t r db = (if fk_ok db t r then Inr (add_row (tbl_name t) r db) else Inl Foreign_key_violation)"
    "clashing_key db t r = Some cs \<Longrightarrow> insert_row t r db = Inl (Duplicate_key cs)"
  using assms by (simp_all add: insert_row_def row_ok_def)

lemma insert_row_bad:
  "\<not> row_ok t r \<Longrightarrow> \<exists>e. insert_row t r db = Inl e \<and> (\<forall>cs. e \<noteq> Duplicate_key cs)"
  by (auto simp: insert_row_def row_ok_def)

lemma clash_key_found:
  "key \<in> set (table_keys t) \<Longrightarrow> list_ex (clash key r) (rows_of db (tbl_name t)) \<Longrightarrow> clashing_key db t r \<noteq> None"
  by (auto simp: clashing_key_None list_ex_iff)

lemma duplicate_raised: "is_duplicate_key (raised eng e) \<longleftrightarrow> (\<exists>cs. e = Duplicate_key cs)"
  by (cases e; cases eng) (auto simp: is_duplicate_key_def raised_def)

lemma skip_spec:
  "insert_or_skip_rows t key rs db = Inr x \<longleftrightarrow> append_spec t key rs db = Some x"
proof (induction rs arbitrary: db x)
  case (Cons r rs)
  show ?case
  proof (cases "row_ok t r")
    case False
    then show ?thesis using insert_row_bad [OF False, of db] by (auto simp: insert_or_skip_def)
  next
    case True
    show ?thesis
    proof (cases "list_ex (clash key r) (rows_of db (tbl_name t))")
      case True
      with \<open>row_ok t r\<close> Cons.IH [of db] show ?thesis
        by (cases "insert_or_skip_rows t key rs db") (auto simp: insert_or_skip_def)
    next
      case new: False
      show ?thesis
      proof (cases "clashing_key db t r")
        case (Some cs)
        with True new show ?thesis by (simp add: insert_or_skip_def insert_row_good(2))
      next
        case None
        let ?db = "add_row (tbl_name t) r db"
        have "insert_or_skip t key r db = (if fk_ok db t r then Inr (1, ?db) else Inl Foreign_key_violation)"
          using True new None by (simp add: insert_or_skip_def insert_row_good(1))
        with True new None Cons.IH [of ?db] show ?thesis
          by (cases "append_spec t key rs ?db"; cases "insert_or_skip_rows t key rs ?db") (auto simp: ac_simps)
      qed
    qed
  qed
qed auto

lemma bulk_spec:
  assumes "key \<in> set (table_keys t)"
  shows "insert_rows t rs db = Inr db' \<Longrightarrow> append_spec t key rs db = Some (int (length rs), db')"
proof (induction rs arbitrary: db)
  case (Cons r rs)
  then have i: "row_ok t r" "clashing_key db t r = None" "fk_ok db t r"
      and rest: "insert_rows t rs (add_row (tbl_name t) r db) = Inr db'"
    by (simp_all add: insert_row_Inr row_ok_def clashing_key_None)
  from Cons.IH [OF rest] i clash_key_found [OF assms, of r db] show ?case by auto
qed simp

lemma bulk_spec_error:
  assumes "key \<in> set (table_keys t)" "\<forall>cs. e \<noteq> Duplicate_key cs"
  shows "insert_rows t rs db = Inl e \<Longrightarrow> append_spec t key rs db = None"
proof (induction rs arbitrary: db)
  case (Cons r rs)
  let ?db = "add_row (tbl_name t) r db"
  note new = clash_key_found [OF assms(1), of r db]
  consider "\<not> row_ok t r" | "row_ok t r" "clashing_key db t r = None"
    | cs where "row_ok t r" "clashing_key db t r = Some cs"
    by (cases "row_ok t r"; cases "clashing_key db t r") auto
  then show ?case
  proof cases
    case 2
    show ?thesis
    proof (cases "fk_ok db t r")
      case True
      with 2 Cons.prems have "insert_rows t rs ?db = Inl e" by (simp add: insert_row_good(1))
      from Cons.IH [OF this] 2 new show ?thesis by auto
    next
      case False
      with 2 new show ?thesis by auto
    qed
  next
    case 3
    with Cons.prems assms(2) show ?thesis by (auto simp: insert_row_good(2))
  qed simp
qed simp

lemma keys_follow_Cons:
  "keys_follow t key (xs @ r # rs) \<Longrightarrow> keys_follow t key (xs @ rs) \<and> keys_follow t key ((xs @ [r]) @ rs)"
  by (auto simp: keys_follow_def list_all_iff)

lemma keys_followD:
  "keys_follow t key rs \<Longrightarrow> r \<in> set rs \<Longrightarrow> s \<in> set rs \<Longrightarrow> cs \<in> set (table_keys t) \<Longrightarrow>
     clash cs r s \<Longrightarrow> clash key r s"
  unfolding keys_follow_def list_all_iff by blast

lemma clashing_keyD:
  "clashing_key db t r = Some cs \<Longrightarrow>
     cs \<in> set (table_keys t) \<and> (\<exists>s \<in> set (rows_of db (tbl_name t)). clash cs r s)"
  unfolding clashing_key_def find_Some_iff by (auto simp: list_ex_iff)

lemma savepoint_spec:
  assumes "key \<in> set (table_keys t)" "keys_follow t key (rows_of db (tbl_name t) @ rs)"
  shows "savepoint_inserts eng t rs n db = Inr (m, db') \<longleftrightarrow> append_spec t key rs db = Some (m - n, db')"
  using assms(2)
proof (induction rs arbitrary: db n)
  case (Cons r rs)
  note f = keys_follow_Cons [OF Cons.prems]
  show ?case
  proof (cases "row_ok t r")
    case False
    from insert_row_bad [OF this, of db] obtain e where "insert_row t r db = Inl e" "\<forall>cs. e \<noteq> Duplicate_key cs"
      by blast
    with False show ?thesis by (simp add: duplicate_raised)
  next
    case True
    show ?thesis
    proof (cases "clashing_key db t r")
      case None
      then have "\<not> list_ex (clash key r) (rows_of db (tbl_name t))"
        using clash_key_found [OF assms(1)] by blast
      let ?db = "add_row (tbl_name t) r db"
      have IH: "savepoint_inserts eng t rs (n + 1) ?db = Inr (m, db') \<longleftrightarrow>
          append_spec t key rs ?db = Some (m - (n + 1), db')"
        by (rule Cons.IH) (use f in \<open>simp add: rows_of_add\<close>)
      show ?thesis
      proof (cases "fk_ok db t r")
        case fk: True
        with True None have "savepoint_inserts eng t (r # rs) n db = savepoint_inserts eng t rs (n + 1) ?db"
          by (simp add: insert_row_good(1))
        moreover have "append_spec t key (r # rs) db = map_option (\<lambda>(k, d). (k + 1, d)) (append_spec t key rs ?db)"
          using True None fk \<open>\<not> list_ex (clash key r) (rows_of db (tbl_name t))\<close> by simp
        ultimately show ?thesis
          using IH by (cases "append_spec t key rs ?db") (auto simp: algebra_simps)
      next
        case False
        with True None \<open>\<not> list_ex (clash key r) (rows_of db (tbl_name t))\<close> show ?thesis
          by (simp add: insert_row_good(1) duplicate_raised)
      qed
    next
      case (Some cs)
      then obtain s where s: "cs \<in> set (table_keys t)" "s \<in> set (rows_of db (tbl_name t))" "clash cs r s"
        using clashing_keyD by blast
      then have "clash key r s" by (intro keys_followD [OF Cons.prems]) simp_all
      with s(2) have "list_ex (clash key r) (rows_of db (tbl_name t))" by (auto simp: list_ex_iff)
      with Some True Cons.IH [of db n] f show ?thesis
        by (simp add: insert_row_good(2) duplicate_raised)
    qed
  qed
qed auto

text \<open>Consequences of the abstract append.\<close>

lemma append_spec_rows:
  "append_spec t key rs db = Some (n, db') \<Longrightarrow>
     \<exists>new. int (length new) = n \<and> subseq new rs \<and>
       (\<forall>u. rows_of db' u = (if u = tbl_name t then rows_of db u @ new else rows_of db u))"
proof (induction rs arbitrary: db n)
  case Nil
  then show ?case by auto
next
  case (Cons r rs)
  show ?case
  proof (cases "list_ex (clash key r) (rows_of db (tbl_name t))")
    case True
    then have "append_spec t key rs db = Some (n, db')" using Cons.prems by (simp split: if_splits)
    from Cons.IH [OF this] show ?thesis by (blast intro: list_emb_Cons)
  next
    case False
    then obtain m where m: "append_spec t key rs (add_row (tbl_name t) r db) = Some (m, db')" "n = m + 1"
      using Cons.prems by (auto split: if_splits)
    from Cons.IH [OF m(1)] obtain new where "int (length new) = m" "subseq new rs"
      "\<forall>u. rows_of db' u = (if u = tbl_name t then rows_of (add_row (tbl_name t) r db) u @ new
         else rows_of (add_row (tbl_name t) r db) u)" by blast
    with m(2) show ?thesis by (intro exI [of _ "r # new"]) (auto simp: rows_of_add)
  qed
qed

lemma append_spec_ok:
  assumes "distinct (map tbl_name tabs)" "t \<in> set tabs"
  shows "append_spec t key rs db = Some (n, db') \<Longrightarrow> store_ok tabs db \<Longrightarrow> store_ok tabs db'"
proof (induction rs arbitrary: db n)
  case (Cons r rs)
  show ?case
  proof (cases "list_ex (clash key r) (rows_of db (tbl_name t))")
    case True
    with Cons show ?thesis by (auto split: if_splits)
  next
    case False
    then obtain m where m: "append_spec t key rs (add_row (tbl_name t) r db) = Some (m, db')"
      "row_ok t r" "clashing_key db t r = None" "fk_ok db t r"
      using Cons.prems(1) by (auto split: if_splits)
    have "store_ok tabs (add_row (tbl_name t) r db)"
      by (rule insert_row_ok [OF assms Cons.prems(2), of r])
        (use m in \<open>simp add: insert_row_good\<close>)
    with Cons.IH [OF m(1)] show ?thesis by simp
  qed
qed simp

lemma append_spec_present:
  assumes "\<And>r. row_ok t r \<Longrightarrow> clash key r r"
  shows "append_spec t key rs db = Some (n, db') \<Longrightarrow> r \<in> set rs \<Longrightarrow>
     row_ok t r \<and> list_ex (clash key r) (rows_of db' (tbl_name t))"
proof (induction rs arbitrary: db n)
  case (Cons x rs)
  show ?case
  proof (cases "list_ex (clash key x) (rows_of db (tbl_name t))")
    case True
    then have s: "row_ok t x" "append_spec t key rs db = Some (n, db')"
      using Cons.prems(1) by (auto split: if_splits)
    obtain new where "rows_of db' (tbl_name t) = rows_of db (tbl_name t) @ new"
      using append_spec_rows [OF s(2)] by auto
    with True s Cons show ?thesis by auto
  next
    case False
    then obtain m where s: "row_ok t x" "append_spec t key rs (add_row (tbl_name t) x db) = Some (m, db')"
      using Cons.prems(1) by (auto split: if_splits)
    obtain new where "rows_of db' (tbl_name t) = rows_of (add_row (tbl_name t) x db) (tbl_name t) @ new"
      using append_spec_rows [OF s(2)] by auto
    with s assms [OF s(1)] Cons.prems(2) Cons.IH [OF s(2)] show ?thesis by (auto simp: rows_of_add)
  qed
qed simp

lemma append_spec_again:
  "\<forall>r \<in> set rs. row_ok t r \<and> list_ex (clash key r) (rows_of db (tbl_name t)) \<Longrightarrow>
     append_spec t key rs db = Some (0, db)"
  by (induction rs) auto

locale idempotent_append =
  fixes append :: "row list \<Rightarrow> store \<Rightarrow> sql_error + int \<times> store"
    and prep :: "row \<Rightarrow> row" and t :: table_def and key :: "string list" and tabs :: "table_def list"
    and allowed :: "row list \<Rightarrow> store \<Rightarrow> bool"
  assumes refines: "allowed rs db \<Longrightarrow> append rs db = Inr x \<longleftrightarrow> append_spec t key (map prep rs) db = Some x"
    and not_null: "row_ok t r \<Longrightarrow> clash key r r"
    and tables: "distinct (map tbl_name tabs)" "t \<in> set tabs"
begin

lemma keeps: "allowed rs db \<Longrightarrow> append rs db = Inr (n, db') \<Longrightarrow> store_ok tabs db \<Longrightarrow> store_ok tabs db'"
  using append_spec_ok [OF tables] by (simp add: refines)

lemma grows:
  "allowed rs db \<Longrightarrow> append rs db = Inr (n, db') \<Longrightarrow>
     int (length (rows_of db' (tbl_name t))) = int (length (rows_of db (tbl_name t))) + n"
  using append_spec_rows [of t key "map prep rs" db n db'] by (auto simp: refines)

lemma others:
  "allowed rs db \<Longrightarrow> append rs db = Inr (n, db') \<Longrightarrow> u \<noteq> tbl_name t \<Longrightarrow> rows_of db' u = rows_of db u"
  using append_spec_rows [of t key "map prep rs" db n db'] by (auto simp: refines)

lemma present:
  "allowed rs db \<Longrightarrow> append rs db = Inr (n, db') \<Longrightarrow> r \<in> set rs \<Longrightarrow>
     list_ex (clash key (prep r)) (rows_of db' (tbl_name t))"
  using append_spec_present [OF not_null, where rs = "map prep rs" and db = db and n = n and db' = db' and r = "prep r"] by (simp add: refines)

lemma again:
  assumes "allowed rs db" "append rs db = Inr (n, db')" "allowed rs db'"
  shows "append rs db' = Inr (0, db')"
proof -
  have "append_spec t key (map prep rs) db' = Some (0, db')"
    using assms(1,2) append_spec_present [OF not_null, where rs = "map prep rs" and db = db and n = n and db' = db']
    by (intro append_spec_again) (auto simp: refines)
  then show ?thesis using refines [OF assms(3)] by blast
qed

end

lemma observation_key: "[''idempotency_key''] \<in> set (table_keys t_price_observation)"
  by (simp add: table_keys_def t_price_observation_def)

lemma observation_key_not_null: "row_ok t_price_observation r \<Longrightarrow> clash [''idempotency_key''] r r"
proof -
  assume "row_ok t_price_observation r"
  then have "not_null_ok t_price_observation r" by (simp add: row_ok_def)
  then have "cell r ''idempotency_key'' \<noteq> VNull" by (simp add: not_null_ok_def t_price_observation_def)
  then show ?thesis by (auto simp: clash_def cells_def)
qed

lemma metadata_distinct: "distinct (map tbl_name metadata)"
  unfolding metadata_names by (simp add: table_order_def)

lemma price_observation_in_metadata: "t_price_observation \<in> set metadata"
  by (simp add: metadata_def)

definition append_allowed :: "row list \<Rightarrow> store \<Rightarrow> bool" where
  "append_allowed params db \<longleftrightarrow>
     keys_follow t_price_observation [''idempotency_key'']
       (rows_of db ''price_observation'' @ map (bind_row observation_spec) params)"

lemma postgres_refines:
  "insert_observations Postgres True params db = Inr x \<longleftrightarrow>
     append_spec t_price_observation [''idempotency_key''] (map (bind_row observation_spec) params) db = Some x"
  by (cases x) (auto simp: insert_observations_def observation_insert_def skip_spec)

lemma mariadb_refines:
  assumes "append_allowed params db"
  shows "insert_observations Mariadb True params db = Inr x \<longleftrightarrow>
     append_spec t_price_observation [''idempotency_key''] (map (bind_row observation_spec) params) db = Some x"
proof (cases "params = []")
  case False
  let ?rs = "map (bind_row observation_spec) params"
  show ?thesis
  proof (cases "insert_rows t_price_observation ?rs db")
    case (Inr db')
    then show ?thesis
      using False bulk_spec [OF observation_key Inr]
      by (cases x) (auto simp: insert_observations_def observation_insert_def Let_def)
  next
    case (Inl e)
    show ?thesis
    proof (cases "\<exists>cs. e = Duplicate_key cs")
      case True
      obtain n db' where x: "x = (n, db')" by (cases x)
      have "savepoint_inserts Mariadb t_price_observation ?rs 0 db = Inr (n, db') \<longleftrightarrow>
          append_spec t_price_observation [''idempotency_key''] ?rs db = Some (n - 0, db')"
        by (rule savepoint_spec [OF observation_key])
          (use assms in \<open>simp add: append_allowed_def t_price_observation_def\<close>)
      then show ?thesis
        using False Inl True
        by (simp add: insert_observations_def observation_insert_def Let_def x duplicate_raised)
    next
      case no: False
      then show ?thesis
        using False Inl bulk_spec_error [OF observation_key _ Inl]
        by (auto simp: insert_observations_def observation_insert_def Let_def duplicate_raised)
    qed
  qed
qed (auto simp: insert_observations_def)

interpretation pg_append: idempotent_append "insert_observations Postgres True"
  "bind_row observation_spec" t_price_observation "[''idempotency_key'']" metadata "\<lambda>_ _. True"
  by unfold_locales
    (simp_all add: postgres_refines observation_key_not_null metadata_distinct price_observation_in_metadata)

interpretation maria_append: idempotent_append "insert_observations Mariadb True"
  "bind_row observation_spec" t_price_observation "[''idempotency_key'']" metadata append_allowed
  by unfold_locales
    (simp_all add: mariadb_refines observation_key_not_null metadata_distinct price_observation_in_metadata)

text \<open>
  C10: The idempotent append on both products implements the same specification: when rows that share
  an identifier also share their idempotency key, PostgreSQL's conflict clause and MariaDB's bulk
  insert with its savepoint loop accept the same statements with the same count and the same store.
\<close>

theorem append_engines_agree:
  assumes "append_allowed params db"
  shows "(insert_observations Postgres True params db = Inr x \<longleftrightarrow>
      insert_observations Mariadb True params db = Inr x) \<and>
    (insert_observations Mariadb True params db = Inr x \<longleftrightarrow>
      append_spec t_price_observation [''idempotency_key''] (map (bind_row observation_spec) params) db = Some x)"
  using pg_append.refines [of params db x] maria_append.refines [OF assms] by simp

text \<open>
  C11: A successful append keeps every constraint of the schema, adds as many observations as it
  counts, touches no other table, leaves every key it was given in the table, and run again adds
  nothing and changes nothing; on MariaDB as long as the rows keep identifiers and keys together.
\<close>

theorem append_idempotent:
  assumes "insert_observations eng True params db = Inr (n, db')" "store_ok metadata db"
    "eng = Postgres \<or> append_allowed params db \<and> append_allowed params db'"
  shows "store_ok metadata db' \<and>
    int (length (rows_of db' ''price_observation'')) = int (length (rows_of db ''price_observation'')) + n \<and>
    (u = ''price_observation'' \<or> rows_of db' u = rows_of db u) \<and>
    list_all (\<lambda>r. list_ex (clash [''idempotency_key''] (bind_row observation_spec r))
      (rows_of db' ''price_observation'')) params \<and>
    insert_observations eng True params db' = Inr (0, db')"
proof -
  have name: "tbl_name t_price_observation = ''price_observation''" by (simp add: t_price_observation_def)
  show ?thesis
  proof (cases eng)
    case Postgres
    note a = assms(1) [unfolded Postgres]
    show ?thesis
      using pg_append.keeps [OF TrueI a assms(2)] pg_append.grows [OF TrueI a]
        pg_append.others [OF TrueI a, of u] pg_append.present [OF TrueI a]
        pg_append.again [OF TrueI a TrueI]
      by (auto simp: Postgres name list_all_iff)
  next
    case Mariadb
    note a = assms(1) [unfolded Mariadb]
    have al: "append_allowed params db" "append_allowed params db'" using assms(3) Mariadb by auto
    show ?thesis
      using maria_append.keeps [OF al(1) a assms(2)] maria_append.grows [OF al(1) a]
        maria_append.others [OF al(1) a, of u] maria_append.present [OF al(1) a]
        maria_append.again [OF al(1) a al(2)]
      by (auto simp: Mariadb name list_all_iff)
  qed
qed

text \<open>
  Where the identifier is taken but the key is new the products part: PostgreSQL refuses the
  statement with the primary key, MariaDB drops the observation and reports success.
\<close>

theorem duplicate_id_dropped:
  assumes "row_ok t_price_observation (bind_row observation_spec r)"
    "list_ex (clash [''id''] (bind_row observation_spec r)) (rows_of db ''price_observation'')"
    "\<not> list_ex (clash [''idempotency_key''] (bind_row observation_spec r)) (rows_of db ''price_observation'')"
  shows "insert_observations Postgres True [r] db = Inl (Duplicate_key [''id'']) \<and>
    insert_observations Mariadb True [r] db = Inr (0, db)"
proof -
  have t: "tbl_name t_price_observation = ''price_observation''"
    "table_keys t_price_observation = [[''id''], [''idempotency_key'']]"
    by (simp_all add: t_price_observation_def table_keys_def)
  have "clashing_key db t_price_observation (bind_row observation_spec r) = Some [''id'']"
    using assms(2) by (simp add: clashing_key_def t)
  then have i: "insert_row t_price_observation (bind_row observation_spec r) db = Inl (Duplicate_key [''id''])"
    by (rule insert_row_good(2) [OF assms(1)])
  then show ?thesis
    using assms(3)
    by (simp add: insert_observations_def observation_insert_def insert_or_skip_def t duplicate_raised)
qed

text \<open>A small store with one row in each table an observation refers to.\<close>

definition sample_card :: dbval where
  "sample_card = VText (replicate 36 97)"

definition sample_base :: store where
  "sample_base =
     [(''source'', [source_row (1, ''a'', ''web'', ''active'')]),
      (''shop'', [shop_row (1, ''a'', lit ''a'')]),
      (''card_identity'', [file_row ''card_identity''
         [sample_card, VText tcg, VText (lit ''SV001''), VText (lit ''001''), VText (lit ''C''),
          VText (lit ''1st''), VText (lit ''ja''), VText (lit ''n''), VTime 0]]),
      (''ingest_run'', [file_row ''ingest_run''
         [VInt 1, VInt 1, VTime 0, VNull, VText (lit ''running''), VInt 0, VInt 0, VInt 0, VNull]]),
      (''raw_artifact'', [file_row ''raw_artifact''
         [VInt 1, VInt 1, VInt 1, VText (lit ''i''), VNull, VText (lit ''text/csv''), VText (lit ''00''),
          VInt 1, VTime 0, VNull, VText (lit ''r'')]]),
      (''processing_run'', [file_row ''processing_run''
         [VInt 1, VInt 1, VText (lit ''p''), VText (lit ''1''), VText (lit ''c''), VInt 1, VTime 0,
          VNull, VText (lit ''succeeded''), VInt 1, VInt 1, VNull]]),
      (''extracted_record'', [file_row ''extracted_record''
         [VInt 1, VInt 1, VInt 1, VText (lit ''l''), VText (lit ''{}''), VText (lit ''artifact''), VNull,
          VNull, VTime 0]]),
      (''observation_candidate'', [file_row ''observation_candidate''
         [VInt 1, VInt 1, VInt 1, VInt 1, VText tcg, VInt 100, VText currency, VText (lit ''buy''),
          VText (lit ''n''), VNull, VNull, VNull, VNull, VNull, VNull, VTime 0, VText (lit ''v1''),
          VTime 0]])]"

definition sample_params :: "string \<Rightarrow> row" where
  "sample_params k =
     [(''id'', VInt 7), (''observation_candidate_id'', VInt 1), (''card_identity_id'', sample_card),
      (''shop_id'', VInt 1), (''source_id'', VInt 1), (''raw_artifact_id'', VInt 1),
      (''tcg'', VText (lit ''pokemon'')), (''amount_minor'', VInt 100), (''currency'', VText (lit ''JPY'')),
      (''price_type'', VText (lit ''buy'')), (''card_condition'', VText (lit ''A'')),
      (''observed_at'', VTime 0), (''collected_at'', VTime 0), (''idempotency_key'', VText (lit k)),
      (''created_at'', VTime 0)]"

definition sample_db :: store where
  "sample_db =
     add_row ''price_observation'' (bind_row observation_spec (sample_params ''k1'')) sample_base"

lemma sample_base_ok: "store_ok metadata sample_base"
  by code_simp

lemma sample_append: "insert_observations Postgres True [sample_params ''k1''] sample_base = Inr (1, sample_db)"
  by code_simp

lemma sample_allowed: "append_allowed [sample_params ''k1''] sample_base"
  by code_simp

theorem append_engines_agree_witness:
  "insert_observations Mariadb True [sample_params ''k1''] sample_base = Inr (1, sample_db)"
  using append_engines_agree [OF sample_allowed, of "(1, sample_db)"] sample_append by simp

theorem append_idempotent_witness:
  "store_ok metadata sample_db \<and>
   insert_observations Postgres True [sample_params ''k1''] sample_db = Inr (0, sample_db)"
  using append_idempotent [OF sample_append sample_base_ok] by simp

theorem duplicate_id_dropped_witness:
  "insert_observations Postgres True [sample_params ''k2''] sample_db = Inl (Duplicate_key [''id'']) \<and>
   insert_observations Mariadb True [sample_params ''k2''] sample_db = Inr (0, sample_db)"
proof -
  have "row_ok t_price_observation (bind_row observation_spec (sample_params ''k2''))" by code_simp
  moreover have "list_ex (clash [''id''] (bind_row observation_spec (sample_params ''k2'')))
      (rows_of sample_db ''price_observation'')" by code_simp
  moreover have "\<not> list_ex (clash [''idempotency_key''] (bind_row observation_spec (sample_params ''k2'')))
      (rows_of sample_db ''price_observation'')" by code_simp
  ultimately show ?thesis by (rule duplicate_id_dropped)
qed

end
