(* ===== verification/Batch.thy ===== *)
theory Batch imports Append begin

text \<open>
  A batch of collected prices written by the load generator: the rows build_batch makes meet the
  checks, types and keys of their tables, their references point into the store, and write_batch
  stores them all on both products.
\<close>

lemma insert_rows_fresh:
  assumes "\<forall>r \<in> set rs. row_ok t r \<and> fk_ok db t r \<and> clashing_key db t r = None"
    "\<forall>cs \<in> set (table_keys t). key_ok rs cs"
  shows "insert_rows t rs db = Inr (add_rows (tbl_name t) rs db)"
  using assms
proof (induction rs arbitrary: db)
  case Nil
  then show ?case by (simp add: add_rows_def)
next
  case (Cons r rs)
  let ?db = "add_row (tbl_name t) r db"
  have "insert_row t r db = Inr ?db"
    using Cons.prems(1) by (simp add: insert_row_good(1))
  moreover have "insert_rows t rs ?db = Inr (add_rows (tbl_name t) rs ?db)"
  proof (rule Cons.IH)
    have k: "\<not> clash cs r s" if "cs \<in> set (table_keys t)" "s \<in> set rs" for cs s
      using Cons.prems(2) that by (simp add: key_ok_def)
    show "\<forall>s \<in> set rs. row_ok t s \<and> fk_ok ?db t s \<and> clashing_key ?db t s = None"
    proof
      fix s assume s: "s \<in> set rs"
      have "fk_ok ?db t s" by (rule fk_ok_more [OF _ add_row_more]) (use Cons.prems(1) s in simp)
      moreover have "clashing_key ?db t s = None"
        using Cons.prems(1) s k clash_sym unfolding clashing_key_None by (fastforce simp: rows_of_add)
      ultimately show "row_ok t s \<and> fk_ok ?db t s \<and> clashing_key ?db t s = None"
        using Cons.prems(1) s by simp
    qed
    show "\<forall>cs \<in> set (table_keys t). key_ok rs cs" using Cons.prems(2) by (simp add: key_ok_def)
  qed
  ultimately show ?case by (simp add: add_rows_Cons)
qed

lemma ids_add_rows:
  "ids (add_rows t rs db) u = (if u = t then ids db t \<union> set (map (\<lambda>r. cell r ''id'') rs) else ids db u)"
  by (auto simp: ids_def rows_of_add_rows)

lemma clashing_key_other:
  "tbl_name t \<noteq> u \<Longrightarrow> clashing_key (add_rows u rs db) t r = clashing_key db t r"
  by (simp add: clashing_key_def rows_of_add_rows)

text \<open>What a batch needs of the store: its sources, shops and cards, and none of its keys taken.\<close>

definition batch_refs :: "int \<Rightarrow> store \<Rightarrow> bool" where
  "batch_refs cards db \<longleftrightarrow>
     VInt ` {1..4} \<subseteq> ids db ''source'' \<and> VInt ` {1..4} \<subseteq> ids db ''shop'' \<and>
     (\<lambda>i. VText (card_uuid i)) ` {0..<cards} \<subseteq> ids db ''card_identity''"

definition spec_of :: "string \<Rightarrow> insert_spec" where
  "spec_of t = (if t = ''price_observation'' then observation_spec else dict_get inserts t [])"

definition table_fresh :: "store \<Rightarrow> table_def \<Rightarrow> row list \<Rightarrow> bool" where
  "table_fresh db t params \<longleftrightarrow>
     list_all (\<lambda>r. clashing_key db t (bind_row (spec_of (tbl_name t)) r) = None) params"

definition batch_fresh :: "store \<Rightarrow> batch \<Rightarrow> bool" where
  "batch_fresh db b \<longleftrightarrow>
     list_all (\<lambda>t. tbl_name t \<in> set bulk_tables \<longrightarrow> table_fresh db t (dict_get b (tbl_name t) [])) metadata"

lemma spec_of_simps:
  "spec_of ''ingest_run'' = dict_get inserts ''ingest_run'' []"
  "spec_of ''price_observation'' = observation_spec"
  by (simp_all add: spec_of_def)

text \<open>Bounds that keep every identifier and text inside its column.\<close>

definition batch_args :: "int \<Rightarrow> int \<Rightarrow> int \<Rightarrow> int \<Rightarrow> int \<Rightarrow> pystr \<Rightarrow> bool" where
  "batch_args writer seq rows cards observed tag \<longleftrightarrow>
     0 \<le> writer \<and> writer < 100 \<and> 0 \<le> seq \<and> seq < 80000000 \<and> 0 \<le> rows \<and> rows \<le> records_per_run \<and>
     0 < cards \<and> cards \<le> 120000 \<and> micros 1 0 0 0 \<le> observed \<and> observed < micros 3000000 0 0 0 \<and>
     length tag \<le> 20"

lemma id_base_values:
  "dict_get id_base ''ingest_run'' 0 = 1000000000000"
  "dict_get id_base ''raw_artifact'' 0 = 2000000000000"
  "dict_get id_base ''processing_run'' 0 = 3000000000000"
  "dict_get id_base ''extracted_record'' 0 = 4000000000000"
  "dict_get id_base ''observation_candidate'' 0 = 5000000000000"
  "dict_get id_base ''identity_resolution_attempt'' 0 = 6000000000000"
  "dict_get id_base ''price_observation'' 0 = 7000000000000"
  "dict_get id_base ''review_item'' 0 = 8000000000000"
  by code_simp+

lemma runtime_ids:
  "runtime_id ''ingest_run'' w c = 1000000000000 + w * 10000000000 + c"
  "runtime_id ''raw_artifact'' w c = 2000000000000 + w * 10000000000 + c"
  "runtime_id ''processing_run'' w c = 3000000000000 + w * 10000000000 + c"
  "runtime_id ''extracted_record'' w c = 4000000000000 + w * 10000000000 + c"
  "runtime_id ''observation_candidate'' w c = 5000000000000 + w * 10000000000 + c"
  "runtime_id ''identity_resolution_attempt'' w c = 6000000000000 + w * 10000000000 + c"
  "runtime_id ''price_observation'' w c = 7000000000000 + w * 10000000000 + c"
  "runtime_id ''review_item'' w c = 8000000000000 + w * 10000000000 + c"
  unfolding runtime_id_def id_base_values writer_stride_def by (rule refl)+

lemma bind_row_values:
  "bind_row spec params =
     with_columns (map fst spec) (map (\<lambda>(c, e). case e of None \<Rightarrow> cell params c | Some v \<Rightarrow> v) spec)"
  by (induction spec) (auto simp: bind_row_def with_columns_def)

lemma spec_columns:
  "map fst (spec_of ''ingest_run'') = map col_name (tbl_columns t_ingest_run)"
  "map fst (spec_of ''raw_artifact'') = map col_name (tbl_columns t_raw_artifact)"
  "map fst (spec_of ''processing_run'') = map col_name (tbl_columns t_processing_run)"
  "map fst (spec_of ''extracted_record'') = map col_name (tbl_columns t_extracted_record)"
  "map fst (spec_of ''observation_candidate'') = map col_name (tbl_columns t_observation_candidate)"
  "map fst (spec_of ''identity_resolution_attempt'') = map col_name (tbl_columns t_identity_resolution_attempt)"
  "map fst (spec_of ''price_observation'') = map col_name (tbl_columns t_price_observation)"
  "map fst (spec_of ''review_item'') = map col_name (tbl_columns t_review_item)"
  by code_simp+

text \<open>A bound row as the file row of its values.\<close>

definition bound :: "string \<Rightarrow> row \<Rightarrow> dbval list" where
  "bound t params = map (\<lambda>(c, e). case e of None \<Rightarrow> cell params c | Some v \<Rightarrow> v) (spec_of t)"

lemma bind_file_row:
  assumes "dict_get file_columns t [] = map fst (spec_of t)"
  shows "bind_row (spec_of t) params = file_row t (bound t params)"
  unfolding bind_row_values file_row_def assms bound_def ..

lemma bind_file_rows:
  "t \<in> set bulk_tables \<Longrightarrow> t \<noteq> ''card_identity'' \<Longrightarrow> bind_row (spec_of t) params = file_row t (bound t params)"
  by (rule bind_file_row) (auto simp: bulk_tables_def spec_columns file_columns_of)

lemma bound_ingest_run:
  "bound ''ingest_run'' (batch_ingest_run w s n ob) =
     [VInt (runtime_id ''ingest_run'' w s), VInt (batch_source w s), VTime ob, VTime (ob + micros 0 0 1 0),
      VText (lit ''succeeded''), VInt n, VInt n, VInt n, VNull]"
  by (simp add: bound_def spec_of_def inserts_def dict_get_def batch_ingest_run_def cell_def)

lemma bound_artifact:
  "bound ''raw_artifact'' (batch_artifact w s ob tag) =
     [VInt (runtime_id ''raw_artifact'' w s), VInt (runtime_id ''ingest_run'' w s), VInt (batch_source w s),
      VText (tag @ lit ''-'' @ py_str w @ lit ''-'' @ py_str s),
      VText (lit ''https://example.invalid/'' @ source_slug (batch_source w s) @ lit ''/'' @ tag @ lit ''/'' @ py_str s),
      VText (lit ''application/json''),
      VText (concat (map (\<lambda>k. hex8 (h (runtime_id ''raw_artifact'' w s + k))) (py_range 8))),
      VInt (1024 + s mod 4096), VTime ob, VNull,
      VText (lit ''artifacts/runtime/'' @ py_str w @ lit ''/'' @ py_str s @ lit ''.json'')]"
  by (simp add: bound_def spec_of_def inserts_def dict_get_def batch_artifact_def cell_def Let_def)

lemma bound_processing_run:
  "bound ''processing_run'' (batch_processing_run w s n ob) =
     [VInt (runtime_id ''processing_run'' w s), VInt (runtime_id ''raw_artifact'' w s),
      VText (lit ''price_table_parser''), VText (lit ''1.0.0''), VText (lit ''config/v1''), VInt 1,
      VTime ob, VTime (ob + micros 0 0 0 2), VText (lit ''succeeded''), VInt n, VInt n, VNull]"
  by (simp add: bound_def spec_of_def inserts_def dict_get_def batch_processing_run_def cell_def)

lemma bound_record:
  "bound ''extracted_record'' (batch_record w s cards ob i) =
     (let r = runtime_id ''extracted_record'' w (batch_counter s i) in
      [VInt r, VInt (runtime_id ''processing_run'' w s), VInt (runtime_id ''raw_artifact'' w s),
       VText (lit ''$.items['' @ py_str i @ lit '']''),
       VText (payload_text (batch_card r cards) (price_for r) (batch_condition r)),
       VText (lit ''artifact''), VScore 9800, VNull, VTime ob])"
  by (simp add: bound_def spec_of_def inserts_def dict_get_def batch_record_def cell_def Let_def)

lemma bound_candidate:
  "bound ''observation_candidate'' (batch_candidate w s cards ob i) =
     (let r = runtime_id ''extracted_record'' w (batch_counter s i) in
      [VInt (runtime_id ''observation_candidate'' w (batch_counter s i)), VInt r,
       VInt (batch_source w s), VInt (batch_source w s), VText tcg, VInt (price_for r), VText currency,
       VText (batch_price_type r), VText (lit ''card'' @ py_str (batch_card r cards)),
       VText (dd 3 (batch_card r cards mod 1000) @ lit ''/165''),
       VText (lit ''SV'' @ dd 3 (batch_card r cards div 1000)), VText (lit ''RR''), VText (lit ''1st''),
       VText (lit ''ja''), VText (batch_condition r), VTime ob, VText (lit ''v1''), VTime ob])"
  by (simp add: bound_def spec_of_def inserts_def dict_get_def batch_candidate_def cell_def Let_def)

lemma bound_attempts:
  "map (bound ''identity_resolution_attempt'') (batch_attempts w s cards ob i) =
     (let c = batch_card (runtime_id ''extracted_record'' w (batch_counter s i)) cards;
          cand = runtime_id ''observation_candidate'' w (batch_counter s i) in
      [attempt_row (runtime_id ''identity_resolution_attempt'' w (batch_counter s i * 2)) cand c 9900
         ''confirmed'' ''set+number+rarity'' ob,
       attempt_row (runtime_id ''identity_resolution_attempt'' w (batch_counter s i * 2 + 1)) cand
         ((c + 7) mod cards) 5500 ''rejected'' ''name_similarity'' ob])"
  by (simp add: bound_def spec_of_def inserts_def dict_get_def batch_attempts_def cell_def Let_def attempt_row_def)

lemma bound_observation:
  "bound ''price_observation'' (batch_observation w s cards ob i) =
     (let r = runtime_id ''extracted_record'' w (batch_counter s i) in
      [VInt (runtime_id ''price_observation'' w (batch_counter s i)),
       VInt (runtime_id ''observation_candidate'' w (batch_counter s i)),
       VText (card_uuid (batch_card r cards)), VInt (batch_source w s), VInt (batch_source w s),
       VInt (runtime_id ''raw_artifact'' w s), VText tcg, VInt (price_for r), VText currency,
       VText (batch_price_type r), VText (batch_condition r), VTime ob, VTime ob, VNull, VNull,
       VText (idempotency_key (source_slug (batch_source w s)) (runtime_id ''raw_artifact'' w s) i
          (batch_price_type r) (date_text ob) (batch_condition r)), VTime ob])"
  by (simp add: bound_def spec_of_def observation_spec_def batch_observation_def cell_def Let_def)

lemma bound_review:
  "bound ''review_item'' (batch_review w s ob i) =
     [VInt (runtime_id ''review_item'' w (batch_counter s i)), VInt (runtime_id ''ingest_run'' w s),
      VInt (runtime_id ''raw_artifact'' w s),
      VInt (runtime_id ''extracted_record'' w (batch_counter s i)), VNull, VText (lit ''parse_ambiguous''),
      VText (lit ''pending''), VInt (i mod 5 + 1), VTime ob, VNull, VNull, VNull, VInt 0]"
  by (simp add: bound_def spec_of_def inserts_def dict_get_def batch_review_def cell_def)

lemma batch_argsD:
  assumes "batch_args w s n cards ob tag"
  shows "0 \<le> w" "w < 100" "0 \<le> s" "s < 80000000" "0 \<le> n" "n \<le> 60" "0 < cards" "cards \<le> 120000"
    "86400000000 \<le> ob" "ob < 3000000 * 86400000000" "length tag \<le> 20"
  using assms by (simp_all add: batch_args_def records_per_run_def micros_def)

lemma batch_source_range: "1 \<le> batch_source w s" "batch_source w s \<le> 4"
  using mod_bounds(1,2) [of "w + s"] by (simp_all add: batch_source_def)

lemma batch_card_range:
  assumes "0 < cards" "cards \<le> 120000"
  shows "0 \<le> batch_card r cards" "batch_card r cards < cards" "batch_card r cards < 120000"
proof -
  show a: "0 \<le> batch_card r cards" "batch_card r cards < cards" using assms by (simp_all add: batch_card_def)
  show "batch_card r cards < 120000" using a assms by simp
qed

lemma counter_range:
  assumes "batch_args w s n cards ob tag" "0 \<le> i" "i < n"
  shows "0 \<le> batch_counter s i" "batch_counter s i < 4900000000"
  using batch_argsD [OF assms(1)] assms(2,3) by (simp_all add: batch_counter_def records_per_run_def)

lemma price_type_length: "length (batch_price_type r) \<le> 4"
  by (simp add: batch_price_type_def)

lemma condition_length: "length (batch_condition r) \<le> 5"
  by (simp add: batch_condition_def)

lemma price_type_check: "batch_price_type r = lit ''buy'' \<or> batch_price_type r = lit ''sell''"
  by (simp add: batch_price_type_def)

lemma bind_eqs:
  "bind_row (spec_of ''ingest_run'') r =
     file_row ''ingest_run'' (bound ''ingest_run'' r)"
  "bind_row (spec_of ''raw_artifact'') r =
     file_row ''raw_artifact'' (bound ''raw_artifact'' r)"
  "bind_row (spec_of ''processing_run'') r =
     file_row ''processing_run'' (bound ''processing_run'' r)"
  "bind_row (spec_of ''extracted_record'') r =
     file_row ''extracted_record'' (bound ''extracted_record'' r)"
  "bind_row (spec_of ''observation_candidate'') r =
     file_row ''observation_candidate'' (bound ''observation_candidate'' r)"
  "bind_row (spec_of ''identity_resolution_attempt'') r =
     file_row ''identity_resolution_attempt'' (bound ''identity_resolution_attempt'' r)"
  "bind_row (spec_of ''price_observation'') r =
     file_row ''price_observation'' (bound ''price_observation'' r)"
  "bind_row (spec_of ''review_item'') r =
     file_row ''review_item'' (bound ''review_item'' r)"
  by (rule bind_file_rows; simp add: bulk_tables_def)+

subsection \<open>Every row of a batch fits its table\<close>

lemma batch_run_ok:
  assumes "batch_args w s n cards ob tag"
  shows "row_ok t_ingest_run (bind_row (spec_of ''ingest_run'') (batch_ingest_run w s n ob))"
  using batch_argsD [OF assms] batch_source_range [of w s] unfolding bind_eqs bound_ingest_run
  by (intro file_rowI) (auto simp: row_simps t_ingest_run_def file_row_def runtime_ids)

lemma concat_hex8_length: "length (concat (map (\<lambda>k. hex8 (h (f k))) ks)) = 8 * length ks"
  by (induction ks) (simp_all add: h_range)

lemma py_range_length: "length (py_range n) = nat n"
  by (simp add: py_range_def)

lemma batch_artifact_ok:
  assumes "batch_args w s n cards ob tag"
  shows "row_ok t_raw_artifact (bind_row (spec_of ''raw_artifact'') (batch_artifact w s ob tag))"
proof -
  note a = batch_argsD [OF assms]
  have l: "length (py_str w) \<le> 2" "length (py_str s) \<le> 8" using a by (auto intro: py_str_length)
  have m: "0 \<le> s mod 4096" "s mod 4096 < 4096" by simp_all
  have u: "length (source_slug (batch_source w s)) \<le> 18"
    using batch_source_range [of w s] by (rule source_slug_length)
  show ?thesis
    using a l m u batch_source_range [of w s] unfolding bind_eqs bound_artifact
    by (intro file_rowI)
      (auto simp: row_simps t_raw_artifact_def file_row_def runtime_ids concat_hex8_length py_range_length)
qed

lemma batch_processing_ok:
  assumes "batch_args w s n cards ob tag"
  shows "row_ok t_processing_run (bind_row (spec_of ''processing_run'') (batch_processing_run w s n ob))"
  using batch_argsD [OF assms] unfolding bind_eqs bound_processing_run
  by (intro file_rowI) (auto simp: row_simps t_processing_run_def file_row_def runtime_ids)

lemma batch_record_ok:
  assumes "batch_args w s n cards ob tag" "0 \<le> i" "i < n"
  shows "row_ok t_extracted_record (bind_row (spec_of ''extracted_record'') (batch_record w s cards ob i))"
proof -
  have "length (py_str i) \<le> 2" using batch_argsD [OF assms(1)] assms(2,3) by (intro py_str_length) simp_all
  then show ?thesis
    using batch_argsD [OF assms(1)] counter_range [OF assms] unfolding bind_eqs bound_record
    by (intro file_rowI) (auto simp: row_simps t_extracted_record_def file_row_def runtime_ids)
qed

lemma batch_candidate_ok:
  assumes "batch_args w s n cards ob tag" "0 \<le> i" "i < n"
  shows "row_ok t_observation_candidate
    (bind_row (spec_of ''observation_candidate'') (batch_candidate w s cards ob i))"
proof -
  define r where "r = runtime_id ''extracted_record'' w (batch_counter s i)"
  define c where "c = batch_card r cards"
  have c: "0 \<le> c" "c < 120000"
    using batch_card_range [of cards r] batch_argsD [OF assms(1)] by (simp_all add: c_def)
  have l: "length (py_str c) \<le> 6" "length (dd 3 (c div 1000)) = 3"
    using c by (auto intro: py_str_length dd_length)
  have rid: "- 9223372036854775808 \<le> r" "r < 9223372036854775808"
    using batch_argsD [OF assms(1)] counter_range [OF assms] by (auto simp: r_def runtime_ids)
  show ?thesis
    using batch_argsD(1,2) [OF assms(1)] counter_range [OF assms] l rid price_for_big [of r] batch_source_range [of w s]
      price_type_length [of r] condition_length [of r] price_type_check [of r]
    unfolding bind_eqs bound_candidate Let_def r_def [symmetric] c_def [symmetric]
    by (intro file_rowI)
      (auto simp: row_simps t_observation_candidate_def file_row_def runtime_ids le_trans [OF condition_length])
qed

lemma batch_attempt_ok:
  assumes "batch_args w s n cards ob tag" "0 \<le> i" "i < n" "p \<in> set (batch_attempts w s cards ob i)"
  shows "row_ok t_identity_resolution_attempt (bind_row (spec_of ''identity_resolution_attempt'') p)"
proof -
  have "bound ''identity_resolution_attempt'' p \<in>
      set (map (bound ''identity_resolution_attempt'') (batch_attempts w s cards ob i))"
    using assms(4) by simp
  then show ?thesis
    using batch_argsD(1,2) [OF assms(1)] counter_range [OF assms(1-3)] unfolding bind_eqs bound_attempts
    by (auto simp: Let_def runtime_ids intro!: attempt_row_ok)
qed

lemma batch_observation_ok:
  assumes "batch_args w s n cards ob tag" "0 \<le> i" "i < n"
  shows "row_ok t_price_observation (bind_row (spec_of ''price_observation'') (batch_observation w s cards ob i))"
proof -
  define r where "r = runtime_id ''extracted_record'' w (batch_counter s i)"
  define a where "a = runtime_id ''raw_artifact'' w s"
  note args = batch_argsD [OF assms(1)]
  have a: "0 \<le> a" "a < 10000000000000" using args by (auto simp: a_def runtime_ids)
  have key: "length (idempotency_key (source_slug (batch_source w s)) a i (batch_price_type r) (date_text ob)
      (batch_condition r)) \<le> 120"
  proof -
    have "length (source_slug (batch_source w s)) \<le> 18" "length (py_str a) \<le> 13" "length (py_str i) \<le> 2"
      "length (date_text ob) \<le> 11"
      using a args assms(2,3) batch_source_range [of w s]
      by (auto intro: source_slug_length py_str_length date_text_length)
    then show ?thesis
      using price_type_length [of r] condition_length [of r] by (simp add: idempotency_key_def)
  qed
  show ?thesis
    using args(1,2) counter_range [OF assms] key a price_for_big [of r] batch_source_range [of w s]
      price_type_length [of r] condition_length [of r] price_type_check [of r]
    unfolding bind_eqs bound_observation Let_def r_def [symmetric] a_def [symmetric]
    by (intro file_rowI)
      (auto simp: row_simps t_price_observation_def file_row_def runtime_ids le_trans [OF condition_length])
qed

lemma batch_review_ok:
  assumes "batch_args w s n cards ob tag" "0 \<le> i" "i < n"
  shows "row_ok t_review_item (bind_row (spec_of ''review_item'') (batch_review w s ob i))"
proof -
  have "0 \<le> i mod 5" "i mod 5 < 5" by simp_all
  then show ?thesis
    using batch_argsD [OF assms(1)] counter_range [OF assms] unfolding bind_eqs bound_review
    by (intro file_rowI) (auto simp: row_simps t_review_item_def file_row_def runtime_ids)
qed

subsection \<open>A fresh batch is written\<close>

text \<open>The store after the rows of the tables have been added in turn.\<close>

definition add_bound :: "string \<Rightarrow> row list \<Rightarrow> store \<Rightarrow> store" where
  "add_bound t params db = add_rows t (map (bind_row (spec_of t)) params) db"

lemma ids_add_bound:
  "ids (add_bound t params db) u =
     (if u = t then ids db t \<union> set (map (\<lambda>r. cell (bind_row (spec_of t) r) ''id'') params) else ids db u)"
  by (auto simp: add_bound_def ids_add_rows)

lemma insert_fresh:
  assumes "table_of t = Some d" "tbl_name d = t" "t \<in> set bulk_tables" "t \<noteq> ''price_observation''"
    "\<And>r. r \<in> set params \<Longrightarrow> row_ok d (bind_row (spec_of t) r)"
    "\<And>r. r \<in> set params \<Longrightarrow> fk_ok db d (bind_row (spec_of t) r)"
    "table_fresh db d params"
    "\<And>cs. cs \<in> set (table_keys d) \<Longrightarrow> key_ok (map (bind_row (spec_of t)) params) cs"
  shows "insert_table t params db = Inr (add_bound t params db)"
proof -
  have "insert_rows d (map (bind_row (spec_of t)) params) db =
      Inr (add_rows (tbl_name d) (map (bind_row (spec_of t)) params) db)"
    by (rule insert_rows_fresh) (use assms in \<open>auto simp: table_fresh_def list_all_iff\<close>)
  with assms(1,2,4) show ?thesis by (simp add: insert_table_def add_bound_def spec_of_def)
qed

lemma append_fresh:
  assumes "\<And>r. r \<in> set params \<Longrightarrow> row_ok t_price_observation (bind_row (spec_of ''price_observation'') r)"
    "\<And>r. r \<in> set params \<Longrightarrow> fk_ok db t_price_observation (bind_row (spec_of ''price_observation'') r)"
    "table_fresh db t_price_observation params"
    "\<And>cs. cs \<in> set (table_keys t_price_observation) \<Longrightarrow>
       key_ok (map (bind_row (spec_of ''price_observation'')) params) cs"
  shows "insert_observations eng True params db = Inr (int (length params), add_bound ''price_observation'' params db)"
proof -
  have n: "tbl_name t_price_observation = ''price_observation''" by (simp add: t_price_observation_def)
  have i: "insert_rows t_price_observation (map (bind_row observation_spec) params) db =
      Inr (add_bound ''price_observation'' params db)"
    using insert_rows_fresh [of "map (bind_row observation_spec) params" t_price_observation db] assms
    by (auto simp: table_fresh_def list_all_iff add_bound_def n spec_of_simps)
  show ?thesis
  proof (cases eng)
    case Postgres
    then show ?thesis using bulk_spec [OF observation_key i] by (simp add: postgres_refines)
  next
    case Mariadb
    with i show ?thesis
      by (cases "params = []")
        (simp_all add: insert_observations_def observation_insert_def Let_def add_bound_def add_rows_def)
  qed
qed

lemma table_fresh_add:
  "tbl_name d \<noteq> u \<Longrightarrow> table_fresh (add_bound u ps db) d params = table_fresh db d params"
  by (simp add: table_fresh_def add_bound_def clashing_key_other)

lemma key_ok_single [simp]: "key_ok [r] cs" "key_ok [] cs"
  by (simp_all add: key_ok_def)

lemma key_ok_map:
  assumes "\<And>i j. i \<in> set is \<Longrightarrow> j \<in> set is \<Longrightarrow> cell (f i) c = cell (f j) c \<Longrightarrow> i = j" "distinct is" "c \<in> set cs"
  shows "key_ok (map f is) cs"
  by (rule key_ok_distinct [of "[c]"])
    (use assms in \<open>auto simp: cells_def distinct_map inj_on_def\<close>)

lemmas cell_simps = bind_eqs file_row_def file_columns_of

lemma batch_id_cells:
  "cell (bind_row (spec_of ''ingest_run'') (batch_ingest_run w s n ob)) ''id'' = VInt (runtime_id ''ingest_run'' w s)"
  "cell (bind_row (spec_of ''raw_artifact'') (batch_artifact w s ob tag)) ''id'' = VInt (runtime_id ''raw_artifact'' w s)"
  "cell (bind_row (spec_of ''processing_run'') (batch_processing_run w s n ob)) ''id'' =
     VInt (runtime_id ''processing_run'' w s)"
  "cell (bind_row (spec_of ''extracted_record'') (batch_record w s cards ob i)) ''id'' =
     VInt (runtime_id ''extracted_record'' w (batch_counter s i))"
  "cell (bind_row (spec_of ''observation_candidate'') (batch_candidate w s cards ob i)) ''id'' =
     VInt (runtime_id ''observation_candidate'' w (batch_counter s i))"
  "cell (bind_row (spec_of ''observation_candidate'') (batch_candidate w s cards ob i)) ''extracted_record_id'' =
     VInt (runtime_id ''extracted_record'' w (batch_counter s i))"
  "cell (bind_row (spec_of ''price_observation'') (batch_observation w s cards ob i)) ''id'' =
     VInt (runtime_id ''price_observation'' w (batch_counter s i))"
  "cell (bind_row (spec_of ''price_observation'') (batch_observation w s cards ob i)) ''idempotency_key'' =
     VText (idempotency_key (source_slug (batch_source w s)) (runtime_id ''raw_artifact'' w s) i
       (batch_price_type (runtime_id ''extracted_record'' w (batch_counter s i))) (date_text ob)
       (batch_condition (runtime_id ''extracted_record'' w (batch_counter s i))))"
  "cell (bind_row (spec_of ''review_item'') (batch_review w s ob i)) ''id'' =
     VInt (runtime_id ''review_item'' w (batch_counter s i))"
  by (simp_all add: cell_simps Let_def bound_ingest_run bound_artifact bound_processing_run bound_record
    bound_candidate bound_observation bound_review t_ingest_run_def t_raw_artifact_def t_processing_run_def
    t_extracted_record_def t_observation_candidate_def t_price_observation_def t_review_item_def)

lemma batch_attempt_ids:
  "map (\<lambda>r. cell (bind_row (spec_of ''identity_resolution_attempt'') r) ''id'') (batch_attempts w s cards ob i) =
     [VInt (runtime_id ''identity_resolution_attempt'' w (batch_counter s i * 2)),
      VInt (runtime_id ''identity_resolution_attempt'' w (batch_counter s i * 2 + 1))]"
proof -
  have "map (\<lambda>r. cell (bind_row (spec_of ''identity_resolution_attempt'') r) ''id'') ps =
      map (\<lambda>vs. cell (file_row ''identity_resolution_attempt'' vs) ''id'')
        (map (bound ''identity_resolution_attempt'') ps)" for ps
    by (simp add: bind_eqs)
  then show ?thesis
    by (simp only: bound_attempts)
      (simp add: Let_def attempt_row_def file_row_def file_columns_of t_identity_resolution_attempt_def)
qed

lemma counter_inj [simp]: "batch_counter s i = batch_counter s j \<longleftrightarrow> i = j"
  by (simp add: batch_counter_def)

lemma runtime_id_inj [simp]: "runtime_id t w c = runtime_id t w d \<longleftrightarrow> c = d"
  by (simp add: runtime_id_def)

lemma batch_keys:
  assumes "cs \<in> set (table_keys t_extracted_record)"
  shows "key_ok (map (bind_row (spec_of ''extracted_record'')) (map (batch_record w s cards ob) (py_range n))) cs"
  using assms unfolding map_map comp_def
  by (intro key_ok_map [of _ _ "''id''"])
    (auto simp: batch_id_cells table_keys_def t_extracted_record_def)

lemma batch_candidate_keys:
  assumes "cs \<in> set (table_keys t_observation_candidate)"
  shows "key_ok (map (bind_row (spec_of ''observation_candidate'')) (map (batch_candidate w s cards ob) (py_range n))) cs"
proof -
  have "cs = [''id''] \<or> cs = [''extracted_record_id'', ''promotion_rule_version'']"
    using assms by (simp add: table_keys_def t_observation_candidate_def)
  then show ?thesis
    unfolding map_map comp_def
    by (elim disjE) (intro key_ok_map [of _ _ "hd cs"]; auto simp: batch_id_cells)+
qed

lemma key_ok_cell: "distinct (map (\<lambda>r. cell r c) rs) \<Longrightarrow> c \<in> set cs \<Longrightarrow> key_ok rs cs"
  by (rule key_ok_distinct [of "[c]"]) (auto simp: cells_def distinct_map inj_on_def)

lemma parity_ne: "(a :: int) * 2 = b * 2 + 1 \<Longrightarrow> P" "(b :: int) * 2 + 1 = a * 2 \<Longrightarrow> P"
  by presburger+

lemma batch_attempt_keys:
  assumes "cs \<in> set (table_keys t_identity_resolution_attempt)"
  shows "key_ok (map (bind_row (spec_of ''identity_resolution_attempt''))
    (concat (map (batch_attempts w s cards ob) (py_range n)))) cs"
proof (rule key_ok_cell [of "''id''"])
  have "map (\<lambda>r. cell (bind_row (spec_of ''identity_resolution_attempt'') r) ''id'')
      (concat (map (batch_attempts w s cards ob) (py_range n))) =
    concat (map (\<lambda>i. [VInt (runtime_id ''identity_resolution_attempt'' w (batch_counter s i * 2)),
      VInt (runtime_id ''identity_resolution_attempt'' w (batch_counter s i * 2 + 1))]) (py_range n))"
    by (simp add: map_concat comp_def batch_attempt_ids)
  moreover have "distinct (concat (map (\<lambda>i. [VInt (runtime_id ''identity_resolution_attempt'' w (batch_counter s i * 2)),
      VInt (runtime_id ''identity_resolution_attempt'' w (batch_counter s i * 2 + 1))]) (py_range n)))"
    by (rule distinct_concat; force simp: distinct_map inj_on_def elim: parity_ne)
  ultimately show "distinct (map (\<lambda>r. cell r ''id'') (map (bind_row (spec_of ''identity_resolution_attempt''))
      (concat (map (batch_attempts w s cards ob) (py_range n)))))"
    by (simp add: comp_def)
  show "''id'' \<in> set cs"
    using assms by (simp add: table_keys_def t_identity_resolution_attempt_def)
qed

lemma batch_observation_keys:
  assumes "batch_args w s n cards ob tag" "cs \<in> set (table_keys t_price_observation)"
  shows "key_ok (map (bind_row (spec_of ''price_observation'')) (map (batch_observation w s cards ob) (py_range n))) cs"
proof -
  note a = batch_argsD [OF assms(1)]
  have rid: "0 \<le> runtime_id ''raw_artifact'' w s" using a by (simp add: runtime_ids)
  have k: "i = j" if "0 \<le> i" "0 \<le> j"
      "idempotency_key (source_slug (batch_source w s)) (runtime_id ''raw_artifact'' w s) i pt d c =
       idempotency_key (source_slug (batch_source w s)) (runtime_id ''raw_artifact'' w s) j pt' d' c'"
    for i j pt d c pt' d' c'
    using idempotency_key_inj(2) [OF batch_source_range batch_source_range rid rid that] .
  have "cs = [''id''] \<or> cs = [''idempotency_key'']"
    using assms(2) by (simp add: table_keys_def t_price_observation_def)
  then show ?thesis
    unfolding map_map comp_def
  proof
    assume "cs = [''id'']"
    then show "key_ok (map (\<lambda>i. bind_row (spec_of ''price_observation'') (batch_observation w s cards ob i)) (py_range n)) cs"
      by (intro key_ok_map [of _ _ "''id''"]) (auto simp: batch_id_cells)
  next
    assume "cs = [''idempotency_key'']"
    then show "key_ok (map (\<lambda>i. bind_row (spec_of ''price_observation'') (batch_observation w s cards ob i)) (py_range n)) cs"
      by (intro key_ok_map [of _ _ "''idempotency_key''"]) (auto simp: batch_id_cells dest: k)
  qed
qed

lemma batch_review_keys:
  assumes "cs \<in> set (table_keys t_review_item)"
  shows "key_ok (map (bind_row (spec_of ''review_item''))
    (map (batch_review w s ob) (filter (\<lambda>i. i mod 10 = 0) (py_range n)))) cs"
  using assms unfolding map_map comp_def
  by (intro key_ok_map [of _ _ "''id''"]) (auto simp: batch_id_cells table_keys_def t_review_item_def)

lemma insert_table_ok:
  assumes "insert_table t params db = Inr db'" "store_ok metadata db"
  shows "store_ok metadata db'"
proof -
  obtain d where d: "table_of t = Some d" "insert_rows d (map (bind_row (dict_get inserts t [])) params) db = Inr db'"
    using assms(1) by (auto simp: insert_table_def split: option.splits)
  then have "d \<in> set metadata" by (auto simp: table_of_def find_Some_iff)
  then show ?thesis using insert_rows_ok [OF metadata_distinct _ assms(2) d(2)] by simp
qed

lemma batch_fks:
  assumes "batch_refs cards db0" "0 < cards"
    "\<And>t. ids db0 t \<subseteq> ids db t"
  shows
    "fk_ok db t_ingest_run (bind_row (spec_of ''ingest_run'') (batch_ingest_run w s n ob))"
    "VInt (runtime_id ''ingest_run'' w s) \<in> ids db ''ingest_run'' \<Longrightarrow>
       fk_ok db t_raw_artifact (bind_row (spec_of ''raw_artifact'') (batch_artifact w s ob tag))"
    "VInt (runtime_id ''raw_artifact'' w s) \<in> ids db ''raw_artifact'' \<Longrightarrow>
       fk_ok db t_processing_run (bind_row (spec_of ''processing_run'') (batch_processing_run w s n ob))"
    "VInt (runtime_id ''raw_artifact'' w s) \<in> ids db ''raw_artifact'' \<Longrightarrow>
     VInt (runtime_id ''processing_run'' w s) \<in> ids db ''processing_run'' \<Longrightarrow>
       fk_ok db t_extracted_record (bind_row (spec_of ''extracted_record'') (batch_record w s cards ob i))"
    "VInt (runtime_id ''extracted_record'' w (batch_counter s i)) \<in> ids db ''extracted_record'' \<Longrightarrow>
       fk_ok db t_observation_candidate
         (bind_row (spec_of ''observation_candidate'') (batch_candidate w s cards ob i))"
    "VInt (runtime_id ''observation_candidate'' w (batch_counter s i)) \<in> ids db ''observation_candidate'' \<Longrightarrow>
     p \<in> set (batch_attempts w s cards ob i) \<Longrightarrow>
       fk_ok db t_identity_resolution_attempt (bind_row (spec_of ''identity_resolution_attempt'') p)"
    "VInt (runtime_id ''raw_artifact'' w s) \<in> ids db ''raw_artifact'' \<Longrightarrow>
     VInt (runtime_id ''observation_candidate'' w (batch_counter s i)) \<in> ids db ''observation_candidate'' \<Longrightarrow>
       fk_ok db t_price_observation (bind_row (spec_of ''price_observation'') (batch_observation w s cards ob i))"
    "VInt (runtime_id ''ingest_run'' w s) \<in> ids db ''ingest_run'' \<Longrightarrow>
     VInt (runtime_id ''raw_artifact'' w s) \<in> ids db ''raw_artifact'' \<Longrightarrow>
     VInt (runtime_id ''extracted_record'' w (batch_counter s i)) \<in> ids db ''extracted_record'' \<Longrightarrow>
       fk_ok db t_review_item (bind_row (spec_of ''review_item'') (batch_review w s ob i))"
proof -
  have refs: "VInt ` {1..4} \<subseteq> ids db0 ''source''" "VInt ` {1..4} \<subseteq> ids db0 ''shop''"
      "(\<lambda>i. VText (card_uuid i)) ` {0..<cards} \<subseteq> ids db0 ''card_identity''"
    using assms(1) by (simp_all add: batch_refs_def)
  have "VInt (batch_source w s) \<in> VInt ` {1..4}" using batch_source_range [of w s] by (intro imageI) simp
  then have src: "VInt (batch_source w s) \<in> ids db ''source''" "VInt (batch_source w s) \<in> ids db ''shop''"
    using subsetD [OF assms(3) subsetD [OF refs(1)]] subsetD [OF assms(3) subsetD [OF refs(2)]] by simp_all
  have uuid: "VText (card_uuid c) \<in> ids db ''card_identity''" if "0 \<le> c" "c < cards" for c
  proof -
    have "VText (card_uuid c) \<in> (\<lambda>i. VText (card_uuid i)) ` {0..<cards}"
      using that by (intro imageI) simp
    then show ?thesis by (rule subsetD [OF assms(3) subsetD [OF refs(3)]])
  qed
  have c: "0 \<le> batch_card r cards" "batch_card r cards < cards" "0 \<le> (batch_card r cards + 7) mod cards"
      "(batch_card r cards + 7) mod cards < cards" for r
    using assms(2) by (simp_all add: batch_card_def)
  show "fk_ok db t_ingest_run (bind_row (spec_of ''ingest_run'') (batch_ingest_run w s n ob))"
    using src by (intro fk_ok_ids) (simp add: cell_simps bound_ingest_run t_ingest_run_def)
  show "fk_ok db t_raw_artifact (bind_row (spec_of ''raw_artifact'') (batch_artifact w s ob tag))"
    if "VInt (runtime_id ''ingest_run'' w s) \<in> ids db ''ingest_run''"
    using src that by (intro fk_ok_ids) (simp add: cell_simps bound_artifact t_raw_artifact_def)
  show "fk_ok db t_processing_run (bind_row (spec_of ''processing_run'') (batch_processing_run w s n ob))"
    if "VInt (runtime_id ''raw_artifact'' w s) \<in> ids db ''raw_artifact''"
    using that by (intro fk_ok_ids) (simp add: cell_simps bound_processing_run t_processing_run_def)
  show "fk_ok db t_extracted_record (bind_row (spec_of ''extracted_record'') (batch_record w s cards ob i))"
    if "VInt (runtime_id ''raw_artifact'' w s) \<in> ids db ''raw_artifact''"
      "VInt (runtime_id ''processing_run'' w s) \<in> ids db ''processing_run''"
    using that by (intro fk_ok_ids) (simp add: cell_simps bound_record Let_def t_extracted_record_def)
  show "fk_ok db t_observation_candidate
         (bind_row (spec_of ''observation_candidate'') (batch_candidate w s cards ob i))"
    if "VInt (runtime_id ''extracted_record'' w (batch_counter s i)) \<in> ids db ''extracted_record''"
    using that src by (intro fk_ok_ids) (simp add: cell_simps bound_candidate Let_def t_observation_candidate_def)
  show "fk_ok db t_identity_resolution_attempt (bind_row (spec_of ''identity_resolution_attempt'') p)"
    if "VInt (runtime_id ''observation_candidate'' w (batch_counter s i)) \<in> ids db ''observation_candidate''"
      "p \<in> set (batch_attempts w s cards ob i)"
  proof -
    have row: "fk_ok db t_identity_resolution_attempt (file_row ''identity_resolution_attempt''
        (attempt_row a (runtime_id ''observation_candidate'' w (batch_counter s i)) k sc r e t))"
      if "0 \<le> k" "k < cards" for a k sc r e t
      using uuid [OF that] \<open>VInt _ \<in> ids db ''observation_candidate''\<close>
      by (intro fk_ok_ids) (simp add: fk_simps attempt_row_def t_identity_resolution_attempt_def)
    have "bound ''identity_resolution_attempt'' p \<in>
        set (map (bound ''identity_resolution_attempt'') (batch_attempts w s cards ob i))"
      using that(2) by simp
    then show ?thesis
      unfolding bound_attempts bind_eqs using row c by (auto simp: Let_def)
  qed
  show "fk_ok db t_price_observation (bind_row (spec_of ''price_observation'') (batch_observation w s cards ob i))"
    if "VInt (runtime_id ''raw_artifact'' w s) \<in> ids db ''raw_artifact''"
     "VInt (runtime_id ''observation_candidate'' w (batch_counter s i)) \<in> ids db ''observation_candidate''"
    using that src uuid [OF c(1,2)]
    by (intro fk_ok_ids) (simp add: cell_simps bound_observation Let_def t_price_observation_def)
  show "fk_ok db t_review_item (bind_row (spec_of ''review_item'') (batch_review w s ob i))"
    if "VInt (runtime_id ''ingest_run'' w s) \<in> ids db ''ingest_run''"
     "VInt (runtime_id ''raw_artifact'' w s) \<in> ids db ''raw_artifact''"
     "VInt (runtime_id ''extracted_record'' w (batch_counter s i)) \<in> ids db ''extracted_record''"
    using that by (intro fk_ok_ids) (simp add: cell_simps bound_review t_review_item_def)
qed

lemma batch_tables_of:
  "dict_get (build_batch w s n cards ob tag) ''ingest_run'' [] = [batch_ingest_run w s n ob]"
  "dict_get (build_batch w s n cards ob tag) ''raw_artifact'' [] = [batch_artifact w s ob tag]"
  "dict_get (build_batch w s n cards ob tag) ''processing_run'' [] = [batch_processing_run w s n ob]"
  "dict_get (build_batch w s n cards ob tag) ''extracted_record'' [] =
     map (batch_record w s cards ob) (py_range n)"
  "dict_get (build_batch w s n cards ob tag) ''observation_candidate'' [] =
     map (batch_candidate w s cards ob) (py_range n)"
  "dict_get (build_batch w s n cards ob tag) ''identity_resolution_attempt'' [] =
     concat (map (batch_attempts w s cards ob) (py_range n))"
  "dict_get (build_batch w s n cards ob tag) ''price_observation'' [] =
     map (batch_observation w s cards ob) (py_range n)"
  "dict_get (build_batch w s n cards ob tag) ''review_item'' [] =
     map (batch_review w s ob) (filter (\<lambda>i. i mod 10 = 0) (py_range n))"
  by (simp_all add: build_batch_def dict_get_def)

lemma table_names:
  "tbl_name t_ingest_run = ''ingest_run''" "tbl_name t_raw_artifact = ''raw_artifact''"
  "tbl_name t_processing_run = ''processing_run''" "tbl_name t_extracted_record = ''extracted_record''"
  "tbl_name t_observation_candidate = ''observation_candidate''"
  "tbl_name t_identity_resolution_attempt = ''identity_resolution_attempt''"
  "tbl_name t_price_observation = ''price_observation''" "tbl_name t_review_item = ''review_item''"
  by (simp_all add: table_defs)

lemma bulk_names:
  "''ingest_run'' \<in> set bulk_tables" "''raw_artifact'' \<in> set bulk_tables" "''processing_run'' \<in> set bulk_tables"
  "''extracted_record'' \<in> set bulk_tables" "''observation_candidate'' \<in> set bulk_tables"
  "''identity_resolution_attempt'' \<in> set bulk_tables" "''price_observation'' \<in> set bulk_tables"
  "''review_item'' \<in> set bulk_tables"
  by (simp_all add: bulk_tables_def)

lemma batch_freshD:
  assumes "batch_fresh db b" "t \<in> set metadata" "tbl_name t \<in> set bulk_tables"
  shows "table_fresh db t (dict_get b (tbl_name t) [])"
  using assms by (simp add: batch_fresh_def list_all_iff)

lemma in_metadata:
  "t_ingest_run \<in> set metadata" "t_raw_artifact \<in> set metadata" "t_processing_run \<in> set metadata"
  "t_extracted_record \<in> set metadata" "t_observation_candidate \<in> set metadata"
  "t_identity_resolution_attempt \<in> set metadata" "t_price_observation \<in> set metadata" "t_review_item \<in> set metadata"
  by (simp_all add: metadata_def)

text \<open>The store a batch leaves.\<close>

definition batch_before_observations :: "batch \<Rightarrow> store \<Rightarrow> store" where
  "batch_before_observations b db = fold (\<lambda>t. add_bound t (dict_get b t [])) batch_tables db"

definition batch_written :: "batch \<Rightarrow> store \<Rightarrow> store" where
  "batch_written b db =
     fold (\<lambda>t. add_bound t (dict_get b t [])) (batch_tables @ [''price_observation'', ''review_item'']) db"

lemma batch_steps:
  assumes args: "batch_args w s n cards ob tag" and refs: "batch_refs cards db"
    and fresh: "batch_fresh db (build_batch w s n cards ob tag)"
  defines "b \<equiv> build_batch w s n cards ob tag"
  shows "insert_tables batch_tables b db = Inr (batch_before_observations b db)" (is ?A)
    "insert_observations eng True (dict_get b ''price_observation'' []) (batch_before_observations b db) =
       Inr (int (length (dict_get b ''price_observation'' [])),
         add_bound ''price_observation'' (dict_get b ''price_observation'' []) (batch_before_observations b db))" (is ?B)
    "insert_table ''review_item'' (dict_get b ''review_item'' [])
       (add_bound ''price_observation'' (dict_get b ''price_observation'' []) (batch_before_observations b db)) =
       Inr (batch_written b db)" (is ?C)
proof -
  note a = batch_argsD [OF args]
  let ?p = "\<lambda>t. dict_get b t []"
  define d1 where "d1 = add_bound ''ingest_run'' (?p ''ingest_run'') db"
  define d2 where "d2 = add_bound ''raw_artifact'' (?p ''raw_artifact'') d1"
  define d3 where "d3 = add_bound ''processing_run'' (?p ''processing_run'') d2"
  define d4 where "d4 = add_bound ''extracted_record'' (?p ''extracted_record'') d3"
  define d5 where "d5 = add_bound ''observation_candidate'' (?p ''observation_candidate'') d4"
  define d6 where "d6 = add_bound ''identity_resolution_attempt'' (?p ''identity_resolution_attempt'') d5"
  define d7 where "d7 = add_bound ''price_observation'' (?p ''price_observation'') d6"
  note ds = d1_def d2_def d3_def d4_def d5_def d6_def d7_def
  have e6: "batch_before_observations b db = d6"
    by (simp add: batch_before_observations_def batch_tables_def ds)
  have e8: "batch_written b db = add_bound ''review_item'' (?p ''review_item'') d7"
    by (simp add: batch_written_def batch_tables_def ds)
  have sub: "ids db t \<subseteq> ids d1 t" "ids db t \<subseteq> ids d2 t" "ids db t \<subseteq> ids d3 t" "ids db t \<subseteq> ids d4 t"
      "ids db t \<subseteq> ids d5 t" "ids db t \<subseteq> ids d6 t" "ids db t \<subseteq> ids d7 t" for t
    by (auto simp: ds ids_add_bound)
  have i1: "VInt (runtime_id ''ingest_run'' w s) \<in> ids d1 ''ingest_run''"
    by (simp add: d1_def ids_add_bound b_def batch_tables_of batch_id_cells)
  have i2: "VInt (runtime_id ''raw_artifact'' w s) \<in> ids d2 ''raw_artifact''"
    by (simp add: d2_def ids_add_bound b_def batch_tables_of batch_id_cells)
  have i3: "VInt (runtime_id ''processing_run'' w s) \<in> ids d3 ''processing_run''"
    by (simp add: d3_def ids_add_bound b_def batch_tables_of batch_id_cells)
  have i4: "VInt (runtime_id ''extracted_record'' w (batch_counter s i)) \<in> ids d4 ''extracted_record''"
    if "0 \<le> i" "i < n" for i
    using that by (simp add: d4_def ids_add_bound b_def batch_tables_of batch_id_cells image_iff)
  have i5: "VInt (runtime_id ''observation_candidate'' w (batch_counter s i)) \<in> ids d5 ''observation_candidate''"
    if "0 \<le> i" "i < n" for i
    using that by (simp add: d5_def ids_add_bound b_def batch_tables_of batch_id_cells image_iff)
  have k2: "VInt (runtime_id ''raw_artifact'' w s) \<in> ids d3 ''raw_artifact''"
      "VInt (runtime_id ''raw_artifact'' w s) \<in> ids d6 ''raw_artifact''"
      "VInt (runtime_id ''raw_artifact'' w s) \<in> ids d7 ''raw_artifact''"
      "VInt (runtime_id ''ingest_run'' w s) \<in> ids d7 ''ingest_run''"
    using i1 i2 by (simp_all add: d2_def d3_def d4_def d5_def d6_def d7_def ids_add_bound)
  have k4: "VInt (runtime_id ''extracted_record'' w (batch_counter s i)) \<in> ids d7 ''extracted_record''"
      "VInt (runtime_id ''observation_candidate'' w (batch_counter s i)) \<in> ids d6 ''observation_candidate''"
    if "0 \<le> i" "i < n" for i
    using i4 [OF that] i5 [OF that] by (simp_all add: d5_def d6_def d7_def ids_add_bound)
  have fr: "table_fresh db t (?p (tbl_name t))" if "t \<in> set metadata" "tbl_name t \<in> set bulk_tables" for t
    using batch_freshD [OF fresh that] by (simp add: b_def)
  note fk = batch_fks [OF refs a(7)]
  note tn = table_names and bn = bulk_names and im = in_metadata
  have s1: "insert_table ''ingest_run'' (?p ''ingest_run'') db = Inr d1" unfolding d1_def
    by (rule insert_fresh [OF table_of_simps(2) tn(1) bn(1)])
      (use fr [OF im(1)] batch_run_ok [OF args] fk(1) in \<open>simp_all add: b_def batch_tables_of tn bn\<close>)
  have s2: "insert_table ''raw_artifact'' (?p ''raw_artifact'') d1 = Inr d2" unfolding d2_def
    by (rule insert_fresh [OF table_of_simps(3) tn(2) bn(2)])
      (use fr [OF im(2)] batch_artifact_ok [OF args] fk(2) [OF sub(1) i1] in
        \<open>simp_all add: b_def batch_tables_of tn bn d1_def table_fresh_add\<close>)
  have s3: "insert_table ''processing_run'' (?p ''processing_run'') d2 = Inr d3" unfolding d3_def
    by (rule insert_fresh [OF table_of_simps(4) tn(3) bn(3)])
      (use fr [OF im(3)] batch_processing_ok [OF args] fk(3) [OF sub(2) i2] in
        \<open>simp_all add: b_def batch_tables_of tn bn d1_def d2_def table_fresh_add\<close>)
  have s4: "insert_table ''extracted_record'' (?p ''extracted_record'') d3 = Inr d4" unfolding d4_def
  proof (rule insert_fresh [OF table_of_simps(5) tn(4) bn(4)])
    show "table_fresh d3 t_extracted_record (?p ''extracted_record'')"
      using fr [OF im(4)] by (simp add: d1_def d2_def d3_def table_fresh_add tn bn)
    show "key_ok (map (bind_row (spec_of ''extracted_record'')) (?p ''extracted_record'')) cs"
      if "cs \<in> set (table_keys t_extracted_record)" for cs
      unfolding b_def batch_tables_of by (rule batch_keys [OF that])
  qed (use batch_record_ok [OF args] fk(4) [OF sub(3) k2(1) i3] in \<open>auto simp: b_def batch_tables_of\<close>)
  have s5: "insert_table ''observation_candidate'' (?p ''observation_candidate'') d4 = Inr d5" unfolding d5_def
  proof (rule insert_fresh [OF table_of_simps(6) tn(5) bn(5)])
    show "table_fresh d4 t_observation_candidate (?p ''observation_candidate'')"
      using fr [OF im(5)] by (simp add: d1_def d2_def d3_def d4_def table_fresh_add tn bn)
    show "key_ok (map (bind_row (spec_of ''observation_candidate'')) (?p ''observation_candidate'')) cs"
      if "cs \<in> set (table_keys t_observation_candidate)" for cs
      unfolding b_def batch_tables_of by (rule batch_candidate_keys [OF that])
  qed (use batch_candidate_ok [OF args] fk(5) [OF sub(4) i4] in \<open>auto simp: b_def batch_tables_of\<close>)
  have s6: "insert_table ''identity_resolution_attempt'' (?p ''identity_resolution_attempt'') d5 = Inr d6"
    unfolding d6_def
  proof (rule insert_fresh [OF table_of_simps(7) tn(6) bn(6)])
    show "table_fresh d5 t_identity_resolution_attempt (?p ''identity_resolution_attempt'')"
      using fr [OF im(6)] by (simp add: d1_def d2_def d3_def d4_def d5_def table_fresh_add tn bn)
    show "key_ok (map (bind_row (spec_of ''identity_resolution_attempt'')) (?p ''identity_resolution_attempt'')) cs"
      if "cs \<in> set (table_keys t_identity_resolution_attempt)" for cs
      unfolding b_def batch_tables_of by (rule batch_attempt_keys [OF that])
  qed (use batch_attempt_ok [OF args] fk(6) [OF sub(5) i5] in \<open>auto simp: b_def batch_tables_of\<close>)
  show ?A unfolding e6 by (simp add: batch_tables_def s1 s2 s3 s4 s5 s6)
  show ?B unfolding e6
  proof (rule append_fresh)
    show "table_fresh d6 t_price_observation (?p ''price_observation'')"
      using fr [OF im(7)] by (simp add: d1_def d2_def d3_def d4_def d5_def d6_def table_fresh_add tn bn)
    show "key_ok (map (bind_row (spec_of ''price_observation'')) (?p ''price_observation'')) cs"
      if "cs \<in> set (table_keys t_price_observation)" for cs
      unfolding b_def batch_tables_of by (rule batch_observation_keys [OF args that])
  qed (use batch_observation_ok [OF args] fk(7) [OF sub(6) k2(2) k4(2)] in \<open>auto simp: b_def batch_tables_of\<close>)
  show ?C unfolding e6 e8 d7_def [symmetric]
  proof (rule insert_fresh [OF table_of_simps(9) tn(8) bn(8)])
    show "table_fresh d7 t_review_item (?p ''review_item'')"
      using fr [OF im(8)] by (simp add: ds table_fresh_add tn bn)
    show "key_ok (map (bind_row (spec_of ''review_item'')) (?p ''review_item'')) cs"
      if "cs \<in> set (table_keys t_review_item)" for cs
      unfolding b_def batch_tables_of by (rule batch_review_keys [OF that])
  qed (use batch_review_ok [OF args] fk(8) [OF sub(7) k2(4) k2(3) k4(1)] in \<open>auto simp: b_def batch_tables_of\<close>)
qed

lemma insert_tables_ok:
  "insert_tables ts b db = Inr db' \<Longrightarrow> store_ok metadata db \<Longrightarrow> store_ok metadata db'"
  by (induction ts arbitrary: db) (auto intro: insert_table_ok)

lemma write_batch_fresh:
  assumes "batch_args w s n cards ob tag" "store_ok metadata db" "batch_refs cards db"
    "batch_fresh db (build_batch w s n cards ob tag)"
  shows "write_batch eng (build_batch w s n cards ob tag) True db =
      Inr (batch_counts (build_batch w s n cards ob tag), batch_written (build_batch w s n cards ob tag) db) \<and>
    store_ok metadata (batch_written (build_batch w s n cards ob tag) db) \<and>
    dict_get (batch_counts (build_batch w s n cards ob tag)) ''price_observation'' 0 = n"
proof -
  let ?b = "build_batch w s n cards ob tag"
  note st = batch_steps [OF assms(1,3,4)]
  have "store_ok metadata (batch_before_observations ?b db)"
    using insert_tables_ok [OF st(1) assms(2)] .
  then have "store_ok metadata (add_bound ''price_observation'' (dict_get ?b ''price_observation'' [])
      (batch_before_observations ?b db))"
    by (rule pg_append.keeps [OF TrueI st(2) [of Postgres]])
  then have "store_ok metadata (batch_written ?b db)" by (rule insert_table_ok [OF st(3)])
  moreover have "write_batch eng ?b True db = Inr (batch_counts ?b, batch_written ?b db)"
    by (simp add: write_batch_def st)
  moreover have "dict_get (batch_counts ?b) ''price_observation'' 0 = n"
  proof -
    have "dict_get (batch_counts ?b) ''price_observation'' 0 = int (length (dict_get ?b ''price_observation'' []))"
      by (simp add: batch_counts_def batch_tables_def dict_get_def)
    then show ?thesis using batch_argsD(5) [OF assms(1)] by (simp add: batch_tables_of py_range_length)
  qed
  ultimately show ?thesis by simp
qed

text \<open>
  C9: A batch whose keys are free writes completely on both products: from a store that meets its
  constraints and holds the sources, shops and cards, write_batch ends with the rows of the batch
  added to every table, the constraints kept, and the counts of the batch.
\<close>

theorem fresh_batch_written:
  assumes "batch_args w s n cards ob tag" "store_ok metadata db" "batch_refs cards db"
    "batch_fresh db (build_batch w s n cards ob tag)"
  shows "write_batch eng (build_batch w s n cards ob tag) True db =
      Inr (batch_counts (build_batch w s n cards ob tag), batch_written (build_batch w s n cards ob tag) db) \<and>
    store_ok metadata (batch_written (build_batch w s n cards ob tag) db) \<and>
    dict_get (batch_counts (build_batch w s n cards ob tag)) ''price_observation'' 0 = n"
  by (rule write_batch_fresh [OF assms])

definition witness_db :: store where
  "witness_db = add_row ''card_identity'' (file_row ''card_identity'' (card_identity_row 0)) seed_dims"

lemma witness_db_rows:
  "rows_of witness_db t =
     (if t = ''card_identity'' then [file_row ''card_identity'' (card_identity_row 0)] else rows_of seed_dims t)"
  by (simp add: witness_db_def rows_of_add seed_dims_rows bulk_tables_def)

lemma witness_db_ok: "store_ok metadata witness_db"
proof (rule insert_row_ok [OF metadata_distinct])
  show "store_ok metadata seed_dims" by code_simp
  show "t_card_identity \<in> set metadata" by (simp add: metadata_def)
  have n: "tbl_name t_card_identity = ''card_identity''" by (simp add: t_card_identity_def)
  have "rows_of seed_dims ''card_identity'' = []" by (rule seed_dims_rows) (simp add: bulk_tables_def)
  then have "clashing_key seed_dims t_card_identity (file_row ''card_identity'' (card_identity_row 0)) = None"
    by (simp add: clashing_key_None n)
  moreover have "row_ok t_card_identity (file_row ''card_identity'' (card_identity_row 0))"
    by (rule card_identity_row_ok) simp_all
  ultimately show "insert_row t_card_identity (file_row ''card_identity'' (card_identity_row 0)) seed_dims = Inr witness_db"
    by (simp add: insert_row_good(1) fk_ok_def witness_db_def n) (simp add: t_card_identity_def)
qed

lemma witness_db_ids:
  "ids witness_db ''source'' = VInt ` {1..4}" "ids witness_db ''shop'' = VInt ` {1..4}"
  "ids witness_db ''card_identity'' = {VText (card_uuid 0)}"
proof -
  have s: "{1..4} = {1, 2, 3, 4 :: int}" by auto
  have "map (\<lambda>r. cell r ''id'') (rows_of seed_dims ''source'') = [VInt 1, VInt 2, VInt 3, VInt 4]"
    "map (\<lambda>r. cell r ''id'') (rows_of seed_dims ''shop'') = [VInt 1, VInt 2, VInt 3, VInt 4]"
    by code_simp+
  then have "set (map (\<lambda>r. cell r ''id'') (rows_of seed_dims ''source'')) = VInt ` {1..4}"
    "set (map (\<lambda>r. cell r ''id'') (rows_of seed_dims ''shop'')) = VInt ` {1..4}"
    by (simp_all only: s) simp_all
  then show "ids witness_db ''source'' = VInt ` {1..4}" "ids witness_db ''shop'' = VInt ` {1..4}"
    by (simp_all add: ids_def witness_db_rows)
  show "ids witness_db ''card_identity'' = {VText (card_uuid 0)}"
    by (simp add: ids_def witness_db_rows card_identity_row_def Let_def file_row_def file_columns_of t_card_identity_def)
qed

lemma batch_fresh_empty:
  assumes "\<And>t. t \<in> set bulk_tables \<Longrightarrow> t \<noteq> ''card_identity'' \<Longrightarrow> rows_of db t = []"
    "dict_get b ''card_identity'' [] = []"
  shows "batch_fresh db b"
  using assms
  by (auto simp: batch_fresh_def list_all_iff table_fresh_def clashing_key_None)
    (metis empty_iff list.set(1))

text \<open>A batch of one row over the store with one card.\<close>

definition example_batch :: batch where
  "example_batch = build_batch 40 1 1 1 (micros 700000 0 0 0) (lit ''daily'')"

definition example_db :: store where
  "example_db = batch_written example_batch witness_db"

lemma example_args:
  "0 \<le> n \<Longrightarrow> n \<le> 60 \<Longrightarrow> batch_args 40 1 n 1 (micros 700000 0 0 0) (lit ''daily'')"
  "batch_refs 1 witness_db"
  "batch_fresh witness_db (build_batch 40 1 n 1 (micros 700000 0 0 0) (lit ''daily''))"
proof -
  show "0 \<le> n \<Longrightarrow> n \<le> 60 \<Longrightarrow> batch_args 40 1 n 1 (micros 700000 0 0 0) (lit ''daily'')"
    by (simp add: batch_args_def micros_def records_per_run_def)
  have "{0..<1} = {0 :: int}" by auto
  then show "batch_refs 1 witness_db" by (simp add: batch_refs_def witness_db_ids)
  show "batch_fresh witness_db (build_batch 40 1 n 1 (micros 700000 0 0 0) (lit ''daily''))"
    by (rule batch_fresh_empty) (simp_all add: witness_db_rows seed_dims_rows build_batch_def dict_get_def)
qed

lemma example_ok: "store_ok metadata example_db"
  using write_batch_fresh [OF example_args(1) witness_db_ok example_args(2,3), of 1 Postgres]
  by (simp add: example_db_def example_batch_def)

theorem fresh_batch_written_witness:
  "\<exists>db. write_batch Mariadb (build_batch 40 1 20 1 (micros 700000 0 0 0) (lit ''daily'')) True witness_db =
     Inr (batch_counts (build_batch 40 1 20 1 (micros 700000 0 0 0) (lit ''daily'')), db) \<and> store_ok metadata db"
  using fresh_batch_written [OF example_args(1) witness_db_ok example_args(2,3), of 20 Mariadb] by auto
end
