(* ===== verification/Ingest.thy ===== *)
theory Ingest imports Batch begin

text \<open>
  scripts/db_poc/dbpoc/ingest.py: a normal day of batches, and the reparse of stored artifacts. The
  generator and the reparse read the same observation_fields, so a reparse of the loaded store meets
  every idempotency key again; the invariant reparse_ready carries this from one artifact to the next.
\<close>

subsection \<open>One normal day\<close>

definition daily_writer :: int where
  "daily_writer = 40"

definition reparse_writer :: int where
  "reparse_writer = 41"

text \<open>Each batch in a transaction of its own; an error ends the run and keeps what was committed.\<close>

fun write_batches :: "engine \<Rightarrow> batch list \<Rightarrow> int \<Rightarrow> store \<Rightarrow> (sql_error + int) \<times> store" where
  "write_batches eng [] written db = (Inr written, db)"
| "write_batches eng (b # bs) written db =
     (case transaction (write_batch eng b True db) db of
        (Inl e, db) \<Rightarrow> (Inl e, db)
      | (Inr counts, db) \<Rightarrow> write_batches eng bs (written + sum_list (map snd counts)) db)"

definition daily_batches :: "profile \<Rightarrow> int \<Rightarrow> int \<Rightarrow> batch list" where
  "daily_batches p seq_start observed =
     map (\<lambda>index. build_batch daily_writer (seq_start + index + 1) records_per_run (pf_cards p) observed
       (lit ''daily'')) (py_range (500 * pf_scale p))"

text \<open>The rows written; the timings of the report are measurements.\<close>

definition daily_ingest :: "engine \<Rightarrow> profile \<Rightarrow> int \<Rightarrow> store \<Rightarrow> (sql_error + int) \<times> store" where
  "daily_ingest eng p observed db =
     write_batches eng (daily_batches p (next_sequence db daily_writer) observed) 0 db"

subsection \<open>Reparsing a stored artifact\<close>

definition reparse_record :: "int \<Rightarrow> int \<Rightarrow> int \<Rightarrow> int \<Rightarrow> obs_fields \<Rightarrow> int \<Rightarrow> row" where
  "reparse_record artifact_index writer seq now f row =
     [(''id'', VInt (runtime_id ''extracted_record'' writer (batch_counter seq row))),
      (''processing_run_id'', VInt (runtime_id ''processing_run'' writer seq)),
      (''raw_artifact_id'', VInt (artifact_index + 1)),
      (''locator'', VText (lit ''$.items['' @ py_str row @ lit '']'')),
      (''payload'', VText ([123] @ quoted ''reparse'' @ lit '':true,'' @ quoted ''row'' @ lit '':'' @ py_str row @
         lit '','' @ quoted ''price'' @ lit '':'' @ py_str (of_amount f) @ [125])),
      (''value_origin'', VText (lit ''artifact'')), (''confidence'', VScore 9900), (''created_at'', VTime now)]"

definition reparse_candidate :: "int \<Rightarrow> int \<Rightarrow> int \<Rightarrow> obs_fields \<Rightarrow> int \<Rightarrow> row" where
  "reparse_candidate writer seq now f row =
     [(''id'', VInt (runtime_id ''observation_candidate'' writer (batch_counter seq row))),
      (''extracted_record_id'', VInt (runtime_id ''extracted_record'' writer (batch_counter seq row))),
      (''shop_id'', VInt (of_source_id f)), (''source_id'', VInt (of_source_id f)),
      (''tcg'', VText tcg), (''amount_minor'', VInt (of_amount f)), (''currency'', VText currency),
      (''price_type'', VText (of_price_type f)),
      (''raw_card_name'', VText (lit ''card'' @ py_str (of_card_index f))),
      (''raw_card_number'', VText (dd 3 (of_card_index f mod 1000) @ lit ''/165'')),
      (''raw_set'', VText (lit ''SV'' @ dd 3 (of_card_index f div 1000))),
      (''raw_rarity'', VText (lit ''RR'')), (''raw_edition'', VText (lit ''1st'')),
      (''raw_language'', VText (lit ''ja'')), (''raw_condition'', VText (of_condition f)),
      (''observed_at'', VTime (of_observed f)), (''promotion_rule_version'', VText (lit ''v2'')),
      (''created_at'', VTime now)]"

definition reparse_attempt :: "int \<Rightarrow> int \<Rightarrow> int \<Rightarrow> obs_fields \<Rightarrow> int \<Rightarrow> row" where
  "reparse_attempt writer seq now f row =
     [(''id'', VInt (runtime_id ''identity_resolution_attempt'' writer (batch_counter seq row * 2))),
      (''observation_candidate_id'',
         VInt (runtime_id ''observation_candidate'' writer (batch_counter seq row))),
      (''matcher_name'', VText (lit ''attribute_matcher'')), (''matcher_version'', VText (lit ''1.1.0'')),
      (''card_identity_id'', VText (card_uuid (of_card_index f))), (''match_score'', VScore 9900),
      (''result'', VText (lit ''confirmed'')), (''evidence'', VText (lit ''set+number+rarity'')),
      (''created_at'', VTime now)]"

definition reparse_observation :: "int \<Rightarrow> int \<Rightarrow> int \<Rightarrow> int \<Rightarrow> obs_fields \<Rightarrow> int \<Rightarrow> row" where
  "reparse_observation artifact_index writer seq now f row =
     [(''id'', VInt (runtime_id ''price_observation'' writer (batch_counter seq row))),
      (''observation_candidate_id'',
         VInt (runtime_id ''observation_candidate'' writer (batch_counter seq row))),
      (''card_identity_id'', VText (card_uuid (of_card_index f))),
      (''shop_id'', VInt (of_source_id f)), (''source_id'', VInt (of_source_id f)),
      (''raw_artifact_id'', VInt (artifact_index + 1)), (''tcg'', VText tcg),
      (''amount_minor'', VInt (of_amount f)), (''currency'', VText currency),
      (''price_type'', VText (of_price_type f)), (''card_condition'', VText (of_condition f)),
      (''observed_at'', VTime (of_observed f)), (''collected_at'', VTime (of_observed f)),
      (''idempotency_key'', VText (of_key f)), (''created_at'', VTime now)]"

definition reparse_run :: "int \<Rightarrow> int \<Rightarrow> int \<Rightarrow> int \<Rightarrow> row" where
  "reparse_run artifact_index writer seq now =
     [(''id'', VInt (runtime_id ''processing_run'' writer seq)), (''raw_artifact_id'', VInt (artifact_index + 1)),
      (''processor_name'', VText (lit ''price_table_parser'')),
      (''processor_version'', VText (lit ''1.1.0'')), (''config_ref'', VText (lit ''config/v2'')),
      (''attempt_no'', VInt 2), (''started_at'', VTime now), (''finished_at'', VTime now),
      (''extracted_count'', VInt records_per_run), (''promoted_count'', VInt records_per_run)]"

definition reparse_fields :: "profile \<Rightarrow> int \<Rightarrow> int \<Rightarrow> obs_fields" where
  "reparse_fields p artifact_index row = observation_fields (artifact_index * records_per_run + row) p"

definition reparse_batch :: "profile \<Rightarrow> int \<Rightarrow> int \<Rightarrow> int \<Rightarrow> int \<Rightarrow> batch" where
  "reparse_batch p artifact_index writer seq now =
     (let rows = py_range records_per_run; f = reparse_fields p artifact_index in
      [(''ingest_run'', []), (''raw_artifact'', []), (''review_item'', []),
       (''processing_run'', [reparse_run artifact_index writer seq now]),
       (''extracted_record'',
          map (\<lambda>row. reparse_record artifact_index writer seq now (f row) row) rows),
       (''observation_candidate'', map (\<lambda>row. reparse_candidate writer seq now (f row) row) rows),
       (''identity_resolution_attempt'', map (\<lambda>row. reparse_attempt writer seq now (f row) row) rows),
       (''price_observation'',
          map (\<lambda>row. reparse_observation artifact_index writer seq now (f row) row) rows)])"

definition reparse_tables :: "string list" where
  "reparse_tables =
     [''processing_run'', ''extracted_record'', ''observation_candidate'', ''identity_resolution_attempt'']"

definition write_reparse :: "engine \<Rightarrow> batch \<Rightarrow> store \<Rightarrow> sql_error + int \<times> store" where
  "write_reparse eng b db =
     and_then (insert_tables reparse_tables b db)
       (insert_observations eng True (dict_get b ''price_observation'' []))"

fun reparse_loop ::
    "engine \<Rightarrow> profile \<Rightarrow> int \<Rightarrow> int \<Rightarrow> int list \<Rightarrow> int \<Rightarrow> store \<Rightarrow> (sql_error + int) \<times> store" where
  "reparse_loop eng p seq_start now [] inserted db = (Inr inserted, db)"
| "reparse_loop eng p seq_start now (index # rest) inserted db =
     (case transaction
        (write_reparse eng (reparse_batch p index reparse_writer (seq_start + index + 1) now) db) db of
        (Inl e, db) \<Rightarrow> (Inl e, db)
      | (Inr n, db) \<Rightarrow> reparse_loop eng p seq_start now rest (inserted + n) db)"

subsection \<open>The report of a reparse\<close>

definition observation_count :: "store \<Rightarrow> int" where
  "observation_count db = int (length (rows_of db ''price_observation''))"

text \<open>The groups of \<open>GROUP BY idempotency_key HAVING COUNT(*) > 1\<close>.\<close>

definition duplicate_key_groups :: "store \<Rightarrow> int" where
  "duplicate_key_groups db =
     (let keys = map (\<lambda>r. cell r ''idempotency_key'') (rows_of db ''price_observation'') in
      int (length (filter (\<lambda>k. 1 < count_list keys k) (remdups keys))))"

record reparse_report =
  rr_artifacts_reparsed :: int
  rr_artifacts_in_profile :: int
  rr_sampled :: bool
  rr_appended_rows :: int
  rr_observations_before :: int
  rr_observations_after :: int
  rr_new_observations :: int
  rr_duplicate_keys :: int
  rr_pass :: bool

text \<open>
  \<open>artifacts\<close> 0 or missing means all of the profile. The elapsed time is an argument in
  microseconds; scaled to the whole profile it is compared exactly, and the rates of the report are
  left out.
\<close>

definition reparse_target :: "profile \<Rightarrow> int option \<Rightarrow> int" where
  "reparse_target p artifacts =
     (case artifacts of
        Some n \<Rightarrow> if n \<noteq> 0 then n else 500 * pf_scale p * pf_days p
      | None \<Rightarrow> 500 * pf_scale p * pf_days p)"

definition reparse ::
    "engine \<Rightarrow> profile \<Rightarrow> int option \<Rightarrow> int \<Rightarrow> int \<Rightarrow> store \<Rightarrow> (sql_error + reparse_report) \<times> store" where
  "reparse eng p artifacts now elapsed db =
     (let total = 500 * pf_scale p * pf_days p; target = reparse_target p artifacts in
      case reparse_loop eng p (next_sequence db reparse_writer) now (py_range target) 0 db of
        (Inl e, db') \<Rightarrow> (Inl e, db')
      | (Inr inserted, db') \<Rightarrow>
          (let before = observation_count db; after = observation_count db';
               duplicates = duplicate_key_groups db' in
           (Inr \<lparr>rr_artifacts_reparsed = target, rr_artifacts_in_profile = total,
              rr_sampled = target < total,
              rr_appended_rows = target * (1 + records_per_run * 3),
              rr_observations_before = before, rr_observations_after = after,
              rr_new_observations = after - before, rr_duplicate_keys = duplicates,
              rr_pass = (duplicates = 0 \<and> after = before \<and> 
                elapsed * total \<le> 8 * 3600 * 1000000 * target)\<rparr>, db')))"

subsection \<open>The rows of a reparse fit their tables\<close>

lemma bound_reparse_run:
  "bound ''processing_run'' (reparse_run a w s now) =
     [VInt (runtime_id ''processing_run'' w s), VInt (a + 1), VText (lit ''price_table_parser''),
      VText (lit ''1.1.0''), VText (lit ''config/v2''), VInt 2, VTime now, VTime now,
      VText (lit ''succeeded''), VInt records_per_run, VInt records_per_run, VNull]"
  by (simp add: bound_def spec_of_def inserts_def dict_get_def reparse_run_def cell_def)

lemma bound_reparse_record:
  "bound ''extracted_record'' (reparse_record a w s now f row) =
     [VInt (runtime_id ''extracted_record'' w (batch_counter s row)), VInt (runtime_id ''processing_run'' w s),
      VInt (a + 1), VText (lit ''$.items['' @ py_str row @ lit '']''),
      VText ([123] @ quoted ''reparse'' @ lit '':true,'' @ quoted ''row'' @ lit '':'' @ py_str row @
         lit '','' @ quoted ''price'' @ lit '':'' @ py_str (of_amount f) @ [125]),
      VText (lit ''artifact''), VScore 9900, VNull, VTime now]"
  by (simp add: bound_def spec_of_def inserts_def dict_get_def reparse_record_def cell_def)

lemma bound_reparse_candidate:
  "bound ''observation_candidate'' (reparse_candidate w s now f row) =
     [VInt (runtime_id ''observation_candidate'' w (batch_counter s row)),
      VInt (runtime_id ''extracted_record'' w (batch_counter s row)), VInt (of_source_id f),
      VInt (of_source_id f), VText tcg, VInt (of_amount f), VText currency, VText (of_price_type f),
      VText (lit ''card'' @ py_str (of_card_index f)), VText (dd 3 (of_card_index f mod 1000) @ lit ''/165''),
      VText (lit ''SV'' @ dd 3 (of_card_index f div 1000)), VText (lit ''RR''), VText (lit ''1st''),
      VText (lit ''ja''), VText (of_condition f), VTime (of_observed f), VText (lit ''v2''), VTime now]"
  by (simp add: bound_def spec_of_def inserts_def dict_get_def reparse_candidate_def cell_def)

lemma bound_reparse_attempt:
  "bound ''identity_resolution_attempt'' (reparse_attempt w s now f row) =
     [VInt (runtime_id ''identity_resolution_attempt'' w (batch_counter s row * 2)),
      VInt (runtime_id ''observation_candidate'' w (batch_counter s row)),
      VText (lit ''attribute_matcher''), VText (lit ''1.1.0''), VText (card_uuid (of_card_index f)),
      VScore 9900, VText (lit ''confirmed''), VText (lit ''set+number+rarity''), VTime now]"
  by (simp add: bound_def spec_of_def inserts_def dict_get_def reparse_attempt_def cell_def)

lemma bound_reparse_observation:
  "bound ''price_observation'' (reparse_observation a w s now f row) =
     [VInt (runtime_id ''price_observation'' w (batch_counter s row)),
      VInt (runtime_id ''observation_candidate'' w (batch_counter s row)),
      VText (card_uuid (of_card_index f)), VInt (of_source_id f), VInt (of_source_id f), VInt (a + 1),
      VText tcg, VInt (of_amount f), VText currency, VText (of_price_type f), VText (of_condition f),
      VTime (of_observed f), VTime (of_observed f), VNull, VNull, VText (of_key f), VTime now]"
  by (simp add: bound_def spec_of_def observation_spec_def reparse_observation_def cell_def)

lemma price_observation_row_fields:
  "price_observation_row p i =
     (let f = observation_fields i p in
      [VInt (i + 1), VInt (i + 1), VText (card_uuid (of_card_index f)), VInt (of_source_id f),
       VInt (of_source_id f), VInt (of_run_index f + 1), VText tcg, VInt (of_amount f), VText currency,
       VText (of_price_type f), VText (of_condition f), VTime (of_observed f),
       VTime (of_observed f + micros 0 0 6 0), VNull, VNull, VText (of_key f),
       VTime (of_observed f + micros 0 0 6 0)])"
  by (simp add: price_observation_row_def observation_fields_def Let_def)

lemma observation_field_facts:
  assumes "seed_profile p" "0 \<le> i" "i < pf_price_observation p"
  defines "f \<equiv> observation_fields i p"
  shows "1 \<le> of_source_id f" "of_source_id f \<le> 4" "0 \<le> of_card_index f" "of_card_index f < pf_cards p"
    "50 \<le> of_amount f" "of_amount f < 500000" "length (of_condition f) \<le> 5"
    "of_price_type f = lit ''buy'' \<or> of_price_type f = lit ''sell''" "length (of_key f) \<le> 120"
proof -
  show "1 \<le> of_source_id f" "of_source_id f \<le> 4"
    using slot_source [OF assms(1), of "i div records_per_run"]
    by (simp_all add: f_def observation_fields_def Let_def)
  have "0 < pf_cards p" using seed_cards [OF assms(1)] by simp
  then show "0 \<le> of_card_index f" "of_card_index f < pf_cards p"
    by (simp_all add: f_def observation_fields_def Let_def card_for_def)
  show "50 \<le> of_amount f" "of_amount f < 500000"
    using price_for_range [of i] by (simp_all add: f_def observation_fields_def Let_def)
  show "length (of_condition f) \<le> 5" by (simp add: f_def observation_fields_def Let_def)
  show "of_price_type f = lit ''buy'' \<or> of_price_type f = lit ''sell''"
    by (simp add: f_def observation_fields_def Let_def)
  have "types_ok t_price_observation (file_row ''price_observation'' (price_observation_row p i))"
    using price_observation_row_ok [OF assms(1-3)] by (simp add: row_ok_def)
  then show "length (of_key f) \<le> 120"
    by (simp add: types_ok_def t_price_observation_def price_observation_row_fields Let_def file_row_def
      file_columns_of f_def)
qed

definition reparse_args :: "profile \<Rightarrow> int \<Rightarrow> int \<Rightarrow> bool" where
  "reparse_args p a s \<longleftrightarrow> seed_profile p \<and> 0 \<le> a \<and> a < pf_raw_artifact p \<and> 0 \<le> s \<and> s \<le> 140000"

lemma reparse_index:
  assumes "reparse_args p a s" "0 \<le> row" "row < 60"
  shows "0 \<le> a * records_per_run + row" "a * records_per_run + row < pf_price_observation p"
  using assms seed_sizes(12) [of p] by (auto simp: reparse_args_def records_per_run_def)

lemma reparse_field_facts:
  assumes "reparse_args p a s" "0 \<le> row" "row < 60"
  defines "f \<equiv> reparse_fields p a row"
  shows "1 \<le> of_source_id f" "of_source_id f \<le> 4" "0 \<le> of_card_index f" "of_card_index f < pf_cards p"
    "of_card_index f < 120000" "50 \<le> of_amount f" "of_amount f < 500000" "length (of_condition f) \<le> 5"
    "of_price_type f = lit ''buy'' \<or> of_price_type f = lit ''sell''" "length (of_key f) \<le> 120"
proof -
  have p: "seed_profile p" using assms(1) by (simp add: reparse_args_def)
  note facts = observation_field_facts [OF p reparse_index [OF assms(1-3)],
    folded reparse_fields_def f_def]
  from facts show "1 \<le> of_source_id f" "of_source_id f \<le> 4" "0 \<le> of_card_index f" "of_card_index f < pf_cards p"
    "50 \<le> of_amount f" "of_amount f < 500000" "length (of_condition f) \<le> 5"
    "of_price_type f = lit ''buy'' \<or> of_price_type f = lit ''sell''" "length (of_key f) \<le> 120"
    by simp_all
  show "of_card_index f < 120000" using facts(4) seed_cards [OF p] by simp
qed

lemma reparse_counter:
  assumes "reparse_args p a s" "0 \<le> row" "row < 60"
  shows "0 \<le> batch_counter s row" "batch_counter s row < 8500000"
  using assms by (auto simp: reparse_args_def batch_counter_def records_per_run_def)

lemma reparse_run_ok:
  assumes "reparse_args p a s"
  shows "row_ok t_processing_run (bind_row (spec_of ''processing_run'') (reparse_run a reparse_writer s now))"
  using assms seed_sizes(2) [of p] unfolding bind_eqs bound_reparse_run reparse_args_def
  by (intro file_rowI)
    (auto simp: row_simps t_processing_run_def file_row_def runtime_ids reparse_writer_def records_per_run_def)

lemma reparse_record_ok:
  assumes "reparse_args p a s" "0 \<le> row" "row < 60"
  shows "row_ok t_extracted_record
    (bind_row (spec_of ''extracted_record'') (reparse_record a reparse_writer s now f row))"
proof -
  have "length (py_str row) \<le> 2" using assms(2,3) by (intro py_str_length) simp_all
  moreover have "0 \<le> a" "a < 140000" "0 \<le> s" "s \<le> 140000"
    using assms(1) seed_sizes(2) [of p] by (auto simp: reparse_args_def)
  ultimately show ?thesis
    using reparse_counter [OF assms] unfolding bind_eqs bound_reparse_record
    by (intro file_rowI) (auto simp: row_simps t_extracted_record_def file_row_def runtime_ids reparse_writer_def)
qed

lemma reparse_candidate_ok:
  assumes "reparse_args p a s" "0 \<le> row" "row < 60"
  shows "row_ok t_observation_candidate
    (bind_row (spec_of ''observation_candidate'') (reparse_candidate reparse_writer s now (reparse_fields p a row) row))"
proof -
  define c where "c = of_card_index (reparse_fields p a row)"
  note f = reparse_field_facts [OF assms, folded c_def]
  have l: "length (py_str c) \<le> 6" "length (dd 3 (c div 1000)) = 3"
    using f(3,5) by (auto intro: py_str_length dd_length)
  show ?thesis
    using f l reparse_counter [OF assms] unfolding bind_eqs bound_reparse_candidate c_def [symmetric]
    by (intro file_rowI)
      (auto simp: row_simps t_observation_candidate_def file_row_def runtime_ids reparse_writer_def)
qed

lemma reparse_attempt_ok:
  assumes "reparse_args p a s" "0 \<le> row" "row < 60"
  shows "row_ok t_identity_resolution_attempt
    (bind_row (spec_of ''identity_resolution_attempt'') (reparse_attempt reparse_writer s now f row))"
  using reparse_counter [OF assms] unfolding bind_eqs bound_reparse_attempt
  by (intro file_rowI)
    (auto simp: row_simps t_identity_resolution_attempt_def file_row_def runtime_ids reparse_writer_def)

lemma reparse_observation_ok:
  assumes "reparse_args p a s" "0 \<le> row" "row < 60"
  shows "row_ok t_price_observation
    (bind_row (spec_of ''price_observation'') (reparse_observation a reparse_writer s now (reparse_fields p a row) row))"
proof -
  have "0 \<le> a" "a < 140000" using assms(1) seed_sizes(2) [of p] by (auto simp: reparse_args_def)
  then show ?thesis
    using reparse_field_facts [OF assms] reparse_counter [OF assms] unfolding bind_eqs bound_reparse_observation
    by (intro file_rowI)
      (auto simp: row_simps t_price_observation_def file_row_def runtime_ids reparse_writer_def)
qed

subsection \<open>Rows whose keys are there are skipped\<close>

lemma append_spec_known:
  assumes "\<forall>r \<in> set rs. row_ok t r \<and> list_ex (clash key r) (rows_of db (tbl_name t))"
  shows "append_spec t key rs db = Some (0, db)"
  using assms by (induction rs) auto

lemma savepoint_known:
  assumes "key \<in> set (table_keys t)"
    "\<forall>r \<in> set rs. row_ok t r \<and> list_ex (clash key r) (rows_of db (tbl_name t))"
  shows "savepoint_inserts eng t rs n db = Inr (n, db)"
  using assms(2)
proof (induction rs)
  case (Cons r rs)
  then obtain cs where "clashing_key db t r = Some cs"
    using clash_key_found [OF assms(1), of r db] by auto
  with Cons show ?case by (simp add: insert_row_good(2) duplicate_raised)
qed simp

lemma append_known:
  assumes "\<And>r. r \<in> set params \<Longrightarrow> row_ok t_price_observation (bind_row (spec_of ''price_observation'') r)"
    "\<And>r. r \<in> set params \<Longrightarrow> list_ex (clash [''idempotency_key''] (bind_row (spec_of ''price_observation'') r))
       (rows_of db ''price_observation'')"
  shows "insert_observations eng True params db = Inr (0, db)"
proof -
  let ?rows = "map (bind_row observation_spec) params"
  have n: "tbl_name t_price_observation = ''price_observation''" by (simp add: t_price_observation_def)
  have ok: "\<forall>r \<in> set ?rows. row_ok t_price_observation r \<and>
      list_ex (clash [''idempotency_key''] r) (rows_of db (tbl_name t_price_observation))"
    using assms by (simp add: spec_of_simps n)
  show ?thesis
  proof (cases eng)
    case Postgres
    then show ?thesis using append_spec_known [OF ok] by (simp add: postgres_refines)
  next
    case Mariadb
    show ?thesis
    proof (cases params)
      case Nil
      then show ?thesis by (simp add: insert_observations_def)
    next
      case (Cons r rs)
      then obtain cs where "clashing_key db t_price_observation (bind_row observation_spec r) = Some cs"
        using clash_key_found [OF observation_key, of "bind_row observation_spec r" db] ok by auto
      then have "insert_row t_price_observation (bind_row observation_spec r) db = Inl (Duplicate_key cs)"
        using ok Cons by (simp add: insert_row_good(2))
      with Cons Mariadb savepoint_known [OF observation_key ok, of Mariadb 0] show ?thesis
        by (simp add: insert_observations_def observation_insert_def Let_def duplicate_raised)
    qed
  qed
qed

subsection \<open>The state between two batches\<close>

definition ids_below :: "store \<Rightarrow> string \<Rightarrow> int \<Rightarrow> bool" where
  "ids_below db t n \<longleftrightarrow> (\<forall>v \<in> ids db t. \<exists>m. v = VInt m \<and> m < n)"

definition stored_versions :: "store \<Rightarrow> int \<Rightarrow> bool" where
  "stored_versions db k \<longleftrightarrow>
     (\<forall>r \<in> set (rows_of db ''processing_run''). cell r ''processor_version'' = VText (lit ''1.1.0'') \<longrightarrow>
       (\<exists>m. cell r ''raw_artifact_id'' = VInt m \<and> m \<le> k)) \<and>
     (\<forall>r \<in> set (rows_of db ''observation_candidate''). \<exists>m. cell r ''extracted_record_id'' = VInt m \<and>
       m < runtime_id ''extracted_record'' reparse_writer (batch_counter (k + 1) 0))"

definition reparse_refs :: "profile \<Rightarrow> store \<Rightarrow> bool" where
  "reparse_refs p db \<longleftrightarrow>
     VInt ` {1..4} \<subseteq> ids db ''source'' \<and> VInt ` {1..4} \<subseteq> ids db ''shop'' \<and>
     (\<lambda>i. VText (card_uuid i)) ` {0..<pf_cards p} \<subseteq> ids db ''card_identity'' \<and>
     VInt ` {1..pf_raw_artifact p} \<subseteq> ids db ''raw_artifact'' \<and>
     (\<lambda>i. VText (of_key (observation_fields i p))) ` {0..<pf_price_observation p} \<subseteq>
       set (map (\<lambda>r. cell r ''idempotency_key'') (rows_of db ''price_observation''))"

definition reparse_ready :: "profile \<Rightarrow> int \<Rightarrow> store \<Rightarrow> bool" where
  "reparse_ready p k db \<longleftrightarrow>
     reparse_refs p db \<and> stored_versions db k \<and>
     ids_below db ''processing_run'' (runtime_id ''processing_run'' reparse_writer (k + 1)) \<and>
     ids_below db ''extracted_record'' (runtime_id ''extracted_record'' reparse_writer (batch_counter (k + 1) 0)) \<and>
     ids_below db ''observation_candidate''
       (runtime_id ''observation_candidate'' reparse_writer (batch_counter (k + 1) 0)) \<and>
     ids_below db ''identity_resolution_attempt''
       (runtime_id ''identity_resolution_attempt'' reparse_writer (batch_counter (k + 1) 0 * 2))"

lemma ids_below_cell: "ids_below db t n \<Longrightarrow> r \<in> set (rows_of db t) \<Longrightarrow> \<exists>m. cell r ''id'' = VInt m \<and> m < n"
  by (auto simp: ids_below_def ids_def)

lemma id_new:
  assumes "ids_below db (tbl_name t) n" "cell r ''id'' = VInt m" "n \<le> m" "s \<in> set (rows_of db (tbl_name t))"
    "''id'' \<in> set cs"
  shows "\<not> clash cs r s"
proof -
  obtain m' where "cell s ''id'' = VInt m'" "m' < n" using ids_below_cell [OF assms(1,4)] by blast
  with assms(2,3,5) show ?thesis by (force simp: clash_def cells_def)
qed

lemma reparse_id_cells:
  "cell (bind_row (spec_of ''processing_run'') (reparse_run a w s now)) ''id'' = VInt (runtime_id ''processing_run'' w s)"
  "cell (bind_row (spec_of ''extracted_record'') (reparse_record a w s now f row)) ''id'' =
     VInt (runtime_id ''extracted_record'' w (batch_counter s row))"
  "cell (bind_row (spec_of ''observation_candidate'') (reparse_candidate w s now f row)) ''id'' =
     VInt (runtime_id ''observation_candidate'' w (batch_counter s row))"
  "cell (bind_row (spec_of ''identity_resolution_attempt'') (reparse_attempt w s now f row)) ''id'' =
     VInt (runtime_id ''identity_resolution_attempt'' w (batch_counter s row * 2))"
  "cell (bind_row (spec_of ''price_observation'') (reparse_observation a w s now f row)) ''idempotency_key'' =
     VText (of_key f)"
  "cell (bind_row (spec_of ''processing_run'') (reparse_run a w s now)) ''raw_artifact_id'' = VInt (a + 1)"
  "cell (bind_row (spec_of ''processing_run'') (reparse_run a w s now)) ''processor_version'' = VText (lit ''1.1.0'')"
  "cell (bind_row (spec_of ''observation_candidate'') (reparse_candidate w s now f row)) ''extracted_record_id'' =
     VInt (runtime_id ''extracted_record'' w (batch_counter s row))"
  by (simp_all add: cell_simps bound_reparse_run bound_reparse_record bound_reparse_candidate
    bound_reparse_attempt bound_reparse_observation t_processing_run_def t_extracted_record_def
    t_observation_candidate_def t_identity_resolution_attempt_def t_price_observation_def)

lemma reparse_refsD:
  assumes "reparse_refs p db"
  shows "1 \<le> k \<Longrightarrow> k \<le> 4 \<Longrightarrow> VInt k \<in> ids db ''source''" "1 \<le> k \<Longrightarrow> k \<le> 4 \<Longrightarrow> VInt k \<in> ids db ''shop''"
    "0 \<le> i \<Longrightarrow> i < pf_cards p \<Longrightarrow> VText (card_uuid i) \<in> ids db ''card_identity''"
    "1 \<le> a \<Longrightarrow> a \<le> pf_raw_artifact p \<Longrightarrow> VInt a \<in> ids db ''raw_artifact''"
    "0 \<le> j \<Longrightarrow> j < pf_price_observation p \<Longrightarrow> VText (of_key (observation_fields j p)) \<in>
       set (map (\<lambda>r. cell r ''idempotency_key'') (rows_of db ''price_observation''))"
proof -
  have refs: "VInt ` {1..4} \<subseteq> ids db ''source''" "VInt ` {1..4} \<subseteq> ids db ''shop''"
    "(\<lambda>i. VText (card_uuid i)) ` {0..<pf_cards p} \<subseteq> ids db ''card_identity''"
    "VInt ` {1..pf_raw_artifact p} \<subseteq> ids db ''raw_artifact''"
    "(\<lambda>i. VText (of_key (observation_fields i p))) ` {0..<pf_price_observation p} \<subseteq>
       set (map (\<lambda>r. cell r ''idempotency_key'') (rows_of db ''price_observation''))"
    using assms by (simp_all only: reparse_refs_def)
  show "VInt k \<in> ids db ''source''" "VInt k \<in> ids db ''shop''" if "1 \<le> k" "k \<le> 4"
    using subsetD [OF refs(1), of "VInt k"] subsetD [OF refs(2), of "VInt k"] that by simp_all
  show "VText (card_uuid i) \<in> ids db ''card_identity''" if "0 \<le> i" "i < pf_cards p"
    by (rule subsetD [OF refs(3)], rule imageI) (use that in simp)
  show "VInt a \<in> ids db ''raw_artifact''" if "1 \<le> a" "a \<le> pf_raw_artifact p"
    by (rule subsetD [OF refs(4)], rule imageI) (use that in simp)
  show "VText (of_key (observation_fields j p)) \<in>
       set (map (\<lambda>r. cell r ''idempotency_key'') (rows_of db ''price_observation''))"
    if "0 \<le> j" "j < pf_price_observation p"
    by (rule subsetD [OF refs(5)], rule imageI) (use that in simp)
qed

subsection \<open>One artifact\<close>

lemma reparse_tables_of:
  "dict_get (reparse_batch p a w s now) ''processing_run'' [] = [reparse_run a w s now]"
  "dict_get (reparse_batch p a w s now) ''extracted_record'' [] =
     map (\<lambda>row. reparse_record a w s now (reparse_fields p a row) row) (py_range 60)"
  "dict_get (reparse_batch p a w s now) ''observation_candidate'' [] =
     map (\<lambda>row. reparse_candidate w s now (reparse_fields p a row) row) (py_range 60)"
  "dict_get (reparse_batch p a w s now) ''identity_resolution_attempt'' [] =
     map (\<lambda>row. reparse_attempt w s now (reparse_fields p a row) row) (py_range 60)"
  "dict_get (reparse_batch p a w s now) ''price_observation'' [] =
     map (\<lambda>row. reparse_observation a w s now (reparse_fields p a row) row) (py_range 60)"
  by (simp_all add: reparse_batch_def Let_def dict_get_def records_per_run_def)

lemma reparse_keys:
  "key_ok (map (bind_row (spec_of ''extracted_record'')) (map (\<lambda>row. reparse_record a w s now (f row) row) (py_range n))) [''id'']"
  "cs \<in> set (table_keys t_observation_candidate) \<Longrightarrow>
   key_ok (map (bind_row (spec_of ''observation_candidate'')) (map (\<lambda>row. reparse_candidate w s now (f row) row) (py_range n))) cs"
  "key_ok (map (bind_row (spec_of ''identity_resolution_attempt'')) (map (\<lambda>row. reparse_attempt w s now (f row) row) (py_range n))) [''id'']"
proof -
  show "key_ok (map (bind_row (spec_of ''extracted_record'')) (map (\<lambda>row. reparse_record a w s now (f row) row) (py_range n))) [''id'']"
    unfolding map_map comp_def by (rule key_ok_map [of _ _ "''id''"]) (simp_all add: reparse_id_cells)
  show "key_ok (map (bind_row (spec_of ''identity_resolution_attempt'')) (map (\<lambda>row. reparse_attempt w s now (f row) row) (py_range n))) [''id'']"
    unfolding map_map comp_def by (rule key_ok_map [of _ _ "''id''"]) (simp_all add: reparse_id_cells)
  show "key_ok (map (bind_row (spec_of ''observation_candidate'')) (map (\<lambda>row. reparse_candidate w s now (f row) row) (py_range n))) cs"
    if "cs \<in> set (table_keys t_observation_candidate)"
  proof -
    have "''id'' \<in> set cs \<or> ''extracted_record_id'' \<in> set cs"
      using that by (auto simp: table_keys_def t_observation_candidate_def)
    then show ?thesis
      unfolding map_map comp_def
      by (elim disjE) (rule key_ok_map [of _ _ "''id''"] key_ok_map [of _ _ "''extracted_record_id''"];
        simp add: reparse_id_cells)+
  qed
qed

lemma reparse_fks:
  assumes "reparse_refs p db" "\<And>t. ids db t \<subseteq> ids db' t" "reparse_args p a s"
  shows "fk_ok db' t_processing_run (bind_row (spec_of ''processing_run'') (reparse_run a w s now))"
    "VInt (runtime_id ''processing_run'' w s) \<in> ids db' ''processing_run'' \<Longrightarrow>
      fk_ok db' t_extracted_record (bind_row (spec_of ''extracted_record'') (reparse_record a w s now f row))"
    "0 \<le> row \<Longrightarrow> row < 60 \<Longrightarrow>
      VInt (runtime_id ''extracted_record'' w (batch_counter s row)) \<in> ids db' ''extracted_record'' \<Longrightarrow>
      fk_ok db' t_observation_candidate
        (bind_row (spec_of ''observation_candidate'') (reparse_candidate w s now (reparse_fields p a row) row))"
    "0 \<le> row \<Longrightarrow> row < 60 \<Longrightarrow>
      VInt (runtime_id ''observation_candidate'' w (batch_counter s row)) \<in> ids db' ''observation_candidate'' \<Longrightarrow>
      fk_ok db' t_identity_resolution_attempt
        (bind_row (spec_of ''identity_resolution_attempt'') (reparse_attempt w s now (reparse_fields p a row) row))"
proof -
  have a: "0 \<le> a" "a < pf_raw_artifact p" using assms(3) by (simp_all add: reparse_args_def)
  have art: "VInt (a + 1) \<in> ids db' ''raw_artifact''"
    by (rule subsetD [OF assms(2) reparse_refsD(4) [OF assms(1)]]) (use a in simp_all)
  show "fk_ok db' t_processing_run (bind_row (spec_of ''processing_run'') (reparse_run a w s now))"
    using art by (intro fk_ok_ids) (simp add: cell_simps bound_reparse_run t_processing_run_def)
  show "fk_ok db' t_extracted_record (bind_row (spec_of ''extracted_record'') (reparse_record a w s now f row))"
    if "VInt (runtime_id ''processing_run'' w s) \<in> ids db' ''processing_run''"
    using art that by (intro fk_ok_ids) (simp add: cell_simps bound_reparse_record t_extracted_record_def)
  show "fk_ok db' t_observation_candidate
        (bind_row (spec_of ''observation_candidate'') (reparse_candidate w s now (reparse_fields p a row) row))"
    if r: "0 \<le> row" "row < 60" and "VInt (runtime_id ''extracted_record'' w (batch_counter s row)) \<in> ids db' ''extracted_record''"
  proof -
    note f = reparse_field_facts [OF assms(3) r]
    have "VInt (of_source_id (reparse_fields p a row)) \<in> ids db' ''source''"
        "VInt (of_source_id (reparse_fields p a row)) \<in> ids db' ''shop''"
      by (rule subsetD [OF assms(2) reparse_refsD(1) [OF assms(1)]], fact f(1), fact f(2))
        (rule subsetD [OF assms(2) reparse_refsD(2) [OF assms(1)]], fact f(1), fact f(2))
    with that(3) show ?thesis
      by (intro fk_ok_ids) (simp add: cell_simps bound_reparse_candidate t_observation_candidate_def)
  qed
  show "fk_ok db' t_identity_resolution_attempt
        (bind_row (spec_of ''identity_resolution_attempt'') (reparse_attempt w s now (reparse_fields p a row) row))"
    if r: "0 \<le> row" "row < 60" and "VInt (runtime_id ''observation_candidate'' w (batch_counter s row)) \<in> ids db' ''observation_candidate''"
  proof -
    note f = reparse_field_facts [OF assms(3) r]
    have "VText (card_uuid (of_card_index (reparse_fields p a row))) \<in> ids db' ''card_identity''"
      by (rule subsetD [OF assms(2) reparse_refsD(3) [OF assms(1)]], fact f(3), fact f(4))
    with that(3) show ?thesis
      by (intro fk_ok_ids) (simp add: cell_simps bound_reparse_attempt t_identity_resolution_attempt_def)
  qed
qed

lemma cell_clash: "cell r c \<noteq> cell s c \<Longrightarrow> c \<in> set cs \<Longrightarrow> \<not> clash cs r s"
  by (auto simp: clash_def cells_def)

lemma table_fresh_ids:
  assumes "ids_below db (tbl_name t) n" "table_keys t = [[''id'']]"
    "\<And>r. r \<in> set params \<Longrightarrow> \<exists>m. cell (bind_row (spec_of (tbl_name t)) r) ''id'' = VInt m \<and> n \<le> m"
  shows "table_fresh db t params"
proof -
  have "\<not> clash [''id''] (bind_row (spec_of (tbl_name t)) r) s"
    if "r \<in> set params" "s \<in> set (rows_of db (tbl_name t))" for r s
    using assms(3) [OF that(1)] id_new [OF assms(1) _ _ that(2)] by fastforce
  then show ?thesis using assms(2) by (simp add: table_fresh_def list_all_iff clashing_key_None)
qed

lemma reparse_fresh:
  assumes "reparse_ready p k db"
  shows "table_fresh db t_processing_run [reparse_run k reparse_writer (k + 1) now]"
    "table_fresh db t_extracted_record
      (map (\<lambda>row. reparse_record a reparse_writer (k + 1) now (f row) row) (py_range n))"
    "table_fresh db t_observation_candidate
      (map (\<lambda>row. reparse_candidate reparse_writer (k + 1) now (f row) row) (py_range n))"
    "table_fresh db t_identity_resolution_attempt
      (map (\<lambda>row. reparse_attempt reparse_writer (k + 1) now (f row) row) (py_range n))"
proof -
  note R = assms [unfolded reparse_ready_def]
  show "table_fresh db t_processing_run [reparse_run k reparse_writer (k + 1) now]"
  proof -
    let ?r = "bind_row (spec_of ''processing_run'') (reparse_run k reparse_writer (k + 1) now)"
    have "\<not> clash cs ?r s" if cs: "cs \<in> set (table_keys t_processing_run)" and s: "s \<in> set (rows_of db ''processing_run'')" for cs s
    proof -
      have "cell ?r ''processor_version'' \<noteq> cell s ''processor_version'' \<or> cell ?r ''raw_artifact_id'' \<noteq> cell s ''raw_artifact_id''"
      proof (rule ccontr)
        assume "\<not> ?thesis"
        then have "cell s ''processor_version'' = VText (lit ''1.1.0'')" "cell s ''raw_artifact_id'' = VInt (k + 1)"
          by (simp_all add: reparse_id_cells)
        with R s show False unfolding stored_versions_def by fastforce
      qed
      moreover have "cell ?r ''id'' \<noteq> cell s ''id''"
        using ids_below_cell [of db "''processing_run''", OF _ s] R by (fastforce simp: reparse_id_cells)
      ultimately show ?thesis
        using cs by (auto simp: table_keys_def t_processing_run_def clash_def cells_def)
    qed
    then show ?thesis by (simp add: table_fresh_def clashing_key_None table_names)
  qed
  have c: "batch_counter (k + 1) 0 \<le> batch_counter (k + 1) row" if "0 \<le> row" for row
    using that by (simp add: batch_counter_def)
  have m: "runtime_id t w x \<le> runtime_id t w y" if "x \<le> y" for t w x y
    using that by (simp add: runtime_id_def)
  show "table_fresh db t_extracted_record
      (map (\<lambda>row. reparse_record a reparse_writer (k + 1) now (f row) row) (py_range n))"
    by (rule table_fresh_ids) (use R c m in \<open>auto simp: table_names table_keys_def t_extracted_record_def reparse_id_cells\<close>)
  show "table_fresh db t_identity_resolution_attempt
      (map (\<lambda>row. reparse_attempt reparse_writer (k + 1) now (f row) row) (py_range n))"
    by (rule table_fresh_ids) (use R c m in \<open>auto simp: table_names table_keys_def t_identity_resolution_attempt_def reparse_id_cells\<close>)
  show "table_fresh db t_observation_candidate
      (map (\<lambda>row. reparse_candidate reparse_writer (k + 1) now (f row) row) (py_range n))"
  proof -
    have "\<not> clash cs (bind_row (spec_of ''observation_candidate'') (reparse_candidate reparse_writer (k + 1) now (f row) row)) s"
      if cs: "cs \<in> set (table_keys t_observation_candidate)" and s: "s \<in> set (rows_of db ''observation_candidate'')" and row: "0 \<le> row" for cs s row
    proof -
      let ?r = "bind_row (spec_of ''observation_candidate'') (reparse_candidate reparse_writer (k + 1) now (f row) row)"
      obtain x y where "cell s ''id'' = VInt x" "x < runtime_id ''observation_candidate'' reparse_writer (batch_counter (k + 1) 0)"
        "cell s ''extracted_record_id'' = VInt y" "y < runtime_id ''extracted_record'' reparse_writer (batch_counter (k + 1) 0)"
        using ids_below_cell [of db "''observation_candidate''", OF _ s] R s unfolding stored_versions_def by blast
      moreover have "cell ?r ''id'' = VInt (runtime_id ''observation_candidate'' reparse_writer (batch_counter (k + 1) row))"
          "cell ?r ''extracted_record_id'' = VInt (runtime_id ''extracted_record'' reparse_writer (batch_counter (k + 1) row))"
        by (rule reparse_id_cells)+
      moreover note m [OF c [OF row], of "''observation_candidate''" reparse_writer]
        m [OF c [OF row], of "''extracted_record''" reparse_writer]
      ultimately have "cell ?r ''id'' \<noteq> cell s ''id''" "cell ?r ''extracted_record_id'' \<noteq> cell s ''extracted_record_id''"
        by simp_all
      with cs show ?thesis by (auto simp: table_keys_def t_observation_candidate_def clash_def cells_def)
    qed
    then show ?thesis unfolding table_fresh_def clashing_key_None list_all_iff by (auto simp: table_names)
  qed
qed

definition reparse_written :: "batch \<Rightarrow> store \<Rightarrow> store" where
  "reparse_written b db = fold (\<lambda>t. add_bound t (dict_get b t [])) reparse_tables db"

lemma rows_add_bound:
  "rows_of (add_bound t params db) u =
     (if u = t then rows_of db t @ map (bind_row (spec_of t)) params else rows_of db u)"
  by (simp add: add_bound_def rows_of_add_rows)

lemma reparse_written_rows:
  "rows_of (reparse_written b db) u =
     (if u \<in> set reparse_tables then rows_of db u @ map (bind_row (spec_of u)) (dict_get b u []) else rows_of db u)"
  by (simp add: reparse_written_def reparse_tables_def rows_add_bound)

lemma reparse_written_ids:
  "ids (reparse_written b db) u =
     (if u \<in> set reparse_tables then ids db u \<union> set (map (\<lambda>r. cell (bind_row (spec_of u) r) ''id'') (dict_get b u []))
      else ids db u)"
  by (auto simp: ids_def reparse_written_rows)

lemma reparse_inserts:
  assumes ready: "reparse_ready p k db" and args: "reparse_args p k (k + 1)"
  shows "insert_tables reparse_tables (reparse_batch p k reparse_writer (k + 1) now) db =
    Inr (reparse_written (reparse_batch p k reparse_writer (k + 1) now) db)"
proof -
  define b where "b = reparse_batch p k reparse_writer (k + 1) now"
  let ?p = "\<lambda>t. dict_get b t []"
  define d1 where "d1 = add_bound ''processing_run'' (?p ''processing_run'') db"
  define d2 where "d2 = add_bound ''extracted_record'' (?p ''extracted_record'') d1"
  define d3 where "d3 = add_bound ''observation_candidate'' (?p ''observation_candidate'') d2"
  define d4 where "d4 = add_bound ''identity_resolution_attempt'' (?p ''identity_resolution_attempt'') d3"
  note ds = d1_def d2_def d3_def d4_def
  have refs: "reparse_refs p db" using ready by (simp add: reparse_ready_def)
  have sub: "ids db t \<subseteq> ids db t" "ids db t \<subseteq> ids d1 t" "ids db t \<subseteq> ids d2 t" "ids db t \<subseteq> ids d3 t" for t
    by (auto simp: ds ids_add_bound)
  have i1: "VInt (runtime_id ''processing_run'' reparse_writer (k + 1)) \<in> ids d1 ''processing_run''"
    by (simp add: d1_def ids_add_bound b_def reparse_tables_of reparse_id_cells)
  have i2: "VInt (runtime_id ''extracted_record'' reparse_writer (batch_counter (k + 1) row)) \<in> ids d2 ''extracted_record''"
    if "0 \<le> row" "row < 60" for row
    using that by (simp add: d2_def ids_add_bound b_def reparse_tables_of reparse_id_cells image_iff)
  have i3: "VInt (runtime_id ''observation_candidate'' reparse_writer (batch_counter (k + 1) row)) \<in> ids d3 ''observation_candidate''"
    if "0 \<le> row" "row < 60" for row
    using that by (simp add: d3_def ids_add_bound b_def reparse_tables_of reparse_id_cells image_iff)
  note tn = table_names and bn = bulk_names and fr = reparse_fresh [OF ready]
  have s1: "insert_table ''processing_run'' (?p ''processing_run'') db = Inr d1" unfolding d1_def
    by (rule insert_fresh [OF table_of_simps(4) tn(3) bn(3)])
      (use fr(1) reparse_run_ok [OF args] reparse_fks(1) [OF refs sub(1) args] in
        \<open>simp_all add: b_def reparse_tables_of tn bn\<close>)
  have s2: "insert_table ''extracted_record'' (?p ''extracted_record'') d1 = Inr d2" unfolding d2_def
  proof (rule insert_fresh [OF table_of_simps(5) tn(4) bn(4)])
    show "key_ok (map (bind_row (spec_of ''extracted_record'')) (?p ''extracted_record'')) cs"
      if "cs \<in> set (table_keys t_extracted_record)" for cs
    proof -
      have "cs = [''id'']" using that by (simp add: table_keys_def t_extracted_record_def)
      then show ?thesis unfolding b_def reparse_tables_of by (simp only: reparse_keys(1))
    qed
  qed (use fr(2) reparse_record_ok [OF args] reparse_fks(2) [OF refs sub(2) args i1] in
        \<open>auto simp: b_def reparse_tables_of d1_def table_fresh_add tn\<close>)
  have s3: "insert_table ''observation_candidate'' (?p ''observation_candidate'') d2 = Inr d3" unfolding d3_def
  proof (rule insert_fresh [OF table_of_simps(6) tn(5) bn(5)])
    show "key_ok (map (bind_row (spec_of ''observation_candidate'')) (?p ''observation_candidate'')) cs"
      if "cs \<in> set (table_keys t_observation_candidate)" for cs
      unfolding b_def reparse_tables_of by (rule reparse_keys(2) [OF that])
  qed (use fr(3) reparse_candidate_ok [OF args] reparse_fks(3) [OF refs sub(3) args _ _ i2] in
        \<open>auto simp: b_def reparse_tables_of d1_def d2_def table_fresh_add tn\<close>)
  have s4: "insert_table ''identity_resolution_attempt'' (?p ''identity_resolution_attempt'') d3 = Inr d4" unfolding d4_def
  proof (rule insert_fresh [OF table_of_simps(7) tn(6) bn(6)])
    show "key_ok (map (bind_row (spec_of ''identity_resolution_attempt'')) (?p ''identity_resolution_attempt'')) cs"
      if "cs \<in> set (table_keys t_identity_resolution_attempt)" for cs
    proof -
      have "cs = [''id'']" using that by (simp add: table_keys_def t_identity_resolution_attempt_def)
      then show ?thesis unfolding b_def reparse_tables_of by (simp only: reparse_keys(3))
    qed
  qed (use fr(4) reparse_attempt_ok [OF args] reparse_fks(4) [OF refs sub(4) args _ _ i3] in
        \<open>auto simp: b_def reparse_tables_of d1_def d2_def d3_def table_fresh_add tn\<close>)
  have "reparse_written b db = d4" by (simp add: reparse_written_def reparse_tables_def ds)
  then show ?thesis unfolding b_def [symmetric] by (simp add: reparse_tables_def s1 s2 s3 s4)
qed

lemma reparse_step:
  assumes ready: "reparse_ready p k db" and args: "reparse_args p k (k + 1)"
  shows "write_reparse eng (reparse_batch p k reparse_writer (k + 1) now) db =
    Inr (0, reparse_written (reparse_batch p k reparse_writer (k + 1) now) db)"
proof -
  let ?b = "reparse_batch p k reparse_writer (k + 1) now"
  let ?db = "reparse_written ?b db"
  have refs: "reparse_refs p db" using ready by (simp add: reparse_ready_def)
  have po: "rows_of ?db ''price_observation'' = rows_of db ''price_observation''"
    by (simp add: reparse_written_rows reparse_tables_def)
  have "insert_observations eng True (dict_get ?b ''price_observation'' []) ?db = Inr (0, ?db)"
  proof (rule append_known)
    fix r assume "r \<in> set (dict_get ?b ''price_observation'' [])"
    then obtain row where row: "0 \<le> row" "row < 60"
        and r: "r = reparse_observation k reparse_writer (k + 1) now (reparse_fields p k row) row"
      unfolding reparse_tables_of by auto
    show "row_ok t_price_observation (bind_row (spec_of ''price_observation'') r)"
      unfolding r by (rule reparse_observation_ok [OF args row])
    have "VText (of_key (reparse_fields p k row)) \<in>
        set (map (\<lambda>r. cell r ''idempotency_key'') (rows_of db ''price_observation''))"
      unfolding reparse_fields_def by (rule reparse_refsD(5) [OF refs reparse_index [OF args row]])
    then show "list_ex (clash [''idempotency_key''] (bind_row (spec_of ''price_observation'') r))
        (rows_of ?db ''price_observation'')"
      unfolding po by (auto simp: r list_ex_iff clash_def cells_def reparse_id_cells)
  qed
  then show ?thesis by (simp add: write_reparse_def reparse_inserts [OF ready args])
qed

lemma runtime_id_less: "runtime_id t w x < runtime_id t w y \<longleftrightarrow> x < y"
  by (simp add: runtime_id_def)

lemma counter_next:
  assumes "0 \<le> row" "row < 60"
  shows "batch_counter s row < batch_counter (s + 1) 0" "batch_counter s row * 2 < batch_counter (s + 1) 0 * 2"
    "batch_counter s 0 < batch_counter (s + 1) 0"
  using assms by (simp_all add: batch_counter_def records_per_run_def)

lemma ids_belowI:
  assumes "ids_below db t n" "n \<le> n'" "ids db' t \<subseteq> ids db t \<union> {VInt m |m. m < n'}"
  shows "ids_below db' t n'"
  unfolding ids_below_def
proof
  fix v assume "v \<in> ids db' t"
  with assms(3) consider "v \<in> ids db t" | m where "v = VInt m" "m < n'" by auto
  then show "\<exists>m. v = VInt m \<and> m < n'"
    by cases (use assms(1,2) in \<open>fastforce simp: ids_below_def\<close>)+
qed

lemma reparse_ready_next:
  assumes ready: "reparse_ready p k db"
    and s: "k + 1 = s"
  shows "reparse_ready p s (reparse_written (reparse_batch p k reparse_writer s now) db)"
proof -
  let ?b = "reparse_batch p k reparse_writer s now"
  let ?db = "reparse_written ?b db"
  note R = ready [unfolded reparse_ready_def s]
  have next_id: "runtime_id t w s \<le> runtime_id t w (s + 1)"
      "runtime_id t w (batch_counter s 0) \<le> runtime_id t w (batch_counter (s + 1) 0)"
      "runtime_id t w (batch_counter s 0 * 2) \<le> runtime_id t w (batch_counter (s + 1) 0 * 2)" for t w
    using counter_next(3) [of 0 s] by (simp_all add: runtime_id_def)
  have "ids_below ?db ''processing_run'' (runtime_id ''processing_run'' reparse_writer (s + 1))"
    by (rule ids_belowI [OF _ next_id(1)]) (use R in \<open>auto simp: reparse_written_ids reparse_tables_def
      reparse_tables_of reparse_id_cells runtime_id_less\<close>)
  moreover have "ids_below ?db ''extracted_record'' (runtime_id ''extracted_record'' reparse_writer (batch_counter (s + 1) 0))"
    by (rule ids_belowI [OF _ next_id(2)]) (use R in \<open>auto simp: reparse_written_ids reparse_tables_def
      reparse_tables_of reparse_id_cells runtime_id_less counter_next\<close>)
  moreover have "ids_below ?db ''observation_candidate'' (runtime_id ''observation_candidate'' reparse_writer (batch_counter (s + 1) 0))"
    by (rule ids_belowI [OF _ next_id(2)]) (use R in \<open>auto simp: reparse_written_ids reparse_tables_def
      reparse_tables_of reparse_id_cells runtime_id_less counter_next\<close>)
  moreover have "ids_below ?db ''identity_resolution_attempt'' (runtime_id ''identity_resolution_attempt'' reparse_writer (batch_counter (s + 1) 0 * 2))"
    by (rule ids_belowI [OF _ next_id(3)]) (use R in \<open>auto simp: reparse_written_ids reparse_tables_def
      reparse_tables_of reparse_id_cells runtime_id_less counter_next\<close>)
  moreover have "reparse_refs p ?db"
    using R by (simp add: reparse_refs_def reparse_written_ids reparse_written_rows reparse_tables_def)
  moreover have "stored_versions ?db s"
  proof -
    have v: "\<exists>m. cell r ''raw_artifact_id'' = VInt m \<and> m \<le> s"
      if "r \<in> set (rows_of db ''processing_run'')" "cell r ''processor_version'' = VText (lit ''1.1.0'')" for r
      using R that unfolding stored_versions_def using s by fastforce
    have c: "\<exists>m. cell r ''extracted_record_id'' = VInt m \<and>
        m < runtime_id ''extracted_record'' reparse_writer (batch_counter (s + 1) 0)"
      if "r \<in> set (rows_of db ''observation_candidate'')" for r
      using R that next_id(2) [of "''extracted_record''" reparse_writer] unfolding stored_versions_def s
      by (meson order_less_le_trans)
    show ?thesis
      unfolding stored_versions_def reparse_written_rows
      using v c by (auto simp: reparse_tables_def reparse_tables_of reparse_id_cells runtime_id_less counter_next s)
  qed
  ultimately show ?thesis by (simp add: reparse_ready_def)
qed

subsection \<open>The loaded store is ready\<close>

lemma ids_of_column:
  "seeded p db \<Longrightarrow> t \<in> set bulk_tables \<Longrightarrow> ids db t = set (map (\<lambda>r. cell r ''id'') (seed_rows p t))"
  by (simp add: ids_def seeded_def)

lemma ids_below_blocks:
  assumes "ids db t \<subseteq> set (id_block a n @ id_block b m)" "a + n < k" "b + m < k"
  shows "ids_below db t k"
  unfolding ids_below_def
proof
  fix v assume "v \<in> ids db t"
  with assms(1) have v: "v \<in> set (id_block a n @ id_block b m)" by blast
  then obtain j where "v = VInt j" using id_block_ints [of v] by fastforce
  with v assms(2,3) show "\<exists>m. v = VInt m \<and> m < k" by auto
qed

lemma seeded_rows:
  assumes "seeded p db"
  shows "rows_of db ''processing_run'' = map (file_row ''processing_run'') (gen_processing_run p)"
    "rows_of db ''observation_candidate'' = map (file_row ''observation_candidate'') (gen_observation_candidate p)"
    "rows_of db ''price_observation'' = map (file_row ''price_observation'') (gen_price_observation p)"
  using assms by (simp_all add: seeded_def bulk_tables_def seed_rows_simps)

lemma seeded_versions:
  assumes "seeded p db" "seed_profile p"
  shows "stored_versions db 0"
proof -
  have old: "cell r ''processor_version'' = VText (lit ''1.0.0'')" if "r \<in> set (rows_of db ''processing_run'')" for r
  proof -
    have "cell r ''processor_version'' \<in> set (column_of ''processing_run'' ''processor_version'' (gen_processing_run p))"
      using that unfolding seeded_rows(1) [OF assms(1)] column_of_rows [symmetric] set_map by (rule imageI)
    then show ?thesis
      by (auto simp: gen_processing_run_def column_simps processing_run_row_def processing_run_history_row_def
        file_row_def file_columns_of t_processing_run_def Let_def set_nested)
  qed
  have "\<exists>m. cell r ''extracted_record_id'' = VInt m \<and> m < runtime_id ''extracted_record'' reparse_writer (batch_counter (0 + 1) 0)"
    if "r \<in> set (rows_of db ''observation_candidate'')" for r
  proof -
    have v: "cell r ''extracted_record_id'' \<in> set (column_of ''observation_candidate'' ''extracted_record_id'' (gen_observation_candidate p))"
      using that unfolding seeded_rows(2) [OF assms(1)] column_of_rows [symmetric] set_map by (rule imageI)
    then obtain m where m: "cell r ''extracted_record_id'' = VInt m"
      using id_block_ints unfolding observation_candidate_ids [OF disjI2 [OF refl]] by fastforce
    with v have "m \<le> 1000000000"
      using seed_sizes(4,5,9) [OF assms(2)] unfolding observation_candidate_ids [OF disjI2 [OF refl]]
      by (auto simp: history_id_offset_def)
    with m show ?thesis by (simp add: runtime_ids reparse_writer_def batch_counter_def records_per_run_def)
  qed
  then show ?thesis unfolding stored_versions_def using old by (simp add: lit_distinct)
qed

lemma seeded_refs:
  assumes "seeded p db" "seed_profile p"
  shows "reparse_refs p db"
proof -
  note i = ids_seeded [OF assms]
  have art: "VInt ` {1..pf_raw_artifact p} \<subseteq> ids db ''raw_artifact''"
  proof (rule image_subsetI)
    fix k assume "k \<in> {1..pf_raw_artifact p}"
    then show "VInt k \<in> ids db ''raw_artifact''" unfolding i(5) by simp
  qed
  have keys: "(\<lambda>i. VText (of_key (observation_fields i p))) ` {0..<pf_price_observation p} \<subseteq>
      set (map (\<lambda>r. cell r ''idempotency_key'') (rows_of db ''price_observation''))"
    unfolding seeded_rows(3) [OF assms(1)] column_of_rows price_observation_keys set_append set_map set_py_range
    by (rule Un_upper1)
  show ?thesis unfolding reparse_refs_def i(1-3) using art keys by (intro conjI subset_refl)
qed

lemma seeded_ready:
  assumes "seeded p db" "seed_profile p"
  shows "reparse_ready p 0 db"
proof -
  note s = seed_sizes [OF assms(2)] and b = bulk_ids [OF assms(1)]
  note vals = history_id_offset_def runtime_ids reparse_writer_def batch_counter_def records_per_run_def
  have "ids_below db ''processing_run'' (runtime_id ''processing_run'' reparse_writer (0 + 1))"
    by (rule ids_below_blocks) (use s in \<open>auto simp: b processing_run_ids [OF assms(2)] vals\<close>)
  moreover have "ids_below db ''extracted_record'' (runtime_id ''extracted_record'' reparse_writer (batch_counter (0 + 1) 0))"
    by (rule ids_below_blocks) (use s in \<open>auto simp: b extracted_record_ids vals\<close>)
  moreover have "ids_below db ''observation_candidate'' (runtime_id ''observation_candidate'' reparse_writer (batch_counter (0 + 1) 0))"
    by (rule ids_below_blocks) (use s in \<open>auto simp: b observation_candidate_ids vals\<close>)
  moreover have "ids_below db ''identity_resolution_attempt''
      (runtime_id ''identity_resolution_attempt'' reparse_writer (batch_counter (0 + 1) 0 * 2))"
    by (rule ids_below_blocks) (use s in \<open>auto simp: b attempt_ids [OF assms(2)] vals\<close>)
  ultimately show ?thesis
    using seeded_refs [OF assms] seeded_versions [OF assms] by (simp add: reparse_ready_def)
qed

lemma no_runtime_runs:
  assumes "seeded p db" "seed_profile p" "0 \<le> w" "rows_of db' ''ingest_run'' = rows_of db ''ingest_run''"
  shows "next_sequence db' w = 0"
proof -
  have "n < 1000000000000" if "r \<in> set (rows_of db ''ingest_run'')" "n \<in> set (int_cell r ''id'')" for r n
  proof -
    from that(2) have "cell r ''id'' = VInt n" by (simp add: int_cell_def split: dbval.splits)
    with that(1) have "VInt n \<in> ids db ''ingest_run''" by (force simp: ids_def)
    then show ?thesis
      using ids_seeded(4) [OF assms(1,2)] scale_cases [OF assms(2)] by (auto simp: history_run_offset_def)
  qed
  then have "filter (\<lambda>n. 1000000000000 + w * writer_stride \<le> n \<and> n < 1000000000000 + w * writer_stride + writer_stride)
      (concat (map (\<lambda>r. int_cell r ''id'') (rows_of db' ''ingest_run''))) = []"
    using assms(3,4) by (fastforce simp: filter_empty_conv writer_stride_def)
  then show ?thesis by (simp add: next_sequence_def id_base_values)
qed

subsection \<open>The whole reparse\<close>

text \<open>The store after the artifacts of a list.\<close>

definition reparsed :: "profile \<Rightarrow> int \<Rightarrow> int list \<Rightarrow> store \<Rightarrow> store" where
  "reparsed p now is db =
     fold (\<lambda>k. reparse_written (reparse_batch p k reparse_writer (k + 1) now)) is db"

lemma reparse_loop_runs:
  assumes "seed_profile p" "0 \<le> k" "k + int m \<le> pf_raw_artifact p" "reparse_ready p k db"
  shows "reparse_loop eng p 0 now [k..k + int m - 1] n db = (Inr n, reparsed p now [k..k + int m - 1] db)"
  using assms(2-4)
proof (induction m arbitrary: k db)
  case 0
  then show ?case by (simp add: reparsed_def)
next
  case (Suc m)
  let ?db = "reparse_written (reparse_batch p k reparse_writer (k + 1) now) db"
  have args: "reparse_args p k (k + 1)"
    using Suc.prems assms(1) seed_sizes(2) [OF assms(1)] by (simp add: reparse_args_def)
  have l: "[k..k + int (Suc m) - 1] = k # [k + 1..k + 1 + int m - 1]"
    by (subst upto.simps) (simp add: algebra_simps)
  have "reparse_loop eng p 0 now [k + 1..k + 1 + int m - 1] n ?db =
      (Inr n, reparsed p now [k + 1..k + 1 + int m - 1] ?db)"
    by (rule Suc.IH) (use Suc.prems reparse_ready_next [OF Suc.prems(3) refl] in simp_all)
  then show ?case
    unfolding l by (simp add: reparse_step [OF Suc.prems(3) args] transaction_def reparsed_def)
qed

lemma reparsed_rows:
  "rows_of (reparsed p now is db) u =
     rows_of db u @ (if u \<in> set reparse_tables then
       concat (map (\<lambda>k. map (bind_row (spec_of u)) (dict_get (reparse_batch p k reparse_writer (k + 1) now) u [])) is)
       else [])"
  unfolding reparsed_def by (induction "is" arbitrary: db) (simp_all add: reparse_written_rows)

lemma distinct_count_list: "distinct xs \<Longrightarrow> count_list xs x \<le> 1"
  by (induction xs) auto

lemma no_duplicate_groups:
  assumes "distinct (map (\<lambda>r. cell r ''idempotency_key'') (rows_of db ''price_observation''))"
  shows "duplicate_key_groups db = 0"
  using distinct_count_list [OF assms]
  by (simp add: duplicate_key_groups_def Let_def filter_empty_conv not_less)

definition seed_store :: "profile \<Rightarrow> store" where
  "seed_store p = map (\<lambda>t. (t, seed_rows p t)) bulk_tables @ seed_dims"

lemma map_of_table: "map_of (map (\<lambda>t. (t, f t)) ts) u = (if u \<in> set ts then Some (f u) else None)"
  by (induction ts) auto

lemma seed_store_seeded: "seeded p (seed_store p)"
  unfolding seeded_def seed_store_def rows_of_def dict_get_def map_of_append
  by (simp add: map_add_def map_of_table)

lemma reparse_loop_seeded:
  assumes "seed_profile p" "seeded p db" "0 < reparse_target p artifacts"
    "reparse_target p artifacts \<le> pf_raw_artifact p"
  shows "reparse_loop eng p (next_sequence db reparse_writer) now (py_range (reparse_target p artifacts)) 0 db =
    (Inr 0, reparsed p now (py_range (reparse_target p artifacts)) db)"
proof -
  define m where "m = reparse_target p artifacts"
  have "reparse_loop eng p 0 now [0..0 + int (nat m) - 1] 0 db = (Inr 0, reparsed p now [0..0 + int (nat m) - 1] db)"
    by (rule reparse_loop_runs [OF assms(1)])
      (use assms(3,4) seeded_ready [OF assms(2,1)] in \<open>simp_all add: m_def\<close>)
  moreover have "next_sequence db reparse_writer = 0"
    by (rule no_runtime_runs [OF assms(2,1)]) (simp_all add: reparse_writer_def)
  ultimately show ?thesis using assms(3) by (simp add: py_range_def m_def)
qed

lemma write_reparse_taken:
  assumes "seed_profile p" "0 < pf_raw_artifact p"
    "VInt (runtime_id ''processing_run'' reparse_writer 1) \<in> ids db ''processing_run''"
  shows "write_reparse eng (reparse_batch p 0 reparse_writer 1 now) db = Inl (Duplicate_key [''id''])"
proof -
  let ?r = "bind_row (spec_of ''processing_run'') (reparse_run 0 reparse_writer 1 now)"
  have ok: "row_ok t_processing_run ?r"
    by (rule reparse_run_ok [of p]) (use assms in \<open>simp add: reparse_args_def\<close>)
  have "list_ex (clash [''id''] ?r) (rows_of db ''processing_run'')"
    using assms(3) by (auto simp: ids_def list_ex_iff clash_def cells_def reparse_id_cells)
  then have "clashing_key db t_processing_run ?r = Some [''id'']"
    by (simp add: clashing_key_def table_keys_def t_processing_run_def)
  then have "insert_row t_processing_run ?r db = Inl (Duplicate_key [''id''])"
    by (rule insert_row_good(2) [OF ok])
  moreover have "spec_of ''processing_run'' = dict_get inserts ''processing_run'' []" by (simp add: spec_of_def)
  ultimately have "insert_table ''processing_run'' [reparse_run 0 reparse_writer 1 now] db = Inl (Duplicate_key [''id''])"
    by (simp add: insert_table_def table_of_simps)
  then show ?thesis by (simp add: write_reparse_def reparse_tables_def reparse_tables_of)
qed

text \<open>
  C14: A reparse of stored artifacts of the loaded store succeeds on both products, adds one
  processing run and 60 records, candidates and attempts per artifact and no observation, leaves no
  duplicate key, and passes when its projected time is within eight hours.
\<close>

theorem reparse_adds_no_observation:
  assumes "seed_profile p" "seeded p db" "0 < reparse_target p artifacts"
    "reparse_target p artifacts \<le> pf_raw_artifact p"
  shows "reparse eng p artifacts now elapsed db =
     (Inr \<lparr>rr_artifacts_reparsed = reparse_target p artifacts, rr_artifacts_in_profile = pf_raw_artifact p,
        rr_sampled = (reparse_target p artifacts < pf_raw_artifact p),
        rr_appended_rows = reparse_target p artifacts * 181,
        rr_observations_before = pf_price_observation p + 219000,
        rr_observations_after = pf_price_observation p + 219000, rr_new_observations = 0,
        rr_duplicate_keys = 0,
        rr_pass = (elapsed * pf_raw_artifact p \<le> 8 * 3600 * 1000000 * reparse_target p artifacts)\<rparr>,
      reparsed p now (py_range (reparse_target p artifacts)) db)"
proof -
  define m where "m = reparse_target p artifacts"
  let ?db = "reparsed p now (py_range m) db"
  have total: "500 * pf_scale p * pf_days p = pf_raw_artifact p" by (simp add: pf_raw_artifact_def)
  note loop = reparse_loop_seeded [OF assms, folded m_def]
  have rows: "rows_of ?db ''price_observation'' = rows_of db ''price_observation''"
    by (simp add: reparsed_rows reparse_tables_def)
  have count: "observation_count db = pf_price_observation p + 219000"
    using seed_sizes(3,5) [OF assms(1)]
    by (simp add: observation_count_def seeded_rows [OF assms(2)] gen_price_observation_def py_range_length)
  have "duplicate_key_groups ?db = 0"
    by (rule no_duplicate_groups, unfold rows seeded_rows(3) [OF assms(2)] column_of_rows)
      (rule price_observation_keys_distinct [OF assms(1)])
  moreover have "observation_count ?db = observation_count db" by (simp add: observation_count_def rows)
  ultimately show ?thesis
    unfolding m_def [symmetric]
    by (simp add: reparse_def Let_def total m_def [symmetric] loop count records_per_run_def)
qed

theorem reparse_adds_no_observation_witness:
  "\<exists>r. fst (reparse Mariadb (new_profile 10) (Some 5) (micros 700000 0 0 0) 0 (seed_store (new_profile 10))) = Inr r \<and>
     rr_new_observations r = 0 \<and> rr_appended_rows r = 905 \<and> rr_pass r"
proof -
  have p: "seed_profile (new_profile 10)" by (simp add: seed_profile_def)
  have t: "reparse_target (new_profile 10) (Some 5) = 5" by (simp add: reparse_target_def)
  have n: "pf_raw_artifact (new_profile 10) = 140000" by (simp add: profile_simps new_profile_def)
  show ?thesis
    using reparse_adds_no_observation [OF p seed_store_seeded, of "Some 5" Mariadb "micros 700000 0 0 0" 0] by (simp add: t n)
qed

text \<open>
  A second reparse of the loaded store fails. The writer's next sequence is read from ingest_run,
  which a reparse never writes, so the identifiers of the first one are used again and the first
  statement meets a duplicate primary key; the store stays as the first one left it.
\<close>

theorem second_reparse_fails:
  assumes "seed_profile p" "seeded p db" "0 < reparse_target p artifacts"
    "reparse_target p artifacts \<le> pf_raw_artifact p" "0 < reparse_target p artifacts'"
  shows "let db' = snd (reparse eng p artifacts now elapsed db) in
    reparse eng' p artifacts' now' elapsed' db' = (Inl (Duplicate_key [''id'']), db')"
proof -
  let ?m = "reparse_target p artifacts" and ?m' = "reparse_target p artifacts'"
  let ?db = "reparsed p now (py_range ?m) db"
  have db: "snd (reparse eng p artifacts now elapsed db) = ?db"
    by (simp add: reparse_def Let_def reparse_loop_seeded [OF assms(1-4)])
  have first: "py_range n = 0 # [1..n - 1]" if "0 < n" for n
    using that by (simp add: py_range_def upto_rec1)
  have "VInt (runtime_id ''processing_run'' reparse_writer 1) \<in> ids ?db ''processing_run''"
    unfolding first [OF assms(3)] by (simp add: ids_def reparsed_rows reparse_tables_def reparse_tables_of reparse_id_cells)
  then have w: "write_reparse eng' (reparse_batch p 0 reparse_writer 1 now') ?db = Inl (Duplicate_key [''id''])"
    using assms(3,4) by (intro write_reparse_taken [OF assms(1)]) simp_all
  have "next_sequence ?db reparse_writer = 0"
    by (rule no_runtime_runs [OF assms(2,1)]) (simp_all add: reparse_writer_def reparsed_rows reparse_tables_def)
  then show ?thesis
    unfolding db Let_def by (simp add: reparse_def first [OF assms(5)] w transaction_def)
qed

theorem second_reparse_fails_witness:
  "\<exists>db. reparse Postgres (new_profile 1) (Some 1) (micros 700001 0 0 0) 0 db = (Inl (Duplicate_key [''id'']), db)"
proof -
  have p: "seed_profile (new_profile 1)" by (simp add: seed_profile_def)
  have t: "reparse_target (new_profile 1) (Some 5) = 5" "reparse_target (new_profile 1) (Some 1) = 1"
    by (simp_all add: reparse_target_def)
  have n: "pf_raw_artifact (new_profile 1) = 14000" by (simp add: profile_simps new_profile_def)
  show ?thesis
    using second_reparse_fails [OF p seed_store_seeded, of "Some 5" "Some 1" Postgres "micros 700000 0 0 0" 0 Postgres "micros 700001 0 0 0" 0]
    by (auto simp: t n Let_def)
qed

end
