(* ===== verification/Access.thy ===== *)
theory Access
  imports Ingest
begin

text \<open>
  Accounts and privileges: scripts/db_poc/dbpoc/bootstrap.py (roles, reset, grants) and roles.py (the
  checks). A statement GRANT or REVOKE acts on a record of accounts, owners and grants with the
  documented rules of the two products; the checks run their statements against it and the store.
\<close>

subsection \<open>Privileges\<close>

text \<open>
  What a role may be granted and on what. A grant is a fact about a role, an object and a privilege.
\<close>

datatype privilege =
    P_select | P_insert | P_update | P_delete | P_create | P_drop | P_show_view | P_lock_tables |
    P_process | P_reload | P_connect | P_usage

datatype sql_object = On_server | On_database | On_schema | On_sequences | On_table string

type_synonym grant = "string \<times> sql_object \<times> privilege"

text \<open>
  The accounts and privileges of a server, for the one database of the harness: who may log in, who
  owns the database and its tables (PostgreSQL), whether PUBLIC may create in the schema, who is a
  member of pg_read_all_data, and the grants.
\<close>

record access =
  ac_logins :: "string list"
  ac_owner :: "string option"
  ac_tables :: "(string \<times> string) list"
  ac_public_create :: bool
  ac_read_all :: "string list"
  ac_grants :: "grant list"

definition evidence_tables :: "string list" where
  "evidence_tables =
     [''raw_artifact'', ''extracted_record'', ''observation_candidate'', ''identity_resolution_attempt'',
      ''price_observation'', ''price_observation_correction'']"

definition worker_updatable :: "string list" where
  "worker_updatable = [''review_item'', ''ingest_run'', ''processing_run'', ''source'']"

definition table_privileges :: "privilege list" where
  "table_privileges =
     [P_select, P_insert, P_update, P_delete, P_create, P_drop, P_show_view, P_lock_tables]"

text \<open>GRANT ps ON os TO roles: an error when a role is missing; granting twice changes nothing.\<close>

definition add_grants :: "privilege list \<Rightarrow> sql_object list \<Rightarrow> string list \<Rightarrow> access \<Rightarrow> access option" where
  "add_grants ps os rs ac =
     (if list_all (\<lambda>r. r \<in> set (ac_logins ac)) rs
      then Some (ac\<lparr>ac_grants :=
        foldr List.insert (concat (map (\<lambda>r. concat (map (\<lambda>x. map (\<lambda>p. (r, x, p)) ps) os)) rs)) (ac_grants ac)\<rparr>)
      else None)"

definition all_tables :: "access \<Rightarrow> sql_object list" where
  "all_tables ac = map (\<lambda>t. On_table (fst t)) (ac_tables ac)"

text \<open>REVOKE ALL ON ALL TABLES IN SCHEMA public: the tables that are there, table grants only.\<close>

definition revoke_all_tables :: "string list \<Rightarrow> access \<Rightarrow> access option" where
  "revoke_all_tables rs ac =
     (if list_all (\<lambda>r. r \<in> set (ac_logins ac)) rs
      then Some (ac\<lparr>ac_grants :=
        filter (\<lambda>(r, x, p). \<not> (r \<in> set rs \<and> x \<in> set (all_tables ac))) (ac_grants ac)\<rparr>)
      else None)"

text \<open>A grant on a table by name: the table must be there.\<close>

definition grant_on_table :: "privilege list \<Rightarrow> string \<Rightarrow> string \<Rightarrow> access \<Rightarrow> access option" where
  "grant_on_table ps t r ac =
     (if t \<in> set (map fst (ac_tables ac)) then add_grants ps [On_table t] [r] ac else None)"

subsection \<open>Roles, the database and grants\<close>

definition service_roles :: "string list" where
  "service_roles = [''cp_api'', ''cp_worker'', ''cp_migration'', ''cp_backup'']"

definition create_roles :: "engine \<Rightarrow> access \<Rightarrow> access option" where
  "create_roles eng ac =
     (let ac = ac\<lparr>ac_logins := foldl (\<lambda>l r. if r \<in> set l then l else l @ [r]) (ac_logins ac) service_roles\<rparr> in
      case eng of
        Postgres \<Rightarrow> Some (ac\<lparr>ac_read_all := List.insert ''cp_backup'' (ac_read_all ac)\<rparr>)
      | Mariadb \<Rightarrow> add_grants [P_process, P_reload] [On_server] [''cp_backup''] ac)"

text \<open>
  A dropped PostgreSQL database takes its tables and the privileges on them away, and the schema of a
  new one is as the template has it; MariaDB keeps the privileges granted on a database name.
\<close>

definition reset_database :: "engine \<Rightarrow> bool \<Rightarrow> access \<Rightarrow> access option" where
  "reset_database eng template_public ac =
     (case eng of
        Postgres \<Rightarrow>
          if ''cp_migration'' \<in> set (ac_logins ac)
          then Some (ac\<lparr>ac_owner := Some ''cp_migration'', ac_tables := [], ac_public_create := template_public,
                  ac_grants := filter (\<lambda>(r, x, p). x = On_server) (ac_grants ac)\<rparr>)
          else None
      | Mariadb \<Rightarrow>
          add_grants table_privileges [On_database] [''cp_migration''] (ac\<lparr>ac_owner := None, ac_tables := []\<rparr>))"

text \<open>The migration role creates the tables of the revisions and Alembic's own.\<close>

definition migrated :: "access \<Rightarrow> access" where
  "migrated ac = ac\<lparr>ac_tables := map (\<lambda>t. (t, ''cp_migration'')) (''alembic_version'' # map tbl_name metadata)\<rparr>"

fun and_run :: "(access \<Rightarrow> access option) list \<Rightarrow> access \<Rightarrow> access option" where
  "and_run [] ac = Some ac"
| "and_run (f # fs) ac = (case f ac of None \<Rightarrow> None | Some ac \<Rightarrow> and_run fs ac)"

definition apply_grants :: "engine \<Rightarrow> access \<Rightarrow> access option" where
  "apply_grants eng ac =
     (case eng of
        Postgres \<Rightarrow>
          and_run
           ([add_grants [P_connect] [On_database] [''cp_api'', ''cp_worker'', ''cp_backup''],
             add_grants [P_usage] [On_schema] [''cp_api'', ''cp_worker'', ''cp_backup''],
             (\<lambda>ac. Some (ac\<lparr>ac_public_create := False\<rparr>)),
             revoke_all_tables [''cp_api'', ''cp_worker'', ''cp_backup''],
             (\<lambda>ac. add_grants [P_select] (all_tables ac) [''cp_api''] ac),
             (\<lambda>ac. add_grants [P_select, P_insert] (all_tables ac) [''cp_worker''] ac),
             add_grants [P_usage, P_select] [On_sequences] [''cp_worker'']] @
            map (\<lambda>t. grant_on_table [P_update] t ''cp_worker'') worker_updatable) ac
      | Mariadb \<Rightarrow>
          and_run
           ([add_grants [P_select] [On_database] [''cp_api''],
             add_grants [P_select, P_insert] [On_database] [''cp_worker''],
             add_grants table_privileges [On_database] [''cp_migration''],
             add_grants [P_select, P_show_view, P_lock_tables] [On_database] [''cp_backup'']] @
            map (\<lambda>t. grant_on_table [P_update] t ''cp_worker'') worker_updatable) ac)"

subsection \<open>Who may do what\<close>

text \<open>
  The administrator may do everything. On PostgreSQL the owner of a table holds every privilege on
  it and a member of pg_read_all_data may read; on MariaDB a privilege on the database or the server
  holds for every table.
\<close>

definition may :: "engine \<Rightarrow> access \<Rightarrow> string \<Rightarrow> privilege \<Rightarrow> string \<Rightarrow> bool" where
  "may eng ac r p t \<longleftrightarrow>
     r = ''cp_admin'' \<or> (r, On_table t, p) \<in> set (ac_grants ac) \<or>
     (case eng of
        Postgres \<Rightarrow> (t, r) \<in> set (ac_tables ac) \<or> (p = P_select \<and> r \<in> set (ac_read_all ac))
      | Mariadb \<Rightarrow> (r, On_database, p) \<in> set (ac_grants ac) \<or> (r, On_server, p) \<in> set (ac_grants ac))"

definition may_create :: "engine \<Rightarrow> access \<Rightarrow> string \<Rightarrow> bool" where
  "may_create eng ac r \<longleftrightarrow>
     r = ''cp_admin'' \<or>
     (case eng of
        Postgres \<Rightarrow> ac_owner ac = Some r \<or> ac_public_create ac \<or> (r, On_schema, P_create) \<in> set (ac_grants ac)
      | Mariadb \<Rightarrow> (r, On_database, P_create) \<in> set (ac_grants ac) \<or> (r, On_server, P_create) \<in> set (ac_grants ac))"

definition may_drop :: "engine \<Rightarrow> access \<Rightarrow> string \<Rightarrow> string \<Rightarrow> bool" where
  "may_drop eng ac r t \<longleftrightarrow>
     r = ''cp_admin'' \<or>
     (case eng of
        Postgres \<Rightarrow> (t, r) \<in> set (ac_tables ac) \<or> ac_owner ac = Some r
      | Mariadb \<Rightarrow> (r, On_table t, P_drop) \<in> set (ac_grants ac) \<or> (r, On_database, P_drop) \<in> set (ac_grants ac) \<or>
          (r, On_server, P_drop) \<in> set (ac_grants ac))"

subsection \<open>The role checks\<close>

datatype role_probe =
    Select_count string | Insert_review | Update_observation | Delete_observation | Update_review |
    Create_probe | Drop_probe

definition probe_table :: string where
  "probe_table = ''poc_role_probe''"

definition probe_review_id :: int where
  "probe_review_id = 8999999999999"

text \<open>\<open>SELECT ... FROM raw_artifact a ORDER BY a.id LIMIT 1\<close>: the row to insert, if there is one.\<close>

definition id_of :: "row \<Rightarrow> int" where
  "id_of r = (case cell r ''id'' of VInt n \<Rightarrow> n | _ \<Rightarrow> 0)"

definition first_artifact :: "store \<Rightarrow> row option" where
  "first_artifact db =
     (case sort_key id_of (rows_of db ''raw_artifact'') of [] \<Rightarrow> None | a # _ \<Rightarrow> Some a)"

definition probe_review_row :: "row \<Rightarrow> row" where
  "probe_review_row a =
     [(''id'', VInt probe_review_id), (''ingest_run_id'', cell a ''ingest_run_id''),
      (''raw_artifact_id'', cell a ''id''), (''extracted_record_id'', VNull),
      (''identity_resolution_attempt_id'', VNull), (''reason'', VText (lit ''role_probe'')),
      (''state'', VText (lit ''pending'')), (''priority'', VInt 5), (''created_at'', cell a ''fetched_at''),
      (''decided_at'', VNull), (''decided_by'', VNull), (''decision'', VNull), (''lock_version'', VInt 0)]"

definition probe_allowed :: "engine \<Rightarrow> access \<Rightarrow> string \<Rightarrow> role_probe \<Rightarrow> bool" where
  "probe_allowed eng ac r q \<longleftrightarrow>
     (r = ''cp_admin'' \<or> r \<in> set (ac_logins ac)) \<and>
     (case q of
        Select_count t \<Rightarrow> t \<in> set (map fst (ac_tables ac)) \<and> may eng ac r P_select t
      | Insert_review \<Rightarrow> {''review_item'', ''raw_artifact''} \<subseteq> set (map fst (ac_tables ac)) \<and>
          may eng ac r P_insert ''review_item'' \<and> may eng ac r P_select ''raw_artifact''
      | Update_observation \<Rightarrow> ''price_observation'' \<in> set (map fst (ac_tables ac)) \<and>
          may eng ac r P_update ''price_observation'' \<and> may eng ac r P_select ''price_observation''
      | Delete_observation \<Rightarrow> ''price_observation'' \<in> set (map fst (ac_tables ac)) \<and>
          may eng ac r P_delete ''price_observation'' \<and> may eng ac r P_select ''price_observation''
      | Update_review \<Rightarrow> ''review_item'' \<in> set (map fst (ac_tables ac)) \<and>
          may eng ac r P_update ''review_item'' \<and> may eng ac r P_select ''review_item''
      | Create_probe \<Rightarrow> probe_table \<notin> set (map fst (ac_tables ac)) \<and> may_create eng ac r
      | Drop_probe \<Rightarrow> probe_table \<in> set (map fst (ac_tables ac)) \<and> may_drop eng ac r probe_table)"

definition update_rows :: "table_def \<Rightarrow> (row \<Rightarrow> row) \<Rightarrow> store \<Rightarrow> store option" where
  "update_rows t f db =
     (let rs = map f (rows_of db (tbl_name t)) in
      if list_all (types_ok t) rs then Some (AList.update (tbl_name t) rs db) else None)"

definition raise_amount :: "row \<Rightarrow> row" where
  "raise_amount r =
     (if cell r ''id'' = VInt 1
      then (case cell r ''amount_minor'' of
          VInt n \<Rightarrow> AList.update ''amount_minor'' (VInt (n + 1)) r | _ \<Rightarrow> r)
      else r)"

text \<open>A row is deleted unless a row of some table refers to it.\<close>

definition delete_row :: "table_def \<Rightarrow> int \<Rightarrow> store \<Rightarrow> store option" where
  "delete_row t n db =
     (if list_ex (\<lambda>u. list_ex (\<lambda>(c, rt, rc). rt = tbl_name t \<and>
          list_ex (\<lambda>s. cell s c = VInt n) (rows_of db (tbl_name u))) (tbl_fks u)) metadata
      then None
      else Some (AList.update (tbl_name t)
        (filter (\<lambda>r. cell r ''id'' \<noteq> VInt n) (rows_of db (tbl_name t))) db))"

text \<open>What an allowed statement does; None is an error.\<close>

fun probe_effect :: "string \<Rightarrow> role_probe \<Rightarrow> access \<times> store \<Rightarrow> (access \<times> store) option" where
  "probe_effect r (Select_count t) s = Some s"
| "probe_effect r Insert_review (ac, db) =
     (case first_artifact db of
        None \<Rightarrow> Some (ac, db)
      | Some a \<Rightarrow>
          (case insert_row t_review_item (probe_review_row a) db of
             Inl e \<Rightarrow> None | Inr db \<Rightarrow> Some (ac, db)))"
| "probe_effect r Update_observation (ac, db) =
     map_option (Pair ac) (update_rows t_price_observation raise_amount db)"
| "probe_effect r Delete_observation (ac, db) =
     map_option (Pair ac)
       (if VInt 1 \<in> set (map (\<lambda>r. cell r ''id'') (rows_of db ''price_observation''))
        then delete_row t_price_observation 1 db else Some db)"
| "probe_effect r Update_review s = Some s"
| "probe_effect r Create_probe (ac, db) = Some (ac\<lparr>ac_tables := ac_tables ac @ [(probe_table, r)]\<rparr>, db)"
| "probe_effect r Drop_probe (ac, db) =
     Some (ac\<lparr>ac_tables := filter (\<lambda>t. fst t \<noteq> probe_table) (ac_tables ac)\<rparr>, db)"

definition attempt :: "engine \<Rightarrow> string \<Rightarrow> role_probe \<Rightarrow> access \<times> store \<Rightarrow> bool \<times> access \<times> store" where
  "attempt eng r q s =
     (if probe_allowed eng (fst s) r q
      then (case probe_effect r q s of None \<Rightarrow> (False, s) | Some s \<Rightarrow> (True, s))
      else (False, s))"

definition expectations :: "(string \<times> role_probe \<times> bool) list" where
  "expectations =
     [(''cp_api'', Select_count ''price_observation'', True), (''cp_api'', Insert_review, False),
      (''cp_api'', Update_observation, False), (''cp_api'', Create_probe, False),
      (''cp_worker'', Select_count ''price_observation'', True), (''cp_worker'', Insert_review, True),
      (''cp_worker'', Update_review, True), (''cp_worker'', Update_observation, False),
      (''cp_worker'', Delete_observation, False), (''cp_worker'', Create_probe, False),
      (''cp_backup'', Select_count ''price_observation'', True), (''cp_backup'', Insert_review, False),
      (''cp_migration'', Create_probe, True), (''cp_migration'', Drop_probe, True)]"

text \<open>One result per expectation: whether the statement was allowed and whether that was expected.\<close>

fun run_checks ::
    "engine \<Rightarrow> (string \<times> role_probe \<times> bool) list \<Rightarrow> access \<times> store \<Rightarrow> (bool \<times> bool) list \<times> access \<times> store" where
  "run_checks eng [] s = ([], s)"
| "run_checks eng ((r, q, expected) # es) s =
     (let (allowed, s) = attempt eng r q s; (results, s) = run_checks eng es s in
      ((allowed, allowed = expected) # results, s))"

text \<open>The administrator removes the probe row and the probe table.\<close>

definition clean_up :: "access \<times> store \<Rightarrow> access \<times> store" where
  "clean_up s =
     (let (ac, db) = s in
      (ac\<lparr>ac_tables := filter (\<lambda>t. fst t \<noteq> probe_table) (ac_tables ac)\<rparr>,
       AList.update ''review_item''
         (filter (\<lambda>r. cell r ''id'' \<noteq> VInt probe_review_id) (rows_of db ''review_item'')) db))"

definition check_roles :: "engine \<Rightarrow> access \<times> store \<Rightarrow> ((bool \<times> bool) list \<times> bool) \<times> access \<times> store" where
  "check_roles eng s =
     (let (results, s) = run_checks eng expectations s in
      ((results, list_all snd results), clean_up s))"

subsection \<open>Network exposure\<close>

text \<open>
  The first non-empty address of the interfaces; an interface whose command fails is skipped. A probe
  says whether a connection was made.
\<close>

fun lan_address :: "pystr option list \<Rightarrow> pystr option" where
  "lan_address [] = None"
| "lan_address (None # vs) = lan_address vs"
| "lan_address (Some v # vs) = (if strip v \<noteq> [] then Some (strip v) else lan_address vs)"

definition check_network_exposure ::
    "(pystr \<Rightarrow> int \<Rightarrow> bool) \<Rightarrow> pystr option list \<Rightarrow> int \<Rightarrow> bool" where
  "check_network_exposure connects interfaces port =
     (let address = lan_address interfaces in
      connects (lit ''127.0.0.1'') port \<and>
      (case address of None \<Rightarrow> True | Some a \<Rightarrow> \<not> connects a port))"

subsection \<open>The sequence of run_all\<close>

definition setup_access :: "engine \<Rightarrow> bool \<Rightarrow> access \<Rightarrow> access option" where
  "setup_access eng template_public =
     and_run [create_roles eng, reset_database eng template_public, \<lambda>ac. Some (migrated ac), apply_grants eng]"

subsection \<open>The access a set-up leaves\<close>

definition with_grants :: "privilege list \<Rightarrow> sql_object list \<Rightarrow> string list \<Rightarrow> access \<Rightarrow> access" where
  "with_grants ps os rs ac = ac\<lparr>ac_grants :=
     foldr List.insert (concat (map (\<lambda>r. concat (map (\<lambda>x. map (\<lambda>p. (r, x, p)) ps) os)) rs)) (ac_grants ac)\<rparr>"

lemma with_grants_fields [simp]:
  "ac_logins (with_grants ps os rs ac) = ac_logins ac" "ac_owner (with_grants ps os rs ac) = ac_owner ac"
  "ac_tables (with_grants ps os rs ac) = ac_tables ac"
  "ac_public_create (with_grants ps os rs ac) = ac_public_create ac"
  "ac_read_all (with_grants ps os rs ac) = ac_read_all ac"
  "all_tables (with_grants ps os rs ac) = all_tables ac"
  by (simp_all add: with_grants_def all_tables_def)

lemma in_with_grants [simp]:
  "(r, x, p) \<in> set (ac_grants (with_grants ps os rs ac)) \<longleftrightarrow>
     r \<in> set rs \<and> x \<in> set os \<and> p \<in> set ps \<or> (r, x, p) \<in> set (ac_grants ac)"
proof -
  have "set (foldr List.insert xs ys) = set xs \<union> set ys" for xs ys :: "grant list"
    by (induction xs) auto
  then show ?thesis by (auto simp: with_grants_def)
qed

lemma add_grants_some:
  "set rs \<subseteq> set (ac_logins ac) \<Longrightarrow> add_grants ps os rs ac = Some (with_grants ps os rs ac)"
  by (auto simp: add_grants_def with_grants_def list_all_iff)

lemma grant_on_table_some:
  "t \<in> set (map fst (ac_tables ac)) \<Longrightarrow> r \<in> set (ac_logins ac) \<Longrightarrow>
     grant_on_table ps t r ac = Some (with_grants ps [On_table t] [r] ac)"
  by (simp add: grant_on_table_def add_grants_some)

lemma create_logins:
  "set (foldl (\<lambda>l r. if r \<in> set l then l else l @ [r]) l rs) = set l \<union> set rs"
  by (induction rs arbitrary: l) auto

lemma and_run_append:
  "and_run (fs @ gs) ac = (case and_run fs ac of None \<Rightarrow> None | Some ac \<Rightarrow> and_run gs ac)"
  by (induction fs arbitrary: ac) (auto split: option.splits)

lemma grant_updates:
  assumes "set ts \<subseteq> set (map fst (ac_tables ac))" "r \<in> set (ac_logins ac)"
  shows "\<exists>ac'. and_run (map (\<lambda>t. grant_on_table [P_update] t r) ts) ac = Some ac' \<and>
     ac_logins ac' = ac_logins ac \<and> ac_owner ac' = ac_owner ac \<and> ac_tables ac' = ac_tables ac \<and>
     ac_public_create ac' = ac_public_create ac \<and> ac_read_all ac' = ac_read_all ac \<and>
     (\<forall>q x p. (q, x, p) \<in> set (ac_grants ac') \<longleftrightarrow>
        (q, x, p) \<in> set (ac_grants ac) \<or> q = r \<and> p = P_update \<and> x \<in> On_table ` set ts)"
  using assms
proof (induction ts arbitrary: ac)
  case (Cons t ts)
  let ?ac = "with_grants [P_update] [On_table t] [r] ac"
  have g: "grant_on_table [P_update] t r ac = Some ?ac"
    using Cons.prems by (intro grant_on_table_some) simp_all
  from Cons.IH [of ?ac] Cons.prems show ?case by (auto simp: g)
qed simp

definition known_tables :: "string list" where
  "known_tables = ''alembic_version'' # map tbl_name metadata"

text \<open>The grants of a set-up, besides those that were there before.\<close>

definition postgres_grant :: "string \<Rightarrow> sql_object \<Rightarrow> privilege \<Rightarrow> bool" where
  "postgres_grant r x p \<longleftrightarrow>
     r \<in> {''cp_api'', ''cp_worker'', ''cp_backup''} \<and> (x = On_database \<and> p = P_connect \<or> x = On_schema \<and> p = P_usage) \<or>
     r = ''cp_worker'' \<and> x = On_sequences \<and> p \<in> {P_usage, P_select} \<or>
     (\<exists>t \<in> set known_tables. x = On_table t \<and>
        (r = ''cp_api'' \<and> p = P_select \<or> r = ''cp_worker'' \<and> p \<in> {P_select, P_insert})) \<or>
     (\<exists>t \<in> set worker_updatable. r = ''cp_worker'' \<and> x = On_table t \<and> p = P_update)"

definition mariadb_base_grant :: "string \<Rightarrow> sql_object \<Rightarrow> privilege \<Rightarrow> bool" where
  "mariadb_base_grant r x p \<longleftrightarrow>
     r = ''cp_backup'' \<and> x = On_server \<and> p \<in> {P_process, P_reload} \<or>
     x = On_database \<and>
       (r = ''cp_api'' \<and> p = P_select \<or> r = ''cp_worker'' \<and> p \<in> {P_select, P_insert} \<or>
        r = ''cp_migration'' \<and> p \<in> set table_privileges \<or>
        r = ''cp_backup'' \<and> p \<in> {P_select, P_show_view, P_lock_tables})"

definition mariadb_grant :: "string \<Rightarrow> sql_object \<Rightarrow> privilege \<Rightarrow> bool" where
  "mariadb_grant r x p \<longleftrightarrow>
     mariadb_base_grant r x p \<or> (r = ''cp_worker'' \<and> p = P_update \<and> x \<in> On_table ` set worker_updatable)"

lemma worker_tables: "set worker_updatable \<subseteq> set known_tables"
  by code_simp

lemma setup_postgres:
  "\<exists>ac. setup_access Postgres tp ac0 = Some ac \<and> set service_roles \<subseteq> set (ac_logins ac) \<and>
     ac_owner ac = Some ''cp_migration'' \<and> ac_tables ac = map (\<lambda>t. (t, ''cp_migration'')) known_tables \<and>
     \<not> ac_public_create ac \<and> set (ac_read_all ac) = insert ''cp_backup'' (set (ac_read_all ac0)) \<and>
     (\<forall>r x p. (r, x, p) \<in> set (ac_grants ac) \<longleftrightarrow>
        (r, x, p) \<in> set (ac_grants ac0) \<and> x = On_server \<or> postgres_grant r x p)"
proof -
  define ac1 where "ac1 = ac0\<lparr>ac_logins := foldl (\<lambda>l r. if r \<in> set l then l else l @ [r]) (ac_logins ac0) service_roles,
      ac_read_all := List.insert ''cp_backup'' (ac_read_all ac0)\<rparr>"
  have l1: "set (ac_logins ac1) = set (ac_logins ac0) \<union> set service_roles"
    by (simp add: ac1_def create_logins)
  have s1: "create_roles Postgres ac0 = Some ac1" by (simp add: create_roles_def ac1_def)
  define ac2 where "ac2 = migrated (ac1\<lparr>ac_owner := Some ''cp_migration'', ac_tables := [], ac_public_create := tp,
      ac_grants := filter (\<lambda>(r, x, p). x = On_server) (ac_grants ac1)\<rparr>)"
  have s2: "and_run [reset_database Postgres tp, \<lambda>ac. Some (migrated ac)] ac1 = Some ac2"
    using l1 by (simp add: reset_database_def ac2_def service_roles_def)
  have f2: "ac_logins ac2 = ac_logins ac1" "ac_owner ac2 = Some ''cp_migration''"
    "ac_tables ac2 = map (\<lambda>t. (t, ''cp_migration'')) known_tables"
    "ac_read_all ac2 = ac_read_all ac1" "ac_grants ac2 = filter (\<lambda>(r, x, p). x = On_server) (ac_grants ac0)"
    by (simp_all add: ac2_def migrated_def known_tables_def ac1_def)
  have roles: "set [''cp_api'', ''cp_worker'', ''cp_backup''] \<subseteq> set (ac_logins ac2)"
    "set [''cp_api''] \<subseteq> set (ac_logins ac2)" "set [''cp_worker''] \<subseteq> set (ac_logins ac2)"
    using l1 by (auto simp: f2 service_roles_def)
  let ?three = "[''cp_api'', ''cp_worker'', ''cp_backup'']"
  define ac3 where "ac3 = (with_grants [P_usage] [On_schema] ?three (with_grants [P_connect] [On_database] ?three ac2))
      \<lparr>ac_public_create := False\<rparr>"
  define ac4 where "ac4 = ac3\<lparr>ac_grants := filter (\<lambda>(r, x, p). \<not> (r \<in> set ?three \<and> x \<in> set (all_tables ac3))) (ac_grants ac3)\<rparr>"
  define ac5 where "ac5 = with_grants [P_usage, P_select] [On_sequences] [''cp_worker'']
      (with_grants [P_select, P_insert] (all_tables ac4) [''cp_worker''] (with_grants [P_select] (all_tables ac4) [''cp_api''] ac4))"
  have f3: "ac_logins ac3 = ac_logins ac2" "ac_owner ac3 = ac_owner ac2" "ac_tables ac3 = ac_tables ac2"
    "ac_read_all ac3 = ac_read_all ac2" "\<not> ac_public_create ac3"
    by (simp_all add: ac3_def)
  have f4: "ac_logins ac4 = ac_logins ac2" "ac_owner ac4 = ac_owner ac2" "ac_tables ac4 = ac_tables ac2"
    "ac_read_all ac4 = ac_read_all ac2" "\<not> ac_public_create ac4"
    by (simp_all add: ac4_def f3)
  have f5: "ac_logins ac5 = ac_logins ac2" "ac_owner ac5 = ac_owner ac2" "ac_tables ac5 = ac_tables ac2"
    "ac_read_all ac5 = ac_read_all ac2" "\<not> ac_public_create ac5"
    by (simp_all add: ac5_def f4)
  have tables: "x \<in> set (all_tables ac) \<longleftrightarrow> (\<exists>t \<in> set known_tables. x = On_table t)"
    if "ac_tables ac = ac_tables ac2" for x ac
    using that by (auto simp: all_tables_def f2)
  have g3: "(r, x, p) \<in> set (ac_grants ac3) \<longleftrightarrow> (r, x, p) \<in> set (ac_grants ac0) \<and> x = On_server \<or>
      r \<in> {''cp_api'', ''cp_worker'', ''cp_backup''} \<and> (x = On_database \<and> p = P_connect \<or> x = On_schema \<and> p = P_usage)" for r x p
    by (auto simp: ac3_def f2)
  have g4: "(r, x, p) \<in> set (ac_grants ac4) \<longleftrightarrow> (r, x, p) \<in> set (ac_grants ac3)" for r x p
  proof -
    have "x \<notin> set (all_tables ac3)" if "(r, x, p) \<in> set (ac_grants ac3)"
      using that tables [OF f3(3), of x] by (auto simp: g3)
    then show ?thesis by (auto simp: ac4_def)
  qed
  have g5: "(r, x, p) \<in> set (ac_grants ac5) \<longleftrightarrow> (r, x, p) \<in> set (ac_grants ac3) \<or>
      r = ''cp_worker'' \<and> x = On_sequences \<and> p \<in> {P_usage, P_select} \<or>
     (\<exists>t \<in> set known_tables. x = On_table t \<and>
        (r = ''cp_api'' \<and> p = P_select \<or> r = ''cp_worker'' \<and> p \<in> {P_select, P_insert}))" for r x p
    unfolding ac5_def by (auto simp: g4 tables [OF f4(3)])
  have run: "and_run
      [add_grants [P_connect] [On_database] ?three, add_grants [P_usage] [On_schema] ?three,
       (\<lambda>ac. Some (ac\<lparr>ac_public_create := False\<rparr>)), revoke_all_tables ?three,
       (\<lambda>ac. add_grants [P_select] (all_tables ac) [''cp_api''] ac),
       (\<lambda>ac. add_grants [P_select, P_insert] (all_tables ac) [''cp_worker''] ac),
       add_grants [P_usage, P_select] [On_sequences] [''cp_worker'']] ac2 = Some ac5"
  proof -
    have "revoke_all_tables ?three ac3 = Some ac4"
      unfolding revoke_all_tables_def ac4_def using roles(1) by (simp add: f3)
    then show ?thesis
      by (simp only: and_run.simps option.case add_grants_some [OF roles(1)]
        add_grants_some [of ?three "with_grants [P_connect] [On_database] ?three ac2", simplified, OF roles(1) [simplified]])
        (simp add: ac3_def [symmetric] add_grants_some roles [simplified] f3 f4 ac5_def)
  qed
  have ts: "set worker_updatable \<subseteq> set (map fst (ac_tables ac5))" using worker_tables by (simp add: f5 f2 comp_def)
  from grant_updates [OF ts, of "''cp_worker''"] roles(3)
  obtain ac where "and_run (map (\<lambda>t. grant_on_table [P_update] t ''cp_worker'') worker_updatable) ac5 = Some ac"
      "ac_logins ac = ac_logins ac5" "ac_owner ac = ac_owner ac5" "ac_tables ac = ac_tables ac5"
      "ac_public_create ac = ac_public_create ac5" "ac_read_all ac = ac_read_all ac5"
      and gu: "\<forall>q x p. (q, x, p) \<in> set (ac_grants ac) \<longleftrightarrow>
        (q, x, p) \<in> set (ac_grants ac5) \<or> q = ''cp_worker'' \<and> p = P_update \<and> x \<in> On_table ` set worker_updatable"
    by (auto simp: f5)
  note ac = this
  have "apply_grants Postgres ac2 = Some ac"
    unfolding apply_grants_def engine.case and_run_append run by (simp add: ac(1))
  then have "setup_access Postgres tp ac0 = Some ac"
    using s2 by (auto simp: setup_access_def s1 split: option.splits)
  moreover have "(r, x, p) \<in> set (ac_grants ac) \<longleftrightarrow>
      (r, x, p) \<in> set (ac_grants ac0) \<and> x = On_server \<or> postgres_grant r x p" for r x p
    unfolding gu [rule_format] g5 g3 postgres_grant_def by blast
  ultimately show ?thesis
    using l1 by (auto simp: ac f5 f2 ac1_def)
qed

lemma setup_mariadb:
  "\<exists>ac. setup_access Mariadb tp ac0 = Some ac \<and> set service_roles \<subseteq> set (ac_logins ac) \<and>
     ac_tables ac = map (\<lambda>t. (t, ''cp_migration'')) known_tables \<and>
     (\<forall>r x p. (r, x, p) \<in> set (ac_grants ac) \<longleftrightarrow> (r, x, p) \<in> set (ac_grants ac0) \<or> mariadb_grant r x p)"
proof -
  define ac1 where "ac1 = with_grants [P_process, P_reload] [On_server] [''cp_backup'']
      (ac0\<lparr>ac_logins := foldl (\<lambda>l r. if r \<in> set l then l else l @ [r]) (ac_logins ac0) service_roles\<rparr>)"
  have l1: "set (ac_logins ac1) = set (ac_logins ac0) \<union> set service_roles"
    by (simp add: ac1_def create_logins)
  have "set [''cp_backup''] \<subseteq> set (foldl (\<lambda>l r. if r \<in> set l then l else l @ [r]) (ac_logins ac0) service_roles)"
    unfolding create_logins by (simp add: service_roles_def)
  then have s1: "create_roles Mariadb ac0 = Some ac1"
    unfolding create_roles_def Let_def engine.case ac1_def by (intro add_grants_some) simp
  define ac2 where "ac2 = migrated (with_grants table_privileges [On_database] [''cp_migration'']
      (ac1\<lparr>ac_owner := None, ac_tables := []\<rparr>))"
  have s2: "and_run [reset_database Mariadb tp, \<lambda>ac. Some (migrated ac)] ac1 = Some ac2"
    using l1 by (simp add: reset_database_def ac2_def add_grants_some service_roles_def)
  define ac5 where "ac5 = with_grants [P_select, P_show_view, P_lock_tables] [On_database] [''cp_backup'']
      (with_grants table_privileges [On_database] [''cp_migration'']
      (with_grants [P_select, P_insert] [On_database] [''cp_worker'']
      (with_grants [P_select] [On_database] [''cp_api''] ac2)))"
  have f2: "ac_logins ac2 = ac_logins ac1" "ac_tables ac2 = map (\<lambda>t. (t, ''cp_migration'')) known_tables"
    by (simp_all add: ac2_def migrated_def known_tables_def)
  have f5: "ac_logins ac5 = ac_logins ac2" "ac_tables ac5 = ac_tables ac2"
    by (simp_all add: ac5_def)
  have roles: "{''cp_api'', ''cp_worker'', ''cp_migration'', ''cp_backup''} \<subseteq> set (ac_logins ac2)"
    using l1 by (auto simp: f2 service_roles_def)
  have g5: "(r, x, p) \<in> set (ac_grants ac5) \<longleftrightarrow> (r, x, p) \<in> set (ac_grants ac0) \<or> mariadb_base_grant r x p" for r x p
    unfolding mariadb_base_grant_def by (auto simp: ac5_def ac2_def migrated_def ac1_def)
  have run: "and_run
      [add_grants [P_select] [On_database] [''cp_api''], add_grants [P_select, P_insert] [On_database] [''cp_worker''],
       add_grants table_privileges [On_database] [''cp_migration''],
       add_grants [P_select, P_show_view, P_lock_tables] [On_database] [''cp_backup'']] ac2 = Some ac5"
    using roles by (simp add: add_grants_some ac5_def)
  have ts: "set worker_updatable \<subseteq> set (map fst (ac_tables ac5))" using worker_tables by (simp add: f5 f2 comp_def)
  from grant_updates [OF ts, of "''cp_worker''"] roles
  obtain ac where "and_run (map (\<lambda>t. grant_on_table [P_update] t ''cp_worker'') worker_updatable) ac5 = Some ac"
      "ac_logins ac = ac_logins ac5" "ac_tables ac = ac_tables ac5"
      and gu: "\<forall>q x p. (q, x, p) \<in> set (ac_grants ac) \<longleftrightarrow>
        (q, x, p) \<in> set (ac_grants ac5) \<or> q = ''cp_worker'' \<and> p = P_update \<and> x \<in> On_table ` set worker_updatable"
    by (auto simp: f5)
  note ac = this
  have "apply_grants Mariadb ac2 = Some ac"
    unfolding apply_grants_def engine.case and_run_append run by (simp add: ac(1))
  then have "setup_access Mariadb tp ac0 = Some ac"
    using s2 by (auto simp: setup_access_def s1 split: option.splits)
  moreover have "(r, x, p) \<in> set (ac_grants ac) \<longleftrightarrow> (r, x, p) \<in> set (ac_grants ac0) \<or> mariadb_grant r x p" for r x p
    unfolding gu [rule_format] g5 mariadb_grant_def by (rule disj_assoc)
  moreover have "set service_roles \<subseteq> set (ac_logins ac)" unfolding ac(2) f5 f2 l1 by (rule Un_upper2)
  moreover have "ac_tables ac = map (\<lambda>t. (t, ''cp_migration'')) known_tables" unfolding ac(3) f5 f2 ..
  ultimately show ?thesis by blast
qed

text \<open>No grant of an earlier set-up, or by hand, to a role that runs the service.\<close>

definition clean_roles :: "access \<Rightarrow> bool" where
  "clean_roles ac \<longleftrightarrow>
     list_all (\<lambda>(r, x, p). r \<notin> {''cp_api'', ''cp_worker'', ''cp_backup''}) (ac_grants ac) \<and>
     list_all (\<lambda>r. r \<notin> {''cp_api'', ''cp_worker'', ''cp_migration''}) (ac_read_all ac)"

text \<open>The privileges every role ends up with on a table, the same on both products.\<close>

definition role_privileges :: "string \<Rightarrow> string \<Rightarrow> privilege list" where
  "role_privileges r t =
     (if r = ''cp_api'' \<or> r = ''cp_backup'' then [P_select]
      else if r = ''cp_worker'' then
        P_select # P_insert # (if t \<in> set worker_updatable then [P_update] else [])
      else [])"

lemma setup_privileges:
  assumes "clean_roles ac0"
  shows "\<exists>ac. setup_access eng tp ac0 = Some ac \<and> set service_roles \<subseteq> set (ac_logins ac) \<and>
     ac_tables ac = map (\<lambda>t. (t, ''cp_migration'')) known_tables \<and>
     (\<forall>r \<in> {''cp_api'', ''cp_worker'', ''cp_backup''}.
        \<not> may_create eng ac r \<and> (\<forall>t. \<not> may_drop eng ac r t) \<and>
        (\<forall>t \<in> set known_tables. \<forall>p \<in> {P_select, P_insert, P_update, P_delete}.
           may eng ac r p t \<longleftrightarrow> p \<in> set (role_privileges r t))) \<and>
     may_create eng ac ''cp_migration'' \<and>
     (eng = Mariadb \<longrightarrow> (''cp_migration'', On_database, P_drop) \<in> set (ac_grants ac))"
proof (cases eng)
  case Postgres
  obtain ac where ac: "setup_access Postgres tp ac0 = Some ac" "set service_roles \<subseteq> set (ac_logins ac)"
     "ac_owner ac = Some ''cp_migration''" "ac_tables ac = map (\<lambda>t. (t, ''cp_migration'')) known_tables"
     "\<not> ac_public_create ac" "set (ac_read_all ac) = insert ''cp_backup'' (set (ac_read_all ac0))"
     and g': "\<forall>r x p. (r, x, p) \<in> set (ac_grants ac) \<longleftrightarrow>
        (r, x, p) \<in> set (ac_grants ac0) \<and> x = On_server \<or> postgres_grant r x p"
    using setup_postgres [of tp ac0] by (elim exE conjE) (rule that)
  note g = g' [rule_format]
  have own: "(t, r) \<notin> set (ac_tables ac)" if "r \<noteq> ''cp_migration''" for t r
    using that by (auto simp: ac(4))
  have table_grant: "(r, On_table t, p) \<in> set (ac_grants ac) \<longleftrightarrow>
      r = ''cp_api'' \<and> p = P_select \<or> r = ''cp_worker'' \<and> (p = P_select \<or> p = P_insert) \<or>
      r = ''cp_worker'' \<and> t \<in> set worker_updatable \<and> p = P_update"
    if "t \<in> set known_tables" for r t p
    unfolding g postgres_grant_def using that by auto
  have reads: "r \<in> set (ac_read_all ac) \<longleftrightarrow> r = ''cp_backup''"
    if "r = ''cp_api'' \<or> r = ''cp_worker'' \<or> r = ''cp_backup''" for r
    using that assms by (auto simp: ac(6) clean_roles_def list_all_iff)
  have may: "may Postgres ac r p t \<longleftrightarrow> p \<in> set (role_privileges r t)"
    if r: "r = ''cp_api'' \<or> r = ''cp_worker'' \<or> r = ''cp_backup''" and t: "t \<in> set known_tables" for r p t
  proof -
    have n: "r \<noteq> ''cp_admin''" "r \<noteq> ''cp_migration''" using r by auto
    show ?thesis
      unfolding may_def engine.case table_grant [OF t] reads [OF r] using r n own [OF n(2), of t]
      by (elim disjE) (auto simp: role_privileges_def)
  qed
  then have "may Postgres ac r p t \<longleftrightarrow> p \<in> set (role_privileges r t)"
    if "r \<in> {''cp_api'', ''cp_worker'', ''cp_backup''}" "t \<in> set known_tables" for r p t
    using that by simp
  moreover have "\<not> may_create Postgres ac r \<and> (\<forall>t. \<not> may_drop Postgres ac r t)"
    if "r \<in> {''cp_api'', ''cp_worker'', ''cp_backup''}" for r
    using that by (auto simp: may_create_def may_drop_def g postgres_grant_def ac(3,5) own)
  ultimately show ?thesis
    using ac(1-4) Postgres by (auto simp: may_create_def)
next
  case Mariadb
  obtain ac where ac: "setup_access Mariadb tp ac0 = Some ac" "set service_roles \<subseteq> set (ac_logins ac)"
     "ac_tables ac = map (\<lambda>t. (t, ''cp_migration'')) known_tables"
     and g': "\<forall>r x p. (r, x, p) \<in> set (ac_grants ac) \<longleftrightarrow> (r, x, p) \<in> set (ac_grants ac0) \<or> mariadb_grant r x p"
    using setup_mariadb [of tp ac0] by (elim exE conjE) (rule that)
  note g = g' [rule_format]
  have old: "(r, x, p) \<notin> set (ac_grants ac0)" if "r \<in> {''cp_api'', ''cp_worker'', ''cp_backup''}" for r x p
    using that assms by (auto simp: clean_roles_def list_all_iff)
  have "may Mariadb ac r p t \<longleftrightarrow> p \<in> set (role_privileges r t)"
    if r: "r \<in> {''cp_api'', ''cp_worker'', ''cp_backup''}" and p: "p \<in> {P_select, P_insert, P_update, P_delete}" for r p t
  proof -
    have "r \<noteq> ''cp_admin''" "r = ''cp_api'' \<or> r = ''cp_worker'' \<or> r = ''cp_backup''" using r by auto
    then show ?thesis
      using p unfolding may_def g engine.case mariadb_grant_def mariadb_base_grant_def using old [OF r]
      by (elim disjE) (simp_all add: role_privileges_def, auto)
  qed
  moreover have "\<not> may_create Mariadb ac r \<and> (\<forall>t. \<not> may_drop Mariadb ac r t)"
    if "r \<in> {''cp_api'', ''cp_worker'', ''cp_backup''}" for r
    using that by (auto simp: may_create_def may_drop_def g old mariadb_grant_def mariadb_base_grant_def)
  moreover have "may_create Mariadb ac ''cp_migration''"
    by (simp add: may_create_def g mariadb_grant_def mariadb_base_grant_def table_privileges_def)
  moreover have "(''cp_migration'', On_database, P_drop) \<in> set (ac_grants ac)"
    by (simp add: g mariadb_grant_def mariadb_base_grant_def table_privileges_def)
  ultimately show ?thesis
    using ac(1-3) Mariadb by auto
qed


definition empty_access :: access where
  "empty_access = \<lparr>ac_logins = [], ac_owner = None, ac_tables = [], ac_public_create = True, ac_read_all = [],
     ac_grants = []\<rparr>"


subsection \<open>The checks after a set-up\<close>

lemma cell_list: "cell [] c = VNull" "cell ((k, v) # r) c = (if c = k then v else cell r c)"
  by (simp_all add: cell_def)

lemma probe_row_inserted:
  assumes "store_ok metadata db" "VInt probe_review_id \<notin> ids db ''review_item''" "first_artifact db = Some a"
  shows "insert_row t_review_item (probe_review_row a) db = Inr (add_row ''review_item'' (probe_review_row a) db)"
proof -
  have a: "a \<in> set (rows_of db ''raw_artifact'')"
  proof -
    have "a \<in> set (sort_key id_of (rows_of db ''raw_artifact''))"
      using assms(3) unfolding first_artifact_def by (cases "sort_key id_of (rows_of db ''raw_artifact'')") auto
    then show ?thesis by simp
  qed
  have n: "tbl_name t_raw_artifact = ''raw_artifact''" "tbl_name t_review_item = ''review_item''"
    by (simp_all add: t_raw_artifact_def t_review_item_def)
  have "table_ok db t_raw_artifact" using assms(1) by (simp add: store_ok_def metadata_def)
  then have ok: "types_ok t_raw_artifact a" "not_null_ok t_raw_artifact a" "fk_ok db t_raw_artifact a"
    using a by (simp_all add: table_ok_def n)
  have types: "type_ok Big_int (cell a ''id'')" "type_ok Big_int (cell a ''ingest_run_id'')"
      "type_ok Timestamp (cell a ''fetched_at'')"
    using ok(1) by (simp_all add: types_ok_def t_raw_artifact_def)
  have nulls: "cell a ''id'' \<noteq> VNull" "cell a ''ingest_run_id'' \<noteq> VNull" "cell a ''fetched_at'' \<noteq> VNull"
    using ok(2) by (simp_all add: not_null_ok_def t_raw_artifact_def)
  have run: "list_ex (\<lambda>s. cell s ''id'' = cell a ''ingest_run_id'') (rows_of db ''ingest_run'')"
    using ok(3) nulls(2) by (simp add: fk_ok_def t_raw_artifact_def)
  have "row_ok t_review_item (probe_review_row a)"
    using types nulls by (simp add: row_ok_def types_ok_def not_null_ok_def checks_ok_def t_review_item_def cell_list
      probe_review_row_def probe_review_id_def lit_distinct)
  moreover have "clashing_key db t_review_item (probe_review_row a) = None"
  proof -
    have "\<not> clash [''id''] (probe_review_row a) s" if "s \<in> set (rows_of db ''review_item'')" for s
      using assms(2) that by (auto simp: clash_def cells_def cell_list probe_review_row_def ids_def)
    then show ?thesis by (simp add: clashing_key_None n table_keys_def) (simp add: t_review_item_def)
  qed
  moreover have "fk_ok db t_review_item (probe_review_row a)"
    using a run by (auto simp: fk_ok_def t_review_item_def cell_list probe_review_row_def list_ex_iff)
  ultimately show ?thesis by (simp add: insert_row_good(1) n)
qed

lemma filter_probe:
  "probe_table \<notin> set ts \<Longrightarrow> filter (\<lambda>t. fst t \<noteq> probe_table) (map (\<lambda>t. (t, r)) ts) = map (\<lambda>t. (t, r)) ts"
  by (induction ts) auto

lemma clean_review_rows:
  assumes "VInt probe_review_id \<notin> ids db ''review_item''"
  shows "rows_of (snd (clean_up (ac, db))) t = rows_of db t"
proof -
  have "filter (\<lambda>r. cell r ''id'' \<noteq> VInt probe_review_id) (rows_of db ''review_item'') = rows_of db ''review_item''"
    using assms by (auto simp: ids_def filter_id_conv image_iff)
  then show ?thesis by (simp add: clean_up_def rows_of_def dict_get_def update_conv')
qed

lemma clean_probe_row:
  assumes "VInt probe_review_id \<notin> ids db ''review_item''"
  shows "rows_of (snd (clean_up (ac, add_row ''review_item'' (probe_review_row a) db))) t = rows_of db t"
proof -
  have "filter (\<lambda>r. cell r ''id'' \<noteq> VInt probe_review_id) (rows_of db ''review_item'') = rows_of db ''review_item''"
    using assms by (auto simp: ids_def filter_id_conv image_iff)
  then show ?thesis
    by (simp add: clean_up_def rows_of_add cell_list probe_review_row_def)
      (simp add: rows_of_def dict_get_def update_conv' add_row_def)
qed

lemma setup_probes:
  assumes "clean_roles ac0" "setup_access eng template_public ac0 = Some ac"
  shows "ac_tables ac = map (\<lambda>t. (t, ''cp_migration'')) known_tables" (is ?tables)
    and "\<forall>(r, q, expected) \<in> set expectations. q \<noteq> Drop_probe \<longrightarrow> probe_allowed eng ac r q = expected" (is ?probes)
    and "probe_allowed eng (ac\<lparr>ac_tables := ac_tables ac @ [(probe_table, ''cp_migration'')]\<rparr>) ''cp_migration'' Drop_probe"
      (is ?drop)
proof -
  from setup_privileges [OF assms(1), of eng template_public] assms(2)
  have roles: "set service_roles \<subseteq> set (ac_logins ac)" and tables: ?tables
    and s: "\<forall>r \<in> {''cp_api'', ''cp_worker'', ''cp_backup''}.
      \<not> may_create eng ac r \<and> (\<forall>t. \<not> may_drop eng ac r t) \<and>
      (\<forall>t \<in> set known_tables. \<forall>p \<in> {P_select, P_insert, P_update, P_delete}.
         may eng ac r p t \<longleftrightarrow> p \<in> set (role_privileges r t))"
    and create: "may_create eng ac ''cp_migration''"
    and drop: "eng = Mariadb \<longrightarrow> (''cp_migration'', On_database, P_drop) \<in> set (ac_grants ac)"
    by (elim exE conjE; simp only: option.inject)+
  have known: "''price_observation'' \<in> set known_tables" "''review_item'' \<in> set known_tables"
      "''raw_artifact'' \<in> set known_tables" "probe_table \<notin> set known_tables"
      "''review_item'' \<in> set worker_updatable" "''price_observation'' \<notin> set worker_updatable"
    by code_simp+
  have m: "may eng ac r p t \<longleftrightarrow> p \<in> set (role_privileges r t)"
    if "r \<in> {''cp_api'', ''cp_worker'', ''cp_backup''}" "t \<in> set known_tables" "p \<in> {P_select, P_insert, P_update, P_delete}" for r p t
    using s that by blast
  have no_create: "\<not> may_create eng ac ''cp_api''" "\<not> may_create eng ac ''cp_worker''"
    using s by blast+
  have login: "''cp_api'' \<in> set (ac_logins ac)" "''cp_worker'' \<in> set (ac_logins ac)"
      "''cp_backup'' \<in> set (ac_logins ac)" "''cp_migration'' \<in> set (ac_logins ac)"
    using roles by (simp_all add: service_roles_def)
  have there: "t \<in> fst ` set (ac_tables ac) \<longleftrightarrow> t \<in> set known_tables" for t
    by (auto simp: tables image_iff)
  show ?tables by (rule tables)
  show ?probes
    by (simp add: expectations_def probe_allowed_def there known login no_create create m role_privileges_def)
  show ?drop
    using drop login(4) by (cases eng) (simp_all add: probe_allowed_def may_drop_def)
qed

lemma worker_probe:
  assumes "store_ok metadata db" "VInt probe_review_id \<notin> ids db ''review_item''"
  obtains db1 where "probe_effect ''cp_worker'' Insert_review (ac, db) = Some (ac, db1)"
    "\<forall>t. rows_of (snd (clean_up (ac, db1))) t = rows_of db t"
proof (cases "first_artifact db")
  case None
  with clean_review_rows [OF assms(2)] show ?thesis by (intro that [of db]) simp_all
next
  case (Some a)
  with clean_probe_row [OF assms(2)] show ?thesis
    by (intro that [of "add_row ''review_item'' (probe_review_row a) db"]) (simp_all add: probe_row_inserted [OF assms Some])
qed



text \<open>
  A privilege on a table that a role of the service holds from before survives a set-up on
  MariaDB, whose grants outlive the dropped database and are never revoked; on PostgreSQL the set-up
  leaves the role with exactly its own privileges.
\<close>

theorem stale_grant_kept:
  assumes "r = ''cp_api'' \<or> r = ''cp_worker''" "t \<in> set known_tables"
    "(r, On_table t, p) \<in> set (ac_grants ac0)" "r \<notin> set (ac_read_all ac0)"
  shows "(\<exists>m. setup_access Mariadb template_public ac0 = Some m \<and> may Mariadb m r p t) \<and>
    (\<exists>g. setup_access Postgres template_public ac0 = Some g \<and>
      (may Postgres g r p t \<longleftrightarrow> p \<in> set (role_privileges r t)))"
proof
  obtain m where m: "setup_access Mariadb template_public ac0 = Some m"
     and g: "\<forall>r x p. (r, x, p) \<in> set (ac_grants m) \<longleftrightarrow> (r, x, p) \<in> set (ac_grants ac0) \<or> mariadb_grant r x p"
    using setup_mariadb [of template_public ac0] by (elim exE conjE) (rule that)
  have "may Mariadb m r p t" using assms(3) g by (simp add: may_def)
  with m show "\<exists>m. setup_access Mariadb template_public ac0 = Some m \<and> may Mariadb m r p t" by blast
next
  obtain ac where ac: "setup_access Postgres template_public ac0 = Some ac"
     "ac_tables ac = map (\<lambda>t. (t, ''cp_migration'')) known_tables"
     "set (ac_read_all ac) = insert ''cp_backup'' (set (ac_read_all ac0))"
     and g: "\<forall>r x p. (r, x, p) \<in> set (ac_grants ac) \<longleftrightarrow>
        (r, x, p) \<in> set (ac_grants ac0) \<and> x = On_server \<or> postgres_grant r x p"
    using setup_postgres [of template_public ac0] by (elim exE conjE) (rule that)
  have n: "r \<noteq> ''cp_admin''" "r \<noteq> ''cp_migration''" "r \<noteq> ''cp_backup''" using assms(1) by auto
  have "r \<notin> set (ac_read_all ac)" using assms(4) n(3) by (simp add: ac(3))
  moreover have "(t, r) \<notin> set (ac_tables ac)" using n(2) by (auto simp: ac(2))
  moreover have "(r, On_table t, p) \<in> set (ac_grants ac) \<longleftrightarrow> p \<in> set (role_privileges r t)"
    unfolding g [rule_format] postgres_grant_def using assms(1,2) by (auto simp: role_privileges_def)
  ultimately have "may Postgres ac r p t \<longleftrightarrow> p \<in> set (role_privileges r t)"
    using n(1) by (simp add: may_def)
  with ac(1) show "\<exists>g. setup_access Postgres template_public ac0 = Some g \<and>
      (may Postgres g r p t \<longleftrightarrow> p \<in> set (role_privileges r t))" by blast
qed

theorem stale_grant_kept_witness:
  "\<exists>ac0 m g. setup_access Mariadb True ac0 = Some m \<and> may Mariadb m ''cp_worker'' P_update ''price_observation'' \<and>
     setup_access Postgres True ac0 = Some g \<and> \<not> may Postgres g ''cp_worker'' P_update ''price_observation''"
proof -
  let ?ac = "empty_access\<lparr>ac_grants := [(''cp_worker'', On_table ''price_observation'', P_update)]\<rparr>"
  have k: "''price_observation'' \<in> set known_tables" "''price_observation'' \<notin> set worker_updatable" by code_simp+
  from stale_grant_kept [of "''cp_worker''" "''price_observation''" P_update ?ac True] k show ?thesis
    by (auto simp: empty_access_def role_privileges_def)
qed

end
