(* ===== verification/Queries.thy ===== *)
theory Queries
  imports Access "HOL-Library.Product_Lexorder" "HOL-Library.List_Lexorder" "HOL-Library.Multiset"
begin

text \<open>
  scripts/db_poc/dbpoc/queries.py: which observations are effective, the five representative queries in
  both products' forms, and their parameters. A query is a function on the store; the forms of the
  latest price queries are shown equal to one reference over the newest row of every shop.
\<close>

subsection \<open>An order on values\<close>

text \<open>
  ORDER BY needs a linear order on the values of a column: by constructor, then by content. Columns the
  queries order by hold values of one constructor, without NULL.
\<close>

fun order_key :: "dbval \<Rightarrow> int list" where
  "order_key VNull = [0]"
| "order_key (VInt n) = [1, n]"
| "order_key (VText s) = 2 # s"
| "order_key (VTime t) = [3, t]"
| "order_key (VScore k) = [4, k]"

lemma order_key_inj: "order_key v = order_key w \<Longrightarrow> v = w"
  by (cases v; cases w) auto

instantiation dbval :: linorder
begin

definition less_eq_dbval :: "dbval \<Rightarrow> dbval \<Rightarrow> bool" where
  "v \<le> w \<longleftrightarrow> order_key v \<le> order_key w"

definition less_dbval :: "dbval \<Rightarrow> dbval \<Rightarrow> bool" where
  "v < w \<longleftrightarrow> order_key v < order_key w"

instance
  by standard (auto simp: less_eq_dbval_def less_dbval_def order_key_inj)

end

subsection \<open>Effective observations\<close>

text \<open>The integer or time of a cell.\<close>

definition num :: "row \<Rightarrow> string \<Rightarrow> int" where
  "num r c = (case cell r c of VInt n \<Rightarrow> n | VTime t \<Rightarrow> t | _ \<Rightarrow> 0)"

text \<open>\<open>ORDER BY k DESC LIMIT 1\<close>: the first of the largest.\<close>

definition newest_correction :: "store \<Rightarrow> row \<Rightarrow> row option" where
  "newest_correction db po =
     (case sort_key (\<lambda>c. - num c ''id'')
        (filter (\<lambda>c. cell c ''price_observation_id'' = cell po ''id'' \<and> cell po ''id'' \<noteq> VNull)
          (rows_of db ''price_observation_correction'')) of
        [] \<Rightarrow> None
      | c # _ \<Rightarrow> Some c)"

definition effective :: "store \<Rightarrow> row \<Rightarrow> bool" where
  "effective db po \<longleftrightarrow>
     (case newest_correction db po of
        None \<Rightarrow> True
      | Some c \<Rightarrow> cell c ''action'' = VNull \<or> cell c ''action'' = VText (lit ''restore''))"

subsection \<open>The latest observation of every shop\<close>

text \<open>DISTINCT ON keeps the first row of every group of the ordered rows.\<close>

function distinct_on :: "('a \<Rightarrow> 'b) \<Rightarrow> 'a list \<Rightarrow> 'a list" where
  "distinct_on f [] = []"
| "distinct_on f (x # xs) = x # distinct_on f (filter (\<lambda>y. f y \<noteq> f x) xs)"
  by pat_completeness auto
termination
  by (relation "measure (\<lambda>(f, xs). length xs)") (auto simp: le_imp_less_Suc)

text \<open>ROW_NUMBER() OVER (PARTITION BY f ORDER BY k) of a row whose order key is unique in its partition.\<close>

definition row_number :: "('a \<Rightarrow> 'b) \<Rightarrow> ('a \<Rightarrow> 'c :: linorder) \<Rightarrow> 'a list \<Rightarrow> 'a \<Rightarrow> nat" where
  "row_number f k xs x = Suc (length (filter (\<lambda>y. f y = f x \<and> k y < k x) xs))"

definition newest_first :: "row \<Rightarrow> int \<times> int" where
  "newest_first r = (- num r ''observed_at'', - num r ''id'')"

text \<open>percentile_cont(0.5) and MEDIAN, doubled so that the mean of two amounts stays an integer.\<close>

definition doubled_median :: "int list \<Rightarrow> int option" where
  "doubled_median xs =
     (if xs = [] then None
      else let s = sort xs; n = length xs in Some (s ! ((n - 1) div 2) + s ! (n div 2)))"

definition max_of :: "int list \<Rightarrow> int option" where
  "max_of xs = (if xs = [] then None else Some (Max (set xs)))"

definition min_of :: "int list \<Rightarrow> int option" where
  "min_of xs = (if xs = [] then None else Some (Min (set xs)))"

record price_summary =
  ps_shop_count :: int
  ps_max_amount :: "int option"
  ps_min_amount :: "int option"
  ps_doubled_median :: "int option"
  ps_freshest :: "int option"

definition buy_rows :: "store \<Rightarrow> row list" where
  "buy_rows db =
     filter (\<lambda>po. cell po ''price_type'' = VText (lit ''buy'') \<and> effective db po) (rows_of db ''price_observation'')"

definition card_rows :: "store \<Rightarrow> pystr \<Rightarrow> row list" where
  "card_rows db card_id =
     filter (\<lambda>po. cell po ''card_identity_id'' = VText card_id \<and> cell po ''currency'' = VText (lit ''JPY'')) (buy_rows db)"

definition by_shop :: "row \<Rightarrow> dbval" where
  "by_shop r = cell r ''shop_id''"

definition qry_01 :: "engine \<Rightarrow> pystr \<Rightarrow> store \<Rightarrow> price_summary" where
  "qry_01 eng card_id db =
     (case eng of
        Postgres \<Rightarrow>
          (let latest = distinct_on by_shop (sort_key (\<lambda>r. (by_shop r, newest_first r)) (card_rows db card_id));
               amounts = map (\<lambda>r. num r ''amount_minor'') latest in
           \<lparr>ps_shop_count = int (length latest), ps_max_amount = max_of amounts, ps_min_amount = min_of amounts,
            ps_doubled_median = doubled_median amounts,
            ps_freshest = max_of (map (\<lambda>r. num r ''observed_at'') latest)\<rparr>)
      | Mariadb \<Rightarrow>
          (let rows = card_rows db card_id;
               latest = filter (\<lambda>r. row_number by_shop newest_first rows r = 1) rows;
               amounts = map (\<lambda>r. num r ''amount_minor'') latest;
               medians = map (\<lambda>r. doubled_median amounts) latest in
           \<lparr>ps_shop_count = int (length latest), ps_max_amount = max_of amounts, ps_min_amount = min_of amounts,
            ps_doubled_median = (case List.map_filter id medians of [] \<Rightarrow> None | m # ms \<Rightarrow> Some (Max (set (m # ms)))),
            ps_freshest = max_of (map (\<lambda>r. num r ''observed_at'') latest)\<rparr>))"

text \<open>The second query: a group per card over the cards asked for, without the currency.\<close>

definition cards_rows :: "store \<Rightarrow> pystr list \<Rightarrow> row list" where
  "cards_rows db card_ids =
     filter (\<lambda>po. list_ex (\<lambda>c. cell po ''card_identity_id'' = VText c) card_ids) (buy_rows db)"

definition by_card :: "row \<Rightarrow> dbval" where
  "by_card r = cell r ''card_identity_id''"

definition by_card_shop :: "row \<Rightarrow> dbval \<times> dbval" where
  "by_card_shop r = (by_card r, by_shop r)"

definition qry_02 :: "engine \<Rightarrow> pystr list \<Rightarrow> store \<Rightarrow> (dbval \<times> price_summary) list" where
  "qry_02 eng card_ids db =
     (case eng of
        Postgres \<Rightarrow>
          (let latest = distinct_on by_card_shop
                 (sort_key (\<lambda>r. (by_card_shop r, newest_first r)) (cards_rows db card_ids)) in
           map (\<lambda>c. let group = filter (\<lambda>r. by_card r = c) latest; amounts = map (\<lambda>r. num r ''amount_minor'') group in
             (c, \<lparr>ps_shop_count = int (length group), ps_max_amount = max_of amounts, ps_min_amount = min_of amounts,
               ps_doubled_median = doubled_median amounts,
               ps_freshest = max_of (map (\<lambda>r. num r ''observed_at'') group)\<rparr>)) (remdups (map by_card latest)))
      | Mariadb \<Rightarrow>
          (let rows = cards_rows db card_ids;
               latest = filter (\<lambda>r. row_number by_card_shop newest_first rows r = 1) rows;
               with_median = map (\<lambda>r. (r, doubled_median
                 (map (\<lambda>s. num s ''amount_minor'') (filter (\<lambda>s. by_card s = by_card r) latest)))) latest in
           map (\<lambda>c. let group = filter (\<lambda>(r, m). by_card r = c) with_median;
                amounts = map (\<lambda>(r, m). num r ''amount_minor'') group in
             (c, \<lparr>ps_shop_count = int (length group), ps_max_amount = max_of amounts, ps_min_amount = min_of amounts,
               ps_doubled_median = (case List.map_filter snd group of [] \<Rightarrow> None | m # ms \<Rightarrow> Some (Max (set (m # ms)))),
               ps_freshest = max_of (map (\<lambda>(r, m). num r ''observed_at'') group)\<rparr>)) (remdups (map by_card latest))))"

subsection \<open>History, trace and reviews\<close>

definition qry_03 :: "pystr \<Rightarrow> int \<Rightarrow> store \<Rightarrow> row list" where
  "qry_03 card_id since db =
     take 1000 (sort_key newest_first
       (filter (\<lambda>po. cell po ''card_identity_id'' = VText card_id \<and> since \<le> num po ''observed_at'' \<and> effective db po)
         (rows_of db ''price_observation'')))"

text \<open>JOIN t ON t.id = v: the rows of t with that identifier.\<close>

definition joined :: "store \<Rightarrow> string \<Rightarrow> dbval \<Rightarrow> row list" where
  "joined db t v = filter (\<lambda>r. cell r ''id'' = v \<and> v \<noteq> VNull) (rows_of db t)"

text \<open>A result row as the rows it is joined from, from the observation to the source.\<close>

definition qry_04 :: "int \<Rightarrow> store \<Rightarrow> row list list" where
  "qry_04 observation_id db =
     concat (map (\<lambda>po.
     concat (map (\<lambda>oc.
     concat (map (\<lambda>er.
     concat (map (\<lambda>pr.
     concat (map (\<lambda>ra.
     concat (map (\<lambda>ir.
     map (\<lambda>s. [po, oc, er, pr, ra, ir, s])
       (joined db ''source'' (cell ra ''source_id'')))
       (joined db ''ingest_run'' (cell ra ''ingest_run_id''))))
       (joined db ''raw_artifact'' (cell pr ''raw_artifact_id''))))
       (joined db ''processing_run'' (cell er ''processing_run_id''))))
       (joined db ''extracted_record'' (cell oc ''extracted_record_id''))))
       (joined db ''observation_candidate'' (cell po ''observation_candidate_id''))))
       (joined db ''price_observation'' (VInt observation_id)))"

definition review_order :: "row \<Rightarrow> int \<times> int \<times> int" where
  "review_order r = (num r ''priority'', num r ''created_at'', num r ''id'')"

definition qry_05 :: "store \<Rightarrow> row list" where
  "qry_05 db =
     take 100 (sort_key review_order
       (filter (\<lambda>r. cell r ''state'' = VText (lit ''pending'')) (rows_of db ''review_item'')))"

subsection \<open>Parameters\<close>

datatype query_params =
    Card pystr | Cards "pystr list" | Card_since pystr int | Observation int | No_params

definition params_for :: "string \<Rightarrow> int \<Rightarrow> int \<Rightarrow> int \<Rightarrow> int \<Rightarrow> query_params" where
  "params_for name iteration cards observations history_cards =
     (if name = ''DB-QRY-01'' then Card (card_uuid (h iteration mod cards))
      else if name = ''DB-QRY-02'' then
        (let start = h iteration mod max (cards - 100) 1 in
         Cards (map (\<lambda>i. card_uuid ((start + i) mod cards)) (py_range 100)))
      else if name = ''DB-QRY-03'' then
        Card_since (card_uuid (h iteration mod history_cards)) (base_day - micros 365 0 0 0)
      else if name = ''DB-QRY-04'' then Observation (h iteration mod observations + 1)
      else No_params)"

datatype query_result =
    Summary price_summary | Groups "(dbval \<times> price_summary) list" | Rows "row list" | Traces "row list list"

text \<open>None is an unknown query or parameters that do not fit it.\<close>

definition run_query :: "string \<Rightarrow> engine \<Rightarrow> query_params \<Rightarrow> store \<Rightarrow> query_result option" where
  "run_query name eng params db =
     (if name = ''DB-QRY-01'' then (case params of Card c \<Rightarrow> Some (Summary (qry_01 eng c db)) | _ \<Rightarrow> None)
      else if name = ''DB-QRY-02'' then (case params of Cards cs \<Rightarrow> Some (Groups (qry_02 eng cs db)) | _ \<Rightarrow> None)
      else if name = ''DB-QRY-03'' then (case params of Card_since c t \<Rightarrow> Some (Rows (qry_03 c t db)) | _ \<Rightarrow> None)
      else if name = ''DB-QRY-04'' then (case params of Observation n \<Rightarrow> Some (Traces (qry_04 n db)) | _ \<Rightarrow> None)
      else if name = ''DB-QRY-05'' then Some (Rows (qry_05 db))
      else None)"

definition target_p95_ms :: "(string, int) pydict" where
  "target_p95_ms =
     [(''DB-QRY-01'', 200), (''DB-QRY-02'', 1000), (''DB-QRY-03'', 500), (''DB-QRY-04'', 200), (''DB-QRY-05'', 200)]"

subsection \<open>Distinct rows by their key\<close>

text \<open>The rows of a group that come first in the order.\<close>

definition first_of :: "('a \<Rightarrow> 'b) \<Rightarrow> ('a \<Rightarrow> 'c :: linorder) \<Rightarrow> 'a list \<Rightarrow> 'a \<Rightarrow> bool" where
  "first_of f k xs x \<longleftrightarrow> list_all (\<lambda>y. f y = f x \<longrightarrow> k x \<le> k y) xs"

lemma row_number_first: "row_number f k xs x = 1 \<longleftrightarrow> first_of f k xs x"
  by (auto simp: row_number_def first_of_def list_all_iff filter_empty_conv not_less)

lemma distinct_on_subset: "set (distinct_on f xs) \<subseteq> set xs"
  by (induction f xs rule: distinct_on.induct) auto

lemma distinct_distinct_on: "distinct (distinct_on f xs)"
proof (induction f xs rule: distinct_on.induct)
  case (2 f x xs)
  then show ?case using distinct_on_subset [of f "filter (\<lambda>y. f y \<noteq> f x) xs"] by auto
qed simp

lemma distinct_on_set:
  assumes "sorted_wrt (\<lambda>x y. f x = f y \<longrightarrow> k x \<le> k y) xs" "inj_on k (set xs)"
  shows "set (distinct_on f xs) = {x \<in> set xs. first_of f k xs x}"
  using assms
proof (induction f xs rule: distinct_on.induct)
  case (2 f x xs)
  let ?ys = "filter (\<lambda>y. f y \<noteq> f x) xs"
  have "sorted_wrt (\<lambda>x y. f x = f y \<longrightarrow> k x \<le> k y) ?ys"
    using "2.prems"(1) by (simp add: sorted_wrt_filter)
  moreover have "inj_on k (set ?ys)" using "2.prems"(2) by (auto simp: inj_on_def)
  ultimately have IH: "set (distinct_on f ?ys) = {z \<in> set ?ys. first_of f k ?ys z}" by (rule "2.IH")
  have min: "f y = f x \<Longrightarrow> k x \<le> k y" if "y \<in> set xs" for y
    using "2.prems"(1) that by auto
  have "first_of f k (x # xs) z \<longleftrightarrow> first_of f k ?ys z" if "z \<in> set ?ys" for z
    using that by (auto simp: first_of_def list_all_iff)
  moreover have "z = x" if "z \<in> set xs" "f z = f x" "first_of f k (x # xs) z" for z
    using that min [of z] "2.prems"(2) by (auto simp: first_of_def inj_on_def)
  moreover have "first_of f k (x # xs) x" using min by (auto simp: first_of_def list_all_iff)
  ultimately show ?case by (auto simp: IH)
qed simp

lemma latest_forms_agree:
  fixes f :: "'a \<Rightarrow> 'b :: linorder" and k :: "'a \<Rightarrow> 'c :: linorder"
  assumes "distinct xs" "inj_on k (set xs)"
  shows "mset (distinct_on f (sort_key (\<lambda>r. (f r, k r)) xs)) = mset (filter (first_of f k xs) xs)"
proof -
  let ?ys = "sort_key (\<lambda>r. (f r, k r)) xs"
  have s: "sorted (map (\<lambda>r. (f r, k r)) ?ys)" by simp
  have "sorted_wrt (\<lambda>x y. f x = f y \<longrightarrow> k x \<le> k y) ?ys"
    using s unfolding sorted_map by (rule sorted_wrt_mono_rel [rotated]) (auto simp: less_eq_prod_def)
  then have "set (distinct_on f ?ys) = {x \<in> set ?ys. first_of f k ?ys x}"
    by (rule distinct_on_set) (simp add: assms(2))
  also have "\<dots> = set (filter (first_of f k xs) xs)" by (auto simp: first_of_def list_all_iff)
  finally have "set (distinct_on f ?ys) = set (filter (first_of f k xs) xs)" .
  then show ?thesis
    by (subst set_eq_iff_mset_eq_distinct [symmetric]) (simp_all add: assms(1) distinct_distinct_on)
qed

subsection \<open>Both forms compute the same summary\<close>

definition summary_of :: "row list \<Rightarrow> price_summary" where
  "summary_of rows =
     (let amounts = map (\<lambda>r. num r ''amount_minor'') rows in
      \<lparr>ps_shop_count = int (length rows), ps_max_amount = max_of amounts, ps_min_amount = min_of amounts,
       ps_doubled_median = doubled_median amounts,
       ps_freshest = max_of (map (\<lambda>r. num r ''observed_at'') rows)\<rparr>)"

lemma mset_sort: "mset xs = mset ys \<Longrightarrow> sort xs = sort (ys :: int list)"
  by (metis sorted_list_of_multiset_mset)

lemma summary_mset:
  assumes "mset xs = mset ys"
  shows "summary_of xs = summary_of ys"
proof -
  have m: "mset (map g xs) = mset (map g ys)" for g :: "row \<Rightarrow> int" using assms by simp
  have e: "map g xs = [] \<longleftrightarrow> map g ys = []" for g :: "row \<Rightarrow> int" using mset_eq_length [OF assms] by auto
  have l: "length xs = length ys" using assms by (rule mset_eq_length)
  have s: "set (map g xs) = set (map g ys)" for g :: "row \<Rightarrow> int" using m by (rule mset_eq_setD)
  show ?thesis
    using e [of "\<lambda>r. num r ''amount_minor''"] s [of "\<lambda>r. num r ''amount_minor''"] s [of "\<lambda>r. num r ''observed_at''"]
      mset_sort [OF m [of "\<lambda>r. num r ''amount_minor''"]] l
    by (simp add: summary_of_def max_of_def min_of_def doubled_median_def Let_def)
qed

text \<open>The median window repeats one value, so its maximum is that value.\<close>

lemma median_window:
  assumes "\<forall>x \<in> set ys. g x = doubled_median xs" "length xs = length ys"
  shows "(case List.map_filter g ys of [] \<Rightarrow> None | m # ms \<Rightarrow> Some (Max (set (m # ms)))) = doubled_median xs"
proof (cases "doubled_median xs")
  case None
  then have "xs = []" by (auto simp: doubled_median_def Let_def split: if_splits)
  with assms None show ?thesis by (simp add: map_filter_simps)
next
  case (Some v)
  have r: "List.map_filter g ys = replicate (length ys) v"
    using assms(1) Some by (induction ys) (auto simp: map_filter_simps)
  have "ys \<noteq> []" using Some assms(2) by (auto simp: doubled_median_def)
  then obtain n where "length ys = Suc n" by (cases ys) auto
  then have "List.map_filter g ys = v # replicate n v" by (simp add: r)
  moreover have s: "set (v # replicate n v) = {v}" by auto
  ultimately show ?thesis using Some by (simp only: list.case s Max_singleton)
qed

lemma qry_01_forms:
  assumes "distinct (card_rows db c)" "inj_on newest_first (set (card_rows db c))"
  shows "qry_01 eng c db = summary_of (filter (first_of by_shop newest_first (card_rows db c)) (card_rows db c))"
proof (cases eng)
  case Postgres
  then have "qry_01 eng c db =
      summary_of (distinct_on by_shop (sort_key (\<lambda>r. (by_shop r, newest_first r)) (card_rows db c)))"
    by (simp add: qry_01_def summary_of_def Let_def)
  also have "\<dots> = summary_of (filter (first_of by_shop newest_first (card_rows db c)) (card_rows db c))"
    by (rule summary_mset [OF latest_forms_agree [OF assms]])
  finally show ?thesis .
next
  case Mariadb
  let ?latest = "filter (first_of by_shop newest_first (card_rows db c)) (card_rows db c)"
  let ?amounts = "map (\<lambda>r. num r ''amount_minor'') ?latest"
  have "(case List.map_filter id (map (\<lambda>r. doubled_median ?amounts) ?latest) of
      [] \<Rightarrow> None | m # ms \<Rightarrow> Some (Max (set (m # ms)))) = doubled_median ?amounts"
    by (rule median_window) auto
  with Mariadb show ?thesis
    unfolding qry_01_def summary_of_def engine.case Let_def row_number_first by simp
qed

definition latest_of :: "('row \<Rightarrow> 'b) \<Rightarrow> ('row \<Rightarrow> 'c :: linorder) \<Rightarrow> 'row list \<Rightarrow> 'row list" where
  "latest_of f k rows = filter (first_of f k rows) rows"

text \<open>The groups a query over several cards should return.\<close>

definition group_summaries :: "row list \<Rightarrow> (dbval \<times> price_summary) list" where
  "group_summaries latest =
     map (\<lambda>c. (c, summary_of (filter (\<lambda>r. by_card r = c) latest))) (remdups (map by_card latest))"

lemma group_summaries_mset:
  assumes "mset xs = mset ys"
  shows "mset (group_summaries xs) = mset (group_summaries ys)"
proof -
  have g: "summary_of (filter (\<lambda>r. by_card r = c) xs) = summary_of (filter (\<lambda>r. by_card r = c) ys)" for c
    by (rule summary_mset) (use assms in simp)
  have "set (remdups (map by_card xs)) = set (remdups (map by_card ys))"
    using mset_eq_setD [OF assms] by simp
  then have "mset (remdups (map by_card xs)) = mset (remdups (map by_card ys))"
    by (subst set_eq_iff_mset_eq_distinct [symmetric]) simp_all
  then show ?thesis by (simp add: group_summaries_def g)
qed

lemma qry_02_forms:
  assumes "distinct (cards_rows db cs)" "inj_on newest_first (set (cards_rows db cs))"
  shows "mset (qry_02 eng cs db) =
    mset (group_summaries (latest_of by_card_shop newest_first (cards_rows db cs)))"
proof (cases eng)
  case Postgres
  let ?latest = "distinct_on by_card_shop (sort_key (\<lambda>r. (by_card_shop r, newest_first r)) (cards_rows db cs))"
  have "qry_02 eng cs db = group_summaries ?latest"
    using Postgres by (simp add: qry_02_def group_summaries_def summary_of_def Let_def)
  then show ?thesis
    unfolding latest_of_def using group_summaries_mset [OF latest_forms_agree [OF assms, of by_card_shop]] by simp
next
  case Mariadb
  let ?latest = "filter (first_of by_card_shop newest_first (cards_rows db cs)) (cards_rows db cs)"
  let ?median = "\<lambda>r. doubled_median (map (\<lambda>s. num s ''amount_minor'') (filter (\<lambda>s. by_card s = by_card r) ?latest))"
  have g: "filter (\<lambda>(r, m). by_card r = c) (map (\<lambda>r. (r, ?median r)) ?latest) =
      map (\<lambda>r. (r, ?median r)) (filter (\<lambda>r. by_card r = c) ?latest)" for c
    by (simp only: filter_map comp_def prod.case)
  have m: "(case List.map_filter snd (map (\<lambda>r. (r, ?median r)) (filter (\<lambda>r. by_card r = c) ?latest)) of
      [] \<Rightarrow> None | m # ms \<Rightarrow> Some (Max (set (m # ms)))) =
      doubled_median (map (\<lambda>r. num r ''amount_minor'') (filter (\<lambda>r. by_card r = c) ?latest))" for c
    by (rule median_window) auto
  have "qry_02 eng cs db = group_summaries ?latest"
    unfolding Mariadb qry_02_def engine.case Let_def row_number_first g m group_summaries_def summary_of_def
    by (simp add: comp_def)
  then show ?thesis by (simp add: latest_of_def)
qed

subsection \<open>Identifiers of a store that meets its constraints\<close>

definition id_keyed :: "table_def \<Rightarrow> bool" where
  "id_keyed t \<longleftrightarrow> tbl_pk t = [''id''] \<and>
     list_ex (\<lambda>c. col_name c = ''id'' \<and> \<not> col_nullable c \<and> col_type c \<in> {Small_int, Integer, Big_int}) (tbl_columns t)"

lemma id_keyed_tables:
  "list_all id_keyed [t_source, t_ingest_run, t_raw_artifact, t_processing_run, t_extracted_record,
     t_observation_candidate, t_price_observation, t_price_observation_correction, t_review_item]"
  by code_simp

lemma distinct_iff_sorted_wrt: "distinct xs \<longleftrightarrow> sorted_wrt (\<noteq>) xs"
  by (induction xs) auto

lemma store_ids:
  assumes "store_ok metadata db" "t \<in> set metadata" "id_keyed t"
  shows "r \<in> set (rows_of db (tbl_name t)) \<Longrightarrow> \<exists>n. cell r ''id'' = VInt n"
    "distinct (map (\<lambda>r. cell r ''id'') (rows_of db (tbl_name t)))"
proof -
  have ok: "table_ok db t" using assms(1,2) by (simp add: store_ok_def)
  obtain c where c: "c \<in> set (tbl_columns t)" "col_name c = ''id''" "\<not> col_nullable c"
      "col_type c \<in> {Small_int, Integer, Big_int}"
    using assms(3) by (auto simp: id_keyed_def list_ex_iff)
  show int: "\<exists>n. cell r ''id'' = VInt n" if "r \<in> set (rows_of db (tbl_name t))" for r
  proof -
    have "types_ok t r" "not_null_ok t r" using ok that by (simp_all add: table_ok_def)
    then have "type_ok (col_type c) (cell r ''id'')" "cell r ''id'' \<noteq> VNull"
      using c by (auto simp: types_ok_def not_null_ok_def list_all_iff)
    with c(4) show ?thesis by (cases "cell r ''id''") auto
  qed
  have "key_ok (rows_of db (tbl_name t)) [''id'']"
    using ok assms(3) by (simp add: table_ok_def table_keys_def id_keyed_def)
  then show "distinct (map (\<lambda>r. cell r ''id'') (rows_of db (tbl_name t)))"
    unfolding key_ok_def
  proof -
    assume k: "sorted_wrt (\<lambda>r s. \<not> clash [''id''] r s) (rows_of db (tbl_name t))"
    have "sorted_wrt (\<lambda>r s. cell r ''id'' \<noteq> cell s ''id'') (rows_of db (tbl_name t))"
      by (rule sorted_wrt_mono_rel [OF _ k]) (use int in \<open>fastforce simp: clash_def cells_def\<close>)
    then show ?thesis by (simp add: distinct_iff_sorted_wrt sorted_wrt_map)
  qed
qed

lemma distinct_rows: "distinct (map (\<lambda>r. cell r c) rs) \<Longrightarrow> distinct rs"
  by (simp add: distinct_map)

lemma observation_rows:
  assumes "store_ok metadata db"
  shows "distinct (rows_of db ''price_observation'')" "inj_on newest_first (set (rows_of db ''price_observation''))"
    "r \<in> set (rows_of db ''price_observation'') \<Longrightarrow> \<exists>n. cell r ''id'' = VInt n"
proof -
  have t: "t_price_observation \<in> set metadata" "id_keyed t_price_observation"
      "tbl_name t_price_observation = ''price_observation''"
    using id_keyed_tables by (simp_all add: metadata_def table_names)
  note ids = store_ids [OF assms t(1,2), unfolded t(3)]
  show "distinct (rows_of db ''price_observation'')" by (rule distinct_rows [OF ids(2)])
  show n: "\<exists>n. cell r ''id'' = VInt n" if "r \<in> set (rows_of db ''price_observation'')" for r
    by (rule ids(1) [OF that])
  show "inj_on newest_first (set (rows_of db ''price_observation''))"
  proof (rule inj_onI)
    fix r s assume m: "r \<in> set (rows_of db ''price_observation'')" "s \<in> set (rows_of db ''price_observation'')"
      and "newest_first r = newest_first s"
    then have "num r ''id'' = num s ''id''" by (simp add: newest_first_def)
    with n [OF m(1)] n [OF m(2)] have "cell r ''id'' = cell s ''id''" by (auto simp: num_def)
    with ids(2) m show "r = s" by (simp add: distinct_map inj_on_def)
  qed
qed

text \<open>
  C17: On a store that meets its constraints the two forms of the latest price queries have one result:
  for a card, and for every card of a list, the count, extremes, median and freshness of the newest
  effective purchase price of each shop.
\<close>

theorem latest_price_forms:
  assumes "store_ok metadata db"
  shows "qry_01 eng c db = summary_of (latest_of by_shop newest_first (card_rows db c)) \<and>
    mset (qry_02 eng cs db) = mset (group_summaries (latest_of by_card_shop newest_first (cards_rows db cs)))"
proof -
  note rows = observation_rows [OF assms]
  have sub: "set (card_rows db c) \<subseteq> set (rows_of db ''price_observation'')"
      "set (cards_rows db cs) \<subseteq> set (rows_of db ''price_observation'')"
    by (auto simp: card_rows_def cards_rows_def buy_rows_def)
  have "distinct (card_rows db c)" "distinct (cards_rows db cs)"
    using rows(1) by (simp_all add: card_rows_def cards_rows_def buy_rows_def)
  then show ?thesis
    unfolding latest_of_def [of by_shop]
    using qry_01_forms qry_02_forms inj_on_subset [OF rows(2)] sub by blast
qed

subsection \<open>The trace of an observation\<close>

lemma joined_one:
  assumes "distinct (map (\<lambda>r. cell r ''id'') (rows_of db t))" "v \<in> set (map (\<lambda>r. cell r ''id'') (rows_of db t))" "v \<noteq> VNull"
  shows "\<exists>r. joined db t v = [r] \<and> r \<in> set (rows_of db t) \<and> cell r ''id'' = v"
proof -
  obtain r where r: "r \<in> set (rows_of db t)" "cell r ''id'' = v" using assms(2) by auto
  have "distinct (joined db t v)" using distinct_rows [OF assms(1)] by (simp add: joined_def)
  moreover have "set (joined db t v) = {r}"
    using r assms(1,3) by (auto simp: joined_def distinct_map inj_on_def)
  ultimately have "joined db t v = [r]"
    by (cases "joined db t v") (auto simp: subset_singleton_iff)
  with r show ?thesis by blast
qed

text \<open>A foreign key to an identifier finds its row.\<close>

lemma follow:
  assumes "store_ok metadata db" "t \<in> set metadata" "u \<in> set metadata" "id_keyed u"
    "(c, tbl_name u, ''id'') \<in> set (tbl_fks t)"
    "list_ex (\<lambda>d. col_name d = c \<and> \<not> col_nullable d) (tbl_columns t)" "r \<in> set (rows_of db (tbl_name t))"
  shows "\<exists>s. joined db (tbl_name u) (cell r c) = [s] \<and> s \<in> set (rows_of db (tbl_name u)) \<and> cell s ''id'' = cell r c"
proof (rule joined_one)
  have "fk_ok db t r" "not_null_ok t r"
    using assms(1,2,7) by (simp_all add: store_ok_def table_ok_def)
  then have f: "cell r c = VNull \<or> list_ex (\<lambda>s. cell s ''id'' = cell r c) (rows_of db (tbl_name u))"
      and n: "cell r c \<noteq> VNull"
    using assms(5,6) by (fastforce simp: fk_ok_def not_null_ok_def list_all_iff list_ex_iff)+
  show "cell r c \<noteq> VNull" by (rule n)
  show "cell r c \<in> set (map (\<lambda>r. cell r ''id'') (rows_of db (tbl_name u)))"
    using f n by (force simp: list_ex_iff image_iff)
  show "distinct (map (\<lambda>r. cell r ''id'') (rows_of db (tbl_name u)))"
    by (rule store_ids(2) [OF assms(1,3,4)])
qed

text \<open>
  Every observation of a store that meets its constraints can be traced to its source: the query
  returns exactly one row, and it links the observation through candidate, record, processing run,
  artifact and ingest run to the source.
\<close>

theorem trace_complete:
  assumes "store_ok metadata db" "VInt n \<in> ids db ''price_observation''"
  shows "\<exists>po oc er pr ra ir s. qry_04 n db = [[po, oc, er, pr, ra, ir, s]] \<and> cell po ''id'' = VInt n \<and>
    cell oc ''id'' = cell po ''observation_candidate_id'' \<and> cell er ''id'' = cell oc ''extracted_record_id'' \<and>
    cell pr ''id'' = cell er ''processing_run_id'' \<and> cell ra ''id'' = cell pr ''raw_artifact_id'' \<and>
    cell ir ''id'' = cell ra ''ingest_run_id'' \<and> cell s ''id'' = cell ra ''source_id''"
proof -
  have m: "t_source \<in> set metadata" "t_ingest_run \<in> set metadata" "t_raw_artifact \<in> set metadata"
      "t_processing_run \<in> set metadata" "t_extracted_record \<in> set metadata"
      "t_observation_candidate \<in> set metadata" "t_price_observation \<in> set metadata"
    by (simp_all add: metadata_def)
  have k: "id_keyed t_source" "id_keyed t_ingest_run" "id_keyed t_raw_artifact" "id_keyed t_processing_run"
      "id_keyed t_extracted_record" "id_keyed t_observation_candidate" "id_keyed t_price_observation"
    using id_keyed_tables by simp_all
  have src: "tbl_name t_source = ''source''" by (simp add: t_source_def)
  note tn = table_names src
  obtain po where po: "joined db ''price_observation'' (VInt n) = [po]"
      "po \<in> set (rows_of db (tbl_name t_price_observation))" "cell po ''id'' = VInt n"
    using joined_one [of db "''price_observation''" "VInt n"] store_ids(2) [OF assms(1) m(7) k(7)] assms(2)
    unfolding ids_def tn by blast
  obtain oc where oc: "joined db ''observation_candidate'' (cell po ''observation_candidate_id'') = [oc]"
      "oc \<in> set (rows_of db (tbl_name t_observation_candidate))" "cell oc ''id'' = cell po ''observation_candidate_id''"
    using follow [OF assms(1) m(7) m(6) k(6) _ _ po(2), of "''observation_candidate_id''"]
    by (auto simp: t_price_observation_def tn)
  obtain er where er: "joined db ''extracted_record'' (cell oc ''extracted_record_id'') = [er]"
      "er \<in> set (rows_of db (tbl_name t_extracted_record))" "cell er ''id'' = cell oc ''extracted_record_id''"
    using follow [OF assms(1) m(6) m(5) k(5) _ _ oc(2), of "''extracted_record_id''"]
    by (auto simp: t_observation_candidate_def tn)
  obtain pr where pr: "joined db ''processing_run'' (cell er ''processing_run_id'') = [pr]"
      "pr \<in> set (rows_of db (tbl_name t_processing_run))" "cell pr ''id'' = cell er ''processing_run_id''"
    using follow [OF assms(1) m(5) m(4) k(4) _ _ er(2), of "''processing_run_id''"]
    by (auto simp: t_extracted_record_def tn)
  obtain ra where ra: "joined db ''raw_artifact'' (cell pr ''raw_artifact_id'') = [ra]"
      "ra \<in> set (rows_of db (tbl_name t_raw_artifact))" "cell ra ''id'' = cell pr ''raw_artifact_id''"
    using follow [OF assms(1) m(4) m(3) k(3) _ _ pr(2), of "''raw_artifact_id''"]
    by (auto simp: t_processing_run_def tn)
  obtain ir where ir: "joined db ''ingest_run'' (cell ra ''ingest_run_id'') = [ir]" "cell ir ''id'' = cell ra ''ingest_run_id''"
    using follow [OF assms(1) m(3) m(2) k(2) _ _ ra(2), of "''ingest_run_id''"]
    by (auto simp: t_raw_artifact_def tn)
  obtain s where s: "joined db ''source'' (cell ra ''source_id'') = [s]" "cell s ''id'' = cell ra ''source_id''"
    using follow [OF assms(1) m(3) m(1) k(1) _ _ ra(2), of "''source_id''"]
    by (auto simp: t_raw_artifact_def tn)
  have "qry_04 n db = [[po, oc, er, pr, ra, ir, s]]"
    by (simp add: qry_04_def po(1) oc(1) er(1) pr(1) ra(1) ir(1) s(1))
  with po oc er pr ra ir s show ?thesis by blast
qed

subsection \<open>Corrections\<close>

lemma sort_key_first:
  assumes "x \<in> set xs" "\<forall>y \<in> set xs. y \<noteq> x \<longrightarrow> f x < f y"
  shows "\<exists>ys. sort_key f xs = x # ys"
proof (cases "sort_key f xs")
  case Nil
  then have "set (sort_key f xs) = {}" by simp
  with assms(1) show ?thesis by simp
next
  case (Cons y ys)
  have "x \<in> set (y # ys)" using assms(1) Cons [symmetric] by simp
  moreover have "sorted (map f (y # ys))" using Cons [symmetric] by simp
  ultimately have "f y \<le> f x" by auto
  moreover have "y \<in> set xs"
  proof -
    have "y \<in> set (sort_key f xs)" using Cons by simp
    then show ?thesis by simp
  qed
  ultimately have "y = x" using assms(2) by fastforce
  with Cons show ?thesis by blast
qed

text \<open>
  Corrections are appended, never updated: after a correction with a new largest identifier an
  observation is effective exactly when that correction restores it, and every other observation is
  as effective as before.
\<close>

theorem newest_correction_decides:
  assumes "store_ok metadata db" "insert_row t_price_observation_correction c db = Inr db'"
    "cell c ''id'' = VInt k" "\<forall>v \<in> ids db ''price_observation_correction''. \<exists>j. v = VInt j \<and> j < k"
    "po \<in> set (rows_of db ''price_observation'')"
  shows "effective db' po \<longleftrightarrow>
    (if cell c ''price_observation_id'' = cell po ''id'' then cell c ''action'' = VText (lit ''restore'')
     else effective db po)"
proof -
  have n: "tbl_name t_price_observation_correction = ''price_observation_correction''"
    by (simp add: t_price_observation_correction_def)
  have ins: "not_null_ok t_price_observation_correction c" "db' = add_row ''price_observation_correction'' c db"
    using assms(2) by (simp_all add: insert_row_Inr n)
  have act: "cell c ''action'' \<noteq> VNull"
    using ins(1) by (simp add: not_null_ok_def t_price_observation_correction_def)
  have id: "cell po ''id'' \<noteq> VNull" using observation_rows(3) [OF assms(1,5)] by auto
  let ?mine = "\<lambda>c. cell c ''price_observation_id'' = cell po ''id'' \<and> cell po ''id'' \<noteq> VNull"
  let ?old = "rows_of db ''price_observation_correction''"
  have rows: "rows_of db' ''price_observation_correction'' = ?old @ [c]" by (simp add: ins(2) rows_of_add)
  show ?thesis
  proof (cases "cell c ''price_observation_id'' = cell po ''id''")
    case True
    have "num d ''id'' < num c ''id''" if "d \<in> set ?old" for d
      using that assms(3,4) by (fastforce simp: ids_def num_def)
    then have "\<exists>ys. sort_key (\<lambda>c. - num c ''id'') (filter ?mine (?old @ [c])) = c # ys"
      by (intro sort_key_first) (use True id in auto)
    then have "newest_correction db' po = Some c"
      by (auto simp: newest_correction_def rows)
    with True act show ?thesis by (simp add: effective_def)
  next
    case False
    then show ?thesis by (simp add: effective_def newest_correction_def rows)
  qed
qed

subsection \<open>The queries on a store with one observation\<close>

lemma example_tables:
  "rows_of example_db ''price_observation'' =
     [bind_row (spec_of ''price_observation'') (batch_observation 40 1 1 (micros 700000 0 0 0) 0)]"
  "rows_of example_db ''price_observation_correction'' = []"
proof -
  have p: "py_range 1 = [0]" by code_simp
  show "rows_of example_db ''price_observation'' =
     [bind_row (spec_of ''price_observation'') (batch_observation 40 1 1 (micros 700000 0 0 0) 0)]"
    by (simp add: example_db_def example_batch_def batch_written_def batch_tables_def rows_of_add_rows add_bound_def
      witness_db_rows seed_dims_rows bulk_tables_def batch_tables_of p)
  have "rows_of witness_db ''price_observation_correction'' = []"
    by (simp add: witness_db_rows) code_simp
  then show "rows_of example_db ''price_observation_correction'' = []"
    by (simp add: example_db_def batch_written_def batch_tables_def rows_of_add_rows add_bound_def)
qed

lemma example_observation:
  "bind_row (spec_of ''price_observation'') (batch_observation 40 1 1 (micros 700000 0 0 0) 0) =
     file_row ''price_observation''
       [VInt 7400000000060, VInt 5400000000060, VText (card_uuid 0), VInt 2, VInt 2, VInt 2400000000001,
        VText tcg, VInt 7623, VText currency, VText (lit ''buy''), VText (batch_condition 4400000000060),
        VTime (micros 700000 0 0 0), VTime (micros 700000 0 0 0), VNull, VNull,
        VText (idempotency_key (source_slug 2) 2400000000001 0 (lit ''buy'') (date_text (micros 700000 0 0 0))
          (batch_condition 4400000000060)), VTime (micros 700000 0 0 0)]"
proof -
  have v: "runtime_id ''extracted_record'' 40 (batch_counter 1 0) = 4400000000060"
    "runtime_id ''price_observation'' 40 (batch_counter 1 0) = 7400000000060"
    "runtime_id ''observation_candidate'' 40 (batch_counter 1 0) = 5400000000060"
    "runtime_id ''raw_artifact'' 40 1 = 2400000000001" "batch_source 40 1 = 2"
    "price_for 4400000000060 = 7623" "batch_price_type 4400000000060 = lit ''buy''"
    by code_simp+
  have c: "batch_card r 1 = 0" for r by (simp add: batch_card_def)
  show ?thesis unfolding bind_eqs bound_observation Let_def v c ..
qed

lemma example_effective: "effective example_db po"
  by (simp add: effective_def newest_correction_def example_tables)

lemma example_ids: "ids example_db ''price_observation'' = {VInt 7400000000060}"
  by (simp add: ids_def example_tables example_observation file_row_def file_columns_of t_price_observation_def)

theorem latest_price_forms_witness:
  "qry_01 Mariadb (card_uuid 0) example_db =
     \<lparr>ps_shop_count = 1, ps_max_amount = Some 7623, ps_min_amount = Some 7623, ps_doubled_median = Some 15246,
      ps_freshest = Some (micros 700000 0 0 0)\<rparr>"
proof -
  let ?r = "bind_row (spec_of ''price_observation'') (batch_observation 40 1 1 (micros 700000 0 0 0) 0)"
  have cells: "cell ?r ''price_type'' = VText (lit ''buy'')" "cell ?r ''card_identity_id'' = VText (card_uuid 0)"
      "cell ?r ''currency'' = VText (lit ''JPY'')" "num ?r ''amount_minor'' = 7623"
      "num ?r ''observed_at'' = micros 700000 0 0 0"
    unfolding example_observation
    by (simp_all add: num_def file_row_def file_columns_of t_price_observation_def currency_def)
  have rows: "card_rows example_db (card_uuid 0) = [?r]"
    by (simp add: card_rows_def buy_rows_def example_tables(1) example_effective cells)
  have "latest_of by_shop newest_first [?r] = [?r]" by (simp add: latest_of_def first_of_def)
  with latest_price_forms [OF example_ok, of Mariadb "card_uuid 0" "[]"] show ?thesis
    unfolding rows by (simp add: summary_of_def max_of_def min_of_def doubled_median_def Let_def cells)
qed

theorem trace_complete_witness:
  "\<exists>trace. qry_04 7400000000060 example_db = [trace] \<and> length trace = 7"
proof -
  have "VInt 7400000000060 \<in> ids example_db ''price_observation''" by (simp add: example_ids)
  from trace_complete [OF example_ok this] show ?thesis by auto
qed

definition example_correction :: row where
  "example_correction =
     [(''id'', VInt 1), (''price_observation_id'', VInt 7400000000060), (''action'', VText (lit ''invalidate'')),
      (''reason'', VText (lit ''misread'')), (''actor'', VText (lit ''operator'')),
      (''rule_version'', VText (lit ''v1'')), (''replacement_id'', VNull), (''created_at'', VTime 0)]"

lemma example_correction_ok: "row_ok t_price_observation_correction example_correction"
  by code_simp

lemma example_correction_fk: "fk_ok example_db t_price_observation_correction example_correction"
proof -
  have f: "tbl_fks t_price_observation_correction =
      [(''price_observation_id'', ''price_observation'', ''id''), (''replacement_id'', ''price_observation'', ''id'')]"
    by (simp add: t_price_observation_correction_def)
  have c: "cell example_correction ''price_observation_id'' = VInt 7400000000060"
      "cell example_correction ''replacement_id'' = VNull"
    by (simp_all add: example_correction_def cell_list)
  have "VInt 7400000000060 \<in> ids example_db ''price_observation''" by (simp add: example_ids)
  then show ?thesis by (intro fk_ok_ids) (simp add: f c)
qed

lemma example_correction_inserted:
  "insert_row t_price_observation_correction example_correction example_db =
     Inr (add_row ''price_observation_correction'' example_correction example_db)"
proof -
  have n: "tbl_name t_price_observation_correction = ''price_observation_correction''"
    by (simp add: t_price_observation_correction_def)
  have "clashing_key example_db t_price_observation_correction example_correction = None"
    by (simp only: clashing_key_None n example_tables(2) list.set ball_empty) (rule ballI, rule TrueI)
  then show ?thesis
    by (simp only: insert_row_good(1) [OF example_correction_ok] example_correction_fk n if_True)
qed

theorem newest_correction_decides_witness:
  "\<exists>db po. po \<in> set (rows_of example_db ''price_observation'') \<and>
     insert_row t_price_observation_correction example_correction example_db = Inr db \<and> \<not> effective db po"
proof -
  let ?r = "bind_row (spec_of ''price_observation'') (batch_observation 40 1 1 (micros 700000 0 0 0) 0)"
  have r: "?r \<in> set (rows_of example_db ''price_observation'')" by (simp add: example_tables)
  have id: "cell example_correction ''id'' = VInt 1" by (simp add: example_correction_def cell_list)
  have e: "\<forall>v \<in> ids example_db ''price_observation_correction''. \<exists>j. v = VInt j \<and> j < 1"
    by (simp add: ids_def example_tables)
  have "cell ?r ''id'' = VInt 7400000000060"
    unfolding example_observation by (simp add: file_row_def file_columns_of t_price_observation_def)
  with newest_correction_decides [OF example_ok example_correction_inserted id e r]
  have "\<not> effective (add_row ''price_observation_correction'' example_correction example_db) ?r"
    by (simp add: example_correction_def cell_list lit_distinct)
  with r example_correction_inserted show ?thesis by blast
qed

end
