(* ===== verification/Integrity.thy ===== *)
theory Integrity
  imports Queries
begin

text \<open>
  scripts/db_poc/dbpoc/integrity.py: the checks that write probe rows and report what the database
  did. A statement is a function on the store of Relational, a transaction leaves the store of its
  start when it fails, and what ends a check is a value. The clock, the random keys and the random
  card are parameters; the class and message of an exception are driver texts and left out, and so are
  the artifact files of the snapshot batch. The last group shows that the checks pass on any store that
  holds the parents of a probe and has the fresh values free.
\<close>

subsection \<open>Errors a check may end with\<close>

text \<open>
  What stops a check itself: \<open>scalar_one()\<close> on an empty table, or a statement that fails outside the
  attempt the check makes.
\<close>

datatype harness_error = No_result | Statement_failed sql_error

type_synonym 'a checked = "(harness_error + 'a) \<times> store"

text \<open>\<open>with eng.begin() as conn\<close> around statements no handler surrounds.\<close>

definition run_tx :: "(store \<Rightarrow> sql_error + 'a \<times> store) \<Rightarrow> store \<Rightarrow> 'a checked" where
  "run_tx f db =
     (case transaction (f db) db of
        (Inl e, db) \<Rightarrow> (Inl (Statement_failed e), db)
      | (Inr x, db) \<Rightarrow> (Inr x, db))"

text \<open>What an application can branch on: the SQLSTATE and the error number.\<close>

type_synonym signature = "string option \<times> int option"

definition error_signature :: "db_exception \<Rightarrow> signature" where
  "error_signature ex =
     (case ex_sqlstate ex of None \<Rightarrow> ex_diag_sqlstate ex | Some s \<Rightarrow> Some s,
      if ex_args ex \<noteq> [] then Some (hd (ex_args ex)) else None)"

subsection \<open>Probe rows\<close>

definition probe_writer :: int where "probe_writer = 70"
definition conflict_writer :: int where "conflict_writer = 71"

text \<open>The identifier window of a run, from the seconds of the clock when the module is loaded.\<close>

definition run_offset :: "int \<Rightarrow> int" where
  "run_offset clock = clock mod 100000 * 10000"

definition probe_base :: "int \<Rightarrow> int \<Rightarrow> int" where
  "probe_base writer off = dict_get id_base ''price_observation'' 0 + writer * writer_stride + off"

text \<open>\<open>SELECT id FROM t ORDER BY id LIMIT 1\<close>\<close>

definition lowest_id :: "store \<Rightarrow> string \<Rightarrow> dbval option" where
  "lowest_id db t = (case sort (map id_of (rows_of db t)) of [] \<Rightarrow> None | n # _ \<Rightarrow> Some (VInt n))"

fun override_row :: "(string \<times> dbval) list \<Rightarrow> row \<Rightarrow> row" where
  "override_row [] r = r"
| "override_row ((c, v) # kvs) r = override_row kvs (set_cell c v r)"

record probe_args =
  pa_engine :: engine
  pa_cards :: int
  pa_now :: int
  pa_offset :: int

text \<open>The first observation of a probe batch, tied to stored parents, with its key, id and overrides.\<close>

definition observation_row :: "probe_args \<Rightarrow> store \<Rightarrow> pystr \<Rightarrow> int \<Rightarrow> (string \<times> dbval) list \<Rightarrow> row option" where
  "observation_row a db key oid overrides =
     do {
       candidate \<leftarrow> lowest_id db ''observation_candidate'';
       artifact \<leftarrow> lowest_id db ''raw_artifact'';
       let row = hd (dict_get (build_batch probe_writer 1 1 (pa_cards a) (pa_now a) (lit ''probe''))
                        ''price_observation'' []) in
       Some (override_row
         ([(''observation_candidate_id'', candidate), (''raw_artifact_id'', artifact),
           (''idempotency_key'', VText key), (''id'', VInt oid)] @ overrides) row)
     }"

definition get_row :: "row option \<Rightarrow> store \<Rightarrow> row checked" where
  "get_row r db = (case r of None \<Rightarrow> (Inl No_result, db) | Some r \<Rightarrow> (Inr r, db))"

definition count_key :: "store \<Rightarrow> pystr \<Rightarrow> int" where
  "count_key db key =
     int (length (filter (\<lambda>r. cell r ''idempotency_key'' = VText key) (rows_of db ''price_observation'')))"

text \<open>The INSERT without the conflict clause, one row.\<close>

definition strict_insert :: "engine \<Rightarrow> row \<Rightarrow> store \<Rightarrow> sql_error + store" where
  "strict_insert eng params db = insert_row t_price_observation (bind_row (fst (observation_insert eng False)) params) db"

subsection \<open>The same key twice\<close>

record sequential_report =
  sr_rows :: int
  sr_strict :: "signature option"
  sr_pass :: bool

text \<open>
  \<open>integrity\<close> tells which errors SQLAlchemy raises as IntegrityError; the rest ends the check.
\<close>

definition check_idempotent_sequential ::
    "(sql_error \<Rightarrow> bool) \<Rightarrow> probe_args \<Rightarrow> pystr \<Rightarrow> store \<Rightarrow> sequential_report checked" where
  "check_idempotent_sequential integrity a key db =
     then_state (get_row (observation_row a db key (probe_base probe_writer (pa_offset a) + 1) []) db) (\<lambda>first db.
     then_state (get_row (observation_row a db key (probe_base probe_writer (pa_offset a) + 2)
         [(''amount_minor'', VInt (num first ''amount_minor'' + 10))]) db) (\<lambda>second db.
     then_state (run_tx (insert_observations (pa_engine a) True [first]) db) (\<lambda>_ db.
     then_state (run_tx (insert_observations (pa_engine a) True [second]) db) (\<lambda>_ db.
       case strict_insert (pa_engine a) second db of
         Inr db \<Rightarrow> (Inr \<lparr>sr_rows = count_key db key, sr_strict = None, sr_pass = False\<rparr>, db)
       | Inl e \<Rightarrow>
           if integrity e
           then (Inr \<lparr>sr_rows = count_key db key,
                      sr_strict = Some (error_signature (raised (pa_engine a) e)),
                      sr_pass = (count_key db key = 1)\<rparr>, db)
           else (Inl (Statement_failed e), db)))))"

subsection \<open>Invalid rows\<close>

record case_report =
  cr_error :: "signature option"
  cr_canary :: int
  cr_pass :: bool

text \<open>The overrides that break one constraint each; the card and the keys are fresh values.\<close>

definition bad_cases :: "pystr \<Rightarrow> dbval \<Rightarrow> (string \<times> (string \<times> dbval) list) list" where
  "bad_cases fresh_card existing_key =
     [(''not_null_currency'', [(''currency'', VNull)]),
      (''check_negative_amount'', [(''amount_minor'', VInt (- 1))]),
      (''check_price_type'', [(''price_type'', VText (lit ''auction''))]),
      (''foreign_key_card'', [(''card_identity_id'', VText fresh_card)]),
      (''unique_idempotency_key'', [(''idempotency_key'', existing_key)])]"

text \<open>The two inserts of a case in one transaction.\<close>

definition canary_then_bad :: "engine \<Rightarrow> row \<Rightarrow> row \<Rightarrow> store \<Rightarrow> sql_error + unit \<times> store" where
  "canary_then_bad eng canary bad db =
     and_then (strict_insert eng canary db) (\<lambda>db.
     and_then (strict_insert eng bad db) (\<lambda>db. Inr ((), db)))"

definition run_case :: "probe_args \<Rightarrow> (string \<Rightarrow> pystr) \<Rightarrow> int \<Rightarrow> string \<Rightarrow> (string \<times> dbval) list \<Rightarrow>
    store \<Rightarrow> case_report checked" where
  "run_case a fresh index name override db =
     (let base = probe_base probe_writer (pa_offset a) + 100 + index * 10;
          canary_key = fresh (''poc-canary-'' @ name) in
      then_state (get_row (observation_row a db canary_key (base + 1) []) db) (\<lambda>canary db.
      then_state (get_row (observation_row a db (fresh (''poc-bad-'' @ name)) (base + 2) override) db) (\<lambda>bad db.
        case transaction (canary_then_bad (pa_engine a) canary bad db) db of
          (Inr _, db) \<Rightarrow> (Inr \<lparr>cr_error = None, cr_canary = count_key db canary_key, cr_pass = False\<rparr>, db)
        | (Inl e, db) \<Rightarrow>
            (Inr \<lparr>cr_error = Some (error_signature (raised (pa_engine a) e)),
                  cr_canary = count_key db canary_key, cr_pass = (count_key db canary_key = 0)\<rparr>, db))))"

fun run_cases :: "probe_args \<Rightarrow> (string \<Rightarrow> pystr) \<Rightarrow> int \<Rightarrow> (string \<times> (string \<times> dbval) list) list \<Rightarrow>
    store \<Rightarrow> (string \<times> case_report) list checked" where
  "run_cases a fresh index [] db = (Inr [], db)"
| "run_cases a fresh index ((name, override) # cs) db =
     then_state (run_case a fresh index name override db) (\<lambda>r db.
     then_state (run_cases a fresh (index + 1) cs db) (\<lambda>rs db. (Inr ((name, r) # rs), db)))"

text \<open>\<open>SELECT idempotency_key ... ORDER BY id LIMIT 1\<close>\<close>

definition first_key :: "store \<Rightarrow> dbval option" where
  "first_key db =
     (case sort_key id_of (rows_of db ''price_observation'') of
        [] \<Rightarrow> None | r # _ \<Rightarrow> Some (cell r ''idempotency_key''))"

definition zero_price_case :: "probe_args \<Rightarrow> (string \<Rightarrow> pystr) \<Rightarrow> store \<Rightarrow> int checked" where
  "zero_price_case a fresh db =
     (let key = fresh ''poc-zero'' in
      then_state (get_row (observation_row a db key (probe_base probe_writer (pa_offset a) + 100 + 900)
          [(''amount_minor'', VInt 0)]) db) (\<lambda>r db.
      then_state (run_tx (\<lambda>db. and_then (strict_insert (pa_engine a) r db) (\<lambda>db. Inr ((), db))) db) (\<lambda>_ db.
        (Inr (count_key db key), db))))"

definition check_constraints ::
    "probe_args \<Rightarrow> (string \<Rightarrow> pystr) \<Rightarrow> pystr \<Rightarrow> store \<Rightarrow> ((string \<times> case_report) list \<times> bool) checked" where
  "check_constraints a fresh fresh_card db =
     (case first_key db of
        None \<Rightarrow> (Inl No_result, db)
      | Some k \<Rightarrow>
          then_state (run_cases a fresh 0 (bad_cases fresh_card k) db) (\<lambda>rs db.
          then_state (zero_price_case a fresh db) (\<lambda>n db.
            (Inr (rs, list_all (\<lambda>(_, r). cr_pass r) rs \<and> n = 1), db))))"

subsection \<open>One snapshot per response\<close>

text \<open>
  What a transaction reads: at REPEATABLE READ the store as of its first statement, at READ
  COMMITTED what is committed by now.
\<close>

datatype isolation = Read_committed | Repeatable_read

definition visible :: "isolation \<Rightarrow> store \<Rightarrow> store \<Rightarrow> store" where
  "visible level at_first now = (case level of Read_committed \<Rightarrow> now | Repeatable_read \<Rightarrow> at_first)"

definition count_observations :: "store \<Rightarrow> int" where
  "count_observations db = int (length (rows_of db ''price_observation''))"

definition latest_collected :: "store \<Rightarrow> int" where
  "latest_collected db =
     (let ts = concat (map (\<lambda>r. case cell r ''collected_at'' of VTime t \<Rightarrow> [t] | _ \<Rightarrow> [])
        (rows_of db ''price_observation'')) in
      if ts = [] then micros (ymd2ord 2000 1 1) 0 0 0 else Max (set ts))"

record snapshot_report =
  sn_first :: int
  sn_second :: int
  sn_after :: int
  sn_stable :: bool
  sn_committed :: bool
  sn_pass :: bool

definition check_as_of_snapshot :: "isolation \<Rightarrow> probe_args \<Rightarrow> store \<Rightarrow> snapshot_report checked" where
  "check_as_of_snapshot level a db =
     (let seq = next_sequence db probe_writer + 1;
          batch = build_batch probe_writer seq 5 (pa_cards a) (pa_now a) (lit ''snapshot'');
          first = db in
      then_state (run_tx (write_batch (pa_engine a) batch True) db) (\<lambda>_ db.
        let second = visible level first db in
        (Inr \<lparr>sn_first = count_observations first, sn_second = count_observations second,
              sn_after = count_observations db,
              sn_stable = (count_observations first = count_observations second \<and>
                           latest_collected first = latest_collected second),
              sn_committed = (count_observations second < count_observations db),
              sn_pass = (count_observations first = count_observations second \<and>
                         count_observations second < count_observations db)\<rparr>, db)))"

subsection \<open>Constraint enforcement of a session\<close>

text \<open>
  \<open>SET session_replication_role\<close> needs a superuser; \<open>SET SESSION foreign_key_checks = 0\<close> any
  MariaDB account may run. The inserted row is rolled back.
\<close>

definition may_disable_checks :: "engine \<Rightarrow> string \<Rightarrow> bool" where
  "may_disable_checks eng role \<longleftrightarrow> eng = Mariadb \<or> role = ''cp_admin''"

definition insert_unchecked :: "row \<Rightarrow> store \<Rightarrow> sql_error + store" where
  "insert_unchecked params db = copy_row t_price_observation (bind_row observation_spec params) db"

definition check_cannot_disable :: "string \<Rightarrow> probe_args \<Rightarrow> pystr \<Rightarrow> pystr \<Rightarrow> store \<Rightarrow> bool \<times> bool" where
  "check_cannot_disable role a key fresh_card db =
     (let bypassed =
        may_disable_checks (pa_engine a) role \<and>
        (case observation_row a db key (probe_base probe_writer (pa_offset a) + 777)
            [(''card_identity_id'', VText fresh_card)] of
           None \<Rightarrow> False
         | Some r \<Rightarrow> (case insert_unchecked r db of Inl e \<Rightarrow> False | Inr _ \<Rightarrow> True)) in
      (bypassed, \<not> bypassed))"

subsection \<open>The run\<close>

datatype check_result = Checked bool | Harness_error

text \<open>\<open>--only\<close>: no list or an empty one keeps every check.\<close>

definition selected :: "string list option \<Rightarrow> string \<Rightarrow> bool" where
  "selected only name = (case only of None \<Rightarrow> True | Some ns \<Rightarrow> ns = [] \<or> name \<in> set ns)"

definition result_pass :: "check_result \<Rightarrow> bool" where
  "result_pass r = (case r of Checked b \<Rightarrow> b | Harness_error \<Rightarrow> False)"

fun run_selected :: "string list option \<Rightarrow> (string \<times> (store \<Rightarrow> bool checked)) list \<Rightarrow> store \<Rightarrow>
    (string \<times> check_result) list \<times> store" where
  "run_selected only [] db = ([], db)"
| "run_selected only ((name, check) # cs) db =
     (if \<not> selected only name then run_selected only cs db
      else case check db of
        (r, db) \<Rightarrow>
          apfst (Cons (name, case r of Inr b \<Rightarrow> Checked b | Inl _ \<Rightarrow> Harness_error)) (run_selected only cs db))"

text \<open>The entries, \<open>all_passed\<close> and the exit code.\<close>

definition integrity_main :: "string list option \<Rightarrow> (string \<times> (store \<Rightarrow> bool checked)) list \<Rightarrow> store \<Rightarrow>
    (string \<times> check_result) list \<times> bool \<times> int" where
  "integrity_main only checks db =
     (let data = fst (run_selected only checks db) in
      (data, list_all (\<lambda>(_, r). result_pass r) data,
       if list_ex (\<lambda>(_, r). r = Harness_error) data then 1 else 0))"

lemma cell_set_cell: "cell (set_cell c v r) d = (if d = c then v else cell r d)"
  by (simp add: cell_def set_cell_def update_conv')

lemma map_of_bind:
  "map_of (bind_row spec p) c = map_option (\<lambda>e. case e of None \<Rightarrow> cell p c | Some v \<Rightarrow> v) (map_of spec c)"
  by (induction spec) (auto simp: bind_row_def split: option.split)

lemma cell_bind:
  "cell (bind_row spec p) c = (case map_of spec c of None \<Rightarrow> VNull | Some None \<Rightarrow> cell p c | Some (Some v) \<Rightarrow> v)"
  unfolding cell_def [of "bind_row spec p"] map_of_bind by (cases "map_of spec c") (auto split: option.split)

text \<open>What a bound observation must hold to fit its table.\<close>

definition obs_required :: "(string \<times> sqltype) list" where
  "obs_required = map (\<lambda>c. (col_name c, col_type c)) (filter (\<lambda>c. \<not> col_nullable c) (tbl_columns t_price_observation))"

lemma obs_row_ok:
  "row_ok t_price_observation (bind_row observation_spec p) \<longleftrightarrow>
     (\<forall>(c, ty) \<in> set obs_required. type_ok ty (cell p c) \<and> cell p c \<noteq> VNull) \<and>
     (\<forall>n. cell p ''amount_minor'' = VInt n \<longrightarrow> 0 \<le> n) \<and>
     (cell p ''price_type'' = VText (lit ''buy'') \<or> cell p ''price_type'' = VText (lit ''sell''))"
proof -
  have req: "obs_required = [(''id'', Big_int), (''observation_candidate_id'', Big_int), (''card_identity_id'', Uuid),
     (''shop_id'', Small_int), (''source_id'', Small_int), (''raw_artifact_id'', Big_int), (''tcg'', Varchar 32),
     (''amount_minor'', Big_int), (''currency'', Char_n 3), (''price_type'', Varchar 16), (''card_condition'', Varchar 16),
     (''observed_at'', Timestamp), (''collected_at'', Timestamp), (''idempotency_key'', Varchar 120), (''created_at'', Timestamp)]"
    by (simp add: obs_required_def t_price_observation_def)
  show ?thesis
    unfolding req
    by (cases "cell p ''amount_minor''")
      (auto simp: row_ok_def types_ok_def not_null_ok_def checks_ok_def t_price_observation_def cell_bind observation_spec_def)
qed

lemma obs_fk_ok:
  "fk_ok db t_price_observation (bind_row observation_spec p) \<longleftrightarrow>
     (\<forall>(c, t) \<in> {(''observation_candidate_id'', ''observation_candidate''), (''card_identity_id'', ''card_identity''),
        (''shop_id'', ''shop''), (''source_id'', ''source''), (''raw_artifact_id'', ''raw_artifact'')}.
        cell p c = VNull \<or> cell p c \<in> ids db t)"
proof -
  have ex: "list_ex (\<lambda>s. cell s ''id'' = v) (rows_of db t) \<longleftrightarrow> v \<in> ids db t" for v t
    by (auto simp: list_ex_iff ids_def)
  show ?thesis
    by (simp add: fk_ok_def t_price_observation_def cell_bind observation_spec_def ex)
qed

lemma clash_obs:
  "clash [c] (bind_row spec p) s \<longleftrightarrow> cell (bind_row spec p) c \<noteq> VNull \<and> cell s c = cell (bind_row spec p) c"
  by (auto simp: clash_def cells_def)

lemma lowest_id_ok:
  assumes "store_ok metadata db" "t \<in> set metadata" "Col ''id'' Big_int False x \<in> set (tbl_columns t)"
    "rows_of db (tbl_name t) \<noteq> []"
  shows "\<exists>n. lowest_id db (tbl_name t) = Some (VInt n) \<and> VInt n \<in> ids db (tbl_name t) \<and> - (2 ^ 63) \<le> n \<and> n < 2 ^ 63"
proof -
  let ?rs = "rows_of db (tbl_name t)"
  obtain n ns where n: "sort (map id_of ?rs) = n # ns"
    using assms(4) by (cases "sort (map id_of ?rs)") (auto dest: arg_cong [where f = set])
  then have "n \<in> set (map id_of ?rs)"
    by (metis list.set_intros(1) set_sort)
  then obtain r where r: "r \<in> set ?rs" "n = id_of r" by auto
  with assms(1,2) have ok: "types_ok t r" "not_null_ok t r"
    by (auto simp: store_ok_def table_ok_def)
  with assms(3) have "type_ok Big_int (cell r ''id'')" "cell r ''id'' \<noteq> VNull"
    by (auto simp: types_ok_def not_null_ok_def list_all_iff)
  then have c: "cell r ''id'' = VInt n \<and> - (2 ^ 63) \<le> n \<and> n < 2 ^ 63"
    by (cases "cell r ''id''") (auto simp: r(2) id_of_def)
  moreover have "lowest_id db (tbl_name t) = Some (VInt n)"
    by (simp add: lowest_id_def n)
  moreover have "cell r ''id'' \<in> ids db (tbl_name t)"
    using r(1) by (simp add: ids_def)
  ultimately show ?thesis by auto
qed

text \<open>A store on which the probe rows are valid: parents present, sources, shops and cards there.\<close>

definition probe_ready :: "probe_args \<Rightarrow> store \<Rightarrow> bool" where
  "probe_ready a db \<longleftrightarrow>
     batch_args probe_writer 1 1 (pa_cards a) (pa_now a) (lit ''probe'') \<and> 0 \<le> pa_offset a \<and> pa_offset a < 1000000000 \<and>
     store_ok metadata db \<and> batch_refs (pa_cards a) db \<and>
     rows_of db ''observation_candidate'' \<noteq> [] \<and> rows_of db ''raw_artifact'' \<noteq> []"

lemma run_offset_range: "0 \<le> run_offset clock" "run_offset clock < 1000000000"
  using pos_mod_bound [of 100000 clock] pos_mod_sign [of 100000 clock] by (simp_all add: run_offset_def)

lemma probe_batch_row:
  "hd (dict_get (build_batch w 1 1 cards ob tag) ''price_observation'' []) = batch_observation w 1 cards ob 0"
  by (simp add: build_batch_def dict_get_def py_range_def)

lemma batch_observation_row:
  "row_ok t_price_observation (bind_row observation_spec (batch_observation w s cards ob i))"
  if "batch_args w s n cards ob tag" "0 \<le> i" "i < n"
  using batch_observation_ok [OF that] by (simp add: spec_of_simps)

lemma probe_fks:
  assumes "batch_refs cards db" "0 < cards"
  shows "cell (batch_observation w s cards ob i) ''card_identity_id'' \<in> ids db ''card_identity''"
    "cell (batch_observation w s cards ob i) ''shop_id'' \<in> ids db ''shop''"
    "cell (batch_observation w s cards ob i) ''source_id'' \<in> ids db ''source''"
proof -
  have "VInt (batch_source w s) \<in> VInt ` {1..4}"
    using batch_source_range [of w s] by (intro imageI) simp
  then show "cell (batch_observation w s cards ob i) ''shop_id'' \<in> ids db ''shop''"
    "cell (batch_observation w s cards ob i) ''source_id'' \<in> ids db ''source''"
    using assms(1) by (auto simp: batch_observation_def cell_def Let_def batch_refs_def)
  have "VText (card_uuid (batch_card r cards)) \<in> (\<lambda>i. VText (card_uuid i)) ` {0..<cards}" for r
    using assms(2) by (intro imageI) (simp add: batch_card_def)
  then show "cell (batch_observation w s cards ob i) ''card_identity_id'' \<in> ids db ''card_identity''"
    using assms(1) by (auto simp: batch_observation_def cell_def Let_def batch_refs_def)
qed

text \<open>What every probe row is, before its overrides.\<close>

definition probe_row_ok :: "store \<Rightarrow> pystr \<Rightarrow> int \<Rightarrow> row \<Rightarrow> bool" where
  "probe_row_ok db key oid p \<longleftrightarrow>
     row_ok t_price_observation (bind_row observation_spec p) \<and> fk_ok db t_price_observation (bind_row observation_spec p) \<and>
     cell p ''id'' = VInt oid \<and> cell p ''idempotency_key'' = VText key \<and>
     (\<exists>n. cell p ''amount_minor'' = VInt n \<and> 0 \<le> n \<and> n < 2 ^ 62)"

lemma override_append: "override_row (xs @ ys) r = override_row ys (override_row xs r)"
  by (induction xs r rule: override_row.induct) auto

lemma required_cases:
  "(c, ty) \<in> set obs_required \<longleftrightarrow>
     (c, ty) \<in> {(''id'', Big_int), (''observation_candidate_id'', Big_int), (''card_identity_id'', Uuid),
     (''shop_id'', Small_int), (''source_id'', Small_int), (''raw_artifact_id'', Big_int), (''tcg'', Varchar 32),
     (''amount_minor'', Big_int), (''currency'', Char_n 3), (''price_type'', Varchar 16), (''card_condition'', Varchar 16),
     (''observed_at'', Timestamp), (''collected_at'', Timestamp), (''idempotency_key'', Varchar 120), (''created_at'', Timestamp)}"
  by (simp add: obs_required_def t_price_observation_def)

text \<open>A column outside the CHECK constraints may take any value of its type.\<close>

lemma obs_set_ok:
  assumes "row_ok t_price_observation (bind_row observation_spec p)"
    "c \<noteq> ''amount_minor''" "c \<noteq> ''price_type''" "v \<noteq> VNull" "\<forall>ty. (c, ty) \<in> set obs_required \<longrightarrow> type_ok ty v"
  shows "row_ok t_price_observation (bind_row observation_spec (set_cell c v p))"
  unfolding obs_row_ok
proof (intro conjI ballI)
  fix x assume x: "x \<in> set obs_required"
  obtain d ty where d: "x = (d, ty)" by (rule prod.exhaust)
  show "case x of (d, ty) \<Rightarrow> type_ok ty (cell (set_cell c v p) d) \<and> cell (set_cell c v p) d \<noteq> VNull"
    using assms(1,4,5) x unfolding obs_row_ok d by (auto simp: cell_set_cell)
qed (use assms(1-3) in \<open>simp_all add: obs_row_ok cell_set_cell\<close>)

lemma obs_set_amount:
  assumes "row_ok t_price_observation (bind_row observation_spec p)" "0 \<le> n" "n < 2 ^ 63"
  shows "row_ok t_price_observation (bind_row observation_spec (set_cell ''amount_minor'' (VInt n) p))"
  unfolding obs_row_ok
proof (intro conjI ballI)
  fix x assume x: "x \<in> set obs_required"
  obtain d ty where d: "x = (d, ty)" by (rule prod.exhaust)
  show "case x of (d, ty) \<Rightarrow> type_ok ty (cell (set_cell ''amount_minor'' (VInt n) p) d) \<and>
      cell (set_cell ''amount_minor'' (VInt n) p) d \<noteq> VNull"
  proof (cases "d = ''amount_minor''")
    case True
    with x d have "ty = Big_int" by (simp add: required_cases)
    with True d assms(2,3) show ?thesis by (simp add: cell_set_cell)
  next
    case False
    with x d assms(1) show ?thesis unfolding obs_row_ok by (auto simp: cell_set_cell)
  qed
qed (use assms in \<open>simp_all add: obs_row_ok cell_set_cell\<close>)

lemma observation_row_ready:
  assumes "probe_ready a db" "length key \<le> 120" "0 \<le> oid" "oid < 2 ^ 63"
  shows "\<exists>p. (\<forall>ov. observation_row a db key oid ov = Some (override_row ov p)) \<and> probe_row_ok db key oid p"
proof -
  note ready = assms(1) [unfolded probe_ready_def]
  obtain c where c: "lowest_id db ''observation_candidate'' = Some (VInt c)" "VInt c \<in> ids db ''observation_candidate''"
      "- (2 ^ 63) \<le> c" "c < 2 ^ 63"
    using lowest_id_ok [of db t_observation_candidate "Some False"] ready
    by (auto simp: t_observation_candidate_def metadata_def)
  obtain ar where ar: "lowest_id db ''raw_artifact'' = Some (VInt ar)" "VInt ar \<in> ids db ''raw_artifact''"
      "- (2 ^ 63) \<le> ar" "ar < 2 ^ 63"
    using lowest_id_ok [of db t_raw_artifact "Some False"] ready
    by (auto simp: t_raw_artifact_def metadata_def)
  define b where "b = batch_observation probe_writer 1 (pa_cards a) (pa_now a) 0"
  define p where "p = override_row [(''observation_candidate_id'', VInt c), (''raw_artifact_id'', VInt ar),
    (''idempotency_key'', VText key), (''id'', VInt oid)] b"
  have eq: "observation_row a db key oid ov = Some (override_row ov p)" for ov
    unfolding observation_row_def c(1) ar(1) probe_batch_row p_def b_def Let_def
    by (simp add: override_append)
  have b: "row_ok t_price_observation (bind_row observation_spec b)"
    unfolding b_def by (rule batch_observation_row [of _ _ 1 _ _ "lit ''probe''"]) (use ready in simp_all)
  have "row_ok t_price_observation (bind_row observation_spec p)"
    unfolding p_def override_row.simps
    by (intro obs_set_ok b) (use c ar assms in \<open>simp_all add: required_cases\<close>)
  moreover have "fk_ok db t_price_observation (bind_row observation_spec p)"
    unfolding obs_fk_ok using c(2) ar(2) probe_fks [of "pa_cards a" db probe_writer 1 "pa_now a" 0] ready
    by (simp add: p_def b_def cell_set_cell batch_args_def)
  moreover have "cell p ''amount_minor'' = VInt (price_for (runtime_id ''extracted_record'' probe_writer (batch_counter 1 0)))"
    by (simp add: p_def b_def cell_set_cell) (simp add: batch_observation_def Let_def cell_def)
  moreover have "0 \<le> price_for k" "price_for k < 2 ^ 62" for k
    using price_for_range [of k] by simp_all
  ultimately have "probe_row_ok db key oid p"
    unfolding probe_row_ok_def by (simp add: p_def cell_set_cell)
  with eq show ?thesis by blast
qed

lemma obs_name [simp]: "tbl_name t_price_observation = ''price_observation''"
  by (simp add: t_price_observation_def)

lemma obs_keys: "table_keys t_price_observation = [[''id''], [''idempotency_key'']]"
  by (simp add: t_price_observation_def table_keys_def)

definition key_stored :: "store \<Rightarrow> dbval \<Rightarrow> bool" where
  "key_stored db k \<longleftrightarrow> (\<exists>r \<in> set (rows_of db ''price_observation''). cell r ''idempotency_key'' = k)"

lemma bind_obs_cells:
  "cell (bind_row observation_spec p) ''id'' = cell p ''id''"
  "cell (bind_row observation_spec p) ''idempotency_key'' = cell p ''idempotency_key''"
  by (simp_all add: cell_bind observation_spec_def)

lemma obs_clashing:
  assumes "cell p ''id'' \<noteq> VNull" "cell p ''idempotency_key'' \<noteq> VNull"
  shows "clashing_key db t_price_observation (bind_row observation_spec p) =
     (if cell p ''id'' \<in> ids db ''price_observation'' then Some [''id'']
      else if key_stored db (cell p ''idempotency_key'') then Some [''idempotency_key''] else None)"
proof -
  have "list_ex (clash [''id''] (bind_row observation_spec p)) (rows_of db ''price_observation'') \<longleftrightarrow>
      cell p ''id'' \<in> ids db ''price_observation''"
    using assms(1) by (auto simp: list_ex_iff clash_obs bind_obs_cells ids_def intro: rev_image_eqI [OF _ sym])
  moreover have "list_ex (clash [''idempotency_key''] (bind_row observation_spec p)) (rows_of db ''price_observation'') \<longleftrightarrow>
      key_stored db (cell p ''idempotency_key'')"
    using assms(2) by (auto simp: list_ex_iff clash_obs bind_obs_cells key_stored_def)
  ultimately show ?thesis
    by (simp add: clashing_key_def obs_keys)
qed

lemma obs_not_null:
  "row_ok t_price_observation (bind_row observation_spec p) \<Longrightarrow> cell p ''id'' \<noteq> VNull \<and> cell p ''idempotency_key'' \<noteq> VNull"
  by (auto simp: obs_row_ok required_cases)

lemma strict_insert_row:
  assumes "row_ok t_price_observation (bind_row observation_spec p)"
  shows "strict_insert eng p db =
     (if cell p ''id'' \<in> ids db ''price_observation'' then Inl (Duplicate_key [''id''])
      else if key_stored db (cell p ''idempotency_key'') then Inl (Duplicate_key [''idempotency_key''])
      else if fk_ok db t_price_observation (bind_row observation_spec p)
      then Inr (add_row ''price_observation'' (bind_row observation_spec p) db)
      else Inl Foreign_key_violation)"
  using obs_not_null [OF assms] insert_row_good [OF assms]
  by (simp add: strict_insert_def observation_insert_def obs_clashing)

lemma append_one:
  assumes "row_ok t_price_observation (bind_row observation_spec p)"
    "fk_ok db t_price_observation (bind_row observation_spec p)"
    "cell p ''id'' \<notin> ids db ''price_observation''" "\<not> key_stored db (cell p ''idempotency_key'')"
  shows "insert_observations eng True [p] db = Inr (1, add_row ''price_observation'' (bind_row observation_spec p) db)"
proof -
  have "insert_row t_price_observation (bind_row observation_spec p) db =
      Inr (add_row ''price_observation'' (bind_row observation_spec p) db)"
    using insert_row_good(1) [OF assms(1)] obs_not_null [OF assms(1)] assms(2-4) by (simp add: obs_clashing)
  moreover have "\<not> list_ex (clash [''idempotency_key''] (bind_row observation_spec p)) (rows_of db ''price_observation'')"
    using assms(4) by (auto simp: list_ex_iff clash_obs bind_obs_cells key_stored_def)
  ultimately show ?thesis
    by (cases eng) (simp_all add: insert_observations_def observation_insert_def insert_or_skip_def)
qed

lemma append_stored_key:
  assumes "row_ok t_price_observation (bind_row observation_spec p)" "key_stored db (cell p ''idempotency_key'')"
  shows "insert_observations eng True [p] db = Inr (0, db)"
proof -
  obtain cs where "insert_row t_price_observation (bind_row observation_spec p) db = Inl (Duplicate_key cs)"
    using insert_row_good(2) [OF assms(1), of db] obs_not_null [OF assms(1)] assms(2)
    by (cases "cell p ''id'' \<in> ids db ''price_observation''") (auto simp: obs_clashing)
  moreover have "list_ex (clash [''idempotency_key''] (bind_row observation_spec p)) (rows_of db ''price_observation'')"
    using assms obs_not_null [OF assms(1)] by (auto simp: list_ex_iff clash_obs bind_obs_cells key_stored_def)
  ultimately show ?thesis using assms(1)
    by (cases eng) (simp_all add: insert_observations_def observation_insert_def insert_or_skip_def duplicate_raised)
qed

lemma ids_add_row: "ids (add_row t r db) u = (if u = t then insert (cell r ''id'') (ids db u) else ids db u)"
  by (auto simp: ids_def rows_of_add)

lemma key_stored_add:
  "key_stored (add_row ''price_observation'' r db) k \<longleftrightarrow> cell r ''idempotency_key'' = k \<or> key_stored db k"
  by (auto simp: key_stored_def rows_of_add)

lemma count_key_zero: "count_key db k = 0 \<longleftrightarrow> \<not> key_stored db (VText k)"
  by (auto simp: count_key_def key_stored_def filter_empty_conv)

lemma count_key_add:
  "count_key (add_row ''price_observation'' r db) k =
     count_key db k + (if cell r ''idempotency_key'' = VText k then 1 else 0)"
  by (simp add: count_key_def rows_of_add)

definition probe_ids_free :: "int list \<Rightarrow> store \<Rightarrow> bool" where
  "probe_ids_free ns db \<longleftrightarrow> (\<forall>n \<in> set ns. VInt n \<notin> ids db ''price_observation'')"

lemma probe_base_value: "probe_base w off = 7000000000000 + w * 10000000000 + off"
  by (simp add: probe_base_def id_base_values writer_stride_def)

text \<open>The same key appended twice is stored once, and the strict insert names the unique key.\<close>

lemma sequential_passes:
  assumes "probe_ready a db" "length key \<le> 120" "\<not> key_stored db (VText key)"
    "probe_ids_free [probe_base probe_writer (pa_offset a) + 1, probe_base probe_writer (pa_offset a) + 2] db"
    "integrity (Duplicate_key [''idempotency_key''])"
  shows "\<exists>p. probe_row_ok db key (probe_base probe_writer (pa_offset a) + 1) p \<and>
     check_idempotent_sequential integrity a key db =
       (Inr \<lparr>sr_rows = 1,
             sr_strict = Some (error_signature (raised (pa_engine a) (Duplicate_key [''idempotency_key'']))),
             sr_pass = True\<rparr>,
        add_row ''price_observation'' (bind_row observation_spec p) db)"
proof -
  let ?b = "probe_base probe_writer (pa_offset a)"
  have range: "0 \<le> ?b + 1" "?b + 1 < 2 ^ 63" "0 \<le> ?b + 2" "?b + 2 < 2 ^ 63"
    using assms(1) by (simp_all add: probe_ready_def probe_base_value probe_writer_def)
  obtain p where p: "\<forall>ov. observation_row a db key (?b + 1) ov = Some (override_row ov p)" "probe_row_ok db key (?b + 1) p"
    using observation_row_ready [OF assms(1,2) range(1,2)] by blast
  obtain q where q: "\<forall>ov. observation_row a db key (?b + 2) ov = Some (override_row ov q)" "probe_row_ok db key (?b + 2) q"
    using observation_row_ready [OF assms(1,2) range(3,4)] by blast
  define db1 where "db1 = add_row ''price_observation'' (bind_row observation_spec p) db"
  define q' where "q' = override_row [(''amount_minor'', VInt (num p ''amount_minor'' + 10))] q"
  have num: "0 \<le> num p ''amount_minor''" "num p ''amount_minor'' < 2 ^ 62"
    using p(2) by (auto simp: probe_row_ok_def num_def)
  have q': "row_ok t_price_observation (bind_row observation_spec q')" "cell q' ''id'' = VInt (?b + 2)"
      "cell q' ''idempotency_key'' = VText key"
    using q(2) num unfolding q'_def override_row.simps probe_row_ok_def
    by (auto simp: cell_set_cell intro!: obs_set_amount)
  have one: "insert_observations eng True [p] db = Inr (1, db1)" for eng
    unfolding db1_def by (rule append_one) (use p(2) assms(3,4) in \<open>simp_all add: probe_row_ok_def probe_ids_free_def\<close>)
  have key: "key_stored db1 (VText key)"
    using p(2) by (simp add: db1_def key_stored_add bind_obs_cells probe_row_ok_def)
  have two: "insert_observations eng True [q'] db1 = Inr (0, db1)" for eng
    by (rule append_stored_key) (use q' key in simp_all)
  have "VInt (?b + 2) \<notin> ids db1 ''price_observation''"
    using p(2) assms(4) by (simp add: db1_def ids_add_row bind_obs_cells probe_row_ok_def probe_ids_free_def)
  then have three: "strict_insert eng q' db1 = Inl (Duplicate_key [''idempotency_key''])" for eng
    using q' key by (simp add: strict_insert_row)
  have "count_key db1 key = 1"
    using p(2) assms(3) by (simp add: db1_def count_key_add bind_obs_cells probe_row_ok_def flip: count_key_zero)
  then have "check_idempotent_sequential integrity a key db =
       (Inr \<lparr>sr_rows = 1, sr_strict = Some (error_signature (raised (pa_engine a) (Duplicate_key [''idempotency_key'']))),
             sr_pass = True\<rparr>, db1)"
    using assms(5)
    by (simp add: check_idempotent_sequential_def p(1) q(1) get_row_def run_tx_def transaction_def one two three
        q'_def [symmetric, simplified])
  with p(2) show ?thesis unfolding db1_def by blast
qed

definition rejected :: "engine \<Rightarrow> sql_error \<Rightarrow> case_report" where
  "rejected eng e = \<lparr>cr_error = Some (error_signature (raised eng e)), cr_canary = 0, cr_pass = True\<rparr>"

lemma run_case_rejected:
  fixes a name a_fresh index
  defines "ck \<equiv> a_fresh (''poc-canary-'' @ name)" and "bk \<equiv> a_fresh (''poc-bad-'' @ name)"
    and "b \<equiv> probe_base probe_writer (pa_offset a) + 100 + index * 10"
  assumes "probe_ready a db" "0 \<le> index" "index < 100"
    "length ck \<le> 120" "length bk \<le> 120" "ck \<noteq> bk" "\<not> key_stored db (VText ck)" "\<not> key_stored db (VText bk)"
    "probe_ids_free [b + 1, b + 2] db"
    "\<And>p db1. probe_row_ok db bk (b + 2) p \<Longrightarrow> VInt (b + 2) \<notin> ids db1 ''price_observation'' \<Longrightarrow>
       \<not> key_stored db1 (VText bk) \<Longrightarrow> (\<And>k. key_stored db k \<Longrightarrow> key_stored db1 k) \<Longrightarrow>
       (\<And>t. t \<noteq> ''price_observation'' \<Longrightarrow> ids db1 t = ids db t) \<Longrightarrow>
       strict_insert (pa_engine a) (override_row ov p) db1 = Inl e"
  shows "run_case a a_fresh index name ov db = (Inr (rejected (pa_engine a) e), db)"
proof -
  have range: "0 \<le> b + 1" "b + 1 < 2 ^ 63" "0 \<le> b + 2" "b + 2 < 2 ^ 63"
    using assms(4-6) by (simp_all add: b_def probe_ready_def probe_base_value probe_writer_def)
  obtain p where p: "\<forall>ov. observation_row a db ck (b + 1) ov = Some (override_row ov p)" "probe_row_ok db ck (b + 1) p"
    using observation_row_ready [OF assms(4,7) range(1,2)] by blast
  obtain q where q: "\<forall>ov. observation_row a db bk (b + 2) ov = Some (override_row ov q)" "probe_row_ok db bk (b + 2) q"
    using observation_row_ready [OF assms(4,8) range(3,4)] by blast
  define db1 where "db1 = add_row ''price_observation'' (bind_row observation_spec p) db"
  have one: "strict_insert (pa_engine a) p db = Inr db1"
    using p(2) assms(10,12) strict_insert_row [of p "pa_engine a" db]
    by (simp add: probe_row_ok_def probe_ids_free_def db1_def)
  have two: "strict_insert (pa_engine a) (override_row ov q) db1 = Inl e"
  proof (rule assms(13) [OF q(2)])
    show "VInt (b + 2) \<notin> ids db1 ''price_observation''"
      using p(2) assms(12) by (simp add: db1_def ids_add_row bind_obs_cells probe_row_ok_def probe_ids_free_def)
    show "\<not> key_stored db1 (VText bk)"
      using p(2) assms(9,11) by (simp add: db1_def key_stored_add bind_obs_cells probe_row_ok_def)
  qed (simp_all add: db1_def key_stored_add ids_add_row)
  have "count_key db ck = 0"
    using assms(10) by (simp add: count_key_zero)
  then show ?thesis
    unfolding run_case_def Let_def ck_def [symmetric] bk_def [symmetric] b_def [symmetric]
    using p(1) q(1) one two
    by (simp add: get_row_def canary_then_bad_def transaction_def rejected_def)
qed

lemma strict_not_null:
  assumes "probe_row_ok db k oid p"
  shows "strict_insert eng (override_row [(''currency'', VNull)] p) db1 = Inl Not_null_violation"
proof -
  let ?r = "bind_row observation_spec (set_cell ''currency'' VNull p)"
  have ok: "types_ok t_price_observation (bind_row observation_spec p)"
    using assms by (simp add: probe_row_ok_def row_ok_def)
  then have "types_ok t_price_observation ?r"
    by (simp add: types_ok_def t_price_observation_def cell_bind cell_set_cell observation_spec_def)
  moreover have "\<not> not_null_ok t_price_observation ?r"
    by (simp add: not_null_ok_def t_price_observation_def cell_bind cell_set_cell observation_spec_def)
  ultimately show ?thesis
    by (simp add: strict_insert_def observation_insert_def insert_row_def)
qed

lemma strict_check:
  assumes "probe_row_ok db k oid p" "ov = (''amount_minor'', VInt (- 1)) \<or> ov = (''price_type'', VText (lit ''auction''))"
  shows "strict_insert eng (override_row [ov] p) db1 = Inl Check_violation"
proof -
  let ?r = "bind_row observation_spec (override_row [ov] p)"
  have ok: "types_ok t_price_observation (bind_row observation_spec p)" "not_null_ok t_price_observation (bind_row observation_spec p)"
    using assms by (simp_all add: probe_row_ok_def row_ok_def)
  have "types_ok t_price_observation ?r"
    using ok(1) assms(2)
    by (elim disjE) (simp_all add: types_ok_def t_price_observation_def cell_bind cell_set_cell observation_spec_def lit_def)
  moreover have "not_null_ok t_price_observation ?r"
    using ok(2) assms(2)
    by (elim disjE) (simp_all add: not_null_ok_def t_price_observation_def cell_bind cell_set_cell observation_spec_def)
  moreover have "\<not> checks_ok t_price_observation ?r"
    using assms(2)
    by (elim disjE) (simp_all add: checks_ok_def t_price_observation_def cell_bind cell_set_cell observation_spec_def lit_distinct)
  ultimately show ?thesis
    by (simp add: strict_insert_def observation_insert_def insert_row_def)
qed

lemma strict_foreign_key:
  assumes "probe_row_ok db k oid p" "length uid = 36" "VText uid \<notin> ids db ''card_identity''"
    "VInt oid \<notin> ids db1 ''price_observation''" "\<not> key_stored db1 (VText k)"
    "\<And>t. t \<noteq> ''price_observation'' \<Longrightarrow> ids db1 t = ids db t"
  shows "strict_insert eng (override_row [(''card_identity_id'', VText uid)] p) db1 = Inl Foreign_key_violation"
proof -
  let ?q = "set_cell ''card_identity_id'' (VText uid) p"
  have "row_ok t_price_observation (bind_row observation_spec ?q)"
    using assms(1,2) by (intro obs_set_ok) (simp_all add: probe_row_ok_def required_cases)
  moreover have "\<not> fk_ok db1 t_price_observation (bind_row observation_spec ?q)"
    unfolding obs_fk_ok using assms(3,6) by (simp add: cell_set_cell)
  moreover have "cell ?q ''id'' = VInt oid" "cell ?q ''idempotency_key'' = VText k"
    using assms(1) by (simp_all add: cell_set_cell probe_row_ok_def)
  ultimately show ?thesis
    using assms(4,5) by (simp add: strict_insert_row)
qed

lemma strict_duplicate:
  assumes "probe_row_ok db k oid p" "length s \<le> 120" "key_stored db1 (VText s)" "VInt oid \<notin> ids db1 ''price_observation''"
  shows "strict_insert eng (override_row [(''idempotency_key'', VText s)] p) db1 = Inl (Duplicate_key [''idempotency_key''])"
proof -
  let ?q = "set_cell ''idempotency_key'' (VText s) p"
  have "row_ok t_price_observation (bind_row observation_spec ?q)"
    using assms(1,2) by (intro obs_set_ok) (simp_all add: probe_row_ok_def required_cases)
  moreover have "cell ?q ''id'' = VInt oid" "cell ?q ''idempotency_key'' = VText s"
    using assms(1) by (simp_all add: cell_set_cell probe_row_ok_def)
  ultimately show ?thesis
    using assms(3,4) by (simp add: strict_insert_row)
qed

text \<open>The constraint each case must run into.\<close>

definition case_errors :: "(string \<times> sql_error) list" where
  "case_errors =
     [(''not_null_currency'', Not_null_violation), (''check_negative_amount'', Check_violation),
      (''check_price_type'', Check_violation), (''foreign_key_card'', Foreign_key_violation),
      (''unique_idempotency_key'', Duplicate_key [''idempotency_key''])]"

definition case_keys :: "string list" where
  "case_keys = concat (map (\<lambda>(n, _). [''poc-canary-'' @ n, ''poc-bad-'' @ n]) case_errors) @ [''poc-zero'']"

text \<open>Keys, identifiers and a card that are new to the store.\<close>

definition probes_fresh :: "probe_args \<Rightarrow> (string \<Rightarrow> pystr) \<Rightarrow> pystr \<Rightarrow> store \<Rightarrow> bool" where
  "probes_fresh a fresh uid db \<longleftrightarrow>
     distinct (map fresh case_keys) \<and>
     (\<forall>n \<in> set case_keys. length (fresh n) \<le> 120 \<and> \<not> key_stored db (VText (fresh n))) \<and>
     (\<forall>i \<in> {0..1000}. VInt (probe_base probe_writer (pa_offset a) + 100 + i) \<notin> ids db ''price_observation'') \<and>
     length uid = 36 \<and> VText uid \<notin> ids db ''card_identity''"

lemma first_key_ok:
  assumes "store_ok metadata db" "rows_of db ''price_observation'' \<noteq> []"
  shows "\<exists>s. first_key db = Some (VText s) \<and> length s \<le> 120 \<and> key_stored db (VText s)"
proof -
  let ?rs = "rows_of db ''price_observation''"
  obtain r rs where r: "sort_key id_of ?rs = r # rs"
    using assms(2) by (cases "sort_key id_of ?rs") (auto dest: arg_cong [where f = set])
  then have mem: "r \<in> set ?rs"
    by (metis list.set_intros(1) set_sort)
  then have "row_ok t_price_observation r"
    using assms(1) price_observation_in_metadata by (auto simp: store_ok_def table_ok_def row_ok_def)
  then have "type_ok (Varchar 120) (cell r ''idempotency_key'')" "cell r ''idempotency_key'' \<noteq> VNull"
    by (simp_all add: row_ok_def types_ok_def not_null_ok_def t_price_observation_def)
  then obtain s where "cell r ''idempotency_key'' = VText s" "length s \<le> 120"
    by (cases "cell r ''idempotency_key''") auto
  with r mem show ?thesis
    by (auto simp: first_key_def key_stored_def)
qed

lemma fresh_case:
  assumes "probes_fresh a fresh uid db" "n \<in> fst ` set case_errors" "0 \<le> i" "i < 5"
  shows "length (fresh (''poc-canary-'' @ n)) \<le> 120" "length (fresh (''poc-bad-'' @ n)) \<le> 120"
    "fresh (''poc-canary-'' @ n) \<noteq> fresh (''poc-bad-'' @ n)"
    "\<not> key_stored db (VText (fresh (''poc-canary-'' @ n)))" "\<not> key_stored db (VText (fresh (''poc-bad-'' @ n)))"
    "probe_ids_free [probe_base probe_writer (pa_offset a) + 100 + i * 10 + 1,
       probe_base probe_writer (pa_offset a) + 100 + i * 10 + 2] db"
proof -
  have mem: "''poc-canary-'' @ n \<in> set case_keys" "''poc-bad-'' @ n \<in> set case_keys"
    using assms(2) by (force simp: case_keys_def)+
  then show "length (fresh (''poc-canary-'' @ n)) \<le> 120" "length (fresh (''poc-bad-'' @ n)) \<le> 120"
    "\<not> key_stored db (VText (fresh (''poc-canary-'' @ n)))" "\<not> key_stored db (VText (fresh (''poc-bad-'' @ n)))"
    using assms(1) by (simp_all add: probes_fresh_def)
  have "inj_on fresh (set case_keys)"
    using assms(1) by (simp add: probes_fresh_def distinct_map)
  moreover have "''poc-canary-'' @ n \<noteq> ''poc-bad-'' @ n" by simp
  ultimately show "fresh (''poc-canary-'' @ n) \<noteq> fresh (''poc-bad-'' @ n)"
    using mem by (meson inj_onD)
  have "\<forall>j \<in> {0..1000}. VInt (probe_base probe_writer (pa_offset a) + 100 + j) \<notin> ids db ''price_observation''"
    using assms(1) by (simp add: probes_fresh_def)
  from this [rule_format, of "i * 10 + 1"] this [rule_format, of "i * 10 + 2"] assms(3,4)
  show "probe_ids_free [probe_base probe_writer (pa_offset a) + 100 + i * 10 + 1,
       probe_base probe_writer (pa_offset a) + 100 + i * 10 + 2] db"
    by (simp add: probe_ids_free_def add.assoc)
qed

lemma cases_rejected:
  assumes "probe_ready a db" "probes_fresh a fresh uid db" "length s \<le> 120" "key_stored db (VText s)"
  shows "run_cases a fresh 0 (bad_cases uid (VText s)) db =
     (Inr (map (\<lambda>(n, e). (n, rejected (pa_engine a) e)) case_errors), db)"
proof -
  have u: "length uid = 36" "VText uid \<notin> ids db ''card_identity''"
    using assms(2) by (simp_all add: probes_fresh_def)
  note f = fresh_case [OF assms(2)]
  have one: "run_case a fresh i n ov db = (Inr (rejected (pa_engine a) e), db)"
    if "n \<in> fst ` set case_errors" "0 \<le> i" "i < 5"
      "\<And>p db1. probe_row_ok db (fresh (''poc-bad-'' @ n)) (probe_base probe_writer (pa_offset a) + 100 + i * 10 + 2) p \<Longrightarrow>
         VInt (probe_base probe_writer (pa_offset a) + 100 + i * 10 + 2) \<notin> ids db1 ''price_observation'' \<Longrightarrow>
         \<not> key_stored db1 (VText (fresh (''poc-bad-'' @ n))) \<Longrightarrow> (\<And>k. key_stored db k \<Longrightarrow> key_stored db1 k) \<Longrightarrow>
         (\<And>t. t \<noteq> ''price_observation'' \<Longrightarrow> ids db1 t = ids db t) \<Longrightarrow>
         strict_insert (pa_engine a) (override_row ov p) db1 = Inl e" for i n ov e
    by (rule run_case_rejected) (use assms(1) f [OF that(1-3)] that in \<open>simp_all del: append.simps\<close>)
  have "run_case a fresh 0 ''not_null_currency'' [(''currency'', VNull)] db = (Inr (rejected (pa_engine a) Not_null_violation), db)"
    by (rule one) (simp_all add: case_errors_def del: override_row.simps add: strict_not_null)
  moreover have "run_case a fresh 1 ''check_negative_amount'' [(''amount_minor'', VInt (- 1))] db =
      (Inr (rejected (pa_engine a) Check_violation), db)"
    by (rule one) (simp_all add: case_errors_def del: override_row.simps add: strict_check)
  moreover have "run_case a fresh 2 ''check_price_type'' [(''price_type'', VText (lit ''auction''))] db =
      (Inr (rejected (pa_engine a) Check_violation), db)"
    by (rule one) (simp_all add: case_errors_def del: override_row.simps add: strict_check)
  moreover have "run_case a fresh 3 ''foreign_key_card'' [(''card_identity_id'', VText uid)] db =
      (Inr (rejected (pa_engine a) Foreign_key_violation), db)"
    by (rule one, simp add: case_errors_def, simp, simp, rule strict_foreign_key [OF _ u]) assumption+
  moreover have "run_case a fresh 4 ''unique_idempotency_key'' [(''idempotency_key'', VText s)] db =
      (Inr (rejected (pa_engine a) (Duplicate_key [''idempotency_key''])), db)"
    by (rule one, simp add: case_errors_def, simp, simp, rule strict_duplicate [OF _ assms(3)]) (auto intro: assms(4))
  ultimately show ?thesis
    by (simp add: bad_cases_def case_errors_def)
qed

lemma zero_price_accepted:
  assumes "probe_ready a db" "probes_fresh a fresh uid db"
  shows "\<exists>r. zero_price_case a fresh db = (Inr 1, add_row ''price_observation'' r db) \<and> cell r ''amount_minor'' = VInt 0"
proof -
  let ?k = "fresh ''poc-zero''" and ?oid = "probe_base probe_writer (pa_offset a) + 100 + 900"
  have mem: "''poc-zero'' \<in> set case_keys" by (simp add: case_keys_def)
  have k: "length ?k \<le> 120" "\<not> key_stored db (VText ?k)"
    using assms(2) mem by (simp_all add: probes_fresh_def)
  have "\<forall>i \<in> {0..1000}. VInt (probe_base probe_writer (pa_offset a) + 100 + i) \<notin> ids db ''price_observation''"
    using assms(2) by (simp add: probes_fresh_def)
  then have "VInt ?oid \<notin> ids db ''price_observation''"
    by (rule bspec) simp
  moreover have range: "0 \<le> ?oid" "?oid < 2 ^ 63"
    using assms(1) by (simp_all add: probe_ready_def probe_base_value probe_writer_def)
  obtain p where p: "\<forall>ov. observation_row a db ?k ?oid ov = Some (override_row ov p)" "probe_row_ok db ?k ?oid p"
    using observation_row_ready [OF assms(1) k(1) range] by blast
  define q where "q = set_cell ''amount_minor'' (VInt 0) p"
  have q: "row_ok t_price_observation (bind_row observation_spec q)" "fk_ok db t_price_observation (bind_row observation_spec q)"
      "cell q ''id'' = VInt ?oid" "cell q ''idempotency_key'' = VText ?k"
    using p(2) unfolding q_def by (auto simp: probe_row_ok_def obs_fk_ok cell_set_cell intro!: obs_set_amount)
  ultimately have ins: "strict_insert (pa_engine a) q db = Inr (add_row ''price_observation'' (bind_row observation_spec q) db)"
    using k(2) by (simp add: strict_insert_row)
  have "count_key db ?k = 0" using k(2) by (simp add: count_key_zero)
  then have "count_key (add_row ''price_observation'' (bind_row observation_spec q) db) ?k = 1"
    using q(4) by (simp add: count_key_add bind_obs_cells)
  moreover have "cell (bind_row observation_spec q) ''amount_minor'' = VInt 0"
    by (simp add: cell_bind observation_spec_def q_def cell_set_cell)
  ultimately show ?thesis
    using p(1) ins by (auto simp: zero_price_case_def Let_def get_row_def run_tx_def transaction_def q_def)
qed

lemma constraints_pass:
  assumes "probe_ready a db" "probes_fresh a fresh uid db" "rows_of db ''price_observation'' \<noteq> []"
  shows "\<exists>r. check_constraints a fresh uid db =
       (Inr (map (\<lambda>(n, e). (n, rejected (pa_engine a) e)) case_errors, True), add_row ''price_observation'' r db) \<and>
     cell r ''amount_minor'' = VInt 0"
proof -
  have "store_ok metadata db" using assms(1) by (simp add: probe_ready_def)
  from first_key_ok [OF this assms(3)] obtain s where s: "first_key db = Some (VText s)" "length s \<le> 120" "key_stored db (VText s)"
    by blast
  obtain r where r: "zero_price_case a fresh db = (Inr 1, add_row ''price_observation'' r db)" "cell r ''amount_minor'' = VInt 0"
    using zero_price_accepted [OF assms(1,2)] by blast
  have "list_all (\<lambda>(_, r). cr_pass r) (map (\<lambda>(n, e). (n, rejected (pa_engine a) e)) case_errors)"
    by (simp add: case_errors_def rejected_def)
  then have "check_constraints a fresh uid db =
       (Inr (map (\<lambda>(n, e). (n, rejected (pa_engine a) e)) case_errors, True), add_row ''price_observation'' r db)"
    unfolding check_constraints_def s(1) option.case cases_rejected [OF assms(1,2) s(2,3)] then_state.simps r(1)
    by simp
  with r(2) show ?thesis by blast
qed

lemma batch_written_observations:
  "rows_of (batch_written b db) ''price_observation'' =
     rows_of db ''price_observation'' @ map (bind_row observation_spec) (dict_get b ''price_observation'' [])"
  by (simp add: batch_written_def batch_tables_def add_bound_def rows_of_add_rows spec_of_simps)

text \<open>The snapshot check passes exactly at REPEATABLE READ, on both products.\<close>

lemma snapshot_decides:
  fixes a db
  defines "b \<equiv> build_batch probe_writer (next_sequence db probe_writer + 1) 5 (pa_cards a) (pa_now a) (lit ''snapshot'')"
  assumes "batch_args probe_writer (next_sequence db probe_writer + 1) 5 (pa_cards a) (pa_now a) (lit ''snapshot'')"
    "store_ok metadata db" "batch_refs (pa_cards a) db" "batch_fresh db b"
  shows "\<exists>r db'. check_as_of_snapshot level a db = (Inr r, db') \<and> store_ok metadata db' \<and>
     sn_after r = sn_first r + 5 \<and> (sn_pass r \<longleftrightarrow> level = Repeatable_read)"
proof -
  have w: "write_batch (pa_engine a) b True db = Inr (batch_counts b, batch_written b db)" "store_ok metadata (batch_written b db)"
    using write_batch_fresh [OF assms(2-4), of "pa_engine a"] assms(5) by (simp_all add: b_def)
  have five: "dict_get b ''price_observation'' [] = map (batch_observation probe_writer (next_sequence db probe_writer + 1)
      (pa_cards a) (pa_now a)) (py_range 5)"
    by (simp add: b_def build_batch_def dict_get_def)
  have c: "count_observations (batch_written b db) = count_observations db + 5"
    by (simp add: count_observations_def batch_written_observations five py_range_length)
  show ?thesis
    using w(2) unfolding check_as_of_snapshot_def Let_def b_def [symmetric]
    by (cases level) (simp_all add: run_tx_def w(1) transaction_def c visible_def)
qed

text \<open>A Worker session can switch the foreign keys off on MariaDB and cannot on PostgreSQL.\<close>

lemma bypass_depends_on_product:
  assumes "probe_ready a db" "length key \<le> 120" "\<not> key_stored db (VText key)" "length uid = 36"
    "VInt (probe_base probe_writer (pa_offset a) + 777) \<notin> ids db ''price_observation''" "role \<noteq> ''cp_admin''"
  shows "check_cannot_disable role a key uid db = (pa_engine a = Mariadb, pa_engine a = Postgres)"
proof -
  let ?oid = "probe_base probe_writer (pa_offset a) + 777"
  have range: "0 \<le> ?oid" "?oid < 2 ^ 63"
    using assms(1) by (simp_all add: probe_ready_def probe_base_value probe_writer_def)
  obtain p where p: "\<forall>ov. observation_row a db key ?oid ov = Some (override_row ov p)" "probe_row_ok db key ?oid p"
    using observation_row_ready [OF assms(1,2) range] by blast
  define q where "q = set_cell ''card_identity_id'' (VText uid) p"
  have q: "row_ok t_price_observation (bind_row observation_spec q)"
    unfolding q_def using p(2) assms(4) by (intro obs_set_ok) (simp_all add: probe_row_ok_def required_cases)
  have "cell q ''id'' = VInt ?oid" "cell q ''idempotency_key'' = VText key"
    using p(2) by (simp_all add: q_def cell_set_cell probe_row_ok_def)
  then have "clashing_key db t_price_observation (bind_row observation_spec q) = None"
    using assms(3,5) by (simp add: obs_clashing)
  then have "\<exists>d. insert_unchecked q db = Inr d"
    using q by (simp add: insert_unchecked_def copy_row_def row_ok_def)
  then show ?thesis
    using p(1) assms(6)
    by (cases "pa_engine a") (auto simp: check_cannot_disable_def may_disable_checks_def q_def)
qed

lemma run_selected_none:
  "(\<And>n. n \<in> fst ` set checks \<Longrightarrow> \<not> selected only n) \<Longrightarrow> run_selected only checks db = ([], db)"
  by (induction only checks db rule: run_selected.induct) auto

lemma run_selected_names:
  "map fst (fst (run_selected only checks db)) = filter (selected only) (map fst checks)"
  by (induction only checks db rule: run_selected.induct) (auto split: prod.split)

subsection \<open>The example store\<close>

definition example_args_of :: "engine \<Rightarrow> probe_args" where
  "example_args_of eng = \<lparr>pa_engine = eng, pa_cards = 1, pa_now = micros 700000 0 0 0, pa_offset = run_offset 0\<rparr>"

definition example_fresh :: "string \<Rightarrow> pystr" where
  "example_fresh n = lit n"

definition example_uid :: pystr where
  "example_uid = replicate 36 97"

lemma example_key: "key_stored example_db (VText k) \<Longrightarrow> 124 \<in> set k"
  by (auto simp: key_stored_def example_tables example_observation file_row_def file_columns_of t_price_observation_def
      idempotency_key_def)

lemma batch_written_rows:
  "t \<in> set (batch_tables @ [''price_observation'', ''review_item'']) \<Longrightarrow>
     rows_of (batch_written b db) t = rows_of db t @ map (bind_row (spec_of t)) (dict_get b t [])"
  "t \<notin> set (batch_tables @ [''price_observation'', ''review_item'']) \<Longrightarrow> rows_of (batch_written b db) t = rows_of db t"
  by (auto simp: batch_written_def batch_tables_def add_bound_def rows_of_add_rows)

lemma example_rows:
  "rows_of example_db ''observation_candidate'' \<noteq> []" "rows_of example_db ''raw_artifact'' \<noteq> []"
  "ids example_db ''source'' = VInt ` {1..4}" "ids example_db ''shop'' = VInt ` {1..4}"
  "ids example_db ''card_identity'' = {VText (card_uuid 0)}"
  "rows_of example_db ''review_item'' =
     [bind_row (spec_of ''review_item'') (batch_review 40 1 (micros 700000 0 0 0) 0)]"
proof -
  have p: "py_range 1 = [0]" by code_simp
  show "rows_of example_db ''observation_candidate'' \<noteq> []" "rows_of example_db ''raw_artifact'' \<noteq> []"
    by (simp_all add: example_db_def batch_written_rows batch_tables_def example_batch_def build_batch_def dict_get_def p)
  show "rows_of example_db ''review_item'' =
     [bind_row (spec_of ''review_item'') (batch_review 40 1 (micros 700000 0 0 0) 0)]"
    by (simp add: example_db_def batch_written_rows example_batch_def build_batch_def dict_get_def p
        witness_db_rows seed_dims_rows bulk_tables_def)
  have "ids example_db t = ids witness_db t" if "t \<in> {''source'', ''shop'', ''card_identity''}" for t
    using that by (auto simp: ids_def example_db_def batch_written_rows batch_tables_def)
  then show "ids example_db ''source'' = VInt ` {1..4}" "ids example_db ''shop'' = VInt ` {1..4}"
    "ids example_db ''card_identity'' = {VText (card_uuid 0)}"
    by (simp_all add: witness_db_ids)
qed

lemma example_cards: "VText example_uid \<notin> ids example_db ''card_identity''"
proof -
  have "(45 :: int) \<in> set (card_uuid 0)"
    by (simp add: card_uuid_def uuid5_def uuid_text_def Let_def)
  moreover have "45 \<notin> set example_uid"
    by (simp add: example_uid_def)
  ultimately show ?thesis
    by (auto simp: example_rows)
qed

lemma example_ready: "probe_ready (example_args_of eng) example_db"
proof -
  have "{0..<1} = {0 :: int}" by auto
  then show ?thesis
    by (simp add: probe_ready_def example_args_of_def batch_args_def micros_def records_per_run_def probe_writer_def
        run_offset_def example_ok batch_refs_def example_rows lit_def)
qed

lemma example_probes_fresh: "probes_fresh (example_args_of eng) example_fresh example_uid example_db"
proof -
  have "124 \<notin> set (example_fresh n)" "length (example_fresh n) \<le> 120" if "n \<in> set case_keys" for n
    using that by (auto simp: case_keys_def case_errors_def example_fresh_def lit_def)
  moreover have "distinct (map example_fresh case_keys)"
    by (simp add: case_keys_def case_errors_def example_fresh_def lit_distinct)
  moreover have "VInt (probe_base probe_writer (run_offset 0) + 100 + i) \<notin> ids example_db ''price_observation''"
    if "i \<in> {0..1000}" for i
    using that by (simp add: example_ids probe_base_value probe_writer_def run_offset_def)
  ultimately show ?thesis
    using example_key example_cards by (auto simp: probes_fresh_def example_args_of_def example_uid_def)
qed

subsection \<open>Properties\<close>

text \<open>
  C26: On a store that meets its constraints and holds the parents of a probe, the constraint check of
  either product passes with fresh keys, identifiers and card: every invalid row is rejected by the
  constraint it breaks (NOT NULL, CHECK twice, foreign key, unique key), the valid row written before
  it in the same transaction is gone, and the price of zero is stored.
\<close>

theorem constraints_hold:
  assumes "probe_ready a db" "probes_fresh a fresh uid db" "rows_of db ''price_observation'' \<noteq> []"
  shows "\<exists>r. check_constraints a fresh uid db =
       (Inr (map (\<lambda>(n, e). (n, rejected (pa_engine a) e)) case_errors, True), add_row ''price_observation'' r db) \<and>
     cell r ''amount_minor'' = VInt 0"
  using assms by (rule constraints_pass)

theorem constraints_hold_witness:
  "\<exists>r db. check_constraints (example_args_of Mariadb) example_fresh example_uid example_db = (Inr r, db) \<and> snd r \<and>
     map fst (fst r) = map fst case_errors"
  using constraints_hold [OF example_ready example_probes_fresh, of Mariadb]
  by (auto simp: example_tables comp_def case_prod_beta)

text \<open>A run whose \<open>--only\<close> names no check reports that all checks passed and exits with 0.\<close>

theorem only_unknown_passes:
  assumes "ns \<noteq> []" "set ns \<inter> fst ` set checks = {}"
  shows "integrity_main (Some ns) checks db = ([], True, 0)"
proof -
  have "run_selected (Some ns) checks db = ([], db)"
    using assms by (intro run_selected_none) (auto simp: selected_def)
  then show ?thesis by (simp add: integrity_main_def)
qed

end
