(* ===== verification/Contention.thy ===== *)
theory Contention
  imports Integrity
begin

text \<open>
  scripts/db_poc/dbpoc/integrity.py, the checks with several processes: writers that append one key,
  sessions that decide one review item with optimistic locking, and two workers that lock two rows in
  opposite orders. Each is a step relation; a locale states what makes exactly one process win, and the
  append and the review are interpretations of it.
\<close>

subsection \<open>Processes that meet at a barrier\<close>

text \<open>
  The processes of a check each read, wait at a shared barrier and then run one statement in a
  transaction of their own. A statement and its commit are one step: the row lock or unique index
  entry it takes makes a rival statement wait until the commit, and it then sees what was committed.
  A process may fail before it is done, as the second update does where the server rejects a row that
  changed since the snapshot; the barrier opens only when every process has come to it.
\<close>

datatype 'v stage = Starting | Ready 'v | Finished int | Broken

record 'v race =
  rc_db :: store
  rc_stages :: "'v stage list"
  rc_open :: bool

definition race_start :: "nat \<Rightarrow> store \<Rightarrow> 'v race" where
  "race_start n db = \<lparr>rc_db = db, rc_stages = replicate n Starting, rc_open = False\<rparr>"

inductive race_step ::
    "(nat \<Rightarrow> store \<Rightarrow> 'v option) \<Rightarrow> (nat \<Rightarrow> 'v \<Rightarrow> store \<Rightarrow> sql_error + int \<times> store) \<Rightarrow> 'v race \<Rightarrow> 'v race \<Rightarrow> bool"
  for read act where
  reads: "i < length (rc_stages s) \<Longrightarrow> rc_stages s ! i = Starting \<Longrightarrow> read i (rc_db s) = Some v \<Longrightarrow>
    race_step read act s (s\<lparr>rc_stages := (rc_stages s)[i := Ready v]\<rparr>)"
| opens: "\<not> rc_open s \<Longrightarrow> (\<forall>x \<in> set (rc_stages s). \<exists>v. x = Ready v) \<Longrightarrow>
    race_step read act s (s\<lparr>rc_open := True\<rparr>)"
| acts: "rc_open s \<Longrightarrow> i < length (rc_stages s) \<Longrightarrow> rc_stages s ! i = Ready v \<Longrightarrow>
    act i v (rc_db s) = Inr (k, db) \<Longrightarrow>
    race_step read act s (s\<lparr>rc_db := db, rc_stages := (rc_stages s)[i := Finished k]\<rparr>)"
| fails: "i < length (rc_stages s) \<Longrightarrow> rc_stages s ! i = Starting \<or> rc_stages s ! i = Ready v \<Longrightarrow>
    race_step read act s (s\<lparr>rc_stages := (rc_stages s)[i := Broken]\<rparr>)"

inductive race_reach ::
    "(nat \<Rightarrow> store \<Rightarrow> 'v option) \<Rightarrow> (nat \<Rightarrow> 'v \<Rightarrow> store \<Rightarrow> sql_error + int \<times> store) \<Rightarrow> 'v race \<Rightarrow> 'v race \<Rightarrow> bool"
  for read act s where
  here [intro]: "race_reach read act s s"
| step [intro]: "race_reach read act s t \<Longrightarrow> race_step read act t u \<Longrightarrow> race_reach read act s u"

lemma race_stepI:
  "i < length (rc_stages s) \<Longrightarrow> rc_stages s ! i = Starting \<Longrightarrow> read i (rc_db s) = Some v \<Longrightarrow>
     t = s\<lparr>rc_stages := (rc_stages s)[i := Ready v]\<rparr> \<Longrightarrow> race_step read act s t"
  "\<not> rc_open s \<Longrightarrow> (\<forall>x \<in> set (rc_stages s). \<exists>v. x = Ready v) \<Longrightarrow> t = s\<lparr>rc_open := True\<rparr> \<Longrightarrow> race_step read act s t"
  "rc_open s \<Longrightarrow> i < length (rc_stages s) \<Longrightarrow> rc_stages s ! i = Ready v \<Longrightarrow> act i v (rc_db s) = Inr (k, db) \<Longrightarrow>
     t = s\<lparr>rc_db := db, rc_stages := (rc_stages s)[i := Finished k]\<rparr> \<Longrightarrow> race_step read act s t"
  by (auto intro: race_step.intros)

inductive_cases race_stepE: "race_step read act s t"

definition all_finished :: "'v race \<Rightarrow> bool" where
  "all_finished s \<longleftrightarrow> (\<forall>x \<in> set (rc_stages s). \<exists>k. x = Finished k)"

definition some_finished :: "'v race \<Rightarrow> bool" where
  "some_finished s \<longleftrightarrow> (\<exists>k. Finished k \<in> set (rc_stages s))"

definition winners :: "'v race \<Rightarrow> nat set" where
  "winners s = {i. i < length (rc_stages s) \<and> rc_stages s ! i = Finished 1}"

text \<open>Every step uses up work: the barrier opens once and a process goes forward only.\<close>

definition stage_work :: "'v stage \<Rightarrow> nat" where
  "stage_work x = (case x of Starting \<Rightarrow> 2 | Ready _ \<Rightarrow> 1 | _ \<Rightarrow> 0)"

definition race_work :: "'v race \<Rightarrow> nat" where
  "race_work s = sum_list (map stage_work (rc_stages s)) + (if rc_open s then 0 else 1)"

lemma sum_list_update_less:
  "i < length xs \<Longrightarrow> f y < f (xs ! i) \<Longrightarrow> sum_list (map f (xs[i := y])) < (sum_list (map f xs) :: nat)"
  by (induction xs arbitrary: i) (auto split: nat.split)

lemma race_step_work: "race_step read act s t \<Longrightarrow> race_work t < race_work s"
  by (erule race_stepE) (auto simp: race_work_def stage_work_def intro!: sum_list_update_less add_strict_right_mono)

lemma race_step_length: "race_step read act s t \<Longrightarrow> length (rc_stages t) = length (rc_stages s)"
  by (erule race_stepE) auto

subsection \<open>What makes one process win\<close>

text \<open>
  From a store where \<open>start\<close> holds the first statement to run counts one row, and any later one of
  another process none, leaving the winner's store.
\<close>

locale exclusive_claim =
  fixes read :: "nat \<Rightarrow> store \<Rightarrow> 'v option" and act :: "nat \<Rightarrow> 'v \<Rightarrow> store \<Rightarrow> sql_error + int \<times> store"
    and n :: nat and start :: "store \<Rightarrow> bool" and seen :: "nat \<Rightarrow> store \<Rightarrow> 'v" and won :: "nat \<Rightarrow> store \<Rightarrow> store"
  assumes reads: "start db \<Longrightarrow> i < n \<Longrightarrow> read i db = Some (seen i db)"
    and first: "start db \<Longrightarrow> i < n \<Longrightarrow> act i (seen i db) db = Inr (1, won i db)"
    and later: "start db \<Longrightarrow> i < n \<Longrightarrow> j < n \<Longrightarrow> i \<noteq> j \<Longrightarrow> act j (seen j db) (won i db) = Inr (0, won i db)"
begin

text \<open>Nobody has acted, or one process has won and the others come away with nothing.\<close>

definition waiting :: "store \<Rightarrow> nat \<Rightarrow> 'v stage \<Rightarrow> bool" where
  "waiting db i x \<longleftrightarrow> x = Ready (seen i db) \<or> x = Broken"

definition claimed :: "store \<Rightarrow> 'v race \<Rightarrow> nat \<Rightarrow> bool" where
  "claimed db s w \<longleftrightarrow> w < n \<and> rc_open s \<and> rc_db s = won w db \<and> rc_stages s ! w = Finished 1 \<and>
     (\<forall>i < n. i \<noteq> w \<longrightarrow> waiting db i (rc_stages s ! i) \<or> rc_stages s ! i = Finished 0)"

definition unclaimed :: "store \<Rightarrow> 'v race \<Rightarrow> bool" where
  "unclaimed db s \<longleftrightarrow> rc_db s = db \<and>
     (\<forall>i < n. waiting db i (rc_stages s ! i) \<or> (\<not> rc_open s \<and> rc_stages s ! i = Starting))"

lemma step_invariant:
  assumes "start db" "length (rc_stages s) = n" "unclaimed db s \<or> (\<exists>w. claimed db s w)" "race_step read act s t"
  shows "unclaimed db t \<or> (\<exists>w. claimed db t w)"
  using assms(4)
proof (cases rule: race_step.cases)
  case (reads i v)
  then have "unclaimed db s"
    using assms(2,3) by (auto simp: claimed_def waiting_def)
  with reads assms(1,2) have "unclaimed db t"
    using exclusive_claim_axioms by (auto simp: unclaimed_def waiting_def nth_list_update exclusive_claim_def)
  then show ?thesis ..
next
  case opens
  then have ready: "\<exists>v. rc_stages s ! i = Ready v" if "i < n" for i
    using assms(2) that by simp
  have "unclaimed db s"
    using assms(3) opens by (auto simp: claimed_def)
  then have "waiting db i (rc_stages s ! i)" if "i < n" for i
    using ready [OF that] that by (auto simp: unclaimed_def)
  with \<open>unclaimed db s\<close> opens have "unclaimed db t"
    by (simp add: unclaimed_def)
  then show ?thesis ..
next
  case (acts i v k db')
  from assms(3) show ?thesis
  proof
    assume u: "unclaimed db s"
    then have "v = seen i db" using acts assms(2) by (auto simp: unclaimed_def waiting_def)
    then have "k = 1" "db' = won i db"
      using u acts assms(1,2) first [of db i] by (auto simp: unclaimed_def)
    with u acts assms(2) have "claimed db t i"
      by (auto simp: unclaimed_def claimed_def nth_list_update)
    then show ?thesis by blast
  next
    assume "\<exists>w. claimed db s w"
    then obtain w where w: "claimed db s w" ..
    then have "i \<noteq> w" "v = seen i db" using acts assms(2) by (auto simp: claimed_def waiting_def)
    then have "k = 0" "db' = won w db"
      using w acts assms(1,2) later [of db w i] by (auto simp: claimed_def)
    with w acts assms(2) \<open>i \<noteq> w\<close> have "claimed db t w"
      by (auto simp: claimed_def nth_list_update)
    then show ?thesis by blast
  qed
next
  case (fails i v)
  from assms(3) show ?thesis
  proof
    assume "unclaimed db s"
    with fails assms(2) have "unclaimed db t"
      by (auto simp: unclaimed_def waiting_def nth_list_update)
    then show ?thesis ..
  next
    assume "\<exists>w. claimed db s w"
    then obtain w where w: "claimed db s w" ..
    with fails have "i \<noteq> w" by (auto simp: claimed_def)
    with w fails assms(2) have "claimed db t w"
      by (auto simp: claimed_def waiting_def nth_list_update)
    then show ?thesis by blast
  qed
qed

lemma reach_invariant:
  assumes "start db" "race_reach read act (race_start n db) s"
  shows "length (rc_stages s) = n \<and> (unclaimed db s \<or> (\<exists>w. claimed db s w))"
  using assms(2)
proof (induction rule: race_reach.induct)
  case here
  then show ?case by (simp add: race_start_def unclaimed_def)
next
  case (step t u)
  then show ?case
    using step_invariant [OF assms(1)] race_step_length by blast
qed

lemma winners_unclaimed:
  assumes "length (rc_stages s) = n" "unclaimed db s"
  shows "winners s = {}"
proof -
  have "rc_stages s ! i \<noteq> Finished 1" if "i < n" for i
    using assms(2) that unfolding unclaimed_def waiting_def by auto
  with assms(1) show ?thesis by (simp add: winners_def)
qed

lemma winners_claimed:
  assumes "length (rc_stages s) = n" "claimed db s w"
  shows "winners s = {w}"
proof -
  have "rc_stages s ! i \<noteq> Finished 1" if "i < n" "i \<noteq> w" for i
    using assms(2) that unfolding claimed_def waiting_def by auto
  with assms show ?thesis by (auto simp: winners_def claimed_def)
qed

text \<open>At any time at most one process has won, and the store is the first one or the winner's.\<close>

lemma at_most_one:
  assumes "start db" "race_reach read act (race_start n db) s"
  shows "winners s = {} \<and> rc_db s = db \<or> (\<exists>w < n. winners s = {w} \<and> rc_db s = won w db)"
  using reach_invariant [OF assms] winners_unclaimed winners_claimed
  by (auto simp: unclaimed_def claimed_def)

text \<open>As soon as one process is done exactly one has won, and no other one counts a row.\<close>

lemma exactly_one:
  assumes "start db" "race_reach read act (race_start n db) s" "some_finished s"
  shows "\<exists>w < n. winners s = {w} \<and> rc_db s = won w db \<and>
     (\<forall>i < n. \<forall>k. i \<noteq> w \<longrightarrow> rc_stages s ! i = Finished k \<longrightarrow> k = 0)"
proof -
  have inv: "length (rc_stages s) = n" "unclaimed db s \<or> (\<exists>w. claimed db s w)"
    using reach_invariant [OF assms(1,2)] by auto
  obtain i k where i: "i < n" "rc_stages s ! i = Finished k"
    using assms(3) inv(1) by (auto simp: some_finished_def in_set_conv_nth)
  then have "\<not> unclaimed db s"
    by (auto simp: unclaimed_def waiting_def)
  with inv(2) obtain w where w: "claimed db s w" by blast
  then have "\<forall>i < n. \<forall>k. i \<noteq> w \<longrightarrow> rc_stages s ! i = Finished k \<longrightarrow> k = 0"
    unfolding claimed_def waiting_def by auto
  with winners_claimed [OF inv(1)] w show ?thesis by (auto simp: claimed_def)
qed

text \<open>Two processes can finish.\<close>

lemma two_finish:
  assumes "start db" "n = 2"
  shows "\<exists>s. race_reach read act (race_start n db) s \<and> all_finished s"
proof -
  let ?s0 = "race_start n db" and ?v = "\<lambda>i. seen i db"
  define s1 where "s1 = ?s0\<lparr>rc_stages := [Ready (?v 0), Starting]\<rparr>"
  define s2 where "s2 = s1\<lparr>rc_stages := [Ready (?v 0), Ready (?v 1)]\<rparr>"
  define s3 where "s3 = s2\<lparr>rc_open := True\<rparr>"
  define s4 where "s4 = s3\<lparr>rc_db := won 0 db, rc_stages := [Finished 1, Ready (?v 1)]\<rparr>"
  define s5 where "s5 = s4\<lparr>rc_db := won 0 db, rc_stages := [Finished 1, Finished 0]\<rparr>"
  have st: "rc_stages ?s0 = [Starting, Starting]" "rc_db ?s0 = db" "\<not> rc_open ?s0"
    using assms(2) by (simp_all add: race_start_def numeral_2_eq_2)
  have r: "read 0 db = Some (?v 0)" "read (Suc 0) db = Some (?v (Suc 0))"
    using reads [OF assms(1)] assms(2) by auto
  have f: "act 0 (?v 0) db = Inr (1, won 0 db)" "act (Suc 0) (?v (Suc 0)) (won 0 db) = Inr (0, won 0 db)"
    using first [OF assms(1), of 0] later [OF assms(1), of 0 1] assms(2) by auto
  have "race_step read act ?s0 s1"
    by (rule race_stepI(1) [where i = 0 and v = "?v 0"]) (simp_all add: st r s1_def)
  moreover have "race_step read act s1 s2"
    by (rule race_stepI(1) [where i = 1 and v = "?v 1"]) (simp_all add: st r s1_def s2_def)
  moreover have "race_step read act s2 s3"
    by (rule race_stepI(2)) (simp_all add: st s1_def s2_def s3_def)
  moreover have "race_step read act s3 s4"
    by (rule race_stepI(3) [where i = 0 and v = "?v 0" and k = 1 and db = "won 0 db"])
      (simp_all add: f st s1_def s2_def s3_def s4_def)
  moreover have "race_step read act s4 s5"
    by (rule race_stepI(3) [where i = 1 and v = "?v 1" and k = 0 and db = "won 0 db"])
      (simp_all add: f st s1_def s2_def s3_def s4_def s5_def)
  ultimately have "race_reach read act ?s0 s5"
    by (meson race_reach.intros)
  moreover have "all_finished s5" by (simp add: all_finished_def s5_def)
  ultimately show ?thesis by blast
qed

end

subsection \<open>One key, several writers\<close>

definition conflict_row :: "probe_args \<Rightarrow> pystr \<Rightarrow> nat \<Rightarrow> store \<Rightarrow> row option" where
  "conflict_row a key i db = observation_row a db key (probe_base conflict_writer (pa_offset a) + int i + 1) []"

definition conflict_insert :: "probe_args \<Rightarrow> nat \<Rightarrow> row \<Rightarrow> store \<Rightarrow> sql_error + int \<times> store" where
  "conflict_insert a i r db = insert_observations (pa_engine a) True [r] db"

text \<open>The report once every writer has put its outcome on the queue.\<close>

definition conflict_pass :: "pystr \<Rightarrow> row race \<Rightarrow> bool" where
  "conflict_pass key s \<longleftrightarrow> count_key (rc_db s) key = 1"

definition conflict_start :: "probe_args \<Rightarrow> pystr \<Rightarrow> nat \<Rightarrow> store \<Rightarrow> bool" where
  "conflict_start a key n db \<longleftrightarrow>
     probe_ready a db \<and> n \<le> 1000 \<and> length key \<le> 120 \<and> \<not> key_stored db (VText key) \<and>
     (\<forall>i < n. VInt (probe_base conflict_writer (pa_offset a) + int i + 1) \<notin> ids db ''price_observation'')"

definition conflict_won :: "probe_args \<Rightarrow> pystr \<Rightarrow> nat \<Rightarrow> store \<Rightarrow> store" where
  "conflict_won a key i db =
     add_row ''price_observation'' (bind_row observation_spec (the (conflict_row a key i db))) db"

lemma conflict_row_ok:
  assumes "conflict_start a key n db" "i < n"
  shows "\<exists>p. conflict_row a key i db = Some p \<and>
     probe_row_ok db key (probe_base conflict_writer (pa_offset a) + int i + 1) p"
proof -
  have "0 \<le> probe_base conflict_writer (pa_offset a) + int i + 1" "probe_base conflict_writer (pa_offset a) + int i + 1 < 2 ^ 63"
    using assms by (simp_all add: conflict_start_def probe_ready_def probe_base_value conflict_writer_def)
  then obtain p where "\<forall>ov. observation_row a db key (probe_base conflict_writer (pa_offset a) + int i + 1) ov = Some (override_row ov p)"
      "probe_row_ok db key (probe_base conflict_writer (pa_offset a) + int i + 1) p"
    using observation_row_ready assms(1) unfolding conflict_start_def by blast
  then show ?thesis by (auto simp: conflict_row_def)
qed

interpretation append_race: exclusive_claim "conflict_row a key" "conflict_insert a" n "conflict_start a key n"
  "\<lambda>i db. the (conflict_row a key i db)" "conflict_won a key" for a key n
proof
  fix db i assume s: "conflict_start a key n db" "i < n"
  obtain p where p: "conflict_row a key i db = Some p" "probe_row_ok db key (probe_base conflict_writer (pa_offset a) + int i + 1) p"
    using conflict_row_ok [OF s] by blast
  then show "conflict_row a key i db = Some (the (conflict_row a key i db))" by simp
  show "conflict_insert a i (the (conflict_row a key i db)) db = Inr (1, conflict_won a key i db)"
    unfolding conflict_insert_def conflict_won_def
    by (rule append_one) (use p s in \<open>simp_all add: probe_row_ok_def conflict_start_def\<close>)
  fix j assume j: "j < n" "i \<noteq> j"
  obtain q where q: "conflict_row a key j db = Some q" "probe_row_ok db key (probe_base conflict_writer (pa_offset a) + int j + 1) q"
    using conflict_row_ok [OF s(1) j(1)] by blast
  show "conflict_insert a j (the (conflict_row a key j db)) (conflict_won a key i db) = Inr (0, conflict_won a key i db)"
    unfolding conflict_insert_def
    by (rule append_stored_key) (use p q in \<open>simp_all add: probe_row_ok_def conflict_won_def key_stored_add bind_obs_cells\<close>)
qed

lemma conflict_won_count:
  assumes "conflict_start a key n db" "i < n"
  shows "count_key (conflict_won a key i db) key = 1"
proof -
  obtain p where p: "conflict_row a key i db = Some p" "probe_row_ok db key (probe_base conflict_writer (pa_offset a) + int i + 1) p"
    using conflict_row_ok [OF assms] by blast
  have "count_key db key = 0" using assms(1) by (simp add: conflict_start_def count_key_zero)
  with p show ?thesis
    by (simp add: conflict_won_def count_key_add bind_obs_cells probe_row_ok_def)
qed

subsection \<open>One review item, several decisions\<close>

text \<open>\<open>SELECT id FROM review_item WHERE state = 'pending' ORDER BY id LIMIT 1\<close>\<close>

definition pending_review :: "store \<Rightarrow> dbval option" where
  "pending_review db =
     (case sort_key id_of (filter (\<lambda>r. cell r ''state'' = VText (lit ''pending'')) (rows_of db ''review_item'')) of
        [] \<Rightarrow> None | r # _ \<Rightarrow> Some (cell r ''id''))"

text \<open>\<open>scalar_one()\<close> of the version column.\<close>

definition read_version :: "dbval \<Rightarrow> nat \<Rightarrow> store \<Rightarrow> int option" where
  "read_version rid i db =
     (case filter (\<lambda>r. cell r ''id'' = rid) (rows_of db ''review_item'') of
        [r] \<Rightarrow> (case cell r ''lock_version'' of VInt v \<Rightarrow> Some v | _ \<Rightarrow> None)
      | _ \<Rightarrow> None)"

definition decided_row :: "pystr \<Rightarrow> int \<Rightarrow> row \<Rightarrow> row" where
  "decided_row who now r =
     set_cell ''lock_version'' (VInt (num r ''lock_version'' + 1))
       (set_cell ''decision'' (VText (lit ''confirmed'')) (set_cell ''decided_by'' (VText who)
         (set_cell ''decided_at'' (VTime now) (set_cell ''state'' (VText (lit ''decided'')) r))))"

definition still_pending :: "dbval \<Rightarrow> int \<Rightarrow> row \<Rightarrow> bool" where
  "still_pending rid version r \<longleftrightarrow>
     cell r ''id'' = rid \<and> cell r ''state'' = VText (lit ''pending'') \<and> cell r ''lock_version'' = VInt version"

text \<open>The UPDATE: the row count and the store; values must fit their columns.\<close>

definition decide_update :: "dbval \<Rightarrow> pystr list \<Rightarrow> int \<Rightarrow> nat \<Rightarrow> int \<Rightarrow> store \<Rightarrow> sql_error + int \<times> store" where
  "decide_update rid actors now i version db =
     (let old = rows_of db ''review_item'';
          rs = map (\<lambda>r. if still_pending rid version r then decided_row (actors ! i) now r else r) old in
      if list_all (types_ok t_review_item) rs
      then Inr (int (length (filter (still_pending rid version) old)), AList.update ''review_item'' rs db)
      else Inl Data_error)"

definition review_row :: "dbval \<Rightarrow> store \<Rightarrow> row" where
  "review_row rid db = hd (filter (\<lambda>r. cell r ''id'' = rid) (rows_of db ''review_item''))"

definition review_pass :: "dbval \<Rightarrow> int race \<Rightarrow> bool" where
  "review_pass rid s \<longleftrightarrow>
     length (filter (\<lambda>x. x = Finished 1) (rc_stages s)) = 1 \<and>
     cell (review_row rid (rc_db s)) ''state'' = VText (lit ''decided'') \<and>
     cell (review_row rid (rc_db s)) ''lock_version'' = VInt 1"

definition review_start :: "dbval \<Rightarrow> pystr list \<Rightarrow> int \<Rightarrow> store \<Rightarrow> bool" where
  "review_start rid actors version db \<longleftrightarrow>
     store_ok metadata db \<and> list_all (\<lambda>w. length w \<le> 64) actors \<and> version < 2147483647 \<and>
     (\<exists>r \<in> set (rows_of db ''review_item''). still_pending rid version r)"

definition review_won :: "dbval \<Rightarrow> pystr list \<Rightarrow> int \<Rightarrow> nat \<Rightarrow> store \<Rightarrow> store" where
  "review_won rid actors now i db =
     AList.update ''review_item''
       (map (\<lambda>r. if cell r ''id'' = rid then decided_row (actors ! i) now r else r) (rows_of db ''review_item'')) db"

lemma review_unique:
  assumes "store_ok metadata db" "r \<in> set (rows_of db ''review_item'')" "cell r ''id'' = rid"
  shows "filter (\<lambda>r. cell r ''id'' = rid) (rows_of db ''review_item'') = [r]"
proof -
  have t: "table_ok db t_review_item"
    using assms(1) by (simp add: store_ok_def metadata_def)
  then have "key_ok (rows_of db ''review_item'') [''id'']"
    by (simp add: table_ok_def table_keys_def t_review_item_def)
  moreover have "rid \<noteq> VNull"
    using t assms(2,3) by (auto simp: table_ok_def not_null_ok_def t_review_item_def)
  moreover have "key_ok rs [''id''] \<Longrightarrow> s \<in> set rs \<Longrightarrow> cell s ''id'' = rid \<Longrightarrow> rid \<noteq> VNull \<Longrightarrow>
      filter (\<lambda>r. cell r ''id'' = rid) rs = [s]" for rs s
    by (induction rs) (auto simp: key_ok_def clash_def cells_def filter_empty_conv)
  ultimately show ?thesis
    using assms(2,3) by blast
qed

lemma rows_update: "rows_of (AList.update t rs db) u = (if u = t then rs else rows_of db u)"
  by (simp add: rows_of_def dict_get_def update_conv')

lemma cell_decided:
  "cell (decided_row who now r) c =
     (if c = ''lock_version'' then VInt (num r ''lock_version'' + 1)
      else if c = ''decision'' then VText (lit ''confirmed'') else if c = ''decided_by'' then VText who
      else if c = ''decided_at'' then VTime now else if c = ''state'' then VText (lit ''decided'') else cell r c)"
  by (simp add: decided_row_def cell_set_cell)

lemma decided_types:
  assumes "types_ok t_review_item r" "cell r ''lock_version'' = VInt v" "v < 2147483647" "length who \<le> 64"
  shows "types_ok t_review_item (decided_row who now r)"
  using assms by (simp add: types_ok_def t_review_item_def cell_decided num_def)

lemma review_rows:
  assumes "review_start rid actors v db"
  shows "\<exists>r. r \<in> set (rows_of db ''review_item'') \<and> still_pending rid v r \<and>
     filter (\<lambda>r. cell r ''id'' = rid) (rows_of db ''review_item'') = [r] \<and>
     (\<forall>x \<in> set (rows_of db ''review_item''). types_ok t_review_item x \<and> (cell x ''id'' = rid \<longleftrightarrow> x = r))"
proof -
  obtain r where r: "r \<in> set (rows_of db ''review_item'')" "still_pending rid v r"
    using assms by (auto simp: review_start_def)
  have ok: "store_ok metadata db" using assms by (simp add: review_start_def)
  have f: "filter (\<lambda>r. cell r ''id'' = rid) (rows_of db ''review_item'') = [r]"
    using review_unique [OF ok r(1)] r(2) by (simp add: still_pending_def)
  have "x = r" if "x \<in> set (rows_of db ''review_item'')" "cell x ''id'' = rid" for x
    using review_unique [OF ok that] f by simp
  moreover have "types_ok t_review_item x" if "x \<in> set (rows_of db ''review_item'')" for x
    using ok that by (auto simp: store_ok_def metadata_def table_ok_def t_review_item_def)
  moreover have "cell r ''id'' = rid" using r(2) by (simp add: still_pending_def)
  ultimately show ?thesis
    by (intro exI [of _ r] conjI ballI r f) blast+
qed

lemma review_first:
  assumes "review_start rid actors v db" "i < length actors"
  shows "read_version rid i db = Some v" "decide_update rid actors now i v db = Inr (1, review_won rid actors now i db)"
proof -
  obtain r where r: "r \<in> set (rows_of db ''review_item'')" "still_pending rid v r"
      "filter (\<lambda>r. cell r ''id'' = rid) (rows_of db ''review_item'') = [r]"
      "\<forall>x \<in> set (rows_of db ''review_item''). types_ok t_review_item x \<and> (cell x ''id'' = rid \<longleftrightarrow> x = r)"
    using review_rows [OF assms(1)] by blast
  then show "read_version rid i db = Some v"
    by (simp add: read_version_def still_pending_def)
  have same: "still_pending rid v x \<longleftrightarrow> cell x ''id'' = rid" if "x \<in> set (rows_of db ''review_item'')" for x
    using r(2,4) that by (auto simp: still_pending_def)
  have "length (actors ! i) \<le> 64" "v < 2147483647"
    using assms by (simp_all add: review_start_def list_all_length)
  then have t: "types_ok t_review_item (decided_row (actors ! i) now r)"
    using r(1,2,4) by (intro decided_types [where v = v]) (simp_all add: still_pending_def)
  have "filter (still_pending rid v) (rows_of db ''review_item'') = [r]"
    unfolding r(3) [symmetric] by (rule filter_cong [OF refl]) (rule same)
  moreover have m: "map (\<lambda>x. if still_pending rid v x then decided_row (actors ! i) now x else x) (rows_of db ''review_item'') =
      map (\<lambda>x. if cell x ''id'' = rid then decided_row (actors ! i) now x else x) (rows_of db ''review_item'')"
    by (rule map_cong [OF refl]) (simp add: same)
  moreover have "list_all (types_ok t_review_item)
      (map (\<lambda>x. if cell x ''id'' = rid then decided_row (actors ! i) now x else x) (rows_of db ''review_item''))"
    using r(4) t by (auto simp: list_all_iff)
  ultimately show "decide_update rid actors now i v db = Inr (1, review_won rid actors now i db)"
    unfolding decide_update_def review_won_def Let_def m by simp
qed

lemma review_later:
  assumes "review_start rid actors v db" "i < length actors"
  shows "decide_update rid actors now j v (review_won rid actors now i db) = Inr (0, review_won rid actors now i db)"
proof -
  define f where "f = (\<lambda>x. if cell x ''id'' = rid then decided_row (actors ! i) now x else x)"
  define rs where "rs = map f (rows_of db ''review_item'')"
  obtain r where r: "r \<in> set (rows_of db ''review_item'')" "still_pending rid v r"
      "\<forall>x \<in> set (rows_of db ''review_item''). types_ok t_review_item x \<and> (cell x ''id'' = rid \<longleftrightarrow> x = r)"
    using review_rows [OF assms(1)] by blast
  have "length (actors ! i) \<le> 64" "v < 2147483647"
    using assms by (simp_all add: review_start_def list_all_length)
  then have "types_ok t_review_item (decided_row (actors ! i) now r)"
    using r by (intro decided_types [where v = v]) (simp_all add: still_pending_def)
  with r(3) have t: "list_all (types_ok t_review_item) rs"
    by (auto simp: list_all_iff rs_def f_def)
  have none: "\<not> still_pending rid v (f x)" for x
    by (cases "cell x ''id'' = rid") (simp_all add: f_def still_pending_def cell_decided lit_distinct)
  have m: "map (\<lambda>x. if still_pending rid v x then decided_row (actors ! j) now x else x) rs = rs"
    unfolding rs_def map_map by (rule map_cong [OF refl]) (simp add: none)
  have "filter (still_pending rid v) rs = []"
    using none by (auto simp: filter_empty_conv rs_def)
  moreover have "review_won rid actors now i db = AList.update ''review_item'' rs db"
    by (simp add: review_won_def rs_def f_def)
  ultimately show ?thesis
    using t by (simp add: decide_update_def rows_update Let_def m update_update)
qed

interpretation review_race: exclusive_claim "read_version rid" "decide_update rid actors now" "length actors"
  "review_start rid actors version" "\<lambda>i db. version" "review_won rid actors now" for rid actors now version
  by unfold_locales (simp_all add: review_first review_later)

lemma review_won_row:
  assumes "review_start rid actors v db" "i < length actors"
  shows "cell (review_row rid (review_won rid actors now i db)) ''state'' = VText (lit ''decided'')"
    "cell (review_row rid (review_won rid actors now i db)) ''decided_by'' = VText (actors ! i)"
    "cell (review_row rid (review_won rid actors now i db)) ''lock_version'' = VInt (v + 1)"
proof -
  obtain r where r: "still_pending rid v r" "filter (\<lambda>r. cell r ''id'' = rid) (rows_of db ''review_item'') = [r]"
    using review_rows [OF assms(1)] by blast
  have "filter (\<lambda>r. cell r ''id'' = rid)
      (map (\<lambda>x. if cell x ''id'' = rid then decided_row (actors ! i) now x else x) rs) =
      map (decided_row (actors ! i) now) (filter (\<lambda>r. cell r ''id'' = rid) rs)" for rs
    by (induction rs) (auto simp: cell_decided)
  then have "review_row rid (review_won rid actors now i db) = decided_row (actors ! i) now r"
    by (simp add: review_row_def review_won_def rows_update r(2))
  then show "cell (review_row rid (review_won rid actors now i db)) ''state'' = VText (lit ''decided'')"
    "cell (review_row rid (review_won rid actors now i db)) ''decided_by'' = VText (actors ! i)"
    "cell (review_row rid (review_won rid actors now i db)) ''lock_version'' = VInt (v + 1)"
    using r(1) by (simp_all add: cell_decided still_pending_def num_def)
qed

lemma pending_review_start:
  assumes "store_ok metadata db" "pending_review db = Some rid" "list_all (\<lambda>w. length w \<le> 64) actors"
    "cell (review_row rid db) ''lock_version'' = VInt v" "v < 2147483647"
  shows "review_start rid actors v db"
proof -
  let ?ps = "filter (\<lambda>r. cell r ''state'' = VText (lit ''pending'')) (rows_of db ''review_item'')"
  obtain r rs where r: "sort_key id_of ?ps = r # rs" "rid = cell r ''id''"
    using assms(2) by (auto simp: pending_review_def split: list.splits)
  then have mem: "r \<in> set ?ps" by (metis list.set_intros(1) set_sort)
  then have "review_row rid db = r"
    using review_unique [OF assms(1), of r rid] r(2) by (simp add: review_row_def)
  with mem r(2) assms show ?thesis
    by (auto simp: review_start_def still_pending_def)
qed

lemma single_winner_count:
  assumes "winners s = {w}" "w < length (rc_stages s)"
  shows "length (filter (\<lambda>x. x = Finished 1) (rc_stages s)) = 1"
proof -
  have "length (filter (\<lambda>x. x = Finished 1) (rc_stages s)) = card {i. i < length (rc_stages s) \<and> rc_stages s ! i = Finished 1}"
    by (rule length_filter_conv_card)
  with assms(1) show ?thesis by (simp add: winners_def)
qed

subsection \<open>Two rows locked in opposite orders\<close>

text \<open>
  Each worker updates its first row, waits at the barrier and updates its second one. An update holds
  the row until the transaction ends; the server breaks a cycle of two waiting workers by rolling
  one of them back.
\<close>

datatype lock_stage = Idle | Holds_first | Committed | Rolled_back

record lock_state =
  lk_owner :: "int \<Rightarrow> nat option"
  lk_stages :: "lock_stage list"
  lk_open :: bool

definition lock_start :: "nat \<Rightarrow> lock_state" where
  "lock_start n = \<lparr>lk_owner = (\<lambda>_. None), lk_stages = replicate n Idle, lk_open = False\<rparr>"

definition release :: "nat \<Rightarrow> (int \<Rightarrow> nat option) \<Rightarrow> int \<Rightarrow> nat option" where
  "release i owner = (\<lambda>k. if owner k = Some i then None else owner k)"

definition ends :: "nat \<Rightarrow> lock_stage \<Rightarrow> lock_state \<Rightarrow> lock_state" where
  "ends i x s = s\<lparr>lk_owner := release i (lk_owner s), lk_stages := (lk_stages s)[i := x]\<rparr>"

inductive lock_step :: "(int \<times> int) list \<Rightarrow> lock_state \<Rightarrow> lock_state \<Rightarrow> bool" for orders where
  takes: "i < length (lk_stages s) \<Longrightarrow> lk_stages s ! i = Idle \<Longrightarrow> lk_owner s (fst (orders ! i)) = None \<Longrightarrow>
    lock_step orders s (s\<lparr>lk_owner := (lk_owner s)(fst (orders ! i) \<mapsto> i), lk_stages := (lk_stages s)[i := Holds_first]\<rparr>)"
| passes: "\<not> lk_open s \<Longrightarrow> set (lk_stages s) \<subseteq> {Holds_first} \<Longrightarrow> lock_step orders s (s\<lparr>lk_open := True\<rparr>)"
| commits: "lk_open s \<Longrightarrow> i < length (lk_stages s) \<Longrightarrow> lk_stages s ! i = Holds_first \<Longrightarrow>
    lk_owner s (snd (orders ! i)) = None \<or> lk_owner s (snd (orders ! i)) = Some i \<Longrightarrow>
    lock_step orders s (ends i Committed s)"
| victim: "lk_open s \<Longrightarrow> i < length (lk_stages s) \<Longrightarrow> j < length (lk_stages s) \<Longrightarrow> i \<noteq> j \<Longrightarrow>
    lk_stages s ! i = Holds_first \<Longrightarrow> lk_stages s ! j = Holds_first \<Longrightarrow>
    lk_owner s (snd (orders ! i)) = Some j \<Longrightarrow> lk_owner s (snd (orders ! j)) = Some i \<Longrightarrow>
    lock_step orders s (ends i Rolled_back s)"

inductive lock_reach :: "(int \<times> int) list \<Rightarrow> lock_state \<Rightarrow> lock_state \<Rightarrow> bool" for orders s where
  start [intro]: "lock_reach orders s s"
| more [intro]: "lock_reach orders s t \<Longrightarrow> lock_step orders t u \<Longrightarrow> lock_reach orders s u"

text \<open>The verdict over the outcomes: at least one failure and at least one commit.\<close>

definition deadlock_pass :: "lock_state \<Rightarrow> bool" where
  "deadlock_pass s \<longleftrightarrow>
     (let failures = length (filter (\<lambda>x. x \<noteq> Committed) (lk_stages s)) in
      1 \<le> failures \<and> 1 \<le> length (lk_stages s) - failures)"

definition lock_done :: "lock_state \<Rightarrow> bool" where
  "lock_done s \<longleftrightarrow> set (lk_stages s) \<subseteq> {Committed, Rolled_back}"

text \<open>The states of two workers with the orders \<open>a, b\<close> and \<open>b, a\<close>.\<close>

definition lock_inv :: "int \<Rightarrow> int \<Rightarrow> lock_state \<Rightarrow> bool" where
  "lock_inv a b s \<longleftrightarrow>
     (lk_open s, lk_stages s, lk_owner s a, lk_owner s b) \<in>
       {(False, [Idle, Idle], None, None), (False, [Holds_first, Idle], Some 0, None),
        (False, [Idle, Holds_first], None, Some 1), (False, [Holds_first, Holds_first], Some 0, Some 1),
        (True, [Holds_first, Holds_first], Some 0, Some 1), (True, [Rolled_back, Holds_first], None, Some 1),
        (True, [Holds_first, Rolled_back], Some 0, None), (True, [Rolled_back, Committed], None, None),
        (True, [Committed, Rolled_back], None, None)}"

lemma lock_inv_takes:
  assumes "a \<noteq> b" "lock_inv a b s" "i < length (lk_stages s)" "lk_stages s ! i = Idle"
  shows "lock_inv a b (s\<lparr>lk_owner := (lk_owner s)(fst ([(a, b), (b, a)] ! i) \<mapsto> i), lk_stages := (lk_stages s)[i := Holds_first]\<rparr>)"
  using assms(2) unfolding lock_inv_def
  by (elim insertE emptyE; use assms(1,3,4) in \<open>auto simp: less_Suc_eq\<close>)

lemma lock_inv_passes:
  assumes "lock_inv a b s" "\<not> lk_open s" "set (lk_stages s) \<subseteq> {Holds_first}"
  shows "lock_inv a b (s\<lparr>lk_open := True\<rparr>)"
  using assms(1) unfolding lock_inv_def by (elim insertE emptyE; use assms(2,3) in auto)

lemma lock_inv_ends:
  assumes "a \<noteq> b" "lock_inv a b s" "lk_open s" "i < length (lk_stages s)" "lk_stages s ! i = Holds_first"
    "x = Committed \<and> (lk_owner s (snd ([(a, b), (b, a)] ! i)) = None \<or> lk_owner s (snd ([(a, b), (b, a)] ! i)) = Some i)
     \<or> x = Rolled_back \<and> (\<exists>j. i \<noteq> j \<and> j < length (lk_stages s) \<and> lk_stages s ! j = Holds_first)"
  shows "lock_inv a b (ends i x s)"
  using assms(2) unfolding lock_inv_def
  by (elim insertE emptyE; use assms(1,3-6) in \<open>auto simp: less_Suc_eq ends_def release_def\<close>)

lemma lock_step_inv:
  assumes "a \<noteq> b" "lock_inv a b s" "lock_step [(a, b), (b, a)] s t"
  shows "lock_inv a b t"
  using assms(3)
proof (cases rule: lock_step.cases)
  case (takes i)
  then show ?thesis using lock_inv_takes [OF assms(1,2)] by simp
next
  case passes
  then show ?thesis using lock_inv_passes [OF assms(2)] by simp
next
  case (commits i)
  then show ?thesis using lock_inv_ends [OF assms(1,2)] by simp
next
  case (victim i j)
  then show ?thesis using lock_inv_ends [OF assms(1,2)] by blast
qed

lemma lock_reach_inv:
  assumes "a \<noteq> b" "lock_reach [(a, b), (b, a)] (lock_start 2) s"
  shows "lock_inv a b s"
  using assms(2)
proof (induction rule: lock_reach.induct)
  case start
  then show ?case by (simp add: lock_inv_def lock_start_def numeral_2_eq_2)
next
  case (more t u)
  then show ?case using lock_step_inv [OF assms(1)] by blast
qed

lemma lock_progress:
  assumes "a \<noteq> b" "lock_inv a b s" "\<not> lock_done s"
  shows "\<exists>t. lock_step [(a, b), (b, a)] s t"
proof -
  let ?o = "[(a, b), (b, a)]"
  consider "\<not> lk_open s" "lk_stages s ! 0 = Idle" "length (lk_stages s) = 2" "lk_owner s a = None"
    | "\<not> lk_open s" "lk_stages s ! 1 = Idle" "length (lk_stages s) = 2" "lk_owner s b = None"
    | "\<not> lk_open s" "lk_stages s = [Holds_first, Holds_first]"
    | "lk_open s" "lk_stages s = [Holds_first, Holds_first]" "lk_owner s a = Some 0" "lk_owner s b = Some 1"
    | "lk_open s" "lk_stages s = [Rolled_back, Holds_first]" "lk_owner s a = None"
    | "lk_open s" "lk_stages s = [Holds_first, Rolled_back]" "lk_owner s b = None"
    using assms(2) unfolding lock_inv_def by (elim insertE emptyE; use assms(3) in \<open>simp add: lock_done_def\<close>)
  then show ?thesis
  proof cases
    case 1
    then have "lock_step ?o s (s\<lparr>lk_owner := (lk_owner s)(fst (?o ! 0) \<mapsto> 0), lk_stages := (lk_stages s)[0 := Holds_first]\<rparr>)"
      by (intro takes) simp_all
    then show ?thesis ..
  next
    case 2
    then have "lock_step ?o s (s\<lparr>lk_owner := (lk_owner s)(fst (?o ! 1) \<mapsto> 1), lk_stages := (lk_stages s)[1 := Holds_first]\<rparr>)"
      by (intro takes) simp_all
    then show ?thesis ..
  next
    case 3
    then have "lock_step ?o s (s\<lparr>lk_open := True\<rparr>)" by (intro passes) simp_all
    then show ?thesis ..
  next
    case 4
    then have "lock_step ?o s (ends 0 Rolled_back s)" by (intro victim [where j = 1]) simp_all
    then show ?thesis ..
  next
    case 5
    then have "lock_step ?o s (ends 1 Committed s)" by (intro commits) simp_all
    then show ?thesis ..
  next
    case 6
    then have "lock_step ?o s (ends 0 Committed s)" by (intro commits) simp_all
    then show ?thesis ..
  qed
qed

definition lock_work :: "lock_state \<Rightarrow> nat" where
  "lock_work s = sum_list (map (\<lambda>x. case x of Idle \<Rightarrow> 2 | Holds_first \<Rightarrow> 1 | _ \<Rightarrow> 0) (lk_stages s)) +
     (if lk_open s then 0 else 1)"

lemma lock_step_work: "lock_step orders s t \<Longrightarrow> lock_work t < lock_work s"
  by (cases rule: lock_step.cases)
    (auto simp: lock_work_def ends_def intro!: sum_list_update_less add_strict_right_mono)

lemma lock_step_terminates: "wf {(t, s). lock_step orders s t}"
  by (rule wf_subset [OF wf_measure [of lock_work]]) (auto dest: lock_step_work)

lemma lock_finishes:
  assumes "a \<noteq> b" "lock_inv a b s"
  shows "\<exists>t. lock_reach [(a, b), (b, a)] s t \<and> lock_done t"
  using assms(2)
proof (induction s rule: wf_induct_rule [OF lock_step_terminates [of "[(a, b), (b, a)]"]])
  case (1 s)
  show ?case
  proof (cases "lock_done s")
    case False
    then obtain t where t: "lock_step [(a, b), (b, a)] s t"
      using lock_progress [OF assms(1) 1(2)] by blast
    then obtain u where u: "lock_reach [(a, b), (b, a)] t u" "lock_done u"
      using 1(1) lock_step_inv [OF assms(1) 1(2)] by blast
    from u(1) have "lock_reach [(a, b), (b, a)] s u"
      by (induction rule: lock_reach.induct) (use t in auto)
    with u(2) show ?thesis by blast
  qed blast
qed

lemma lock_done_pass: "a \<noteq> b \<Longrightarrow> lock_inv a b s \<Longrightarrow> lock_done s \<Longrightarrow> deadlock_pass s"
  by (auto simp: lock_inv_def lock_done_def deadlock_pass_def)

lemma example_pending:
  "pending_review example_db = Some (VInt 8400000000060)"
  "cell (review_row (VInt 8400000000060) example_db) ''lock_version'' = VInt 0"
proof -
  have v: "runtime_id ''review_item'' 40 (batch_counter 1 0) = 8400000000060" by code_simp
  show "pending_review example_db = Some (VInt 8400000000060)"
    "cell (review_row (VInt 8400000000060) example_db) ''lock_version'' = VInt 0"
    unfolding pending_review_def review_row_def example_rows bind_eqs bound_review v
    by (simp_all add: file_row_def file_columns_of t_review_item_def cell_def with_columns_def)
qed

subsection \<open>Properties\<close>

lemma all_some_finished: "all_finished s \<Longrightarrow> rc_stages s \<noteq> [] \<Longrightarrow> some_finished s"
  by (cases "rc_stages s") (auto simp: all_finished_def some_finished_def)

text \<open>
  C27: When several writers append their own row with one new key at the same time, in every order of
  their steps, failures included, the key is stored at most once; as soon as one of them is done the
  key is stored exactly once, exactly one writer counted a row and any other that is done counted none.
\<close>

theorem concurrent_append_once:
  assumes "conflict_start a key n db" "race_reach (conflict_row a key) (conflict_insert a) (race_start n db) s"
  shows "count_key (rc_db s) key \<le> 1 \<and>
     (some_finished s \<longrightarrow> conflict_pass key s \<and>
       (\<exists>w < n. winners s = {w} \<and> (\<forall>i < n. \<forall>k. i \<noteq> w \<longrightarrow> rc_stages s ! i = Finished k \<longrightarrow> k = 0)))"
proof -
  have "count_key db key = 0" using assms(1) by (simp add: conflict_start_def count_key_zero)
  then have "count_key (rc_db s) key \<le> 1"
    using append_race.at_most_one [OF assms] conflict_won_count [OF assms(1)] by auto
  moreover have "conflict_pass key s \<and>
      (\<exists>w < n. winners s = {w} \<and> (\<forall>i < n. \<forall>k. i \<noteq> w \<longrightarrow> rc_stages s ! i = Finished k \<longrightarrow> k = 0))"
    if "some_finished s"
    using append_race.exactly_one [OF assms that] conflict_won_count [OF assms(1)]
    by (auto simp: conflict_pass_def)
  ultimately show ?thesis by blast
qed

theorem concurrent_append_once_witness:
  "\<exists>s. race_reach (conflict_row (example_args_of Postgres) (lit ''k'')) (conflict_insert (example_args_of Postgres))
       (race_start 2 example_db) s \<and> all_finished s \<and> count_key (rc_db s) (lit ''k'') = 1"
proof -
  let ?a = "example_args_of Postgres"
  have "\<not> key_stored example_db (VText (lit ''k''))"
    using example_key [of "lit ''k''"] by (auto simp: lit_def)
  moreover have "pa_offset ?a = 0" by (simp add: example_args_of_def run_offset_def)
  ultimately have start: "conflict_start ?a (lit ''k'') 2 example_db"
    by (simp add: conflict_start_def example_ready example_ids probe_base_value conflict_writer_def lit_def)
  obtain s where s: "race_reach (conflict_row ?a (lit ''k'')) (conflict_insert ?a) (race_start 2 example_db) s" "all_finished s"
    using append_race.two_finish [OF start] by auto
  have "rc_stages s \<noteq> []"
    using append_race.reach_invariant [OF start s(1)] by auto
  with concurrent_append_once [OF start s(1)] all_some_finished [OF s(2)] s show ?thesis
    by (auto simp: conflict_pass_def)
qed

text \<open>
  C28: When several sessions decide one pending review item with the version they read, in every order
  of their steps at most one of them updates it, and the item is then decided by that session with
  its version raised by one; once all are done exactly one has, every other update matched no row,
  and the check passes exactly when the item started at version zero.
\<close>

theorem review_single_winner:
  assumes "store_ok metadata db" "pending_review db = Some rid" "list_all (\<lambda>w. length w \<le> 64) actors"
    "cell (review_row rid db) ''lock_version'' = VInt v" "v < 2147483647"
    "race_reach (read_version rid) (decide_update rid actors now) (race_start (length actors) db) s"
  shows "(winners s = {} \<and> rc_db s = db \<or>
      (\<exists>w < length actors. winners s = {w} \<and>
         cell (review_row rid (rc_db s)) ''state'' = VText (lit ''decided'') \<and>
         cell (review_row rid (rc_db s)) ''decided_by'' = VText (actors ! w) \<and>
         cell (review_row rid (rc_db s)) ''lock_version'' = VInt (v + 1))) \<and>
     (some_finished s \<longrightarrow>
      (\<exists>w < length actors. winners s = {w} \<and>
        (\<forall>i < length actors. \<forall>k. i \<noteq> w \<longrightarrow> rc_stages s ! i = Finished k \<longrightarrow> k = 0)) \<and>
      (review_pass rid s \<longleftrightarrow> v = 0))"
proof -
  note start = pending_review_start [OF assms(1-5)]
  note row = review_won_row [OF start]
  have len: "length (rc_stages s) = length actors"
    using review_race.reach_invariant [OF start assms(6)] by blast
  have "\<exists>w < length actors. winners s = {w} \<and> rc_db s = review_won rid actors now w db \<and>
      (\<forall>i < length actors. \<forall>k. i \<noteq> w \<longrightarrow> rc_stages s ! i = Finished k \<longrightarrow> k = 0)" if "some_finished s"
    using review_race.exactly_one [OF start assms(6) that] by simp
  moreover have "review_pass rid s \<longleftrightarrow> v = 0"
    if "w < length actors" "winners s = {w}" "rc_db s = review_won rid actors now w db" for w
    using single_winner_count [of s w] that len row(1,3) by (simp add: review_pass_def)
  ultimately show ?thesis
    using review_race.at_most_one [OF start assms(6)] row by metis
qed

theorem review_single_winner_witness:
  "\<exists>s. race_reach (read_version (VInt 8400000000060)) (decide_update (VInt 8400000000060) [lit ''a'', lit ''b''] 0)
       (race_start 2 example_db) s \<and> all_finished s \<and> review_pass (VInt 8400000000060) s"
proof -
  let ?rid = "VInt 8400000000060" and ?as = "[lit ''a'', lit ''b'']"
  have l: "list_all (\<lambda>w. length w \<le> 64) ?as" by (simp add: lit_def)
  have start: "review_start ?rid ?as 0 example_db"
    by (rule pending_review_start [OF example_ok example_pending(1) l example_pending(2)]) simp
  obtain s where s: "race_reach (read_version ?rid) (decide_update ?rid ?as 0) (race_start (length ?as) example_db) s" "all_finished s"
    using review_race.two_finish [OF start] by auto
  have "rc_stages s \<noteq> []"
    using review_race.reach_invariant [OF start s(1)] by auto
  then have "review_pass ?rid s"
    using review_single_winner [OF example_ok example_pending(1) l example_pending(2) _ s(1)] all_some_finished [OF s(2)] by simp
  moreover have "length ?as = 2" by simp
  ultimately show ?thesis using s by metis
qed

text \<open>
  C29: Two workers that lock two rows in opposite orders always finish: no step sequence is endless, a
  state in which a worker is not done has a further step, and in every finished state exactly one
  worker was rolled back and the other committed, so the deadlock check passes.
\<close>

theorem deadlock_resolved:
  assumes "a \<noteq> b" "lock_reach [(a, b), (b, a)] (lock_start 2) s"
  shows "wf {(u, t). lock_step [(a, b), (b, a)] t u} \<and>
     (\<exists>t. lock_reach [(a, b), (b, a)] s t \<and> lock_done t) \<and>
     (lock_done s \<longrightarrow> deadlock_pass s \<and> lk_stages s \<in> {[Rolled_back, Committed], [Committed, Rolled_back]})"
proof -
  have inv: "lock_inv a b s" using assms by (rule lock_reach_inv)
  then have "lock_done s \<Longrightarrow> lk_stages s \<in> {[Rolled_back, Committed], [Committed, Rolled_back]}"
    unfolding lock_inv_def by (elim insertE emptyE) (simp_all add: lock_done_def)
  then show ?thesis
    using lock_step_terminates lock_finishes [OF assms(1) inv] lock_done_pass [OF assms(1) inv] by blast
qed

theorem deadlock_resolved_witness:
  "\<exists>t. lock_reach [(1, 2), (2, 1)] (lock_start 2) t \<and> lock_done t \<and> deadlock_pass t"
proof -
  have ne: "(1 :: int) \<noteq> 2" by simp
  obtain t where t: "lock_reach [(1, 2), (2, 1)] (lock_start 2) t" "lock_done t"
    using deadlock_resolved [OF ne lock_reach.start] by blast
  with deadlock_resolved [OF ne t(1)] show ?thesis by blast
qed

end
