(* ===== verification/Backup.thy ===== *)
theory Backup
  imports Queries Config "HOL-Library.Multiset"
begin

text \<open>
  scripts/db_poc/dbpoc/backup.py: the encrypted backup set, the restore into a fresh instance and its
  verification. pg_dump, mariadb-dump, psql, pg_restore, openssl and gzip, the instance script and the
  digest are functions of what they read, a parameter of every operation; a process whose exit status the
  module does not look at cannot fail. The JSON files are held as the values they encode, and the times
  measured are left out. The lemmas give the report of a restore as a function of what the artifact check
  finds, whatever the artifact files hold by then.
\<close>

subsection \<open>What the program works on\<close>

text \<open>
  A database is its rows, what its catalog answers about constraints, and the rows of
  alembic_version; an instance has its global objects and perhaps the database.
\<close>

record database =
  db_rows :: store
  db_constraints :: "(pystr \<times> int) list"
  db_check_count :: int
  db_revisions :: "pystr list"

record instance_state =
  global_objects :: pystr
  the_database :: "database option"

record fingerprint =
  row_counts :: "(string, int) pydict"
  total_rows :: int
  sample_rows :: int
  sample_sha256 :: pystr
  constraint_counts :: "(pystr, int) pydict"

record sealed_file =
  sealed_name :: string
  sealed_bytes :: int
  sealed_sha256 :: pystr

record artifact_scan =
  referenced_artifacts :: int
  missing_artifacts :: "pystr list"
  missing_count :: int
  hashed_sample :: "(pystr, pystr) pydict"

record manifest =
  basis_time :: pystr
  mf_engine :: engine
  mf_scale :: int
  migration_revision :: pystr
  mf_files :: "(string, sealed_file) pydict"
  plain_bytes :: "(string, int) pydict"
  mf_artifacts :: artifact_scan
  artifact_hash_sample_size :: int
  source_fingerprint :: fingerprint

text \<open>
  The backup directory: the sealed files by name, and the two JSON files as the values they encode
  (the manifest keeps the scan without its sample, which has a file of its own).
\<close>

record backup_set =
  set_files :: "(string, pystr) pydict"
  set_manifest :: manifest
  set_hashes :: "(pystr, pystr) pydict"

record place =
  main_instance :: instance_state
  restore_instance :: instance_state
  artifact_files :: "pystr \<Rightarrow> pystr option"
  backup_dir :: "backup_set option"
  passphrase :: "pystr option"

text \<open>
  The programs the module runs and the digest, as functions on what they read; \<open>None\<close> is a non-zero
  exit where the module looks at it. \<open>shown\<close> is \<open>str\<close> of the value the driver returns.
\<close>

record tools =
  dump_database :: "engine \<Rightarrow> database \<Rightarrow> pystr option"
  dump_globals :: "engine \<Rightarrow> pystr \<Rightarrow> pystr option"
  gzip :: "pystr \<Rightarrow> pystr"
  gunzip :: "pystr \<Rightarrow> pystr option"
  seal :: "pystr \<Rightarrow> pystr \<Rightarrow> pystr option"
  unseal :: "pystr \<Rightarrow> pystr \<Rightarrow> pystr option"
  fresh_instance :: "engine \<Rightarrow> instance_state option"
  load_globals :: "engine \<Rightarrow> pystr \<Rightarrow> pystr \<Rightarrow> pystr"
  empty_database :: "engine \<Rightarrow> database"
  load_database :: "engine \<Rightarrow> pystr \<Rightarrow> database option \<Rightarrow> database option \<times> pystr"
  sha256 :: "pystr \<Rightarrow> pystr"
  shown :: "engine \<Rightarrow> dbval \<Rightarrow> pystr"

text \<open>What ends a step: a process that failed, a file, a table or a row that is not there.\<close>

datatype backup_error =
    Process_failed string
  | No_such_file pystr
  | No_such_database
  | No_such_table string
  | Not_one_row
  | No_backup

type_synonym 'a backup_result = "backup_error + 'a"

definition or_fail :: "backup_error \<Rightarrow> 'a option \<Rightarrow> 'a backup_result" where
  "or_fail e x = (case x of None \<Rightarrow> Inl e | Some y \<Rightarrow> Inr y)"

fun traverse :: "('a \<Rightarrow> 'b backup_result) \<Rightarrow> 'a list \<Rightarrow> 'b list backup_result" where
  "traverse f [] = Inr []"
| "traverse f (x # xs) = and_then (f x) (\<lambda>y. and_then (traverse f xs) (\<lambda>ys. Inr (y # ys)))"

definition table_rows :: "database \<Rightarrow> string \<Rightarrow> row list backup_result" where
  "table_rows d t = or_fail (No_such_table t) (map_of (db_rows d) t)"

definition by_id :: "row list \<Rightarrow> row list" where
  "by_id rs = sort_key (\<lambda>r. cell r ''id'') rs"

subsection \<open>The artifacts a database refers to\<close>

definition artifact_hash_sample :: nat where "artifact_hash_sample = 2000"
definition row_hash_sample :: nat where "row_hash_sample = 1000"

text \<open>\<open>SELECT storage_ref FROM raw_artifact ORDER BY id\<close>\<close>

definition cell_text :: "row \<Rightarrow> string \<Rightarrow> pystr" where
  "cell_text r c = (case cell r c of VText s \<Rightarrow> s | _ \<Rightarrow> [])"

definition storage_refs :: "database \<Rightarrow> pystr list backup_result" where
  "storage_refs d = and_then (table_rows d ''raw_artifact'') (\<lambda>rs. Inr (map (\<lambda>r. cell_text r ''storage_ref'') (by_id rs)))"

text \<open>The file under the artifact directory of the scale.\<close>

definition artifact_name :: "pystr \<Rightarrow> pystr" where
  "artifact_name ref = (case strip_prefix (lit ''artifacts/'') ref of Some r \<Rightarrow> r | None \<Rightarrow> ref)"

text \<open>The loop of artifact_manifest, with \<open>total\<close>, \<open>missing\<close> and \<open>hashed\<close> as its state.\<close>

fun scan_refs ::
    "(pystr \<Rightarrow> pystr) \<Rightarrow> (pystr \<Rightarrow> pystr option) \<Rightarrow> nat \<Rightarrow> pystr list \<Rightarrow> (pystr, pystr) pydict \<Rightarrow> pystr list \<Rightarrow>
     nat \<times> pystr list \<times> (pystr, pystr) pydict" where
  "scan_refs sha fs index missing hashed [] = (index, missing, hashed)"
| "scan_refs sha fs index missing hashed (ref # refs) =
     (let seen = index + 1 in
      case fs (artifact_name ref) of
        None \<Rightarrow> scan_refs sha fs seen (if length missing < 50 then missing @ [ref] else missing) hashed refs
      | Some data \<Rightarrow>
          scan_refs sha fs seen missing
            (if index mod max (seen div artifact_hash_sample) 1 = 0 \<and> length hashed < artifact_hash_sample
             then AList.update ref (sha data) hashed else hashed) refs)"

definition artifact_manifest :: "tools \<Rightarrow> (pystr \<Rightarrow> pystr option) \<Rightarrow> database \<Rightarrow> artifact_scan backup_result" where
  "artifact_manifest ts fs d = and_then (storage_refs d) (\<lambda>refs.
     case scan_refs (sha256 ts) fs 0 [] [] refs of
       (n, missing, hashed) \<Rightarrow>
         Inr \<lparr>referenced_artifacts = int n, missing_artifacts = missing,
              missing_count = int (length missing), hashed_sample = hashed\<rparr>)"

subsection \<open>The fingerprint of a database\<close>

definition kind_name :: "pystr \<Rightarrow> pystr" where
  "kind_name k = dict_get [(lit ''p'', lit ''primary_key''), (lit ''f'', lit ''foreign_key''),
     (lit ''u'', lit ''unique''), (lit ''c'', lit ''check'')] k k"

definition snake_case :: "pystr \<Rightarrow> pystr" where
  "snake_case s = map (\<lambda>c. if c = 32 then 95 else if 65 \<le> c \<and> c \<le> 90 then c + 32 else c) s"

definition constraints_of :: "engine \<Rightarrow> database \<Rightarrow> (pystr, int) pydict" where
  "constraints_of e d =
     (case e of
        Postgres \<Rightarrow> dict_of (map (\<lambda>(k, n). (kind_name k, n)) (db_constraints d))
      | Mariadb \<Rightarrow>
          AList.update (lit ''check_constraints_total'') (db_check_count d)
            (dict_of (map (\<lambda>(k, n). (snake_case k, n)) (db_constraints d))))"

definition sample_columns :: "string list" where
  "sample_columns = [''id'', ''card_identity_id'', ''shop_id'', ''amount_minor'', ''currency'', ''price_type'',
     ''card_condition'', ''observed_at'', ''idempotency_key'']"

text \<open>The bytes fed to the digest, a row after a row.\<close>

definition sample_text :: "(dbval \<Rightarrow> pystr) \<Rightarrow> row list \<Rightarrow> pystr" where
  "sample_text show_value rs = concat (map (\<lambda>r. join [124] (map show_value (cells r sample_columns))) rs)"

definition entity_fingerprint :: "tools \<Rightarrow> engine \<Rightarrow> database \<Rightarrow> fingerprint backup_result" where
  "entity_fingerprint ts e d =
     and_then (traverse (\<lambda>t. and_then (table_rows d t) (\<lambda>rs. Inr (t, int (length rs)))) table_order) (\<lambda>counts.
     and_then (table_rows d ''price_observation'') (\<lambda>rs.
       let sample = take row_hash_sample (by_id rs) in
       Inr \<lparr>row_counts = dict_of counts, total_rows = sum_list (map snd (dict_of counts)),
            sample_rows = int (length sample), sample_sha256 = sha256 ts (sample_text (shown ts e) sample),
            constraint_counts = constraints_of e d\<rparr>))"

definition alembic_revision :: "database \<Rightarrow> pystr backup_result" where
  "alembic_revision d = (case db_revisions d of [v] \<Rightarrow> Inr v | _ \<Rightarrow> Inl Not_one_row)"

text \<open>Equality of dicts, whatever their order.\<close>

definition same_dict :: "('k, 'v) pydict \<Rightarrow> ('k, 'v) pydict \<Rightarrow> bool" where
  "same_dict d e \<longleftrightarrow> length d = length e \<and> list_all (\<lambda>(k, v). map_of e k = Some v) d"

declare or_fail_def [py_eval] table_rows_def [py_eval] by_id_def [py_eval] artifact_hash_sample_def [py_eval]
  row_hash_sample_def [py_eval] cell_text_def [py_eval] storage_refs_def [py_eval] artifact_name_def [py_eval]
  artifact_manifest_def [py_eval] kind_name_def [py_eval] snake_case_def [py_eval] constraints_of_def [py_eval]
  sample_columns_def [py_eval] sample_text_def [py_eval] entity_fingerprint_def [py_eval]
  alembic_revision_def [py_eval] same_dict_def [py_eval]

subsection \<open>backup\<close>

text \<open>The key file: kept when it is there, else 64 hexadecimal digits of a fresh key.\<close>

definition passphrase_file :: "pystr \<Rightarrow> place \<Rightarrow> pystr \<times> place" where
  "passphrase_file fresh w =
     (case passphrase w of Some k \<Rightarrow> (k, w) | None \<Rightarrow> (fresh, w\<lparr>passphrase := Some fresh\<rparr>))"

definition encrypt :: "tools \<Rightarrow> pystr \<Rightarrow> pystr \<Rightarrow> place \<Rightarrow> pystr backup_result \<times> place" where
  "encrypt ts fresh content w =
     (let (k, w) = passphrase_file fresh w in (or_fail (Process_failed ''openssl'') (seal ts k content), w))"

definition decrypt :: "tools \<Rightarrow> pystr \<Rightarrow> pystr \<Rightarrow> place \<Rightarrow> pystr backup_result \<times> place" where
  "decrypt ts fresh content w =
     (let (k, w) = passphrase_file fresh w in (or_fail (Process_failed ''openssl'') (unseal ts k content), w))"

definition dump_name :: "engine \<Rightarrow> string" where
  "dump_name e = (case e of Postgres \<Rightarrow> ''database.dump.enc'' | Mariadb \<Rightarrow> ''database.sql.gz.enc'')"

definition globals_name :: string where "globals_name = ''globals.sql.enc''"

text \<open>The two dumps: what the server holds, compressed by the module for MariaDB.\<close>

definition dump_files :: "tools \<Rightarrow> engine \<Rightarrow> instance_state \<Rightarrow> (pystr \<times> pystr) backup_result" where
  "dump_files ts e s =
     and_then (or_fail (Process_failed ''dump'') (Option.bind (the_database s) (dump_database ts e))) (\<lambda>dump.
     and_then (or_fail (Process_failed ''globals'') (dump_globals ts e (global_objects s))) (\<lambda>globals.
     Inr (case e of Postgres \<Rightarrow> dump | Mariadb \<Rightarrow> gzip ts dump, globals)))"

definition file_info :: "tools \<Rightarrow> string \<Rightarrow> pystr \<Rightarrow> sealed_file" where
  "file_info ts name content =
     \<lparr>sealed_name = name, sealed_bytes = int (length content), sealed_sha256 = sha256 ts content\<rparr>"

text \<open>The clock and the key are given; times measured are left out.\<close>

definition take_backup ::
    "tools \<Rightarrow> pystr \<Rightarrow> pystr \<Rightarrow> engine \<Rightarrow> int \<Rightarrow> place \<Rightarrow> (int \<times> manifest) backup_result \<times> place" where
  "take_backup ts fresh clock e scale w =
     then_state (dump_files ts e (main_instance w), w\<lparr>backup_dir := None\<rparr>) (\<lambda>(dump, globals) w.
     then_state (encrypt ts fresh dump w) (\<lambda>sealed_dump w.
     then_state (encrypt ts fresh globals w) (\<lambda>sealed_globals w.
     then_state (or_fail No_such_database (the_database (main_instance w)), w) (\<lambda>d w.
     then_state (artifact_manifest ts (artifact_files w) d, w) (\<lambda>scan w.
     then_state (entity_fingerprint ts e d, w) (\<lambda>fingerprint w.
     then_state (alembic_revision d, w) (\<lambda>revision w.
       let files = [(''database'', file_info ts (dump_name e) sealed_dump),
                    (''globals'', file_info ts globals_name sealed_globals)];
           m = \<lparr>basis_time = clock, mf_engine = e, mf_scale = scale, migration_revision = revision,
                mf_files = files,
                plain_bytes = [(''database'', int (length dump)), (''globals'', int (length globals))],
                mf_artifacts = scan\<lparr>hashed_sample := []\<rparr>,
                artifact_hash_sample_size = int (length (hashed_sample scan)),
                source_fingerprint = fingerprint\<rparr> in
       (Inr (sum_list (map (sealed_bytes \<circ> snd) files), m),
        w\<lparr>backup_dir := Some \<lparr>set_files = [(dump_name e, sealed_dump), (globals_name, sealed_globals)],
                                set_manifest = m, set_hashes = hashed_sample scan\<rparr>\<rparr>))))))))"

subsection \<open>restore\<close>

record artifact_report =
  ar_referenced :: int
  ar_missing :: int
  ar_examples :: "pystr list"
  ar_hash_checked :: int
  ar_hash_mismatched :: int
  ar_pass :: bool

text \<open>The references whose file is not there: every one is counted, the first 50 are kept.\<close>

fun missing_refs :: "(pystr \<Rightarrow> pystr option) \<Rightarrow> pystr list \<Rightarrow> pystr list \<Rightarrow> pystr list" where
  "missing_refs fs missing [] = missing"
| "missing_refs fs missing (ref # refs) =
     missing_refs fs
       (if fs (artifact_name ref) = None \<and> length missing < 50 then missing @ [ref] else missing) refs"

definition artifact_digest :: "tools \<Rightarrow> (pystr \<Rightarrow> pystr option) \<Rightarrow> pystr \<Rightarrow> pystr backup_result" where
  "artifact_digest ts fs ref =
     map_sum id (sha256 ts) (or_fail (No_such_file ref) (fs (artifact_name ref)))"

definition verify_artifacts ::
    "tools \<Rightarrow> (pystr \<Rightarrow> pystr option) \<Rightarrow> (pystr, pystr) pydict \<Rightarrow> database \<Rightarrow> artifact_report backup_result" where
  "verify_artifacts ts fs hashes d =
     and_then (storage_refs d) (\<lambda>refs.
     and_then (traverse (\<lambda>(ref, digest). and_then (artifact_digest ts fs ref) (\<lambda>found. Inr (found \<noteq> digest))) hashes) (\<lambda>wrong.
       let missing = missing_refs fs [] refs in
       Inr \<lparr>ar_referenced = int (length refs), ar_missing = int (length missing),
            ar_examples = take 10 missing, ar_hash_checked = int (length hashes),
            ar_hash_mismatched = int (length (filter id wrong)),
            ar_pass = (missing = [] \<and> filter id wrong = [])\<rparr>))"

record restore_report =
  checksums_verified :: "(string \<times> bool) list"
  restore_stderr :: pystr
  restored_fingerprint :: fingerprint
  counts_match :: bool
  sample_hash_match :: bool
  constraints_match :: bool
  rr_artifacts :: artifact_report
  rr_pass :: bool

definition set_file :: "backup_set \<Rightarrow> string \<Rightarrow> pystr backup_result" where
  "set_file b name = or_fail (No_such_file (lit name)) (map_of (set_files b) name)"

definition named_file :: "backup_set \<Rightarrow> string \<Rightarrow> pystr backup_result" where
  "named_file b label =
     and_then (or_fail (No_such_file (lit label)) (map_of (mf_files (set_manifest b)) label)) (\<lambda>info.
     set_file b (sealed_name info))"

definition checksums :: "tools \<Rightarrow> backup_set \<Rightarrow> (string \<times> bool) list backup_result" where
  "checksums ts b =
     traverse (\<lambda>(label, info). and_then (set_file b (sealed_name info)) (\<lambda>content.
       Inr (label, sha256 ts content = sealed_sha256 info))) (mf_files (set_manifest b))"

text \<open>
  What the server holds after the load. Failures of the globals and of the load are not looked at;
  PostgreSQL's database is created first, and MariaDB's dump creates its own.
\<close>

definition load_dump :: "tools \<Rightarrow> engine \<Rightarrow> pystr \<Rightarrow> pystr \<Rightarrow> instance_state \<Rightarrow> (instance_state \<times> pystr) backup_result" where
  "load_dump ts e dump globals s =
     (let s = s\<lparr>global_objects := load_globals ts e globals (global_objects s)\<rparr> in
      and_then
        (case e of
           Postgres \<Rightarrow>
             if the_database s = None then Inr (s\<lparr>the_database := Some (empty_database ts e)\<rparr>, dump)
             else Inl (Process_failed ''createdb'')
         | Mariadb \<Rightarrow> map_sum id (Pair s) (or_fail (Process_failed ''gzip'') (gunzip ts dump)))
        (\<lambda>(s, content).
          case load_database ts e content (the_database s) of
            (d, stderr) \<Rightarrow> Inr (s\<lparr>the_database := d\<rparr>, drop (length stderr - 1500) stderr)))"

definition restore :: "tools \<Rightarrow> pystr \<Rightarrow> engine \<Rightarrow> place \<Rightarrow> restore_report backup_result \<times> place" where
  "restore ts fresh e w =
     then_state (or_fail No_backup (backup_dir w), w) (\<lambda>b w.
     then_state (checksums ts b, w) (\<lambda>sums w.
     then_state (or_fail (Process_failed ''instances.sh'') (fresh_instance ts e), w) (\<lambda>s w.
     then_state (named_file b ''database'', w\<lparr>restore_instance := s\<rparr>) (\<lambda>sealed_dump w.
     then_state (decrypt ts fresh sealed_dump w) (\<lambda>dump w.
     then_state (named_file b ''globals'', w) (\<lambda>sealed_globals w.
     then_state (decrypt ts fresh sealed_globals w) (\<lambda>globals w.
     then_state (load_dump ts e dump globals (restore_instance w), w) (\<lambda>(s, stderr) w.
     then_state (or_fail No_such_database (the_database s), w\<lparr>restore_instance := s\<rparr>) (\<lambda>d w.
     then_state (entity_fingerprint ts e d, w) (\<lambda>restored w.
     then_state (verify_artifacts ts (artifact_files w) (set_hashes b) d, w) (\<lambda>artifacts w.
       let source = source_fingerprint (set_manifest b);
           counts = same_dict (row_counts restored) (row_counts source);
           sample = (sample_sha256 restored = sample_sha256 source);
           constraints = same_dict (constraint_counts restored) (constraint_counts source) in
       (Inr \<lparr>checksums_verified = sums, restore_stderr = stderr, restored_fingerprint = restored,
             counts_match = counts, sample_hash_match = sample, constraints_match = constraints,
             rr_artifacts = artifacts,
             rr_pass = (list_all snd sums \<and> counts \<and> sample \<and> constraints \<and> ar_pass artifacts)\<rparr>, w))))))))))))"

datatype backup_step = Step_backup | Step_restore | Step_both

text \<open>main: what each step that ran returned; the exception of one ends the program.\<close>

definition backup_main ::
    "tools \<Rightarrow> pystr \<Rightarrow> pystr \<Rightarrow> engine \<Rightarrow> int \<Rightarrow> backup_step \<Rightarrow> place \<Rightarrow>
     ((int \<times> manifest) option \<times> restore_report option) backup_result \<times> place" where
  "backup_main ts fresh clock e scale step w =
     then_state
       (if step \<noteq> Step_restore
        then then_state (take_backup ts fresh clock e scale w) (\<lambda>r w. (Inr (Some r), w)) else (Inr None, w)) (\<lambda>taken w.
     then_state
       (if step \<noteq> Step_backup
        then then_state (restore ts fresh e w) (\<lambda>r w. (Inr (Some r), w)) else (Inr None, w)) (\<lambda>restored w.
     (Inr (taken, restored), w)))"

declare passphrase_file_def [py_eval] encrypt_def [py_eval] decrypt_def [py_eval] dump_name_def [py_eval]
  globals_name_def [py_eval] dump_files_def [py_eval] file_info_def [py_eval] take_backup_def [py_eval]
  artifact_digest_def [py_eval] verify_artifacts_def [py_eval] set_file_def [py_eval] named_file_def [py_eval]
  checksums_def [py_eval] load_dump_def [py_eval] restore_def [py_eval] backup_main_def [py_eval]

lemma or_fail_Inr [simp]: "or_fail e x = Inr y \<longleftrightarrow> x = Some y"
  by (cases x) (auto simp: or_fail_def)

subsection \<open>What is relied on\<close>

text \<open>
  The documented behaviour of the programs: openssl gives back what it sealed with the same key, gzip
  what it compressed, and a dump loaded into a fresh server gives a database with the same rows in each
  table, the same catalog answers and the same revision, in any order.
\<close>

definition seals :: "tools \<Rightarrow> bool" where
  "seals ts \<longleftrightarrow> (\<forall>k c s. seal ts k c = Some s \<longrightarrow> unseal ts k s = Some c)"

definition unzips :: "tools \<Rightarrow> bool" where
  "unzips ts \<longleftrightarrow> (\<forall>c. gunzip ts (gzip ts c) = Some c)"

definition same_content :: "database \<Rightarrow> database \<Rightarrow> bool" where
  "same_content d d' \<longleftrightarrow>
     (\<forall>t. map_option mset (map_of (db_rows d') t) = map_option mset (map_of (db_rows d) t)) \<and>
     mset (db_constraints d') = mset (db_constraints d) \<and> db_check_count d' = db_check_count d \<and>
     db_revisions d' = db_revisions d"

definition reloads :: "tools \<Rightarrow> engine \<Rightarrow> bool" where
  "reloads ts e \<longleftrightarrow>
     (\<exists>s. fresh_instance ts e = Some s \<and> the_database s = None) \<and>
     (\<forall>d dump. dump_database ts e d = Some dump \<longrightarrow>
       (\<exists>d' err. load_database ts e dump (case e of Postgres \<Rightarrow> Some (empty_database ts e) | Mariadb \<Rightarrow> None) = (Some d', err) \<and>
          same_content d d'))"

text \<open>The database has its primary keys, and its catalog names a kind of constraint once.\<close>

definition ids_distinct :: "database \<Rightarrow> string \<Rightarrow> bool" where
  "ids_distinct d t \<longleftrightarrow> (\<forall>rs. map_of (db_rows d) t = Some rs \<longrightarrow> distinct (map (\<lambda>r. cell r ''id'') rs))"

definition kinds_distinct :: "engine \<Rightarrow> database \<Rightarrow> bool" where
  "kinds_distinct e d \<longleftrightarrow>
     distinct (map ((case e of Postgres \<Rightarrow> kind_name | Mariadb \<Rightarrow> snake_case) \<circ> fst) (db_constraints d))"

subsection \<open>A restored database looks like the source\<close>

lemma by_id_mset:
  assumes "mset rs' = mset rs" "distinct (map (\<lambda>r. cell r ''id'') rs)"
  shows "by_id rs' = by_id rs"
proof -
  have "inj_on (\<lambda>r. cell r ''id'') (set rs)"
    using assms(2) by (simp add: distinct_map)
  then show ?thesis
    unfolding by_id_def using assms(1) by (intro sort_key_eq_sort_key) (auto dest: mset_eq_setD)
qed

lemma same_rows:
  assumes "same_content d d'" "table_rows d t = Inr rs"
  shows "\<exists>rs'. table_rows d' t = Inr rs' \<and> mset rs' = mset rs"
  using assms by (auto simp: same_content_def table_rows_def dest!: spec [of _ t])

lemma same_refs:
  assumes "same_content d d'" "ids_distinct d ''raw_artifact''" "storage_refs d = Inr refs"
  shows "storage_refs d' = Inr refs"
proof -
  obtain rs where rs: "table_rows d ''raw_artifact'' = Inr rs" "refs = map (\<lambda>r. cell_text r ''storage_ref'') (by_id rs)"
    using assms(3) by (auto simp: storage_refs_def)
  obtain rs' where rs': "table_rows d' ''raw_artifact'' = Inr rs'" "mset rs' = mset rs"
    using same_rows [OF assms(1) rs(1)] by blast
  have "by_id rs' = by_id rs"
    using assms(2) rs(1) by (intro by_id_mset [OF rs'(2)]) (simp add: ids_distinct_def table_rows_def)
  then show ?thesis
    by (simp add: storage_refs_def rs'(1) rs(2))
qed

lemma traverse_counts:
  assumes "same_content d d'"
  shows "traverse (\<lambda>t. and_then (table_rows d t) (\<lambda>rs. Inr (t, int (length rs)))) ts = Inr counts \<Longrightarrow>
    traverse (\<lambda>t. and_then (table_rows d' t) (\<lambda>rs. Inr (t, int (length rs)))) ts = Inr counts"
proof (induction ts arbitrary: counts)
  case (Cons t ts)
  obtain rs where rs: "table_rows d t = Inr rs"
    using Cons.prems by (cases "table_rows d t") simp_all
  obtain cs where cs: "traverse (\<lambda>t. and_then (table_rows d t) (\<lambda>rs. Inr (t, int (length rs)))) ts = Inr cs"
    using Cons.prems by (cases "traverse (\<lambda>t. and_then (table_rows d t) (\<lambda>rs. Inr (t, int (length rs)))) ts")
      (simp_all add: rs)
  have counts: "counts = (t, int (length rs)) # cs"
    using Cons.prems by (simp add: rs cs)
  obtain rs' where "table_rows d' t = Inr rs'" "mset rs' = mset rs"
    using same_rows [OF assms rs] by blast
  moreover from this(2) have "length rs' = length rs"
    by (rule mset_eq_length)
  ultimately show ?case
    using Cons.IH [OF cs] counts by simp
qed simp

lemma same_dict_refl: "distinct (map fst d) \<Longrightarrow> same_dict d d"
  by (auto simp: same_dict_def list_all_iff)

lemma same_dict_mset:
  assumes "mset d = mset e" "distinct (map fst e)"
  shows "same_dict d e"
  using assms mset_eq_length [OF assms(1)] mset_eq_setD [OF assms(1)]
  by (auto simp: same_dict_def list_all_iff)

lemma map_of_same: "mset d = mset e \<Longrightarrow> distinct (map fst e) \<Longrightarrow> map_of d = map_of e"
  by (metis map_of_inject_set mset_eq_setD mset_map distinct_count_atmost_1 set_mset_mset mset_eq_imp_distinct_iff)

lemma distinct_same_dict:
  assumes "distinct (map fst d)" "distinct (map fst e)" "map_of d = map_of e"
  shows "same_dict d e"
proof -
  have same: "set d = set e"
    using assms map_of_inject_set by blast
  then have "length d = length e"
    using assms(1,2) by (metis distinct_card distinct_map)
  then show ?thesis
    using assms(2) by (auto simp: same_dict_def list_all_iff same)
qed

lemma same_constraints:
  assumes "same_content d d'" "kinds_distinct e d"
  shows "same_dict (constraints_of e d') (constraints_of e d)"
proof -
  define name where "name = (case e of Postgres \<Rightarrow> kind_name | Mariadb \<Rightarrow> snake_case)"
  define kinds where "kinds = (\<lambda>d :: database. map (\<lambda>(k, n). (name k, n)) (db_constraints d))"
  have m: "mset (kinds d') = mset (kinds d)"
    using assms(1) by (simp add: kinds_def same_content_def)
  have dist: "distinct (map fst (kinds d))"
    using assms(2) by (simp add: kinds_def kinds_distinct_def name_def comp_def case_prod_beta)
  have "mset (map fst (kinds d')) = mset (map fst (kinds d))"
    using m by simp
  then have dist': "distinct (map fst (kinds d'))"
    using dist mset_eq_imp_distinct_iff by blast
  have maps: "map_of (kinds d') = map_of (kinds d)"
    by (rule map_of_same [OF m dist])
  have "db_check_count d' = db_check_count d"
    using assms(1) by (simp add: same_content_def)
  then have "constraints_of e d' = (case e of Postgres \<Rightarrow> kinds d'
      | Mariadb \<Rightarrow> AList.update (lit ''check_constraints_total'') (db_check_count d) (kinds d'))"
    "constraints_of e d = (case e of Postgres \<Rightarrow> kinds d
      | Mariadb \<Rightarrow> AList.update (lit ''check_constraints_total'') (db_check_count d) (kinds d))"
    using dict_of_distinct [OF dist] dict_of_distinct [OF dist']
    by (cases e; simp add: constraints_of_def kinds_def name_def)+
  then show ?thesis
    using dist dist' maps by (cases e) (auto intro!: distinct_same_dict simp: distinct_update update_conv')
qed

lemma same_fingerprint:
  assumes "same_content d d'" "ids_distinct d ''price_observation''" "entity_fingerprint ts e d = Inr fp"
  shows "entity_fingerprint ts e d' = Inr (fp\<lparr>constraint_counts := constraints_of e d'\<rparr>)"
proof -
  obtain counts rs where counts: "traverse (\<lambda>t. and_then (table_rows d t) (\<lambda>rs. Inr (t, int (length rs)))) table_order = Inr counts"
    and rs: "table_rows d ''price_observation'' = Inr rs"
    and fp: "fp = \<lparr>row_counts = dict_of counts, total_rows = sum_list (map snd (dict_of counts)),
            sample_rows = int (length (take row_hash_sample (by_id rs))),
            sample_sha256 = sha256 ts (sample_text (shown ts e) (take row_hash_sample (by_id rs))),
            constraint_counts = constraints_of e d\<rparr>"
    using assms(3) by (auto simp: entity_fingerprint_def Let_def)
  obtain rs' where rs': "table_rows d' ''price_observation'' = Inr rs'" "mset rs' = mset rs"
    using same_rows [OF assms(1) rs] by blast
  have "by_id rs' = by_id rs"
    using assms(2) rs by (intro by_id_mset [OF rs'(2)]) (simp add: ids_distinct_def table_rows_def)
  then show ?thesis
    by (simp add: entity_fingerprint_def traverse_counts [OF assms(1) counts] rs'(1) fp Let_def)
qed

lemma fingerprint_counts:
  assumes "entity_fingerprint ts e d = Inr fp"
  shows "same_dict (row_counts fp) (row_counts fp)" "constraint_counts fp = constraints_of e d"
  using assms by (auto simp: entity_fingerprint_def Let_def intro!: same_dict_refl distinct_dict_of)

subsection \<open>What the scan keeps\<close>

lemma scan_missing: "fst (snd (scan_refs sha fs i missing hashed refs)) = missing_refs fs missing refs"
  by (induction sha fs i missing hashed refs rule: scan_refs.induct) (auto simp: Let_def split: option.splits)

lemma scan_total: "fst (scan_refs sha fs i missing hashed refs) = i + length refs"
  by (induction sha fs i missing hashed refs rule: scan_refs.induct) (auto simp: Let_def split: option.splits)

definition digests_hold :: "(pystr \<Rightarrow> pystr) \<Rightarrow> (pystr \<Rightarrow> pystr option) \<Rightarrow> (pystr, pystr) pydict \<Rightarrow> bool" where
  "digests_hold sha fs hashed \<longleftrightarrow>
     (\<forall>(ref, digest) \<in> set hashed. \<exists>data. fs (artifact_name ref) = Some data \<and> digest = sha data)"

lemma set_update_subset: "set (AList.update k v d) \<subseteq> insert (k, v) (set d)"
  by (induction d) auto

lemma digests_hold_update:
  "digests_hold sha fs hashed \<Longrightarrow> fs (artifact_name ref) = Some data \<Longrightarrow>
     digests_hold sha fs (AList.update ref (sha data) hashed)"
  using set_update_subset [of ref "sha data" hashed] unfolding digests_hold_def by blast

lemma scan_digests:
  "digests_hold sha fs hashed \<Longrightarrow> digests_hold sha fs (snd (snd (scan_refs sha fs i missing hashed refs)))"
  by (induction sha fs i missing hashed refs rule: scan_refs.induct)
    (auto simp: Let_def digests_hold_update split: option.splits)

text \<open>
  The stride of the sample is computed from the rows read so far, so it stays 1 until the sample is
  full: the sample is the first 2000 references.
\<close>

lemma scan_full:
  "artifact_hash_sample \<le> length hashed \<Longrightarrow> snd (snd (scan_refs sha fs i missing hashed refs)) = hashed"
  by (induction sha fs i missing hashed refs rule: scan_refs.induct) (auto simp: Let_def split: option.splits)

lemma stride_one: "i < artifact_hash_sample \<Longrightarrow> max ((i + 1) div artifact_hash_sample) 1 = 1"
  by (cases "i + 1 = artifact_hash_sample") (auto simp: artifact_hash_sample_def)

lemma scan_prefix:
  assumes "length hashed = i" "i \<le> artifact_hash_sample" "distinct refs" "set refs \<inter> fst ` set hashed = {}"
    and "\<forall>ref \<in> set (take (artifact_hash_sample - i) refs). fs (artifact_name ref) \<noteq> None"
  shows "snd (snd (scan_refs sha fs i missing hashed refs)) =
    hashed @ map (\<lambda>ref. (ref, sha (the (fs (artifact_name ref))))) (take (artifact_hash_sample - i) refs)"
  using assms
proof (induction refs arbitrary: i missing hashed)
  case (Cons ref refs)
  show ?case
  proof (cases "i = artifact_hash_sample")
    case True
    with Cons.prems show ?thesis by (simp add: scan_full del: scan_refs.simps)
  next
    case False
    with Cons.prems have i: "i < artifact_hash_sample" by simp
    then have n: "artifact_hash_sample - i = Suc (artifact_hash_sample - Suc i)" by simp
    obtain data where data: "fs (artifact_name ref) = Some data"
      using Cons.prems(5) by (auto simp: n)
    have update: "AList.update ref (sha data) hashed = hashed @ [(ref, sha data)]"
      using Cons.prems(4) by (intro update_new) auto
    have "snd (snd (scan_refs sha fs (Suc i) missing (hashed @ [(ref, sha data)]) refs)) =
      (hashed @ [(ref, sha data)]) @
      map (\<lambda>ref. (ref, sha (the (fs (artifact_name ref))))) (take (artifact_hash_sample - Suc i) refs)"
      using Cons.prems i by (intro Cons.IH) (auto simp: n)
    then show ?thesis
      using stride_one [OF i] i Cons.prems(1) by (simp add: data update n Let_def)
  qed
qed simp

subsection \<open>Verification after a backup\<close>

lemma traverse_Inr:
  "(\<And>x. x \<in> set xs \<Longrightarrow> f x = Inr (g x)) \<Longrightarrow> traverse f xs = Inr (map g xs)"
  by (induction xs) auto

lemma verify_holding:
  assumes "storage_refs d = Inr refs" "digests_hold (sha256 ts) fs hashes"
  shows "\<exists>report. verify_artifacts ts fs hashes d = Inr report \<and>
    (ar_pass report \<longleftrightarrow> missing_refs fs [] refs = []) \<and> ar_hash_mismatched report = 0 \<and>
    ar_referenced report = int (length refs)"
proof -
  have "traverse (\<lambda>(ref, digest). and_then (artifact_digest ts fs ref) (\<lambda>found. Inr (found \<noteq> digest))) hashes =
      Inr (map (\<lambda>_. False) hashes)"
  proof (rule traverse_Inr)
    fix x assume "x \<in> set hashes"
    then obtain ref digest data where "x = (ref, digest)" "fs (artifact_name ref) = Some data" "digest = sha256 ts data"
      using assms(2) by (auto simp: digests_hold_def)
    then show "(case x of (ref, digest) \<Rightarrow> and_then (artifact_digest ts fs ref) (\<lambda>found. Inr (found \<noteq> digest))) = Inr False"
      by (simp add: artifact_digest_def or_fail_def)
  qed
  moreover have "filter id (map (\<lambda>_. False) hashes) = []"
    by (induction hashes) auto
  ultimately show ?thesis
    by (simp add: verify_artifacts_def assms(1) Let_def)
qed

lemma missing_refs_from: "missing_refs fs missing refs = [] \<longleftrightarrow> missing = [] \<and> (\<forall>ref \<in> set refs. fs (artifact_name ref) \<noteq> None)"
  by (induction fs missing refs rule: missing_refs.induct) auto

subsection \<open>The state a backup leaves\<close>

lemma key_used: "\<exists>key. \<forall>c. encrypt ts fresh c w = (or_fail (Process_failed ''openssl'') (seal ts key c), w\<lparr>passphrase := Some key\<rparr>) \<and>
    encrypt ts fresh c (w\<lparr>passphrase := Some key\<rparr>) = (or_fail (Process_failed ''openssl'') (seal ts key c), w\<lparr>passphrase := Some key\<rparr>)"
proof (cases "passphrase w")
  case None
  then show ?thesis by (intro exI [of _ fresh]) (simp add: encrypt_def passphrase_file_def)
next
  case (Some key)
  then have "w\<lparr>passphrase := Some key\<rparr> = w" by (cases w) simp
  with Some show ?thesis by (intro exI [of _ key]) (simp add: encrypt_def passphrase_file_def)
qed

text \<open>Everything a backup that succeeded computed, and the place it left.\<close>

lemma backup_inv:
  assumes "take_backup ts fresh clock e scale w = (Inr (bytes, m), w1)"
  obtains d dump globals sealed_dump sealed_globals key scan fp where
    "the_database (main_instance w) = Some d" "dump_files ts e (main_instance w) = Inr (dump, globals)"
    "seal ts key dump = Some sealed_dump" "seal ts key globals = Some sealed_globals"
    "artifact_manifest ts (artifact_files w) d = Inr scan" "entity_fingerprint ts e d = Inr fp"
    "mf_files m = [(''database'', file_info ts (dump_name e) sealed_dump), (''globals'', file_info ts globals_name sealed_globals)]"
    "mf_artifacts m = scan\<lparr>hashed_sample := []\<rparr>" "source_fingerprint m = fp"
    "w1 = w\<lparr>passphrase := Some key, backup_dir := Some \<lparr>set_files = [(dump_name e, sealed_dump), (globals_name, sealed_globals)],
        set_manifest = m, set_hashes = hashed_sample scan\<rparr>\<rparr>"
proof -
  obtain key where key: "\<And>c. encrypt ts fresh c (w\<lparr>backup_dir := None\<rparr>) =
      (or_fail (Process_failed ''openssl'') (seal ts key c), w\<lparr>backup_dir := None, passphrase := Some key\<rparr>)"
    "\<And>c. encrypt ts fresh c (w\<lparr>backup_dir := None, passphrase := Some key\<rparr>) =
      (or_fail (Process_failed ''openssl'') (seal ts key c), w\<lparr>backup_dir := None, passphrase := Some key\<rparr>)"
    using key_used [of ts fresh "w\<lparr>backup_dir := None\<rparr>"] by auto
  show ?thesis
    using assms by (auto simp: take_backup_def then_state_Inr key Let_def intro!: that [of _ _ _ key])
qed

lemma dump_loads:
  assumes tools: "unzips ts" "reloads ts e" and s0: "fresh_instance ts e = Some s0"
    and d: "the_database s = Some d" and dumped: "dump_files ts e s = Inr (dump, globals)"
  shows "\<exists>s' stderr d'. load_dump ts e dump globals s0 = Inr (s', stderr) \<and> the_database s' = Some d' \<and> same_content d d'"
proof -
  obtain plain where plain: "dump_database ts e d = Some plain" "dump = (case e of Postgres \<Rightarrow> plain | Mariadb \<Rightarrow> gzip ts plain)"
    using dumped by (auto simp: dump_files_def d)
  have "the_database s0 = None"
    using tools(2) s0 by (auto simp: reloads_def)
  obtain d' err where "load_database ts e plain (case e of Postgres \<Rightarrow> Some (empty_database ts e) | Mariadb \<Rightarrow> None) = (Some d', err)"
      "same_content d d'"
    using tools(2) plain(1) unfolding reloads_def by blast
  then show ?thesis
    using plain(2) tools(1) \<open>the_database s0 = None\<close>
    by (cases e) (auto simp: load_dump_def Let_def unzips_def or_fail_def)
qed

text \<open>The report of a restore of a fresh backup, as a function of what the artifact check finds.\<close>

definition matching_report :: "pystr \<Rightarrow> fingerprint \<Rightarrow> artifact_report \<Rightarrow> restore_report" where
  "matching_report stderr fp a =
     \<lparr>checksums_verified = [(''database'', True), (''globals'', True)], restore_stderr = stderr,
      restored_fingerprint = fp, counts_match = True, sample_hash_match = True, constraints_match = True,
      rr_artifacts = a, rr_pass = ar_pass a\<rparr>"

lemma restore_of_backup:
  assumes tools: "seals ts" "unzips ts" "reloads ts e"
    and source: "the_database (main_instance w) = Some d" "ids_distinct d ''price_observation''"
      "ids_distinct d ''raw_artifact''" "kinds_distinct e d"
    and taken: "take_backup ts fresh clock e scale w = (Inr (bytes, m), w1)"
  obtains scan refs d' stderr fp' where "artifact_manifest ts (artifact_files w) d = Inr scan" "storage_refs d = Inr refs"
    "mf_artifacts m = scan\<lparr>hashed_sample := []\<rparr>" "storage_refs d' = Inr refs"
    "\<And>fs fresh'. \<exists>w2. restore ts fresh' e (w1\<lparr>artifact_files := fs\<rparr>) =
        (map_sum id (matching_report stderr fp') (verify_artifacts ts fs (hashed_sample scan) d'), w2) \<and>
        main_instance w2 = main_instance w \<and> artifact_files w2 = fs"
    "set_hashes (the (backup_dir w1)) = hashed_sample scan" "artifact_files w1 = artifact_files w"
proof -
  obtain dump globals sealed_dump sealed_globals key scan fp where
    dumped: "dump_files ts e (main_instance w) = Inr (dump, globals)"
    and sealed: "seal ts key dump = Some sealed_dump" "seal ts key globals = Some sealed_globals"
    and scan: "artifact_manifest ts (artifact_files w) d = Inr scan" and fp: "entity_fingerprint ts e d = Inr fp"
    and m: "mf_files m = [(''database'', file_info ts (dump_name e) sealed_dump), (''globals'', file_info ts globals_name sealed_globals)]"
      "mf_artifacts m = scan\<lparr>hashed_sample := []\<rparr>" "source_fingerprint m = fp"
    and w1: "w1 = w\<lparr>passphrase := Some key, backup_dir := Some \<lparr>set_files = [(dump_name e, sealed_dump), (globals_name, sealed_globals)],
        set_manifest = m, set_hashes = hashed_sample scan\<rparr>\<rparr>"
    using backup_inv [OF taken] source(1) by (metis option.inject)
  define b where "b = \<lparr>set_files = [(dump_name e, sealed_dump), (globals_name, sealed_globals)],
        set_manifest = m, set_hashes = hashed_sample scan\<rparr>"
  have w1b: "w1 = w\<lparr>passphrase := Some key, backup_dir := Some b\<rparr>" "set_hashes b = hashed_sample scan"
      "source_fingerprint (set_manifest b) = fp"
    by (simp_all add: w1 b_def m(3))
  obtain refs where refs: "storage_refs d = Inr refs"
    using scan by (auto simp: artifact_manifest_def)
  obtain s0 where s0: "fresh_instance ts e = Some s0"
    using tools(3) by (auto simp: reloads_def)
  obtain s' stderr d' where loaded: "load_dump ts e dump globals s0 = Inr (s', stderr)" "the_database s' = Some d'"
      and same: "same_content d d'"
    using dump_loads [OF tools(2,3) s0 source(1) dumped] by blast
  define fp' where "fp' = fp\<lparr>constraint_counts := constraints_of e d'\<rparr>"
  have fp': "entity_fingerprint ts e d' = Inr fp'"
    unfolding fp'_def by (rule same_fingerprint [OF same source(2) fp])
  have names: "dump_name e \<noteq> globals_name"
    by (cases e) (simp_all add: dump_name_def globals_name_def)
  have files: "checksums ts b = Inr [(''database'', True), (''globals'', True)]"
      "named_file b ''database'' = Inr sealed_dump" "named_file b ''globals'' = Inr sealed_globals"
    using names by (simp_all add: b_def checksums_def named_file_def set_file_def m(1) file_info_def or_fail_def)
  have opened: "decrypt ts fresh' sealed_dump v = (Inr dump, v)" "decrypt ts fresh' sealed_globals v = (Inr globals, v)"
    if "passphrase v = Some key" for v fresh'
    using tools(1) sealed that by (simp_all add: decrypt_def passphrase_file_def seals_def or_fail_def)
  have matches: "same_dict (row_counts fp') (row_counts fp)" "sample_sha256 fp' = sample_sha256 fp"
      "same_dict (constraint_counts fp') (constraint_counts fp)"
    using fingerprint_counts [OF fp] same_constraints [OF same source(4)] by (simp_all add: fp'_def)
  have "restore ts fresh' e (w1\<lparr>artifact_files := fs\<rparr>) =
      (map_sum id (matching_report stderr fp') (verify_artifacts ts fs (hashed_sample scan) d'),
       w1\<lparr>artifact_files := fs, restore_instance := s'\<rparr>)" for fs fresh'
    by (cases "verify_artifacts ts fs (hashed_sample scan) d'")
      (simp_all add: restore_def w1b or_fail_def files s0 opened loaded fp' matches matching_report_def Let_def)
  then show ?thesis
    by (intro that [OF scan refs m(2) same_refs [OF same source(3) refs], of stderr fp']) (simp_all add: w1b)
qed

lemma traverse_Inl: "x \<in> set xs \<Longrightarrow> f x = Inl e \<Longrightarrow> \<exists>y \<in> set xs. \<exists>e. f y = Inl e \<and> traverse f xs = Inl e"
proof (induction xs)
  case (Cons y ys)
  show ?case
  proof (cases "f y")
    case (Inr z)
    with Cons.prems have "x \<in> set ys" by auto
    then obtain v e' where "v \<in> set ys" "f v = Inl e'" "traverse f ys = Inl e'"
      using Cons.IH [OF _ Cons.prems(2)] by blast
    then show ?thesis using Inr by (intro bexI [of _ v] exI [of _ e']) simp_all
  qed auto
qed simp

lemma verify_gone:
  assumes "storage_refs d = Inr refs" "(ref, digest) \<in> set hashes" "fs (artifact_name ref) = None"
  shows "\<exists>ref'. verify_artifacts ts fs hashes d = Inl (No_such_file ref')"
proof -
  define f where "f = (\<lambda>(ref, digest). and_then (artifact_digest ts fs ref) (\<lambda>found. Inr (found \<noteq> digest)))"
  have "f (ref, digest) = Inl (No_such_file ref)"
    using assms(3) by (simp add: f_def artifact_digest_def or_fail_def)
  then obtain y e where y: "f y = Inl e" "traverse f hashes = Inl e"
    using traverse_Inl [OF assms(2)] by blast
  obtain r dg where "y = (r, dg)" by force
  with y(1) have "e = No_such_file r"
    by (cases "fs (artifact_name r)") (simp_all add: f_def artifact_digest_def or_fail_def)
  with y(2) show ?thesis
    by (simp add: verify_artifacts_def assms(1) f_def)
qed

lemma scan_facts:
  assumes "artifact_manifest ts fs d = Inr scan" "storage_refs d = Inr refs"
  shows "missing_artifacts scan = missing_refs fs [] refs" "missing_count scan = int (length (missing_refs fs [] refs))"
    "digests_hold (sha256 ts) fs (hashed_sample scan)"
    "hashed_sample scan = snd (snd (scan_refs (sha256 ts) fs 0 [] [] refs))"
proof -
  obtain n missing hashed where s: "scan_refs (sha256 ts) fs 0 [] [] refs = (n, missing, hashed)"
    by (rule prod_cases3)
  then have scan: "scan = \<lparr>referenced_artifacts = int n, missing_artifacts = missing,
              missing_count = int (length missing), hashed_sample = hashed\<rparr>"
    using assms by (simp add: artifact_manifest_def)
  have "digests_hold (sha256 ts) fs []"
    by (simp add: digests_hold_def)
  from scan_digests [OF this, of 0 "[]" refs] show "digests_hold (sha256 ts) fs (hashed_sample scan)"
    by (simp add: s scan)
  show "missing_artifacts scan = missing_refs fs [] refs" "missing_count scan = int (length (missing_refs fs [] refs))"
    using scan_missing [of "sha256 ts" fs 0 "[]" "[]" refs] by (simp_all add: s scan)
  show "hashed_sample scan = snd (snd (scan_refs (sha256 ts) fs 0 [] [] refs))"
    by (simp add: s scan)
qed

text \<open>
  C33: a backup restores. Let the programs behave as documented, let the source database have its primary
  keys, and let the backup have succeeded. Restoring it on the same place, whatever the restore instance
  held, ends with a report: both checksums hold and row counts, sample and constraints match; the
  report passes exactly when every artifact the database refers to is there; the manifest had counted
  the same missing artifacts, at most 50 of them; and the source is not touched.
\<close>

theorem backup_restores:
  assumes tools: "seals ts" "unzips ts" "reloads ts e"
    and source: "the_database (main_instance w) = Some d" "ids_distinct d ''price_observation''"
      "ids_distinct d ''raw_artifact''" "kinds_distinct e d" "storage_refs d = Inr refs"
    and taken: "take_backup ts fresh clock e scale w = (Inr (bytes, m), w1)"
  shows "\<exists>report w2. restore ts fresh' e w1 = (Inr report, w2) \<and>
    list_all snd (checksums_verified report) \<and> counts_match report \<and> sample_hash_match report \<and>
    constraints_match report \<and>
    (rr_pass report \<longleftrightarrow> (\<forall>ref \<in> set refs. artifact_files w (artifact_name ref) \<noteq> None)) \<and>
    ar_referenced (rr_artifacts report) = int (length refs) \<and>
    (missing_count (mf_artifacts m) = 0 \<longleftrightarrow> rr_pass report) \<and>
    main_instance w2 = main_instance w \<and> artifact_files w2 = artifact_files w"
proof -
  obtain scan refs' d' stderr fp' where scan: "artifact_manifest ts (artifact_files w) d = Inr scan" "storage_refs d = Inr refs'"
    and m: "mf_artifacts m = scan\<lparr>hashed_sample := []\<rparr>" and d': "storage_refs d' = Inr refs'"
    and run: "\<And>fs fresh'. \<exists>w2. restore ts fresh' e (w1\<lparr>artifact_files := fs\<rparr>) =
        (map_sum id (matching_report stderr fp') (verify_artifacts ts fs (hashed_sample scan) d'), w2) \<and>
        main_instance w2 = main_instance w \<and> artifact_files w2 = fs"
    and w1: "artifact_files w1 = artifact_files w"
    by (rule restore_of_backup [OF tools source(1-4) taken]) blast
  have refs': "refs' = refs" using scan(2) source(5) by simp
  have "w1\<lparr>artifact_files := artifact_files w\<rparr> = w1" by (simp flip: w1)
  then obtain w2 where w2: "restore ts fresh' e w1 =
        (map_sum id (matching_report stderr fp') (verify_artifacts ts (artifact_files w) (hashed_sample scan) d'), w2)"
      "main_instance w2 = main_instance w" "artifact_files w2 = artifact_files w"
    using run [of fresh' "artifact_files w"] by auto
  obtain a where a: "verify_artifacts ts (artifact_files w) (hashed_sample scan) d' = Inr a"
      "ar_pass a \<longleftrightarrow> missing_refs (artifact_files w) [] refs' = []" "ar_referenced a = int (length refs')"
    using verify_holding [OF d' scan_facts(3) [OF scan]] by blast
  show ?thesis
    using w2 a scan_facts(2) [OF scan] by (simp add: matching_report_def m refs' missing_refs_from)
qed


text \<open>
  a lost artifact ends the restore. When the file of an artifact in the hashed sample is gone, the
  restore does not report it as missing: the digest of the file is asked for and raises, and no report is
  written.
\<close>

theorem sampled_artifact_gone:
  assumes tools: "seals ts" "unzips ts" "reloads ts e"
    and source: "the_database (main_instance w) = Some d" "ids_distinct d ''price_observation''"
      "ids_distinct d ''raw_artifact''" "kinds_distinct e d"
    and taken: "take_backup ts fresh clock e scale w = (Inr (bytes, m), w1)"
    and gone: "(ref, digest) \<in> set (set_hashes (the (backup_dir w1)))" "fs (artifact_name ref) = None"
  shows "\<exists>ref' w2. restore ts fresh' e (w1\<lparr>artifact_files := fs\<rparr>) = (Inl (No_such_file ref'), w2)"
proof -
  obtain scan refs' d' stderr fp' where scan: "artifact_manifest ts (artifact_files w) d = Inr scan" "storage_refs d = Inr refs'"
    and d': "storage_refs d' = Inr refs'"
    and run: "\<And>fs fresh'. \<exists>w2. restore ts fresh' e (w1\<lparr>artifact_files := fs\<rparr>) =
        (map_sum id (matching_report stderr fp') (verify_artifacts ts fs (hashed_sample scan) d'), w2) \<and>
        main_instance w2 = main_instance w \<and> artifact_files w2 = fs"
    and hashes: "set_hashes (the (backup_dir w1)) = hashed_sample scan"
    by (rule restore_of_backup [OF tools source taken]) blast
  obtain ref' where "verify_artifacts ts fs (hashed_sample scan) d' = Inl (No_such_file ref')"
    using verify_gone [of d' refs' ref digest "hashed_sample scan" fs ts] d' gone by (auto simp: hashes)
  then show ?thesis
    using run [of fresh' fs] by auto
qed

subsection \<open>A concrete backup\<close>

definition one_artifact :: database where
  "one_artifact = \<lparr>db_rows = map (\<lambda>t. (t, if t = ''raw_artifact''
        then [[(''id'', VInt 1), (''storage_ref'', VText (lit ''artifacts/a.html''))]] else [])) table_order,
     db_constraints = [(lit ''p'', 20), (lit ''f'', 24)], db_check_count = 0, db_revisions = [lit ''0002'']\<rparr>"

definition plain_tools :: tools where
  "plain_tools = \<lparr>dump_database = (\<lambda>e d. if d = one_artifact then Some [1] else None),
     dump_globals = (\<lambda>e s. Some s), gzip = id, gunzip = Some, seal = (\<lambda>k c. Some (0 # c)),
     unseal = (\<lambda>k c. Some (tl c)),
     fresh_instance = (\<lambda>e. Some \<lparr>global_objects = [], the_database = None\<rparr>),
     load_globals = (\<lambda>e c s. c), empty_database = (\<lambda>e. one_artifact\<lparr>db_rows := []\<rparr>),
     load_database = (\<lambda>e c d. (if c = [1] then Some one_artifact else d, [])), sha256 = id,
     shown = (\<lambda>e v. case v of VText s \<Rightarrow> s | _ \<Rightarrow> [])\<rparr>"

definition place_with :: "pystr option \<Rightarrow> place" where
  "place_with a = \<lparr>main_instance = \<lparr>global_objects = [5], the_database = Some one_artifact\<rparr>,
     restore_instance = \<lparr>global_objects = [], the_database = None\<rparr>,
     artifact_files = (\<lambda>p. if p = lit ''a.html'' then a else None), backup_dir = None, passphrase = None\<rparr>"

lemma plain_tools_ok: "seals plain_tools" "unzips plain_tools" "reloads plain_tools e"
proof -
  show "seals plain_tools" by (auto simp: seals_def plain_tools_def)
  show "unzips plain_tools" by (simp add: unzips_def plain_tools_def)
  show "reloads plain_tools e"
    by (auto simp: reloads_def plain_tools_def same_content_def split: if_splits)
qed

lemma one_artifact_ok: "ids_distinct one_artifact t" "kinds_distinct e one_artifact"
    "storage_refs one_artifact = Inr [lit ''artifacts/a.html'']"
proof -
  have "map_of (db_rows one_artifact) t = Some rs \<Longrightarrow> length rs \<le> 1" for rs
    by (auto simp: one_artifact_def map_of_map_restrict restrict_map_def split: if_splits)
  then show "ids_distinct one_artifact t"
    by (fastforce simp: ids_distinct_def distinct_map length_Suc_conv le_Suc_eq)
  have "kinds_distinct Postgres one_artifact" "kinds_distinct Mariadb one_artifact"
    by code_simp+
  then show "kinds_distinct e one_artifact"
    by (cases e) simp_all
  show "storage_refs one_artifact = Inr [lit ''artifacts/a.html'']"
    by code_simp
qed

lemma place_source: "the_database (main_instance (place_with a)) = Some one_artifact"
  by (simp add: place_with_def)

definition taken_sample :: "pystr option \<Rightarrow> (int \<times> (pystr, pystr) pydict) option" where
  "taken_sample a =
     (case take_backup plain_tools [9] [] Postgres 1 (place_with a) of
        (Inr (bytes, m), w1) \<Rightarrow> map_option (\<lambda>b. (bytes, set_hashes b)) (backup_dir w1)
      | _ \<Rightarrow> None)"

lemma plain_taken:
  obtains m w1 where "take_backup plain_tools [9] [] Postgres 1 (place_with (Some [7])) = (Inr (4, m), w1)"
    "set_hashes (the (backup_dir w1)) = [(lit ''artifacts/a.html'', [7])]"
proof -
  have "taken_sample (Some [7]) = Some (4, [(lit ''artifacts/a.html'', [7])])"
    by code_simp
  then show ?thesis
    by (auto simp: taken_sample_def intro: that split: prod.splits sum.splits)
qed

theorem backup_restores_witness:
  "\<exists>w1 bytes m report w2. take_backup plain_tools [9] [] Postgres 1 (place_with (Some [7])) = (Inr (bytes, m), w1) \<and>
     restore plain_tools [9] Postgres w1 = (Inr report, w2) \<and> rr_pass report"
proof -
  obtain m w1 where taken: "take_backup plain_tools [9] [] Postgres 1 (place_with (Some [7])) = (Inr (4, m), w1)"
    by (rule plain_taken)
  have "artifact_name (lit ''artifacts/a.html'') = lit ''a.html''"
    by code_simp
  then have "artifact_files (place_with (Some [7])) (artifact_name (lit ''artifacts/a.html'')) \<noteq> None"
    by (simp add: place_with_def)
  with backup_restores [OF plain_tools_ok place_source one_artifact_ok(1) one_artifact_ok(1) one_artifact_ok(2,3) taken, of "[9]"]
  show ?thesis using taken by auto
qed


theorem sampled_artifact_gone_witness:
  "\<exists>w1 bytes m ref w2. take_backup plain_tools [9] [] Postgres 1 (place_with (Some [7])) = (Inr (bytes, m), w1) \<and>
     restore plain_tools [9] Postgres (w1\<lparr>artifact_files := (\<lambda>p. None)\<rparr>) = (Inl (No_such_file ref), w2)"
proof -
  obtain m w1 where taken: "take_backup plain_tools [9] [] Postgres 1 (place_with (Some [7])) = (Inr (4, m), w1)"
      "set_hashes (the (backup_dir w1)) = [(lit ''artifacts/a.html'', [7])]"
    by (rule plain_taken)
  have "(lit ''artifacts/a.html'', [7]) \<in> set (set_hashes (the (backup_dir w1)))"
    by (simp add: taken(2))
  from sampled_artifact_gone [OF plain_tools_ok place_source one_artifact_ok(1) one_artifact_ok(1) one_artifact_ok(2)
      taken(1) this refl, of "[9]"]
  show ?thesis using taken(1) by blast
qed

end
