(* ===== verification/Crash.thy ===== *)
theory Crash
  imports Integrity
begin

text \<open>
  scripts/db_poc/dbpoc/crash.py: a client killed with an open transaction and a server killed with committed
  and uncommitted rows. The server is a state with the committed rows and the rows of each open transaction,
  its steps are those of clients, kills and restarts, and a check is a run of it; how far the holder process
  came, whether the kill worked and whether the server started again are given, because the checks do not
  look at them. The clock, the markers and the number of cards (the smaller profile's) are parameters; the
  output of the instance script and the times measured are left out.
\<close>

subsection \<open>A server that may be killed\<close>

text \<open>
  What the products document of transactions, as far as the checks rely on it: the rows a transaction
  inserted become part of the committed rows at its commit, all at once, and are gone when its
  connection or the server ends before. A session is a number; it holds the rows it inserted.
\<close>

record server =
  committed :: store
  opened :: "nat \<Rightarrow> row list option"
  running :: bool

datatype event =
    Begin nat
  | Insert nat "row list"
  | Commit nat
  | Kill_client nat
  | Kill_server
  | Start_server

text \<open>\<open>None\<close>: the statement cannot be sent, or the commit is held up by a row of another transaction.\<close>

fun perform :: "engine \<Rightarrow> event \<Rightarrow> server \<Rightarrow> server option" where
  "perform e (Begin n) s =
     (if running s \<and> opened s n = None then Some (s\<lparr>opened := (opened s)(n := Some [])\<rparr>) else None)"
| "perform e (Insert n new) s =
     (if \<not> running s then None
      else case opened s n of
             None \<Rightarrow> None
           | Some rows \<Rightarrow>
               (case insert_observations e False (rows @ new) (committed s) of
                  Inl _ \<Rightarrow> Some (s\<lparr>opened := (opened s)(n := None)\<rparr>)
                | Inr _ \<Rightarrow> Some (s\<lparr>opened := (opened s)(n := Some (rows @ new))\<rparr>)))"
| "perform e (Commit n) s =
     (if \<not> running s then None
      else case opened s n of
             None \<Rightarrow> None
           | Some rows \<Rightarrow>
               (case insert_observations e False rows (committed s) of
                  Inl _ \<Rightarrow> None
                | Inr (_, db) \<Rightarrow> Some (s\<lparr>committed := db, opened := (opened s)(n := None)\<rparr>)))"
| "perform e (Kill_client n) s = Some (s\<lparr>opened := (opened s)(n := None)\<rparr>)"
| "perform e Kill_server s = Some (s\<lparr>opened := (\<lambda>_. None), running := False\<rparr>)"
| "perform e Start_server s = Some (s\<lparr>running := True\<rparr>)"

inductive reachable :: "engine \<Rightarrow> server \<Rightarrow> server \<Rightarrow> bool" for e s0 where
  start: "reachable e s0 s0"
| step: "reachable e s0 s \<Longrightarrow> perform e ev s = Some s' \<Longrightarrow> reachable e s0 s'"

text \<open>A process that goes on as long as its statements can be sent.\<close>

fun run_events :: "engine \<Rightarrow> event list \<Rightarrow> server \<Rightarrow> server" where
  "run_events e [] s = s"
| "run_events e (ev # evs) s = (case perform e ev s of None \<Rightarrow> s | Some s' \<Rightarrow> run_events e evs s')"

subsection \<open>The rows of a check\<close>

definition crash_writer :: int where "crash_writer = 60"

definition crash_base :: "int \<Rightarrow> int" where
  "crash_base clock = dict_get id_base ''price_observation'' 0 + crash_writer * writer_stride + clock mod 100000 * 100"

record crash_args =
  ca_engine :: engine
  ca_cards :: int
  ca_now :: int

definition marked_key :: "pystr \<Rightarrow> nat \<Rightarrow> pystr" where
  "marked_key marker i = marker @ 45 # py_str (int i)"

definition rows_for :: "crash_args \<Rightarrow> pystr \<Rightarrow> int \<Rightarrow> int \<Rightarrow> store \<Rightarrow> row list option" where
  "rows_for a marker base n db =
     do {
       candidate \<leftarrow> lowest_id db ''observation_candidate'';
       artifact \<leftarrow> lowest_id db ''raw_artifact'';
       let batch = build_batch crash_writer (base mod 1000000) n (ca_cards a) (ca_now a) (lit ''crash'') in
       Some (map (\<lambda>(i, row). override_row
           [(''id'', VInt (base + int i)), (''observation_candidate_id'', candidate), (''raw_artifact_id'', artifact),
            (''idempotency_key'', VText (marked_key marker i))] row)
         (List.enumerate 0 (dict_get batch ''price_observation'' [])))
     }"

text \<open>\<open>LIKE\<close> without an escape character.\<close>

fun sql_like :: "pystr \<Rightarrow> pystr \<Rightarrow> bool" where
  "sql_like [] s = (s = [])"
| "sql_like (p # ps) [] = (p = 37 \<and> sql_like ps [])"
| "sql_like (p # ps) (c # s) =
     (if p = 37 then sql_like ps (c # s) \<or> sql_like (p # ps) s
      else (p = 95 \<or> p = c) \<and> sql_like ps s)"

definition marker_rows :: "store \<Rightarrow> pystr \<Rightarrow> int" where
  "marker_rows db marker =
     int (length (filter (\<lambda>r. case cell r ''idempotency_key'' of VText k \<Rightarrow> sql_like (marker @ [37]) k | _ \<Rightarrow> False)
       (rows_of db ''price_observation'')))"

subsection \<open>The checks\<close>

text \<open>
  The holder process: it reads its parents, begins, inserts and waits. It is killed after some of its
  steps; the parent does not look at how far it came.
\<close>

definition uncommitted_holder :: "crash_args \<Rightarrow> pystr \<Rightarrow> int \<Rightarrow> nat \<Rightarrow> server \<Rightarrow> server" where
  "uncommitted_holder a marker base progress s =
     (case rows_for a marker base 25 (committed s) of
        None \<Rightarrow> s
      | Some rows \<Rightarrow> run_events (ca_engine a) (take progress [Begin 1, Insert 1 rows]) s)"

record client_report =
  inserted_before_kill :: int
  rows_after_kill :: int
  client_pass :: bool

definition check_killed_client :: "crash_args \<Rightarrow> pystr \<Rightarrow> int \<Rightarrow> nat \<Rightarrow> server \<Rightarrow> client_report \<times> server" where
  "check_killed_client a marker clock progress s =
     (let s = run_events (ca_engine a) [Kill_client 1] (uncommitted_holder a marker (crash_base clock) progress s);
          remaining = marker_rows (committed s) marker in
      (\<lparr>inserted_before_kill = 25, rows_after_kill = remaining, client_pass = (remaining = 0)\<rparr>, s))"

record server_report =
  committed_before :: int
  committed_after :: int
  uncommitted_after :: int
  server_pass :: bool

datatype crash_error = Harness harness_error | Server_down

text \<open>
  The committed rows, the holder, the two commands of the instance script (whose results are only
  recorded) and the counts, which need a server that runs.
\<close>

definition check_server_crash ::
    "crash_args \<Rightarrow> pystr \<Rightarrow> pystr \<Rightarrow> int \<Rightarrow> nat \<Rightarrow> bool \<Rightarrow> bool \<Rightarrow> server \<Rightarrow> (crash_error + server_report) \<times> server" where
  "check_server_crash a committed_marker pending_marker clock progress killed started s =
     (let e = ca_engine a; base = crash_base clock in
      case rows_for a committed_marker (base + 1000) 25 (committed s) of
        None \<Rightarrow> (Inl (Harness No_result), s)
      | Some rows \<Rightarrow>
          (case run_tx (insert_observations e False rows) (committed s) of
             (Inl err, db) \<Rightarrow> (Inl (Harness err), s\<lparr>committed := db\<rparr>)
           | (Inr _, db) \<Rightarrow>
               let s = uncommitted_holder a pending_marker (base + 2000) progress (s\<lparr>committed := db\<rparr>);
                   s = run_events e ((if killed then [Kill_server] else []) @ [Kill_client 1] @
                         (if started then [Start_server] else [])) s in
               if \<not> running s then (Inl Server_down, s)
               else
                 let after = marker_rows (committed s) committed_marker;
                     pending = marker_rows (committed s) pending_marker in
                 (Inr \<lparr>committed_before = 25, committed_after = after, uncommitted_after = pending,
                       server_pass = (after = 25 \<and> pending = 0)\<rparr>, s)))"

definition crash_main ::
    "crash_args \<Rightarrow> pystr \<times> pystr \<times> pystr \<Rightarrow> int \<times> int \<Rightarrow> nat \<times> nat \<Rightarrow> bool \<Rightarrow> bool \<Rightarrow> server \<Rightarrow>
     (crash_error + client_report \<times> server_report \<times> bool) \<times> server" where
  "crash_main a markers clocks progress killed started s =
     (case check_killed_client a (fst markers) (fst clocks) (fst progress) s of
        (client, s) \<Rightarrow>
          then_state (check_server_crash a (fst (snd markers)) (snd (snd markers)) (snd clocks) (snd progress) killed started s)
            (\<lambda>server s. (Inr (client, server, client_pass client \<and> server_pass server), s)))"

declare crash_writer_def [py_eval] crash_base_def [py_eval] marked_key_def [py_eval] rows_for_def [py_eval]
  marker_rows_def [py_eval] uncommitted_holder_def [py_eval] check_killed_client_def [py_eval]
  check_server_crash_def [py_eval] crash_main_def [py_eval]

subsection \<open>What a crash keeps\<close>

lemma insert_observations_strict:
  "insert_observations e False rows db = Inr (k, db') \<Longrightarrow>
     rows = [] \<and> db' = db \<or> insert_rows t_price_observation (map (bind_row observation_spec) rows) db = Inr db'"
  by (auto simp: insert_observations_def observation_insert_def split: if_splits)

lemma insert_strict_ok:
  assumes "store_ok metadata db" "insert_observations e False rows db = Inr (k, db')"
  shows "store_ok metadata db'" "prefix (rows_of db t) (rows_of db' t)"
proof -
  have "distinct (map tbl_name metadata)" "t_price_observation \<in> set metadata"
    by (simp_all add: metadata_names table_order_def) (simp add: metadata_def)
  then show "store_ok metadata db'"
    using insert_observations_strict [OF assms(2)] insert_rows_ok assms(1) by blast
  show "prefix (rows_of db t) (rows_of db' t)"
    using insert_observations_strict [OF assms(2)] insert_rows_rows by (auto split: if_splits)
qed

lemma perform_inv:
  assumes "perform e ev s = Some s'" "store_ok metadata (committed s)" "\<not> running s \<longrightarrow> opened s = (\<lambda>_. None)"
  shows "store_ok metadata (committed s') \<and> prefix (rows_of (committed s) t) (rows_of (committed s') t) \<and>
    (\<not> running s' \<longrightarrow> opened s' = (\<lambda>_. None)) \<and>
    ((\<forall>n. ev \<noteq> Commit n) \<longrightarrow> committed s' = committed s)"
proof (cases ev)
  case (Commit n)
  then obtain rows k db where "opened s n = Some rows" "insert_observations e False rows (committed s) = Inr (k, db)"
      "s' = s\<lparr>committed := db, opened := (opened s)(n := None)\<rparr>" "running s"
    using assms(1) by (auto split: if_splits option.splits sum.splits)
  then show ?thesis
    using insert_strict_ok [OF assms(2), of e rows k db] by (auto simp: Commit)
qed (use assms in \<open>auto split: if_splits option.splits sum.splits\<close>)

text \<open>The invariant of every reachable server, by induction over its steps.\<close>

lemma reachable_inv:
  assumes "reachable e s0 s" "store_ok metadata (committed s0)" "running s0"
  shows "store_ok metadata (committed s) \<and> prefix (rows_of (committed s0) t) (rows_of (committed s) t) \<and>
    (\<not> running s \<longrightarrow> opened s = (\<lambda>_. None))"
  using assms
proof (induction rule: reachable.induct)
  case start
  then show ?case by simp
next
  case (step s ev s')
  then have inv: "store_ok metadata (committed s)" "prefix (rows_of (committed s0) t) (rows_of (committed s) t)"
      "\<not> running s \<longrightarrow> opened s = (\<lambda>_. None)"
    by simp_all
  from perform_inv [OF step.hyps(2) inv(1,3), of t] inv(2) show ?case
    by (auto intro: prefix_order.trans)
qed

text \<open>Runs without a commit leave the committed rows.\<close>

lemma run_events_uncommitted:
  "(\<And>n. Commit n \<notin> set evs) \<Longrightarrow> committed (run_events e evs s) = committed s"
proof (induction e evs s rule: run_events.induct)
  case (2 e ev evs s)
  show ?case
  proof (cases "perform e ev s")
    case (Some s')
    have "committed s' = committed s"
      using Some "2.prems" by (cases ev) (auto split: if_splits option.splits sum.splits)
    with Some 2 show ?thesis by simp
  qed simp
qed simp

lemma holder_uncommitted: "committed (uncommitted_holder a marker base progress s) = committed s"
proof -
  have "Commit n \<notin> set (take progress [Begin 1, Insert 1 rows])" for n rows
    using in_set_takeD [of "Commit n" progress "[Begin 1, Insert 1 rows]"] by auto
  then show ?thesis
    by (simp add: uncommitted_holder_def run_events_uncommitted split: option.split)
qed

lemma run_reachable: "reachable e s0 s \<Longrightarrow> reachable e s0 (run_events e evs s)"
  by (induction e evs s rule: run_events.induct) (auto intro: reachable.step split: option.split)

lemma holder_reachable:
  "reachable (ca_engine a) s0 s \<Longrightarrow> reachable (ca_engine a) s0 (uncommitted_holder a marker base progress s)"
  by (auto simp: uncommitted_holder_def intro: run_reachable split: option.split)

lemma killed_client:
  "fst (check_killed_client a marker clock progress s) =
     \<lparr>inserted_before_kill = 25, rows_after_kill = marker_rows (committed s) marker,
      client_pass = (marker_rows (committed s) marker = 0)\<rparr>"
proof -
  have "committed (run_events e [Kill_client 1] s) = committed s" for e s
    by (rule run_events_uncommitted) simp
  then show ?thesis
    by (simp add: check_killed_client_def Let_def holder_uncommitted del: run_events.simps)
qed

text \<open>
  the killed client check sees only what was committed before. However far the holder process came,
  whether it inserted its 25 rows or failed before, the report is the same: 25 rows inserted, the count
  of rows that were committed with the marker at the start, and a pass exactly when there were none.
\<close>

theorem killed_client_blind:
  "fst (check_killed_client a marker clock progress s) =
     \<lparr>inserted_before_kill = 25, rows_after_kill = marker_rows (committed s) marker,
      client_pass = (marker_rows (committed s) marker = 0)\<rparr>"
  by (rule killed_client)

subsection \<open>The rows of a check fit\<close>

definition crash_ready :: "crash_args \<Rightarrow> store \<Rightarrow> bool" where
  "crash_ready a db \<longleftrightarrow>
     batch_args crash_writer 0 25 (ca_cards a) (ca_now a) (lit ''crash'') \<and>
     store_ok metadata db \<and> batch_refs (ca_cards a) db \<and>
     rows_of db ''observation_candidate'' \<noteq> [] \<and> rows_of db ''raw_artifact'' \<noteq> []"

lemma crash_base_range: "7600000000000 \<le> crash_base clock \<and> crash_base clock < 7600010000000"
  using pos_mod_bound [of 100000 clock] pos_mod_sign [of 100000 clock]
  by (simp add: crash_base_def crash_writer_def id_base_values writer_stride_def)

definition crash_row_ok :: "store \<Rightarrow> pystr \<Rightarrow> int \<Rightarrow> nat \<Rightarrow> row \<Rightarrow> bool" where
  "crash_row_ok db marker base i p \<longleftrightarrow>
     row_ok t_price_observation (bind_row observation_spec p) \<and> fk_ok db t_price_observation (bind_row observation_spec p) \<and>
     cell p ''id'' = VInt (base + int i) \<and> cell p ''idempotency_key'' = VText (marked_key marker i)"

lemma marked_key_length: "i < 25 \<Longrightarrow> length marker \<le> 100 \<Longrightarrow> length (marked_key marker i) \<le> 120"
  using py_str_length [of "int i" 2] by (simp add: marked_key_def)

lemma marked_key_inj: "marked_key marker i = marked_key marker j \<longleftrightarrow> i = j"
  by (auto simp: marked_key_def py_str_def dec_digits_inj_iff)

lemma py_range_25: "py_range 25 = map int [0..<25]"
  by code_simp

lemma rows_for_ready:
  assumes ready: "crash_ready a db" and "length marker \<le> 100" "0 \<le> base" "base < 2 ^ 62"
  shows "\<exists>rows. rows_for a marker base 25 db = Some rows \<and> length rows = 25 \<and>
    (\<forall>i < 25. crash_row_ok db marker base i (rows ! i))"
proof -
  note ready = ready [unfolded crash_ready_def]
  obtain c where c: "lowest_id db ''observation_candidate'' = Some (VInt c)" "VInt c \<in> ids db ''observation_candidate''"
      "- (2 ^ 63) \<le> c" "c < 2 ^ 63"
    using lowest_id_ok [of db t_observation_candidate "Some False"] ready
    by (auto simp: t_observation_candidate_def metadata_def)
  obtain ar where ar: "lowest_id db ''raw_artifact'' = Some (VInt ar)" "VInt ar \<in> ids db ''raw_artifact''"
      "- (2 ^ 63) \<le> ar" "ar < 2 ^ 63"
    using lowest_id_ok [of db t_raw_artifact "Some False"] ready
    by (auto simp: t_raw_artifact_def metadata_def)
  define s where "s = base mod 1000000"
  have args: "batch_args crash_writer s 25 (ca_cards a) (ca_now a) (lit ''crash'')"
    using ready pos_mod_bound [of 1000000 base] pos_mod_sign [of 1000000 base] by (simp add: batch_args_def s_def)
  define b where "b = (\<lambda>i :: nat. batch_observation crash_writer s (ca_cards a) (ca_now a) (int i))"
  define p where "p = (\<lambda>i row. override_row [(''id'', VInt (base + int i)), (''observation_candidate_id'', VInt c),
    (''raw_artifact_id'', VInt ar), (''idempotency_key'', VText (marked_key marker i))] row)"
  have batch: "dict_get (build_batch crash_writer s 25 (ca_cards a) (ca_now a) (lit ''crash'')) ''price_observation'' [] =
      map b [0..<25]"
    by (simp add: build_batch_def dict_get_def py_range_25 b_def comp_def del: upt.simps upt_rec_numeral)
  have rows: "rows_for a marker base 25 db = Some (map (\<lambda>i. p i (b i)) [0..<25])"
    unfolding rows_for_def c(1) ar(1)
    by (simp add: batch s_def [symmetric] Let_def p_def enumerate_map_upt del: upt.simps override_row.simps)
  have ok: "crash_row_ok db marker base i (p i (b i))" if i: "i < 25" for i
  proof -
    have bi: "row_ok t_price_observation (bind_row observation_spec (b i))"
      unfolding b_def by (rule batch_observation_row [OF args]) (use i in simp_all)
    have "row_ok t_price_observation (bind_row observation_spec (p i (b i)))"
      unfolding p_def override_row.simps
      by (intro obs_set_ok bi) (use c ar assms i marked_key_length [OF i assms(2)] in \<open>simp_all add: required_cases\<close>)
    moreover have "fk_ok db t_price_observation (bind_row observation_spec (p i (b i)))"
      unfolding obs_fk_ok using c(2) ar(2) probe_fks [of "ca_cards a" db crash_writer s "ca_now a" "int i"] ready
      by (simp add: p_def b_def cell_set_cell batch_args_def)
    ultimately show ?thesis
      by (simp add: crash_row_ok_def p_def cell_set_cell)
  qed
  show ?thesis
    by (intro exI [of _ "map (\<lambda>i. p i (b i)) [0..<25]"]) (simp add: rows ok del: upt.simps)
qed

text \<open>Identifiers and keys of the window that no stored row has.\<close>

definition window_free :: "store \<Rightarrow> pystr \<Rightarrow> int \<Rightarrow> bool" where
  "window_free db marker base \<longleftrightarrow>
     (\<forall>i < 25. VInt (base + int i) \<notin> ids db ''price_observation'' \<and> \<not> key_stored db (VText (marked_key marker i)))"

lemma rows_inserted:
  assumes "length rows = 25" "\<forall>i < 25. crash_row_ok db marker base i (rows ! i)" "window_free db marker base"
  shows "insert_observations e False rows db =
    Inr (25, add_rows ''price_observation'' (map (bind_row observation_spec) rows) db)"
proof -
  have "insert_rows t_price_observation (map (bind_row observation_spec) rows) db =
      Inr (add_rows (tbl_name t_price_observation) (map (bind_row observation_spec) rows) db)"
  proof (rule insert_rows_fresh)
    show "\<forall>r \<in> set (map (bind_row observation_spec) rows).
        row_ok t_price_observation r \<and> fk_ok db t_price_observation r \<and> clashing_key db t_price_observation r = None"
    proof
      fix r assume "r \<in> set (map (bind_row observation_spec) rows)"
      then obtain i where i: "i < 25" "r = bind_row observation_spec (rows ! i)"
        using assms(1) by (auto simp: in_set_conv_nth)
      with assms(2) have "crash_row_ok db marker base i (rows ! i)" by blast
      then show "row_ok t_price_observation r \<and> fk_ok db t_price_observation r \<and> clashing_key db t_price_observation r = None"
        using assms(3) i by (simp add: crash_row_ok_def obs_clashing window_free_def)
    qed
    have "\<not> clash [c] (bind_row observation_spec (rows ! i)) (bind_row observation_spec (rows ! j))"
      if "i < j" "j < 25" "c = ''id'' \<or> c = ''idempotency_key''" for i j c
    proof -
      have "crash_row_ok db marker base i (rows ! i)" "crash_row_ok db marker base j (rows ! j)"
        using assms(2) that by simp_all
      then show ?thesis
        using that by (auto simp: clash_obs bind_obs_cells crash_row_ok_def marked_key_inj)
    qed
    then show "\<forall>cs \<in> set (table_keys t_price_observation). key_ok (map (bind_row observation_spec) rows) cs"
      using assms(1) by (auto simp: obs_keys key_ok_def sorted_wrt_iff_nth_less)
  qed
  moreover have "rows \<noteq> []" using assms(1) by auto
  ultimately show ?thesis
    using assms(1) by (simp add: insert_observations_def observation_insert_def)
qed

subsection \<open>Counting markers\<close>

definition plain_marker :: "pystr \<Rightarrow> bool" where
  "plain_marker m \<longleftrightarrow> 37 \<notin> set m \<and> 95 \<notin> set m"

lemma like_any: "sql_like [37] s"
  by (induction s) auto

lemma like_prefix: "plain_marker m \<Longrightarrow> sql_like (m @ [37]) s \<longleftrightarrow> prefix m s"
proof (induction m arbitrary: s)
  case Nil
  show ?case by (simp add: like_any)
next
  case (Cons c m)
  then show ?case by (cases s) (auto simp: plain_marker_def)
qed

lemma marker_rows_add:
  "marker_rows (add_rows ''price_observation'' rs db) m = marker_rows db m +
     int (length (filter (\<lambda>r. case cell r ''idempotency_key'' of VText k \<Rightarrow> sql_like (m @ [37]) k | _ \<Rightarrow> False) rs))"
  by (simp add: marker_rows_def rows_of_add_rows)

lemma marker_rows_window:
  assumes "length rows = 25" "\<forall>i < 25. crash_row_ok db marker base i (rows ! i)" "plain_marker m"
    "prefix m marker \<or> \<not> prefix marker m"
  shows "marker_rows (add_rows ''price_observation'' (map (bind_row observation_spec) rows) db) m =
    marker_rows db m + (if prefix m marker then 25 else 0)"
proof -
  let ?P = "\<lambda>r. case cell r ''idempotency_key'' of VText k \<Rightarrow> sql_like (m @ [37]) k | _ \<Rightarrow> False"
  have like: "?P (bind_row observation_spec p) \<longleftrightarrow> prefix m marker" if "p \<in> set rows" for p
  proof -
    obtain i where "i < 25" "p = rows ! i"
      using \<open>p \<in> set rows\<close> assms(1) by (auto simp: in_set_conv_nth)
    with assms(2) have "cell p ''idempotency_key'' = VText (marked_key marker i)"
      by (simp add: crash_row_ok_def)
    moreover have "prefix m (marked_key marker i) \<longleftrightarrow> prefix m marker"
      using assms(4) by (auto simp: marked_key_def prefix_append dest: prefix_order.antisym)
    ultimately show ?thesis
      by (simp add: bind_obs_cells like_prefix [OF assms(3)])
  qed
  have "filter ?P (map (bind_row observation_spec) rows) = (if prefix m marker then map (bind_row observation_spec) rows else [])"
    using like by (auto simp: filter_id_conv filter_empty_conv)
  then show ?thesis
    using assms(1) by (simp add: marker_rows_add)
qed

lemma run_holder:
  "\<forall>ev \<in> set evs. ev = Begin 1 \<or> (\<exists>rows. ev = Insert 1 rows) \<Longrightarrow>
     running (run_events e evs s) = running s \<and> (\<forall>n. n \<noteq> 1 \<longrightarrow> opened (run_events e evs s) n = opened s n)"
proof (induction e evs s rule: run_events.induct)
  case (2 e ev evs s)
  show ?case
  proof (cases "perform e ev s")
    case (Some s')
    have "running s' = running s \<and> (\<forall>n. n \<noteq> 1 \<longrightarrow> opened s' n = opened s n)"
      using Some "2.prems" by (auto split: if_splits option.splits sum.splits)
    with Some 2 show ?thesis by simp
  qed simp
qed simp

lemma holder_server:
  "running (uncommitted_holder a marker base progress s) = running s"
  "n \<noteq> 1 \<Longrightarrow> opened (uncommitted_holder a marker base progress s) n = opened s n"
proof -
  have "\<forall>ev \<in> set (take progress [Begin 1, Insert 1 rows]). ev = Begin 1 \<or> (\<exists>rows. ev = Insert 1 rows)" for rows
    using in_set_takeD [of _ progress "[Begin 1, Insert 1 rows]"] by auto
  from run_holder [OF this] show "running (uncommitted_holder a marker base progress s) = running s"
    "n \<noteq> 1 \<Longrightarrow> opened (uncommitted_holder a marker base progress s) n = opened s n"
    by (simp_all add: uncommitted_holder_def split: option.split)
qed

text \<open>A transaction of a client that commits at once is three steps.\<close>

lemma insert_reachable:
  assumes "reachable e s0 s" "running s" "opened s 0 = None" "insert_observations e False rows (committed s) = Inr (k, db)"
  shows "reachable e s0 (s\<lparr>committed := db\<rparr>)"
proof -
  let ?s1 = "s\<lparr>opened := (opened s)(0 := Some [])\<rparr>" and ?s2 = "s\<lparr>opened := (opened s)(0 := Some rows)\<rparr>"
  have "reachable e s0 ?s1"
    by (rule reachable.step [OF assms(1), where ev = "Begin 0"]) (simp add: assms)
  then have "reachable e s0 ?s2"
    by (rule reachable.step [where ev = "Insert 0 rows"]) (simp add: assms)
  then have "reachable e s0 (?s2\<lparr>committed := db, opened := (opened ?s2)(0 := None)\<rparr>)"
    by (rule reachable.step [where ev = "Commit 0"]) (simp add: assms)
  moreover have "?s2\<lparr>committed := db, opened := (opened ?s2)(0 := None)\<rparr> = s\<lparr>committed := db\<rparr>"
    using assms(3) by (cases s) (auto simp: fun_eq_iff)
  ultimately show ?thesis by simp
qed

lemma server_crash_reachable:
  assumes "reachable (ca_engine a) s0 s" "running s" "opened s 0 = None"
  shows "reachable (ca_engine a) s0 (snd (check_server_crash a m1 m2 clock progress killed started s))"
proof (cases "rows_for a m1 (crash_base clock + 1000) 25 (committed s)")
  case None
  then show ?thesis by (simp add: check_server_crash_def assms)
next
  case (Some rows)
  show ?thesis
  proof (cases "insert_observations (ca_engine a) False rows (committed s)")
    case (Inl e)
    have "s\<lparr>committed := committed s\<rparr> = s" by simp
    with Some Inl show ?thesis
      by (simp add: check_server_crash_def run_tx_def transaction_def assms)
  next
    case (Inr r)
    obtain k db where r: "r = (k, db)" by (rule prod.exhaust)
    have "reachable (ca_engine a) s0 (s\<lparr>committed := db\<rparr>)"
      using insert_reachable [OF assms] Inr r by simp
    with Some Inr r show ?thesis
      by (simp add: check_server_crash_def run_tx_def transaction_def Let_def run_reachable holder_reachable
          del: run_events.simps)
  qed
qed


lemma server_crash_passes:
  assumes ready: "crash_ready a (committed s)" "running s"
    and markers: "length m1 \<le> 100" "\<forall>m \<in> {m1, m2}. plain_marker m" "\<not> prefix m1 m2" "\<not> prefix m2 m1"
    and fresh: "\<forall>m \<in> {m1, m2}. marker_rows (committed s) m = 0" "window_free (committed s) m1 (crash_base clock + 1000)"
    and restart: "killed \<longrightarrow> started"
  obtains rows s' where
    "check_server_crash a m1 m2 clock progress killed started s =
       (Inr \<lparr>committed_before = 25, committed_after = 25, uncommitted_after = 0, server_pass = True\<rparr>, s')"
    "committed s' = add_rows ''price_observation'' rows (committed s)" "length rows = 25" "running s'"
proof -
  define db where "db = committed s"
  define base where "base = crash_base clock + 1000"
  have base: "0 \<le> base" "base < 2 ^ 62"
    using crash_base_range [of clock] by (simp_all add: base_def)
  obtain rows where rows: "rows_for a m1 base 25 db = Some rows" "length rows = 25"
      "\<forall>i < 25. crash_row_ok db m1 base i (rows ! i)"
    using rows_for_ready [OF ready(1) markers(1) base] by (auto simp: db_def)
  define db' where "db' = add_rows ''price_observation'' (map (bind_row observation_spec) rows) db"
  have "insert_observations (ca_engine a) False rows db = Inr (25, db')"
    unfolding db'_def using fresh(2) by (intro rows_inserted [OF rows(2,3)]) (simp add: db_def base_def)
  then have tx: "run_tx (insert_observations (ca_engine a) False rows) db = (Inr 25, db')"
    by (simp add: run_tx_def transaction_def)
  have counts: "marker_rows db' m1 = 25" "marker_rows db' m2 = 0"
    using marker_rows_window [OF rows(2,3), of m1] marker_rows_window [OF rows(2,3), of m2] markers fresh(1)
    by (simp_all add: db'_def db_def)
  define s2 where "s2 = uncommitted_holder a m2 (crash_base clock + 2000) progress (s\<lparr>committed := db'\<rparr>)"
  define s3 where "s3 = run_events (ca_engine a) ((if killed then [Kill_server] else []) @ [Kill_client 1] @
      (if started then [Start_server] else [])) s2"
  have "committed s2 = db'" "running s2"
    using ready(2) by (simp_all add: s2_def holder_uncommitted holder_server)
  then have s3: "committed s3 = db'" "running s3"
    using restart by (auto simp: s3_def)
  have "check_server_crash a m1 m2 clock progress killed started s =
      (if \<not> running s3 then (Inl Server_down, s3)
       else (Inr \<lparr>committed_before = 25, committed_after = marker_rows (committed s3) m1,
               uncommitted_after = marker_rows (committed s3) m2,
               server_pass = (marker_rows (committed s3) m1 = 25 \<and> marker_rows (committed s3) m2 = 0)\<rparr>, s3))"
    using tx unfolding check_server_crash_def Let_def db_def base_def [symmetric] rows(1) [unfolded db_def] s3_def s2_def
    by (simp only: option.case prod.case sum.case)
  then show ?thesis
    using s3 counts rows(2) by (intro that [of s3 "map (bind_row observation_spec) rows"]) (simp_all add: db'_def db_def)
qed

text \<open>
  C36: the crash checks pass. On a running server whose committed rows meet the schema and hold the
  parents of a crash row, with fresh markers and identifiers: both checks pass, however far the holder
  processes came, whether or not the server was killed, as long as it runs again; the 25 committed rows are there, no
  uncommitted row is, and every other row is as it was.
\<close>

theorem crash_checks_pass:
  assumes ready: "crash_ready a (committed s)" "running s"
    and markers: "length m0 \<le> 100" "length m1 \<le> 100" "length m2 \<le> 100" "\<forall>m \<in> {m0, m1, m2}. plain_marker m"
      "\<not> prefix m1 m2" "\<not> prefix m2 m1"
    and fresh: "\<forall>m \<in> {m0, m1, m2}. marker_rows (committed s) m = 0" "window_free (committed s) m1 (crash_base clock1 + 1000)"
    and restart: "killed \<longrightarrow> started"
  shows "\<exists>client report rows s'. crash_main a (m0, m1, m2) (clock0, clock1) progress killed started s =
      (Inr (client, report, True), s') \<and>
    client_pass client \<and> committed_after report = 25 \<and> uncommitted_after report = 0 \<and> length rows = 25 \<and>
    committed s' = add_rows ''price_observation'' rows (committed s) \<and> running s'"
proof -
  obtain client s1 where client: "check_killed_client a m0 clock0 (fst progress) s = (client, s1)"
    by (rule prod.exhaust)
  have s1: "committed s1 = committed s" "running s1"
    using client holder_server(1) [of a m0 "crash_base clock0" "fst progress" s] ready(2)
    by (auto simp: check_killed_client_def Let_def holder_uncommitted)
  have pass: "client_pass client"
    using killed_client [of a m0 clock0 "fst progress" s] client fresh(1) by simp
  obtain rows s' where "check_server_crash a m1 m2 clock1 (snd progress) killed started s1 =
       (Inr \<lparr>committed_before = 25, committed_after = 25, uncommitted_after = 0, server_pass = True\<rparr>, s')"
      "committed s' = add_rows ''price_observation'' rows (committed s)" "length rows = 25" "running s'"
    by (rule server_crash_passes [of a s1 m1 m2 clock1 killed started "snd progress"]) (use assms s1 in auto)
  then show ?thesis
    using pass by (auto simp: crash_main_def client)
qed

text \<open>A server on the example store: the holders were killed before they began and after they inserted.\<close>

definition example_crash_args :: crash_args where
  "example_crash_args = \<lparr>ca_engine = Postgres, ca_cards = 1, ca_now = micros 700000 0 0 0\<rparr>"

definition example_server :: server where
  "example_server = \<lparr>committed = example_db, opened = (\<lambda>_. None), running = True\<rparr>"

lemma example_no_marker: "plain_marker (112 # m) \<Longrightarrow> marker_rows example_db (112 # m) = 0"
proof -
  assume plain: "plain_marker (112 # m)"
  have "source_slug 2 \<noteq> [] \<and> hd (source_slug 2) \<noteq> 112"
    by code_simp
  then obtain c s where slug: "source_slug 2 = c # s" "c \<noteq> 112"
    by (cases "source_slug 2") auto
  have key: "cell (bind_row (spec_of ''price_observation'') (batch_observation 40 1 1 (micros 700000 0 0 0) 0)) ''idempotency_key'' =
      VText (idempotency_key (source_slug 2) 2400000000001 0 (lit ''buy'') (date_text (micros 700000 0 0 0))
          (batch_condition 4400000000060))"
    by (simp add: example_observation file_row_def file_columns_of t_price_observation_def)
  show ?thesis
    using slug by (simp add: marker_rows_def example_tables(1) key like_prefix [OF plain, simplified] idempotency_key_def)
qed

lemma example_crash_ready: "crash_ready example_crash_args example_db"
proof -
  have "{0..<1} = {0 :: int}" by auto
  then show ?thesis
    by (simp add: crash_ready_def example_crash_args_def batch_args_def micros_def records_per_run_def crash_writer_def
        example_ok batch_refs_def example_rows lit_def)
qed

theorem crash_checks_pass_witness:
  "\<exists>client report s'. crash_main example_crash_args (lit ''poc-crash-client-0'', lit ''poc-crash-committed-0'', lit ''poc-crash-pending-0'')
      (0, 0) (0, 2) True True example_server = (Inr (client, report, True), s') \<and> committed_after report = 25"
proof -
  have fresh: "marker_rows example_db (lit (CHR ''p'' # m)) = 0" if "plain_marker (lit (CHR ''p'' # m))" for m
    using example_no_marker [of "lit m"] that by (simp add: lit_def)
  have "\<not> key_stored example_db (VText (marked_key (lit ''poc-crash-committed-0'') i))" if "i < 25" for i
  proof -
    have "124 \<notin> set (marked_key (lit ''poc-crash-committed-0'') i)"
      using dec_digits_range [of "int i" 124] by (auto simp: marked_key_def py_str_def lit_def)
    then show ?thesis using example_key by blast
  qed
  moreover have "VInt (crash_base 0 + 1000 + int i) \<notin> ids example_db ''price_observation''" if "i < 25" for i
    using that crash_base_range [of 0] by (simp add: example_ids)
  ultimately have window: "window_free example_db (lit ''poc-crash-committed-0'') (crash_base 0 + 1000)"
    by (simp add: window_free_def)
  have markers: "\<forall>m \<in> {lit ''poc-crash-client-0'', lit ''poc-crash-committed-0'', lit ''poc-crash-pending-0''}. plain_marker m"
    by (simp add: plain_marker_def lit_def)
  show ?thesis
    using crash_checks_pass [of example_crash_args example_server "lit ''poc-crash-client-0''" "lit ''poc-crash-committed-0''"
        "lit ''poc-crash-pending-0''" 0 True True 0 "(0, 2)"] markers window fresh example_crash_ready
    by (fastforce simp: example_server_def lit_def)
qed


end
