(* ===== verification/Disk.thy ===== *)
theory Disk
  imports Filesystem
begin

text \<open>
  A tree of directories, files and symbolic links, and \<open>Path.resolve\<close> on it. A directory says whether it
  may be listed; a file holds the text of its bytes, or none when they are not UTF-8. \<open>fold_name\<close> is what
  the file system compares names by: the identity, or a case folding. An absolute path is the list of its
  parts.
\<close>

subsection \<open>Entries\<close>

datatype entry = Folder bool "(pystr \<times> entry) list" | File "pystr option" | Symlink pystr

record disk =
  entries :: entry
  fold_name :: "pystr \<Rightarrow> pystr"

type_synonym parts = "pystr list"

text \<open>\<open>lstat\<close>: a link on the way was not followed, so nothing is below it.\<close>

fun lookup :: "(pystr \<Rightarrow> pystr) \<Rightarrow> entry \<Rightarrow> parts \<Rightarrow> entry option" where
  "lookup f e [] = Some e"
| "lookup f (Folder l es) (n # ns) =
     (case find (\<lambda>(m, e). f m = f n) es of Some (m, e) \<Rightarrow> lookup f e ns | None \<Rightarrow> None)"
| "lookup f e (n # ns) = None"

definition lstat :: "disk \<Rightarrow> parts \<Rightarrow> entry option" where
  "lstat d p = lookup (fold_name d) (entries d) p"

text \<open>The parts of a relative or absolute text, and the path it gives under a directory.\<close>

definition parts_of :: "pystr \<Rightarrow> parts" where
  "parts_of s = filter (\<lambda>x. x \<noteq> [] \<and> x \<noteq> [46]) (split_on 47 s)"

definition under :: "parts \<Rightarrow> pystr \<Rightarrow> parts" where
  "under base s = (if prefix [47] s then parts_of s else base @ parts_of s)"

declare lstat_def [py_eval] parts_of_def [py_eval] under_def [py_eval]

subsection \<open>Resolving links\<close>

text \<open>
  \<open>os.path.realpath\<close>: the parts still to follow, with a mark behind the target of every link, and what is
  known of the links met so far: where they lead, or nothing while they are being followed.
\<close>

datatype work = Part pystr | Followed parts

fun link_parts :: "entry \<Rightarrow> pystr list" where
  "link_parts (Folder l es) = concat (map (\<lambda>x. link_parts (snd x)) es)"
| "link_parts (Symlink t) = split_on 47 t"
| "link_parts (File t) = []"

definition known_names :: "disk \<Rightarrow> (parts \<times> parts option) list \<Rightarrow> parts \<Rightarrow> work list \<Rightarrow> pystr set" where
  "known_names d seen path rest =
     set path \<union> {n. Part n \<in> set rest} \<union> (\<Union>(l, q) \<in> set seen. case q of Some q \<Rightarrow> set q | None \<Rightarrow> {}) \<union>
     set (link_parts (entries d))"

definition open_links :: "disk \<Rightarrow> (parts \<times> parts option) list \<Rightarrow> parts \<Rightarrow> work list \<Rightarrow> parts set" where
  "open_links d seen path rest =
     {p. set p \<subseteq> known_names d seen path rest \<and> length p \<le> size (entries d)} - fst ` set seen"

lemma entry_size: "(n, e) \<in> set es \<Longrightarrow> size e < size (Folder l es)"
  by (induction es) auto

lemma lookup_length: "lookup f e p = Some x \<Longrightarrow> length p \<le> size e"
proof (induction f e p rule: lookup.induct)
  case (2 f l es n ns)
  then obtain m e where e: "find (\<lambda>(m, e). f m = f n) es = Some (m, e)" "lookup f e ns = Some x"
    by (auto split: option.splits)
  then have "(m, e) \<in> set es" by (auto dest: find_in)
  with 2 e entry_size [of m e es l] show ?case by fastforce
qed auto

lemma lookup_link: "lookup f e p = Some (Symlink t) \<Longrightarrow> set (split_on 47 t) \<subseteq> set (link_parts e)"
proof (induction f e p rule: lookup.induct)
  case (2 f l es n ns)
  then obtain m e where e: "find (\<lambda>(m, e). f m = f n) es = Some (m, e)" "lookup f e ns = Some (Symlink t)"
    by (auto split: option.splits)
  then have "set (split_on 47 t) \<subseteq> set (link_parts e)" by (rule "2.IH" [OF _ refl])
  also have "\<dots> \<subseteq> set (link_parts (Folder l es))"
    using find_in [OF e(1)] by (auto intro!: bexI [of _ "(m, e)"])
  finally show ?case .
qed auto

lemma finite_parts: "finite {n. Part n \<in> set rest}"
proof (induction rest)
  case (Cons w rest)
  have "{n. Part n \<in> set (w # rest)} = (case w of Part n \<Rightarrow> {n} | Followed l \<Rightarrow> {}) \<union> {n. Part n \<in> set rest}"
    by (auto split: work.splits)
  with Cons show ?case by (simp split: work.split)
qed simp

lemma finite_open_links: "finite (open_links d seen path rest)"
proof -
  have "finite (known_names d seen path rest)"
    unfolding known_names_def by (auto simp: finite_parts split: option.splits)
  then show ?thesis
    unfolding open_links_def by (simp add: finite_lists_length_le)
qed

lemma open_links_mono:
  "known_names d seen' path' rest' \<subseteq> known_names d seen path rest \<Longrightarrow> fst ` set seen \<subseteq> fst ` set seen' \<Longrightarrow>
     card (open_links d seen' path' rest') \<le> card (open_links d seen path rest)"
  by (rule card_mono [OF finite_open_links]) (auto simp: open_links_def)

lemma open_links_less:
  "known_names d seen' path' rest' \<subseteq> known_names d seen path rest \<Longrightarrow> fst ` set seen \<subseteq> fst ` set seen' \<Longrightarrow>
     p \<in> open_links d seen path rest \<Longrightarrow> p \<in> fst ` set seen' \<Longrightarrow>
     card (open_links d seen' path' rest') < card (open_links d seen path rest)"
  by (rule psubset_card_mono [OF finite_open_links]) (auto simp: open_links_def)

lemma known_followed: "known_names d ((l, Some path) # seen) path rest \<subseteq> known_names d seen path (Followed l # rest)"
  by (auto simp: known_names_def)

lemma known_rest: "known_names d seen path rest \<subseteq> known_names d seen path (w # rest)"
  by (auto simp: known_names_def)

lemma known_up: "known_names d seen (butlast path) rest \<subseteq> known_names d seen path (w # rest)"
  by (auto simp: known_names_def dest: in_set_butlastD)

lemma known_step: "known_names d seen (path @ [n]) rest \<subseteq> known_names d seen path (Part n # rest)"
  by (auto simp: known_names_def)

lemma known_again: "map_of seen l = Some (Some q) \<Longrightarrow> known_names d seen q rest \<subseteq> known_names d seen path (w # rest)"
  by (auto simp: known_names_def dest!: map_of_SomeD)

lemma known_link:
  "lstat d (path @ [n]) = Some (Symlink t) \<Longrightarrow> set base \<subseteq> set path \<Longrightarrow>
     known_names d ((l, None) # seen) base (map Part (split_on 47 t) @ Followed l # rest)
       \<subseteq> known_names d seen path (Part n # rest)"
  using lookup_link [of "fold_name d" "entries d" "path @ [n]" t]
  by (auto simp: known_names_def lstat_def)

lemma link_is_open:
  "lstat d (path @ [n]) = Some (Symlink t) \<Longrightarrow> map_of seen (path @ [n]) = None \<Longrightarrow>
     path @ [n] \<in> open_links d seen path (Part n # rest)"
  using lookup_length [of "fold_name d" "entries d" "path @ [n]" "Symlink t"]
  by (auto simp: open_links_def known_names_def lstat_def map_of_eq_None_iff)

lemma open_links_link:
  "lstat d (path @ [n]) = Some (Symlink t) \<Longrightarrow> map_of seen (path @ [n]) = None \<Longrightarrow> set base \<subseteq> set path \<Longrightarrow>
     card (open_links d ((path @ [n], None) # seen) base (map Part (split_on 47 t) @ Followed (path @ [n]) # rest))
       < card (open_links d seen path (Part n # rest))"
  by (rule open_links_less [OF known_link _ link_is_open]) auto

function realpath :: "disk \<Rightarrow> (parts \<times> parts option) list \<Rightarrow> parts \<Rightarrow> work list \<Rightarrow> parts" where
  "realpath d seen path [] = path"
| "realpath d seen path (Followed l # rest) = realpath d ((l, Some path) # seen) path rest"
| "realpath d seen path (Part n # rest) =
     (if n = [] \<or> n = [46] then realpath d seen path rest
      else if n = [46, 46] then realpath d seen (butlast path) rest
      else case lstat d (path @ [n]) of
        Some (Symlink t) \<Rightarrow>
          (case map_of seen (path @ [n]) of
             Some (Some q) \<Rightarrow> realpath d seen q rest
           | Some None \<Rightarrow> realpath d seen (path @ [n]) rest
           | None \<Rightarrow> realpath d ((path @ [n], None) # seen) (if prefix [47] t then [] else path)
               (map Part (split_on 47 t) @ Followed (path @ [n]) # rest))
      | _ \<Rightarrow> realpath d seen (path @ [n]) rest)"
  by pat_completeness auto
termination
  by (relation "measures [\<lambda>(d, seen, path, rest). card (open_links d seen path rest), \<lambda>(d, seen, path, rest). length rest]")
    (auto simp: le_less [symmetric] open_links_link
      intro!: open_links_mono known_followed known_rest known_up known_step known_again)

declare realpath.simps(3) [simp del]

text \<open>\<open>Path(base / s).resolve()\<close>\<close>

definition resolve :: "disk \<Rightarrow> parts \<Rightarrow> parts" where
  "resolve d p = realpath d [] [] (map Part p)"

text \<open>\<open>exists\<close> and \<open>is_file\<close> on a path whose links were followed; what is left of a loop of links is no entry.\<close>

definition entry_at :: "disk \<Rightarrow> parts \<Rightarrow> entry option" where
  "entry_at d p = (case lstat d p of Some (Symlink t) \<Rightarrow> None | e \<Rightarrow> e)"

declare resolve_def [py_eval] entry_at_def [py_eval]

subsection \<open>Walking a directory\<close>

text \<open>
  The paths \<open>os.walk\<close> lists as files below a directory: a link to a directory counts as one but is not
  entered, a directory with an excluded name is not entered, one that may not be listed is empty. The order
  is that of the entries; the callers sort what they keep.
\<close>

fun walk :: "(parts \<Rightarrow> bool) \<Rightarrow> pystr list \<Rightarrow> parts \<Rightarrow> entry \<Rightarrow> parts list" where
  "walk dir_link excluded base (Folder listable es) =
     (if listable then
        concat (map (\<lambda>x. case snd x of
            Folder l xs \<Rightarrow> if fst x \<in> set excluded then [] else walk dir_link excluded (base @ [fst x]) (snd x)
          | File t \<Rightarrow> [base @ [fst x]]
          | Symlink t \<Rightarrow> if dir_link (base @ [fst x]) then [] else [base @ [fst x]]) es)
      else [])"
| "walk dir_link excluded base (File t) = []"
| "walk dir_link excluded base (Symlink t) = []"

subsection \<open>Plain paths\<close>

definition plain :: "pystr \<Rightarrow> bool" where
  "plain n \<longleftrightarrow> n \<noteq> [] \<and> n \<noteq> [46] \<and> n \<noteq> [46, 46]"

definition plain_links :: "(parts \<times> parts option) list \<Rightarrow> bool" where
  "plain_links seen \<longleftrightarrow> (\<forall>l q. (l, Some q) \<in> set seen \<longrightarrow> list_all plain q)"

lemma plain_realpath: "list_all plain path \<Longrightarrow> plain_links seen \<Longrightarrow> list_all plain (realpath d seen path rest)"
proof (induction d seen path rest rule: realpath.induct)
  case (1 d seen path)
  then show ?case by simp
next
  case (2 d seen path l rest)
  then show ?case by (simp add: plain_links_def)
next
  case (3 d seen path n rest)
  consider (skip) "n = [] \<or> n = [46]" | (up) "n = [46, 46]" | (step) "plain n"
    by (auto simp: plain_def)
  then show ?case
  proof cases
    case skip
    with 3 show ?thesis by (simp add: realpath.simps(3))
  next
    case up
    have "list_all plain (butlast path)" using "3.prems"(1) by (auto simp: list_all_iff dest: in_set_butlastD)
    with 3 up show ?thesis by (simp add: realpath.simps(3))
  next
    case step
    then have n: "\<not> (n = [] \<or> n = [46])" "n \<noteq> [46, 46]" by (auto simp: plain_def)
    have path: "list_all plain (path @ [n])" using "3.prems"(1) step by simp
    note IH = "3.IH"(3-) [OF n]
    show ?thesis
    proof (cases "lstat d (path @ [n])")
      case None
      with n IH path "3.prems"(2) show ?thesis by (simp add: realpath.simps(3))
    next
      case (Some e)
      show ?thesis
      proof (cases e)
        case (Symlink t)
        then have e: "lstat d (path @ [n]) = Some (Symlink t)" using Some by simp
        have links: "plain_links ((path @ [n], None) # seen)" using "3.prems"(2) by (simp add: plain_links_def)
        show ?thesis
        proof (cases "map_of seen (path @ [n])")
          case None
          with n IH e links "3.prems"(1) show ?thesis by (simp add: realpath.simps(3))
        next
          case (Some q)
          then have "q = Some r \<Longrightarrow> list_all plain r" for r
            using "3.prems"(2) by (auto simp: plain_links_def dest!: map_of_SomeD)
          with Some n IH e path "3.prems"(2) show ?thesis by (cases q) (simp_all add: realpath.simps(3))
        qed
      qed (use Some n IH path "3.prems"(2) in \<open>simp_all add: realpath.simps(3)\<close>)
    qed
  qed
qed

lemma plain_resolve: "list_all plain (resolve d p)"
  by (simp add: resolve_def plain_realpath plain_links_def)

lemma lookup_append: "lookup f e (p @ q) = (case lookup f e p of Some e' \<Rightarrow> lookup f e' q | None \<Rightarrow> None)"
proof (induction f e p rule: lookup.induct)
  case (1 f e)
  then show ?case by simp
next
  case (2 f l es n ns)
  then show ?case by (simp split: option.split prod.split)
qed simp_all

lemma realpath_entry:
  "list_all plain ns \<Longrightarrow> entry_at d (path @ ns) = Some e \<Longrightarrow> realpath d seen path (map Part ns) = path @ ns"
proof (induction ns arbitrary: path)
  case (Cons n ns)
  have n: "n \<noteq> []" "n \<noteq> [46]" "n \<noteq> [46, 46]" using Cons.prems(1) by (simp_all add: plain_def)
  have IH: "realpath d seen (path @ [n]) (map Part ns) = path @ n # ns" using Cons by simp
  have "lstat d (path @ [n]) \<noteq> Some (Symlink t)" for t
  proof
    assume link: "lstat d (path @ [n]) = Some (Symlink t)"
    have "lstat d (path @ n # ns) = (case lstat d (path @ [n]) of Some e \<Rightarrow> lookup (fold_name d) e ns | None \<Rightarrow> None)"
      using lookup_append [of "fold_name d" "entries d" "path @ [n]" ns] by (simp add: lstat_def)
    with link Cons.prems(2) show False by (cases ns) (simp_all add: entry_at_def)
  qed
  with n IH show ?case by (simp add: realpath.simps(3) split: option.split entry.split)
qed simp

lemma resolve_again: "entry_at d (resolve d p) = Some e \<Longrightarrow> resolve d (resolve d p) = resolve d p"
  using realpath_entry [of "resolve d p" d "[]" e "[]"] by (simp add: resolve_def [of d "resolve d p"] plain_resolve)

subsection \<open>Exact names\<close>

text \<open>What is below an entry by the names as they are written, through directories that may be listed.\<close>

fun exact_entry :: "entry \<Rightarrow> parts \<Rightarrow> entry option" where
  "exact_entry e [] = Some e"
| "exact_entry (Folder l es) (n # ns) =
     (if l then case map_of es n of Some e \<Rightarrow> exact_entry e ns | None \<Rightarrow> None else None)"
| "exact_entry e (n # ns) = None"

text \<open>A directory holds no two names the file system takes for one.\<close>

fun names_distinct :: "(pystr \<Rightarrow> pystr) \<Rightarrow> entry \<Rightarrow> bool" where
  "names_distinct f (Folder l es) \<longleftrightarrow> distinct (map (\<lambda>x. f (fst x)) es) \<and> list_all (\<lambda>x. names_distinct f (snd x)) es"
| "names_distinct f (File t) \<longleftrightarrow> True"
| "names_distinct f (Symlink t) \<longleftrightarrow> True"

lemma find_exact:
  "distinct (map (\<lambda>x. f (fst x)) es) \<Longrightarrow> (n, e) \<in> set es \<Longrightarrow> find (\<lambda>(m, e). f m = f n) es = Some (n, e)"
  by (induction es) force+

lemma map_of_exact: "distinct (map (\<lambda>x. f (fst x)) es) \<Longrightarrow> (n, e) \<in> set es \<Longrightarrow> map_of es n = Some e"
  by (induction es) force+

lemma lookup_distinct: "lookup f e p = Some x \<Longrightarrow> names_distinct f e \<Longrightarrow> names_distinct f x"
proof (induction f e p rule: lookup.induct)
  case (2 f l es n ns)
  then obtain m e where e: "find (\<lambda>(m, e). f m = f n) es = Some (m, e)" "lookup f e ns = Some x"
    by (auto split: option.splits)
  have "names_distinct f e" using find_in [OF e(1)] "2.prems"(2) by (auto simp: list_all_iff)
  then show ?case by (rule "2.IH" [OF e(1) refl e(2)])
qed auto

subsection \<open>What a walk lists\<close>

definition listed :: "(parts \<Rightarrow> bool) \<Rightarrow> parts \<Rightarrow> entry \<Rightarrow> bool" where
  "listed dir_link p e \<longleftrightarrow> (case e of Folder l es \<Rightarrow> False | File t \<Rightarrow> True | Symlink t \<Rightarrow> \<not> dir_link p)"

lemma exact_entry_Cons:
  "names_distinct f (Folder True es) \<Longrightarrow>
     exact_entry (Folder True es) (n # ns) = Some x \<longleftrightarrow> (\<exists>e. (n, e) \<in> set es \<and> exact_entry e ns = Some x)"
  using map_of_exact [of f es n] by (auto split: option.splits dest: map_of_SomeD) force

lemma in_walk:
  "names_distinct f e \<Longrightarrow> p \<in> set (walk dir_link excluded base e) \<longleftrightarrow>
     (\<exists>ns x. ns \<noteq> [] \<and> p = base @ ns \<and> exact_entry e ns = Some x \<and> set (butlast ns) \<inter> set excluded = {} \<and> listed dir_link p x)"
proof (induction dir_link excluded base e arbitrary: p rule: walk.induct)
  case (1 dir_link excluded base l es)
  show ?case
  proof (cases l)
    case True
    have distinct: "distinct (map (\<lambda>x. f (fst x)) es)" "\<And>n e. (n, e) \<in> set es \<Longrightarrow> names_distinct f e"
      using "1.prems" by (auto simp: list_all_iff)
    have sub: "(p \<in> set (case e of
            Folder l xs \<Rightarrow> if n \<in> set excluded then [] else walk dir_link excluded (base @ [n]) e
          | File t \<Rightarrow> [base @ [n]] | Symlink t \<Rightarrow> if dir_link (base @ [n]) then [] else [base @ [n]])) \<longleftrightarrow>
        (\<exists>ns x. p = base @ n # ns \<and> exact_entry e ns = Some x \<and> set (butlast (n # ns)) \<inter> set excluded = {} \<and>
           listed dir_link p x)" (is "?in e \<longleftrightarrow> ?some e") if e: "(n, e) \<in> set es" for n e p
    proof (cases e)
      case (Folder k xs)
      have IH: "p \<in> set (walk dir_link excluded (base @ [n]) e) \<longleftrightarrow>
          (\<exists>ns x. ns \<noteq> [] \<and> p = (base @ [n]) @ ns \<and> exact_entry e ns = Some x \<and> set (butlast ns) \<inter> set excluded = {} \<and>
             listed dir_link p x)" if "n \<notin> set excluded"
        using "1.IH" [OF True e, of k xs p] distinct(2) [OF e] that Folder by simp
      have "\<not> listed dir_link p e" by (simp add: listed_def Folder)
      then have "?some e \<longleftrightarrow> n \<notin> set excluded \<and> (\<exists>ns x. ns \<noteq> [] \<and> p = (base @ [n]) @ ns \<and> exact_entry e ns = Some x \<and>
          set (butlast ns) \<inter> set excluded = {} \<and> listed dir_link p x)"
        by (auto simp: neq_Nil_conv)
      with IH show ?thesis by (simp add: Folder)
    next
      case (File t)
      have "exact_entry e ns = Some x \<longleftrightarrow> ns = [] \<and> x = e" for ns x by (cases ns) (auto simp: File)
      then show ?thesis by (auto simp: File listed_def)
    next
      case (Symlink t)
      have "exact_entry e ns = Some x \<longleftrightarrow> ns = [] \<and> x = e" for ns x by (cases ns) (auto simp: Symlink)
      then show ?thesis by (auto simp: Symlink listed_def)
    qed
    have "p \<in> set (walk dir_link excluded base (Folder l es)) \<longleftrightarrow> (\<exists>y \<in> set es. p \<in> set (case snd y of
            Folder l xs \<Rightarrow> if fst y \<in> set excluded then [] else walk dir_link excluded (base @ [fst y]) (snd y)
          | File t \<Rightarrow> [base @ [fst y]] | Symlink t \<Rightarrow> if dir_link (base @ [fst y]) then [] else [base @ [fst y]]))"
      by (simp add: True)
    also have "\<dots> \<longleftrightarrow> (\<exists>y \<in> set es. \<exists>ns x. p = base @ fst y # ns \<and> exact_entry (snd y) ns = Some x \<and>
           set (butlast (fst y # ns)) \<inter> set excluded = {} \<and> listed dir_link p x)"
      by (rule bex_cong [OF refl], rule sub) simp
    also have "\<dots> \<longleftrightarrow> (\<exists>n ns x. p = base @ n # ns \<and> exact_entry (Folder l es) (n # ns) = Some x \<and>
           set (butlast (n # ns)) \<inter> set excluded = {} \<and> listed dir_link p x)"
      using exact_entry_Cons [of f es] "1.prems" True by (simp add: Bex_def) blast
    finally show ?thesis by (metis neq_Nil_conv)
  next
    case False
    have "exact_entry (Folder l es) ns = Some x \<Longrightarrow> ns \<noteq> [] \<Longrightarrow> False" for ns x
      using False by (cases ns) auto
    with False show ?thesis by auto
  qed
next
  case (2 dir_link excluded base t)
  have "exact_entry (File t) ns = Some x \<Longrightarrow> ns = []" for ns x by (cases ns) auto
  then show ?case by auto
next
  case (3 dir_link excluded base t)
  have "exact_entry (Symlink t) ns = Some x \<Longrightarrow> ns = []" for ns x by (cases ns) auto
  then show ?case by auto
qed
end
