(* ===== verification/Doc_Links.thy ===== *)
theory Doc_Links
  imports Py_Web Disk "HOL-Library.List_Lexorder"
begin

text \<open>
  .agents/skills/check-doc-links/scripts/check_doc_links.py: the links and heading anchors of the Markdown
  files of a repository, on a disk of Disk. A problem is a constructor with the values its message shows, an
  exception no handler catches is a value that ends the command. The Unicode tables (lower case, the
  categories of a heading's characters, the word characters of a regular expression) and the table of
  character references are fields of \<open>tables\<close>. Files can be read; a directory may refuse to be listed.
\<close>

subsection \<open>Patterns\<close>

record tables =
  lower_case :: "pystr \<Rightarrow> pystr"
  slug_category :: "int \<Rightarrow> bool"
  word_char :: "int \<Rightarrow> bool"
  references :: entities
  host_ok :: "pystr \<Rightarrow> bool"

definition EXCLUDED_DIRECTORIES :: "pystr list" where
  "EXCLUDED_DIRECTORIES = map lit
     [''.git'', ''.mypy_cache'', ''.pytest_cache'', ''.ruff_cache'', ''.venv'', ''__pycache__'', ''build'',
      ''dist'', ''htmlcov'', ''node_modules'', ''var'', ''venv'']"

definition SUFFIXES :: "pystr list" where
  "SUFFIXES = map lit [''.md'', ''.markdown'']"

text \<open>A text between two characters, \<open>c[^d]*d\<close>, and the two quoted alternatives of an HTML attribute.\<close>

definition quoted_any :: "int \<Rightarrow> int \<Rightarrow> regex" where
  "quoted_any c d = seq [char c, Many (not_in [d]), char d]"

definition attribute_value :: regex where
  "attribute_value =
     Alt (seq [char 34, Group 1 (plus (not_in [34])), char 34]) (seq [char 39, Group 2 (plus (not_in [39])), char 39])"

definition INLINE_LINK_RE :: regex where
  "INLINE_LINK_RE =
     seq [opt (char 33), char 91, Many (not_in [93]), char 93, char 40, Many white,
       Group 1 (Alt (quoted_any 60 62) (plus (Chr (\<lambda>c. c \<noteq> 41 \<and> \<not> is_space c)))),
       opt (seq [plus white, Alt (quoted_any 34 34) (Alt (quoted_any 39 39) (quoted_any 40 41))]),
       Many white, char 41]"

definition REFERENCE_DEFINITION_RE :: regex where
  "REFERENCE_DEFINITION_RE =
     seq [up_to 3 white, char 91, plus (not_in [93]), char 93, char 58, Many white,
       Group 1 (Alt (quoted_any 60 62) (plus not_white))]"

definition HTML_LINK_RE :: "(int \<Rightarrow> bool) \<Rightarrow> regex" where
  "HTML_LINK_RE w =
     seq [Edge w, Alt (any_case ''href'') (any_case ''src''), Many white, char 61, Many white, attribute_value]"

definition ATX_HEADING_RE :: regex where
  "ATX_HEADING_RE =
     seq [up_to 3 white, times_to 1 6 (char 35), plus white, Group 1 (Few (not_in [10])),
       opt (seq [plus white, plus (char 35), Many white]), Line_end]"

definition SETEXT_HEADING_RE :: regex where
  "SETEXT_HEADING_RE = seq [up_to 3 white, Alt (plus (char 61)) (plus (char 45)), Many white, Line_end]"

definition EXPLICIT_ANCHOR_RE :: "(int \<Rightarrow> bool) \<Rightarrow> regex" where
  "EXPLICIT_ANCHOR_RE w =
     seq [char 60, plus (not_in [62]), Edge w, Alt (any_case ''id'') (any_case ''name''), Many white, char 61,
       Many white, attribute_value, Many (not_in [62]), char 62]"

definition INLINE_CODE_RE :: regex where
  "INLINE_CODE_RE = seq [plus (char 96), Many (not_in [96]), plus (char 96)]"

definition MARKDOWN_LINK_LABEL_RE :: regex where
  "MARKDOWN_LINK_LABEL_RE =
     seq [opt (char 33), char 91, Group 1 (plus (not_in [93])), char 93, char 40, Many (not_in [41]), char 41]"

definition HTML_TAG_RE :: regex where
  "HTML_TAG_RE = seq [char 60, plus (not_in [62]), char 62]"

declare EXCLUDED_DIRECTORIES_def [py_eval] SUFFIXES_def [py_eval] quoted_any_def [py_eval] attribute_value_def [py_eval]
  INLINE_LINK_RE_def [py_eval] REFERENCE_DEFINITION_RE_def [py_eval] HTML_LINK_RE_def [py_eval] ATX_HEADING_RE_def [py_eval]
  SETEXT_HEADING_RE_def [py_eval] EXPLICIT_ANCHOR_RE_def [py_eval] INLINE_CODE_RE_def [py_eval]
  MARKDOWN_LINK_LABEL_RE_def [py_eval] HTML_TAG_RE_def [py_eval]

subsection \<open>Lines outside code fences\<close>

definition fence_re :: regex where
  "fence_re = Group 1 (Alt (seq [char 96, char 96, char 96, Many (char 96)]) (seq [char 126, char 126, char 126, Many (char 126)]))"

definition closing_re :: "int \<Rightarrow> nat \<Rightarrow> regex" where
  "closing_re c n = seq (replicate n (char c) @ [Many (char c), Many white, Line_end])"

text \<open>The open fence, if any: its character and length.\<close>

fun active_from :: "(int \<times> nat) option \<Rightarrow> pystr list \<Rightarrow> pystr option list" where
  "active_from fence [] = []"
| "active_from None (l # ls) =
     (case re_match fence_re (lstrip l) of
        Some g \<Rightarrow> (case group_of g 1 of
            Some f \<Rightarrow> None # active_from (Some (hd f, length f)) ls
          | None \<Rightarrow> Some l # active_from None ls)
      | None \<Rightarrow> Some l # active_from None ls)"
| "active_from (Some (c, n)) (l # ls) =
     None # active_from (if re_match (closing_re c n) (lstrip l) \<noteq> None then None else Some (c, n)) ls"

definition active_lines :: "pystr \<Rightarrow> pystr option list" where
  "active_lines text = active_from None (splitlines text)"

declare fence_re_def [py_eval] closing_re_def [py_eval] active_lines_def [py_eval]

subsection \<open>Links of a text\<close>

datatype crash = Malformed_host | Null_byte | Not_utf8 | No_such_file | Outside_root | Too_many_digits

record link =
  link_source :: parts
  link_line :: nat
  link_target :: pystr

text \<open>\<open>None\<close> is the ValueError of a character reference with too many digits.\<close>

definition normalize_destination :: "tables \<Rightarrow> pystr \<Rightarrow> pystr option" where
  "normalize_destination T target =
     (let t = strip target in
      html_unescape (references T) (if t \<noteq> [] \<and> hd t = 60 \<and> last t = 62 then tl (butlast t) else t))"

definition either_group :: "(nat \<times> pystr) list \<Rightarrow> pystr" where
  "either_group g = (case group_of g 1 of Some t \<Rightarrow> t | None \<Rightarrow> (case group_of g 2 of Some t \<Rightarrow> t | None \<Rightarrow> []))"

definition line_targets :: "tables \<Rightarrow> pystr \<Rightarrow> pystr option list" where
  "line_targets T line =
     (let searchable = re_sub INLINE_CODE_RE (\<lambda>_ _. []) line in
      map (\<lambda>g. normalize_destination T (either_group g)) (re_find INLINE_LINK_RE searchable) @
      (case re_match REFERENCE_DEFINITION_RE searchable of
         Some g \<Rightarrow> [normalize_destination T (either_group g)] | None \<Rightarrow> []) @
      map (\<lambda>g. Some (either_group g)) (re_find (HTML_LINK_RE (word_char T)) searchable))"

definition extract_links :: "tables \<Rightarrow> parts \<Rightarrow> pystr \<Rightarrow> crash + link list" where
  "extract_links T path text =
     (case those (concat (map (\<lambda>(n, line). case line of
          None \<Rightarrow> []
        | Some line \<Rightarrow> map (map_option (\<lambda>t. \<lparr>link_source = path, link_line = n, link_target = t\<rparr>)) (line_targets T line))
        (enumerate 1 (active_lines text)))) of
        None \<Rightarrow> Inl Too_many_digits | Some links \<Rightarrow> Inr links)"

declare normalize_destination_def [py_eval] either_group_def [py_eval] line_targets_def [py_eval] extract_links_def [py_eval]

subsection \<open>Heading anchors\<close>

definition strip_backticks :: "pystr \<Rightarrow> pystr" where
  "strip_backticks s = rev (dropWhile (\<lambda>c. c = 96) (rev (dropWhile (\<lambda>c. c = 96) s)))"

definition heading_slug :: "tables \<Rightarrow> pystr \<Rightarrow> pystr option" where
  "heading_slug T text =
     (let text = re_sub MARKDOWN_LINK_LABEL_RE (\<lambda>_ g. either_group g) text;
          text = re_sub INLINE_CODE_RE (\<lambda>m _. strip_backticks m) text;
          text = re_sub HTML_TAG_RE (\<lambda>_ _. []) text in
      map_option (\<lambda>text.
          re_sub (plus white) (\<lambda>_ _. [45])
            (filter (\<lambda>c. c \<in> {45, 95, 32} \<or> slug_category T c) (lower_case T (strip text))))
        (html_unescape (references T) text))"

record anchor_state =
  found :: "pystr list"
  duplicate_counts :: "(pystr, int) pydict"
  previous_line :: "pystr option"

definition add_heading :: "tables \<Rightarrow> pystr \<Rightarrow> anchor_state \<Rightarrow> crash + anchor_state" where
  "add_heading T v st =
     (case heading_slug T v of
        None \<Rightarrow> Inl Too_many_digits
      | Some base \<Rightarrow>
          if base = [] then Inr st
          else let count = dict_get (duplicate_counts st) base 0 in
            Inr (st\<lparr>duplicate_counts := AList.update base (count + 1) (duplicate_counts st),
                   found := List.insert (if count = 0 then base else base @ [45] @ py_str count) (found st)\<rparr>))"

definition explicit_anchors :: "tables \<Rightarrow> pystr \<Rightarrow> crash + pystr list" where
  "explicit_anchors T line =
     (case those (map (\<lambda>g. html_unescape (references T) (either_group g)) (re_find (EXPLICIT_ANCHOR_RE (word_char T)) line)) of
        None \<Rightarrow> Inl Too_many_digits | Some ids \<Rightarrow> Inr ids)"

definition anchor_line :: "tables \<Rightarrow> pystr option \<Rightarrow> anchor_state \<Rightarrow> crash + anchor_state" where
  "anchor_line T line st =
     (case line of
        None \<Rightarrow> Inr (st\<lparr>previous_line := None\<rparr>)
      | Some line \<Rightarrow>
          and_then
            (case re_match ATX_HEADING_RE line of
               Some g \<Rightarrow> add_heading T (either_group g) st
             | None \<Rightarrow> (case previous_line st of
                 Some prev \<Rightarrow>
                   if re_match SETEXT_HEADING_RE line \<noteq> None \<and> strip prev \<noteq> [] then add_heading T (strip prev) st else Inr st
               | None \<Rightarrow> Inr st))
            (\<lambda>st. and_then (explicit_anchors T line)
              (\<lambda>ids. Inr (st\<lparr>found := fold List.insert ids (found st), previous_line := Some line\<rparr>))))"

fun anchor_lines :: "tables \<Rightarrow> pystr option list \<Rightarrow> anchor_state \<Rightarrow> crash + anchor_state" where
  "anchor_lines T [] st = Inr st"
| "anchor_lines T (l # ls) st = and_then (anchor_line T l st) (anchor_lines T ls)"

definition text_anchors :: "tables \<Rightarrow> pystr \<Rightarrow> crash + pystr list" where
  "text_anchors T text =
     and_then (anchor_lines T (active_lines text) \<lparr>found = [], duplicate_counts = [], previous_line = None\<rparr>)
       (\<lambda>st. Inr (found st))"

definition read_markdown :: "disk \<Rightarrow> parts \<Rightarrow> crash + pystr" where
  "read_markdown d p =
     (case entry_at d p of
        Some (File (Some t)) \<Rightarrow> Inr t | Some (File None) \<Rightarrow> Inl Not_utf8 | _ \<Rightarrow> Inl No_such_file)"

type_synonym anchor_cache = "(parts, pystr list) pydict"

definition anchors :: "tables \<Rightarrow> disk \<Rightarrow> parts \<Rightarrow> anchor_cache \<Rightarrow> (crash + pystr list) \<times> anchor_cache" where
  "anchors T d path cache =
     (case map_of cache path of
        Some r \<Rightarrow> (Inr r, cache)
      | None \<Rightarrow> (case and_then (read_markdown d path) (text_anchors T) of
            Inl e \<Rightarrow> (Inl e, cache)
          | Inr r \<Rightarrow> (Inr r, AList.update path r cache)))"

declare strip_backticks_def [py_eval] heading_slug_def [py_eval] add_heading_def [py_eval] explicit_anchors_def [py_eval]
  anchor_line_def [py_eval] text_anchors_def [py_eval] read_markdown_def [py_eval] anchors_def [py_eval]

subsection \<open>Files to check\<close>

text \<open>\<open>path.suffix\<close>: what follows the last dot, unless only dots stand before it.\<close>

definition suffix_of :: "pystr \<Rightarrow> pystr" where
  "suffix_of n =
     (let ext = rev (takeWhile (\<lambda>c. c \<noteq> 46) (rev n)) in
      if 46 \<in> set n \<and> list_ex (\<lambda>c. c \<noteq> 46) (take (length n - length ext - 1) n) then 46 # ext else [])"

definition is_markdown :: "tables \<Rightarrow> parts \<Rightarrow> bool" where
  "is_markdown T p \<longleftrightarrow> p \<noteq> [] \<and> lower_case T (suffix_of (last p)) \<in> set SUFFIXES"

definition is_dir_at :: "disk \<Rightarrow> parts \<Rightarrow> bool" where
  "is_dir_at d p \<longleftrightarrow> (case entry_at d p of Some (Folder l es) \<Rightarrow> True | _ \<Rightarrow> False)"

definition is_file_at :: "disk \<Rightarrow> parts \<Rightarrow> bool" where
  "is_file_at d p \<longleftrightarrow> (case entry_at d p of Some (File t) \<Rightarrow> True | _ \<Rightarrow> False)"

datatype request_error = Escapes_root parts | Not_there parts

definition requested_files :: "tables \<Rightarrow> disk \<Rightarrow> parts \<Rightarrow> parts \<Rightarrow> request_error + parts list" where
  "requested_files T d root start =
     (let resolved = resolve d start in
      if \<not> prefix root resolved then Inl (Escapes_root start)
      else case entry_at d resolved of
        None \<Rightarrow> Inl (Not_there start)
      | Some (File t) \<Rightarrow> Inr (if is_markdown T resolved then [resolved] else [])
      | Some e \<Rightarrow> Inr (map (resolve d) (filter (is_markdown T) (walk (\<lambda>p. is_dir_at d (resolve d p)) EXCLUDED_DIRECTORIES resolved e))))"

fun all_requested :: "tables \<Rightarrow> disk \<Rightarrow> parts \<Rightarrow> parts list \<Rightarrow> request_error + parts list" where
  "all_requested T d root [] = Inr []"
| "all_requested T d root (s # ss) =
     and_then (requested_files T d root s) (\<lambda>ps. and_then (all_requested T d root ss) (\<lambda>qs. Inr (ps @ qs)))"

definition markdown_files :: "tables \<Rightarrow> disk \<Rightarrow> parts \<Rightarrow> pystr list \<Rightarrow> request_error + parts list" where
  "markdown_files T d root requested =
     and_then (all_requested T d root (if requested = [] then [root] else map (under root) requested))
       (\<lambda>ps. Inr (sort (remdups ps)))"

declare suffix_of_def [py_eval] is_markdown_def [py_eval] is_dir_at_def [py_eval] is_file_at_def [py_eval] requested_files_def [py_eval]
  markdown_files_def [py_eval]

subsection \<open>Checking a link\<close>

fun exact_from :: "disk \<Rightarrow> parts \<Rightarrow> parts \<Rightarrow> bool" where
  "exact_from d current [] \<longleftrightarrow> True"
| "exact_from d current (part # rest) \<longleftrightarrow>
     (case lstat d current of
        Some (Folder True es) \<Rightarrow> part \<in> fst ` set es \<and> exact_from d (current @ [part]) rest
      | _ \<Rightarrow> False)"

definition exact_case_exists :: "disk \<Rightarrow> parts \<Rightarrow> parts \<Rightarrow> bool" where
  "exact_case_exists d root path =
     (let p = resolve d path in prefix root p \<and> exact_from d root (drop (length root) p))"

datatype problem = File_url | Absolute_link | Escapes pystr | Missing pystr | No_anchor pystr

definition validate_link ::
    "tables \<Rightarrow> disk \<Rightarrow> parts \<Rightarrow> link \<Rightarrow> anchor_cache \<Rightarrow> (crash + problem option) \<times> anchor_cache" where
  "validate_link T d root l cache =
     (if link_target l = [] then (Inr None, cache)
      else case urlsplit (host_ok T) (link_target l) of
        None \<Rightarrow> (Inl Malformed_host, cache)
      | Some parsed \<Rightarrow>
          if url_scheme parsed \<noteq> [] then
            (Inr (if url_scheme parsed = lit ''file'' then Some File_url else None), cache)
          else if prefix [47, 47] (link_target l) then (Inr None, cache)
          else let relative_path = unquote (url_path_part parsed); fragment = unquote (url_fragment parsed) in
            if prefix [47] relative_path then (Inr (Some Absolute_link), cache)
            else if 0 \<in> set relative_path then (Inl Null_byte, cache)
            else let resolved = resolve d (if relative_path = [] then link_source l
                     else under (butlast (link_source l)) relative_path) in
              if \<not> prefix root resolved then (Inr (Some (Escapes relative_path)), cache)
              else if entry_at d resolved = None \<or> \<not> exact_case_exists d root resolved
              then (Inr (Some (Missing (if relative_path = [] then [46] else relative_path))), cache)
              else if fragment \<noteq> [] \<and> is_file_at d resolved \<and> is_markdown T resolved
              then then_state (anchors T d resolved cache)
                (\<lambda>found cache. (Inr (if fragment \<in> set found then None else Some (No_anchor fragment)), cache))
              else (Inr None, cache))"

text \<open>\<open>None\<close> is the ValueError of \<open>urlsplit\<close>.\<close>

definition is_remote_target :: "tables \<Rightarrow> pystr \<Rightarrow> bool option" where
  "is_remote_target T target =
     map_option (\<lambda>parsed. (url_scheme parsed \<noteq> [] \<and> url_scheme parsed \<noteq> lit ''file'') \<or> prefix [47, 47] target)
       (urlsplit (host_ok T) target)"

declare exact_case_exists_def [py_eval] validate_link_def [py_eval] is_remote_target_def [py_eval]

subsection \<open>The command\<close>

datatype report = Invalid_utf8 parts | Broken parts nat problem pystr

record totals =
  errors :: "report list"
  checked_links :: nat
  skipped_remote_links :: nat
  anchor_cache :: anchor_cache

definition relative_to :: "parts \<Rightarrow> parts \<Rightarrow> crash + parts" where
  "relative_to root p = (if prefix root p then Inr (drop (length root) p) else Inl Outside_root)"

definition check_link :: "tables \<Rightarrow> disk \<Rightarrow> parts \<Rightarrow> link \<Rightarrow> totals \<Rightarrow> crash + totals" where
  "check_link T d root l st =
     (case is_remote_target T (link_target l) of
        None \<Rightarrow> Inl Malformed_host
      | Some True \<Rightarrow> Inr (st\<lparr>skipped_remote_links := skipped_remote_links st + 1\<rparr>)
      | Some False \<Rightarrow>
          (case validate_link T d root l (anchor_cache st) of
             (Inl e, cache) \<Rightarrow> Inl e
           | (Inr None, cache) \<Rightarrow> Inr (st\<lparr>checked_links := checked_links st + 1, anchor_cache := cache\<rparr>)
           | (Inr (Some problem), cache) \<Rightarrow>
               and_then (relative_to root (link_source l)) (\<lambda>p.
                 Inr (st\<lparr>checked_links := checked_links st + 1, anchor_cache := cache,
                        errors := errors st @ [Broken p (link_line l) problem (link_target l)]\<rparr>))))"

fun check_each_link :: "tables \<Rightarrow> disk \<Rightarrow> parts \<Rightarrow> link list \<Rightarrow> totals \<Rightarrow> crash + totals" where
  "check_each_link T d root [] st = Inr st"
| "check_each_link T d root (l # ls) st = and_then (check_link T d root l st) (check_each_link T d root ls)"

definition check_file :: "tables \<Rightarrow> disk \<Rightarrow> parts \<Rightarrow> parts \<Rightarrow> totals \<Rightarrow> crash + totals" where
  "check_file T d root path st =
     (case read_markdown d path of
        Inl Not_utf8 \<Rightarrow> and_then (relative_to root path) (\<lambda>p. Inr (st\<lparr>errors := errors st @ [Invalid_utf8 p]\<rparr>))
      | Inl e \<Rightarrow> Inl e
      | Inr text \<Rightarrow> and_then (extract_links T path text) (\<lambda>ls. check_each_link T d root ls st))"

fun check_files :: "tables \<Rightarrow> disk \<Rightarrow> parts \<Rightarrow> parts list \<Rightarrow> totals \<Rightarrow> crash + totals" where
  "check_files T d root [] st = Inr st"
| "check_files T d root (p # ps) st = and_then (check_file T d root p st) (check_files T d root ps)"

text \<open>What git answers in the working directory: the root it prints, or that it fails or is not there.\<close>

definition repository_root :: "disk \<Rightarrow> pystr option \<Rightarrow> parts \<Rightarrow> parts" where
  "repository_root d git cwd = resolve d (case git of None \<Rightarrow> cwd | Some toplevel \<Rightarrow> under cwd (strip toplevel))"

datatype outcome =
    Not_a_directory parts
  | Refused request_error
  | Failed "report list" nat nat nat
  | All_ok nat nat nat

record arguments =
  arg_root :: "pystr option"
  arg_paths :: "pystr list"

definition doc_links_main :: "tables \<Rightarrow> disk \<Rightarrow> pystr option \<Rightarrow> parts \<Rightarrow> arguments \<Rightarrow> crash + int \<times> outcome" where
  "doc_links_main T d git cwd args =
     (let root = (case arg_root args of Some r \<Rightarrow> resolve d (under cwd r) | None \<Rightarrow> resolve d (repository_root d git cwd)) in
      if \<not> is_dir_at d root then Inr (2, Not_a_directory root)
      else case markdown_files T d root (arg_paths args) of
        Inl e \<Rightarrow> Inr (2, Refused e)
      | Inr files \<Rightarrow>
          and_then (check_files T d root files \<lparr>errors = [], checked_links = 0, skipped_remote_links = 0, anchor_cache = []\<rparr>)
            (\<lambda>st. if errors st \<noteq> []
              then Inr (1, Failed (errors st) (length files) (checked_links st) (skipped_remote_links st))
              else Inr (0, All_ok (length files) (checked_links st) (skipped_remote_links st))))"

declare relative_to_def [py_eval] check_link_def [py_eval] check_file_def [py_eval] repository_root_def [py_eval]
  doc_links_main_def [py_eval]

subsection \<open>A link that stands\<close>

text \<open>Where a local link leads, and when the checker has nothing to say about a link, without the cache.\<close>

definition destination :: "disk \<Rightarrow> parts \<Rightarrow> pystr \<Rightarrow> parts" where
  "destination d source relative_path =
     resolve d (if relative_path = [] then source else under (butlast source) relative_path)"

definition entry_below :: "disk \<Rightarrow> parts \<Rightarrow> parts \<Rightarrow> entry option" where
  "entry_below d root p =
     (if prefix root p then case lstat d root of Some e \<Rightarrow> exact_entry e (drop (length root) p) | None \<Rightarrow> None else None)"

definition anchor_known :: "tables \<Rightarrow> entry \<Rightarrow> pystr \<Rightarrow> bool" where
  "anchor_known T e fragment \<longleftrightarrow>
     (\<exists>t found. e = File (Some t) \<and> text_anchors T t = Inr found \<and> fragment \<in> set found)"

definition local_ok :: "tables \<Rightarrow> disk \<Rightarrow> parts \<Rightarrow> parts \<Rightarrow> pystr \<Rightarrow> pystr \<Rightarrow> bool" where
  "local_ok T d root source relative_path fragment \<longleftrightarrow>
     \<not> prefix [47] relative_path \<and> 0 \<notin> set relative_path \<and>
     (let p = destination d source relative_path in
      \<exists>e. entry_below d root p = Some e \<and> (\<forall>t. e \<noteq> Symlink t) \<and>
        (fragment \<noteq> [] \<and> (\<exists>t. e = File t) \<and> is_markdown T p \<longrightarrow> anchor_known T e fragment))"

definition link_ok :: "tables \<Rightarrow> disk \<Rightarrow> parts \<Rightarrow> parts \<Rightarrow> pystr \<Rightarrow> bool" where
  "link_ok T d root source target \<longleftrightarrow>
     (case urlsplit (host_ok T) target of
        None \<Rightarrow> False
      | Some u \<Rightarrow>
          if url_scheme u \<noteq> [] then url_scheme u \<noteq> lit ''file''
          else target = [] \<or> prefix [47, 47] target \<or>
            local_ok T d root source (unquote (url_path_part u)) (unquote (url_fragment u)))"

definition file_ok :: "tables \<Rightarrow> disk \<Rightarrow> parts \<Rightarrow> parts \<Rightarrow> bool" where
  "file_ok T d root p \<longleftrightarrow>
     (\<exists>text links. read_markdown d p = Inr text \<and> extract_links T p text = Inr links \<and>
        (\<forall>l \<in> set links. link_ok T d root p (link_target l)))"

lemma exact_from_iff:
  assumes "names_distinct (fold_name d) (entries d)"
  shows "lstat d current = Some base \<Longrightarrow>
     exact_from d current rest \<and> lstat d (current @ rest) = Some e \<longleftrightarrow> exact_entry base rest = Some e"
proof (induction rest arbitrary: current base)
  case (Cons n ns)
  have base: "names_distinct (fold_name d) base"
    using lookup_distinct [OF Cons.prems [unfolded lstat_def] assms] .
  show ?case
  proof (cases "\<exists>es. base = Folder True es \<and> n \<in> fst ` set es")
    case True
    then obtain es x where es: "base = Folder True es" "(n, x) \<in> set es" by auto
    then have distinct: "distinct (map (\<lambda>x. fold_name d (fst x)) es)" using base by simp
    have "lstat d (current @ [n]) = Some x"
      using Cons.prems es find_exact [OF distinct es(2)] by (simp add: lstat_def lookup_append)
    from Cons.IH [OF this] show ?thesis
      using Cons.prems es map_of_exact [OF distinct es(2)] by (auto simp: rev_image_eqI)
  next
    case False
    have "exact_entry base (n # ns) \<noteq> Some e"
      using False by (cases base) (auto split: option.splits if_splits dest: map_of_SomeD intro: rev_image_eqI)
    moreover have "\<not> exact_from d current (n # ns)"
      using False Cons.prems by (auto split: entry.split bool.split)
    ultimately show ?thesis by blast
  qed
qed simp

lemma destination_below:
  assumes "names_distinct (fold_name d) (entries d)" "is_dir_at d root" "resolve d root = root"
  shows "prefix root p \<and> entry_at d p = Some e \<and> resolve d p = p \<and> exact_case_exists d root p \<longleftrightarrow>
     resolve d p = p \<and> entry_below d root p = Some e \<and> (\<forall>t. e \<noteq> Symlink t)"
proof -
  obtain base where base: "lstat d root = Some base"
    using assms(2,3) by (auto simp: is_dir_at_def entry_at_def split: option.splits)
  show ?thesis
  proof (cases "prefix root p")
    case True
    then obtain rest where p: "p = root @ rest" by (auto simp: prefix_def)
    have "entry_at d p = Some e \<longleftrightarrow> lstat d p = Some e \<and> (\<forall>t. e \<noteq> Symlink t)"
      by (auto simp: entry_at_def split: option.splits entry.splits)
    then show ?thesis
      using exact_from_iff [OF assms(1) base, of rest e] by (auto simp: exact_case_exists_def entry_below_def base p Let_def)
  next
    case False
    then show ?thesis by (simp add: entry_below_def)
  qed
qed

lemma resolved_below:
  assumes "names_distinct (fold_name d) (entries d)" "is_dir_at d root" "resolve d root = root" "p = resolve d q"
  shows "prefix root p \<and> entry_at d p = Some e \<and> exact_case_exists d root p \<longleftrightarrow>
     entry_below d root p = Some e \<and> (\<forall>t. e \<noteq> Symlink t)"
proof -
  have "entry_at d p = Some e" if below: "entry_below d root p = Some e" "\<forall>t. e \<noteq> Symlink t"
  proof -
    obtain base rest where "lstat d root = Some base" "p = root @ rest" "exact_entry base rest = Some e"
      using below(1) by (auto simp: entry_below_def prefix_def split: if_splits option.splits)
    then have "lstat d p = Some e" using exact_from_iff [OF assms(1), of root base rest e] by simp
    with below(2) show ?thesis by (simp add: entry_at_def split: entry.split)
  qed
  then show ?thesis
    using destination_below [OF assms(1-3), of p e] resolve_again [of d q e] assms(4) by blast
qed

definition coherent :: "tables \<Rightarrow> disk \<Rightarrow> anchor_cache \<Rightarrow> bool" where
  "coherent T d cache \<longleftrightarrow>
     (\<forall>p found. map_of cache p = Some found \<longrightarrow> and_then (read_markdown d p) (text_anchors T) = Inr found)"

lemma anchors_coherent:
  "coherent T d cache \<Longrightarrow> anchors T d p cache = (r, cache') \<Longrightarrow>
     r = and_then (read_markdown d p) (text_anchors T) \<and> coherent T d cache'"
proof (cases "map_of cache p")
  case None
  then show "coherent T d cache \<Longrightarrow> anchors T d p cache = (r, cache') \<Longrightarrow> ?thesis"
    by (auto simp: anchors_def coherent_def update_conv' split: sum.splits if_splits)
next
  case (Some found)
  then show "coherent T d cache \<Longrightarrow> anchors T d p cache = (r, cache') \<Longrightarrow> ?thesis"
    by (auto simp: anchors_def coherent_def simp del: and_then_Inr)
qed

lemma anchor_known_iff:
  "entry_at d p = Some e \<Longrightarrow> (\<exists>t. e = File t) \<Longrightarrow>
     anchor_known T e fragment \<longleftrightarrow> (\<exists>found. and_then (read_markdown d p) (text_anchors T) = Inr found \<and> fragment \<in> set found)"
  by (auto simp: anchor_known_def read_markdown_def split: option.splits)

lemma validate_link_ok:
  assumes "names_distinct (fold_name d) (entries d)" "is_dir_at d root" "resolve d root = root" "coherent T d cache"
    and run: "validate_link T d root l cache = (r, cache')" and local: "is_remote_target T (link_target l) = Some False"
  shows "coherent T d cache' \<and> (r = Inr None \<longleftrightarrow> link_ok T d root (link_source l) (link_target l))"
proof -
  obtain u where u: "urlsplit (host_ok T) (link_target l) = Some u" "url_scheme u = [] \<or> url_scheme u = lit ''file''"
      "\<not> prefix [47, 47] (link_target l)"
    using local by (auto simp: is_remote_target_def)
  show ?thesis
  proof (cases "link_target l = [] \<or> url_scheme u \<noteq> []")
    case True
    then show ?thesis
      using run u assms(4) by (cases "link_target l = []") (auto simp: validate_link_def link_ok_def urlsplit_def cut_scheme_def until_def lit_def)
  next
    case False
    define rel fragment where "rel = unquote (url_path_part u)" and "fragment = unquote (url_fragment u)"
    define p where "p = destination d (link_source l) rel"
    have below: "prefix root p \<and> entry_at d p = Some e \<and> exact_case_exists d root p \<longleftrightarrow>
        entry_below d root p = Some e \<and> (\<forall>t. e \<noteq> Symlink t)" for e
      unfolding p_def destination_def by (rule resolved_below [OF assms(1-3) refl])
    have ok: "link_ok T d root (link_source l) (link_target l) \<longleftrightarrow> local_ok T d root (link_source l) rel fragment"
      using False u by (simp add: link_ok_def rel_def fragment_def)
    have v: "validate_link T d root l cache =
        (if prefix [47] rel then (Inr (Some Absolute_link), cache)
         else if 0 \<in> set rel then (Inl Null_byte, cache)
         else if \<not> prefix root p then (Inr (Some (Escapes rel)), cache)
         else if entry_at d p = None \<or> \<not> exact_case_exists d root p
         then (Inr (Some (Missing (if rel = [] then [46] else rel))), cache)
         else if fragment \<noteq> [] \<and> is_file_at d p \<and> is_markdown T p
         then then_state (anchors T d p cache) (\<lambda>found cache. (Inr (if fragment \<in> set found then None else Some (No_anchor fragment)), cache))
         else (Inr None, cache))"
      using False u unfolding validate_link_def rel_def fragment_def p_def destination_def Let_def by simp
    show ?thesis
    proof (cases "\<not> prefix [47] rel \<and> 0 \<notin> set rel \<and> prefix root p \<and> entry_at d p \<noteq> None \<and> exact_case_exists d root p")
      case False
      then have "\<not> local_ok T d root (link_source l) rel fragment"
        using below by (auto simp: local_ok_def p_def [symmetric])
      then show ?thesis using False run assms(4) by (auto simp: v ok split: if_splits)
    next
      case True
      then obtain e where e: "entry_at d p = Some e" by auto
      then have decided: "local_ok T d root (link_source l) rel fragment \<longleftrightarrow>
          (fragment \<noteq> [] \<and> (\<exists>t. e = File t) \<and> is_markdown T p \<longrightarrow> anchor_known T e fragment)"
        using True below [of e] by (auto simp: local_ok_def p_def [symmetric])
      have is_file: "is_file_at d p \<longleftrightarrow> (\<exists>t. e = File t)" by (simp add: is_file_at_def e split: entry.split)
      obtain q c where q: "anchors T d p cache = (q, c)" by (rule prod.exhaust)
      note c = anchors_coherent [OF assms(4) q]
      have known: "anchor_known T e fragment \<longleftrightarrow> (\<exists>found. q = Inr found \<and> fragment \<in> set found)" if "\<exists>t. e = File t"
        using anchor_known_iff [OF e that, of T fragment] c by (simp del: and_then_Inr)
      show ?thesis
        using True e run assms(4) decided is_file known c [THEN conjunct2] q
        by (cases q; cases "fragment \<noteq> [] \<and> is_file_at d p \<and> is_markdown T p") (auto simp: v ok)
    qed
  qed
qed

subsection \<open>The command as a whole\<close>

text \<open>
  A step of the scan that ends without an exception keeps the cache coherent and adds a report exactly when
  what it looked at is not in order; an exception means the same as a report.
\<close>

definition scan_step :: "tables \<Rightarrow> disk \<Rightarrow> totals \<Rightarrow> bool \<Rightarrow> crash + totals \<Rightarrow> bool" where
  "scan_step T d st ok r \<longleftrightarrow>
     (case r of
        Inl e \<Rightarrow> \<not> ok
      | Inr st' \<Rightarrow> coherent T d (anchor_cache st') \<and> (\<exists>es. errors st' = errors st @ es \<and> (es = [] \<longleftrightarrow> ok)))"

lemma scan_step_then:
  assumes "scan_step T d st p r" "\<And>st'. r = Inr st' \<Longrightarrow> coherent T d (anchor_cache st') \<Longrightarrow> scan_step T d st' q (f st')"
  shows "scan_step T d st (p \<and> q) (and_then r f)"
proof (cases r)
  case (Inr st')
  then have "scan_step T d st' q (f st')" using assms by (auto simp: scan_step_def)
  with Inr assms(1) show ?thesis by (auto simp: scan_step_def split: sum.splits)
qed (use assms(1) in \<open>auto simp: scan_step_def\<close>)

lemma slashes_no_scheme: "prefix [47, 47] t \<Longrightarrow> urlsplit ok t = Some u \<Longrightarrow> url_scheme u = []"
  by (auto simp: prefix_def urlsplit_def cut_scheme_def is_ascii_alpha_def until_def Let_def split: if_splits)

lemma check_link_step:
  assumes "names_distinct (fold_name d) (entries d)" "is_dir_at d root" "resolve d root = root"
    and "coherent T d (anchor_cache st)"
  shows "scan_step T d st (link_ok T d root (link_source l) (link_target l)) (check_link T d root l st)"
proof (cases "is_remote_target T (link_target l)")
  case None
  then show ?thesis by (simp add: check_link_def scan_step_def is_remote_target_def link_ok_def)
next
  case (Some remote)
  show ?thesis
  proof (cases remote)
    case True
    then have "link_ok T d root (link_source l) (link_target l)"
      using Some slashes_no_scheme [of "link_target l"] by (auto simp: is_remote_target_def link_ok_def)
    with True Some assms(4) show ?thesis by (simp add: check_link_def scan_step_def)
  next
    case False
    obtain r cache where v: "validate_link T d root l (anchor_cache st) = (r, cache)" by (rule prod.exhaust)
    have "coherent T d cache \<and> (r = Inr None \<longleftrightarrow> link_ok T d root (link_source l) (link_target l))"
      using validate_link_ok [OF assms v] Some False by simp
    with Some False v show ?thesis
      by (cases r; cases "projr r") (auto simp: check_link_def scan_step_def relative_to_def)
  qed
qed

lemma check_each_step:
  assumes "names_distinct (fold_name d) (entries d)" "is_dir_at d root" "resolve d root = root"
  shows "coherent T d (anchor_cache st) \<Longrightarrow>
     scan_step T d st (\<forall>l \<in> set ls. link_ok T d root (link_source l) (link_target l)) (check_each_link T d root ls st)"
proof (induction ls arbitrary: st)
  case Nil
  then show ?case by (simp add: scan_step_def)
next
  case (Cons l ls)
  show ?case
    using scan_step_then [OF check_link_step [OF assms Cons.prems] Cons.IH] by simp
qed

lemma those_Some: "those xs = Some ys \<Longrightarrow> y \<in> set ys \<Longrightarrow> Some y \<in> set xs"
  by (induction xs arbitrary: ys) (auto split: option.splits)

lemma map_link_source: "Some l = map_option (\<lambda>t. \<lparr>link_source = p, link_line = n, link_target = t\<rparr>) x \<Longrightarrow> link_source l = p"
  by (cases x) auto

lemma extracted_source: "extract_links T p body = Inr links \<Longrightarrow> l \<in> set links \<Longrightarrow> link_source l = p"
  by (auto simp: extract_links_def split: option.splits dest!: those_Some intro: map_link_source)

lemma check_file_step:
  assumes "names_distinct (fold_name d) (entries d)" "is_dir_at d root" "resolve d root = root"
    and "coherent T d (anchor_cache st)"
  shows "scan_step T d st (file_ok T d root p) (check_file T d root p st)"
proof (cases "read_markdown d p")
  case (Inl e)
  with assms(4) show ?thesis
    by (auto simp: file_ok_def check_file_def scan_step_def relative_to_def split: crash.split)
next
  case (Inr body)
  note read = this
  show ?thesis
  proof (cases "extract_links T p body")
    case (Inl e)
    with read show ?thesis by (simp add: file_ok_def check_file_def scan_step_def)
  next
    case (Inr links)
    have "file_ok T d root p \<longleftrightarrow> (\<forall>l \<in> set links. link_ok T d root (link_source l) (link_target l))"
      using read Inr extracted_source [OF Inr] by (simp add: file_ok_def)
    with read Inr check_each_step [OF assms, of links] show ?thesis
      by (simp add: check_file_def)
  qed
qed

lemma check_files_step:
  assumes "names_distinct (fold_name d) (entries d)" "is_dir_at d root" "resolve d root = root"
  shows "coherent T d (anchor_cache st) \<Longrightarrow>
     scan_step T d st (\<forall>p \<in> set ps. file_ok T d root p) (check_files T d root ps st)"
proof (induction ps arbitrary: st)
  case Nil
  then show ?case by (simp add: scan_step_def)
next
  case (Cons p ps)
  show ?case
    using scan_step_then [OF check_file_step [OF assms Cons.prems] Cons.IH] by simp
qed

text \<open>The files of a full scan: what is written below the root, outside the excluded directories, links followed.\<close>

definition scanned :: "tables \<Rightarrow> disk \<Rightarrow> parts \<Rightarrow> parts set" where
  "scanned T d root =
     {resolve d (root @ ns) | ns x. ns \<noteq> [] \<and> entry_below d root (root @ ns) = Some x \<and>
        set (butlast ns) \<inter> set EXCLUDED_DIRECTORIES = {} \<and> listed (\<lambda>p. is_dir_at d (resolve d p)) (root @ ns) x \<and> is_markdown T (root @ ns)}"

lemma full_scan:
  assumes "names_distinct (fold_name d) (entries d)" "is_dir_at d root" "resolve d root = root"
  shows "\<exists>files. markdown_files T d root [] = Inr files \<and> set files = scanned T d root"
proof -
  obtain l es where e: "entry_at d root = Some (Folder l es)"
    using assms(2,3) by (auto simp: is_dir_at_def split: option.splits entry.splits)
  then have base: "lstat d root = Some (Folder l es)"
    by (auto simp: entry_at_def split: option.splits entry.splits)
  have "names_distinct (fold_name d) (Folder l es)"
    using lookup_distinct [OF base [unfolded lstat_def] assms(1)] .
  note listing = in_walk [OF this, of _ "\<lambda>p. is_dir_at d (resolve d p)" EXCLUDED_DIRECTORIES root]
  have "set (map (resolve d) (filter (is_markdown T) (walk (\<lambda>p. is_dir_at d (resolve d p)) EXCLUDED_DIRECTORIES root (Folder l es)))) =
      scanned T d root"
    unfolding scanned_def set_map set_filter listing by (auto simp: entry_below_def base)
  then show ?thesis
    by (simp add: markdown_files_def requested_files_def assms(3) e)
qed

definition chosen_root :: "disk \<Rightarrow> pystr option \<Rightarrow> parts \<Rightarrow> pystr option \<Rightarrow> parts" where
  "chosen_root d git cwd given =
     (case given of Some r \<Rightarrow> resolve d (under cwd r) | None \<Rightarrow> resolve d (repository_root d git cwd))"

lemma chosen_root_resolved: "is_dir_at d (chosen_root d git cwd given) \<Longrightarrow> resolve d (chosen_root d git cwd given) = chosen_root d git cwd given"
  by (cases given) (auto simp: chosen_root_def is_dir_at_def split: option.splits intro: resolve_again)

lemma doc_links_full:
  "doc_links_main T d git cwd \<lparr>arg_root = given, arg_paths = []\<rparr> =
     (let root = chosen_root d git cwd given in
      if \<not> is_dir_at d root then Inr (2, Not_a_directory root)
      else case markdown_files T d root [] of
        Inl e \<Rightarrow> Inr (2, Refused e)
      | Inr files \<Rightarrow> and_then (check_files T d root files \<lparr>errors = [], checked_links = 0, skipped_remote_links = 0, anchor_cache = []\<rparr>)
          (\<lambda>st. if errors st \<noteq> []
            then Inr (1, Failed (errors st) (length files) (checked_links st) (skipped_remote_links st))
            else Inr (0, All_ok (length files) (checked_links st) (skipped_remote_links st))))"
  unfolding doc_links_main_def Let_def chosen_root_def arguments.simps ..

text \<open>
  C38: A full scan ends with 0 exactly when the root is a directory and every Markdown file below it, outside the
  excluded directories, can be read and holds only links that stand: a remote one, or a relative one whose
  path leads, links followed, to an entry below the root under exactly the names it is written with, and whose
  fragment is an anchor of the Markdown file it leads to. The cache of anchors never changes the answer.
\<close>

theorem doc_links_main_exact:
  assumes "names_distinct (fold_name d) (entries d)"
  shows "(\<exists>out. doc_links_main T d git cwd \<lparr>arg_root = given, arg_paths = []\<rparr> = Inr (0, out)) \<longleftrightarrow>
     is_dir_at d (chosen_root d git cwd given) \<and>
     (\<forall>p \<in> scanned T d (chosen_root d git cwd given). file_ok T d (chosen_root d git cwd given) p)"
proof (cases "is_dir_at d (chosen_root d git cwd given)")
  case True
  define root where "root = chosen_root d git cwd given"
  have root: "is_dir_at d root" "resolve d root = root" using True chosen_root_resolved [OF True] by (simp_all add: root_def)
  obtain files where files: "markdown_files T d root [] = Inr files" "set files = scanned T d root"
    using full_scan [OF assms root] by blast
  let ?st = "\<lparr>errors = [], checked_links = 0, skipped_remote_links = 0, anchor_cache = []\<rparr>"
  have "scan_step T d ?st (\<forall>p \<in> set files. file_ok T d root p) (check_files T d root files ?st)"
    by (rule check_files_step [OF assms root]) (simp add: coherent_def)
  then show ?thesis
    unfolding doc_links_full Let_def root_def [symmetric] using root files
    by (auto simp: scan_step_def split: sum.splits)
qed (simp add: doc_links_full)

lemma strip_no_space: "list_all (\<lambda>c. \<not> is_space c) s \<Longrightarrow> strip s = s"
proof -
  assume "list_all (\<lambda>c. \<not> is_space c) s"
  then have "dropWhile is_space s = s" "dropWhile is_space (rev s) = rev s"
    by (auto simp: dropWhile_eq_self_iff list_all_iff hd_rev)
  then show ?thesis by (simp add: strip_def)
qed

lemma no_code: "96 \<notin> set s \<Longrightarrow> re_sub INLINE_CODE_RE f s = s"
  unfolding re_sub_def
  by (rule sub_all_none) (auto simp: list_all_iff match_at_def INLINE_CODE_RE_def plus_def char_def)

lemma inline_link_match:
  assumes "93 \<notin> set label" "target \<noteq> []" "list_all (\<lambda>c. c \<noteq> 41 \<and> \<not> is_space c) target" "hd target \<noteq> 60"
  shows "first_match INLINE_LINK_RE (p, 91 # label @ 93 # 40 # target @ 41 # post, []) (Some 41, post, [(1, target)])"
proof -
  have space: "\<not> is_space 41" by (simp add: is_space_def space_chars_def)
  have starts: "\<not> is_space (hd target)" using assms(2,3) by (cases target) auto
  have angle: "matches (quoted_any 60 62) (q, target @ s, g) = []" for q s g
    using assms(2,4) by (cases target) (auto simp: quoted_any_def char_def)
  have run: "first_match (Group 1 (Alt (quoted_any 60 62) (plus (Chr (\<lambda>c. c \<noteq> 41 \<and> \<not> is_space c)))))
      (q, target @ 41 # post, []) (Some (last target), 41 # post, [(1, target)])" for q
  proof -
    have "first_match (plus (Chr (\<lambda>c. c \<noteq> 41 \<and> \<not> is_space c))) (q, target @ 41 # post, []) (Some (last target), 41 # post, [])"
      by (rule first_plus [OF assms(3,2)]) (simp add: stops_def)
    from first_Group [OF first_Alt(2) [OF angle this], of 1] show ?thesis by simp
  qed
  have tail: "first_match (Seq (opt r) (Seq (Many white) (char 41))) (q, 41 # post, g) (Some 41, post, g)"
    if "\<And>q. matches r (q, 41 # post, g) = []" for r q g
    using space that by (auto intro!: first_Seq first_opt first_Many_none first_Chr simp: white_def char_def stops_def)
  have title: "matches (seq [plus white, t]) (q, 41 # post, g) = []" for t q g
    using space by (simp add: plus_def white_def)
  have one: "first_match (char c) (q, c # s, g) (Some c, s, g)" for c q s g
    unfolding char_def by (rule first_Chr) (rule refl)
  have label: "first_match (Many (not_in [93])) (q, label @ 93 # s, g) (after_run q label, 93 # s, g)" for q s g
    unfolding not_in_def by (rule first_Many) (use assms(1) in \<open>auto simp: list_all_iff stops_def\<close>)
  have blank: "first_match (Many white) (q, target @ s, g) (q, target @ s, g)" for q s g
    unfolding white_def by (rule first_Many_none) (use starts assms(2) in \<open>cases target; simp add: stops_def\<close>)
  have image: "matches (char 33) (q, 91 # s, g) = []" for q s g
    by (simp add: char_def)
  show ?thesis
    unfolding INLINE_LINK_RE_def seq.simps
    by (rule first_Seq [OF first_opt [OF image]] first_Seq [OF one] first_Seq [OF label] first_Seq [OF blank] first_Seq [OF run]
        tail [unfolded seq.simps] title [unfolded seq.simps])+
qed

lemma inline_link_first:
  assumes "91 \<notin> set pre" "33 \<notin> set pre" "first_match INLINE_LINK_RE (after_run None pre, 91 # s, []) (p, post, g)" "length post < length s"
  shows "re_find INLINE_LINK_RE (pre @ 91 # s) = g # find_all INLINE_LINK_RE p post"
proof -
  have "list_all (\<lambda>c. \<forall>p s. match_at INLINE_LINK_RE p (c # s) = None) pre"
    using assms(1,2) by (auto simp: list_all_iff match_at_def INLINE_LINK_RE_def opt_def char_def)
  then have "re_find INLINE_LINK_RE (pre @ 91 # s) = find_all INLINE_LINK_RE (after_run None pre) (91 # s)"
    unfolding re_find_def by (rule find_all_skip)
  also have "\<dots> = g # find_all INLINE_LINK_RE p post"
    using match_at_first [OF assms(3)] assms(4) by (subst find_all.simps) simp
  finally show ?thesis .
qed

lemma those_all: "those xs = Some ys \<Longrightarrow> Some y \<in> set xs \<Longrightarrow> y \<in> set ys"
  by (induction xs arbitrary: ys) (auto split: option.splits)


subsection \<open>A malformed host\<close>

lemma open_bracket_host: "93 \<notin> set s \<Longrightarrow> urlsplit ok (47 # 47 # 91 # s) = None"
  by (auto simp: urlsplit_def cut_scheme_def is_ascii_alpha_def until_def Let_def dest: set_takeWhileD)

lemma check_each_raise: "l \<in> set ls \<Longrightarrow> urlsplit (host_ok T) (link_target l) = None \<Longrightarrow> \<exists>e. check_each_link T d root ls st = Inl e"
proof (induction ls arbitrary: st)
  case (Cons k ls)
  then show ?case by (cases "check_link T d root k st") (auto simp: check_link_def is_remote_target_def)
qed simp

lemma check_files_raise: "p \<in> set ps \<Longrightarrow> (\<And>st. \<exists>e. check_file T d root p st = Inl e) \<Longrightarrow> \<exists>e. check_files T d root ps st = Inl e"
proof (induction ps arbitrary: st)
  case (Cons q ps)
  show ?case
  proof (cases "p = q")
    case True
    with Cons.prems(2) [of st] show ?thesis by auto
  next
    case False
    with Cons show ?thesis by (cases "check_file T d root q st") auto
  qed
qed simp


text \<open>A repository with one link to a heading of another file, and one with a link to a malformed host.\<close>

definition ascii_tables :: tables where
  "ascii_tables = \<lparr>lower_case = ascii_lower, slug_category = (\<lambda>c. is_ascii_alpha c \<or> (48 \<le> c \<and> c \<le> 57)),
     word_char = (\<lambda>c. is_ascii_alpha c \<or> (48 \<le> c \<and> c \<le> 57) \<or> c = 95), references = (\<lambda>_. None), host_ok = (\<lambda>_. True)\<rparr>"

definition example_disk :: disk where
  "example_disk =
     \<lparr>entries = Folder True [(lit ''r'', Folder True
        [(lit ''a.md'', File (Some (lit ''[b](d/B.md#t)''))), (lit ''d'', Folder True [(lit ''B.md'', File (Some (lit ''# T'')))])])],
      fold_name = ascii_lower\<rparr>"

lemma example_names: "names_distinct (fold_name example_disk) (entries example_disk)"
  by code_simp

lemma example_scan: "doc_links_main ascii_tables example_disk None [lit ''r''] \<lparr>arg_root = None, arg_paths = []\<rparr> = Inr (0, All_ok 2 1 0)"
  by code_simp

theorem doc_links_main_exact_witness:
  "is_dir_at example_disk [lit ''r''] \<and> file_ok ascii_tables example_disk [lit ''r''] [lit ''r'', lit ''a.md'']"
proof -
  have root: "chosen_root example_disk None [lit ''r''] None = [lit ''r'']" by code_simp
  have "[lit ''r'', lit ''a.md''] \<in> scanned ascii_tables example_disk [lit ''r'']"
    unfolding scanned_def
    by (intro CollectI exI [of _ "[lit ''a.md'']"] exI [of _ "File (Some (lit ''[b](d/B.md#t)''))"]) code_simp
  then show ?thesis
    using doc_links_main_exact [OF example_names, of ascii_tables None "[lit ''r'']" None] example_scan root by auto
qed


definition bad_host_disk :: disk where
  "bad_host_disk = \<lparr>entries = Folder True [(lit ''r'', Folder True [(lit ''a.md'', File (Some (lit ''[x](//[y)'')))])], fold_name = id\<rparr>"


end
