(* ===== verification/Pipeline.thy ===== *)
theory Pipeline
  imports Py_Prelude
begin

text \<open>
  scripts/check.py and scripts/db_poc/dbpoc/run_all.py: the two commands that run other commands and report
  on them. A process is what it answers, which may depend on the commands run before it; the time it takes,
  the output it prints and the host facts of the summary are left out.
\<close>

subsection \<open>Quality checks\<close>

type_synonym command = "pystr list"

definition STAGES :: "(pystr, command) pydict" where
  "STAGES =
     [(lit ''format'', map lit [''ruff'', ''format'', ''--check'']), (lit ''lint'', map lit [''ruff'', ''check'']),
      (lit ''typecheck'', map lit [''mypy'']), (lit ''test'', map lit [''pytest''])]"

definition stage_command :: "pystr \<Rightarrow> command" where
  "stage_command name = map lit [''uv'', ''run'', ''--locked'', ''--''] @ dict_get STAGES name []"

text \<open>The exit code of a command after the commands run before it.\<close>

type_synonym processes = "command list \<Rightarrow> command \<Rightarrow> int"

definition run_stage :: "processes \<Rightarrow> command list \<Rightarrow> pystr \<Rightarrow> bool \<times> command list" where
  "run_stage exit_code hist name = (exit_code hist (stage_command name) = 0, hist @ [stage_command name])"

fun run_stages :: "processes \<Rightarrow> command list \<Rightarrow> pystr list \<Rightarrow> (pystr \<times> bool) list \<times> command list" where
  "run_stages exit_code hist [] = ([], hist)"
| "run_stages exit_code hist (name # names) =
     (let (passed, hist) = run_stage exit_code hist name; (results, hist) = run_stages exit_code hist names in
      ((name, passed) # results, hist))"

datatype check_outcome = Unknown_stages "pystr list" | Uv_not_found | Summary "(pystr \<times> bool) list"

text \<open>The exit code, what is printed and the commands run; \<open>parser.error\<close> exits with 2.\<close>

definition check_main :: "bool \<Rightarrow> processes \<Rightarrow> pystr list \<Rightarrow> int \<times> check_outcome \<times> command list" where
  "check_main uv_found exit_code stages =
     (let unknown = filter (\<lambda>name. name \<notin> fst ` set STAGES) stages in
      if unknown \<noteq> [] then (2, Unknown_stages unknown, [])
      else if \<not> uv_found then (127, Uv_not_found, [])
      else let selected = filter (\<lambda>name. stages = [] \<or> name \<in> set stages) (map fst STAGES);
               (results, hist) = run_stages exit_code [] selected in
        (if list_all snd results then 0 else 1, Summary results, hist))"

declare STAGES_def [py_eval] stage_command_def [py_eval] run_stage_def [py_eval] check_main_def [py_eval]

lemma run_stages_names: "map fst (fst (run_stages exit_code hist names)) = names"
  by (induction names arbitrary: hist) (auto simp: run_stage_def Let_def split_beta)

lemma run_stages_ran: "snd (run_stages exit_code hist names) = hist @ map stage_command names"
  by (induction names arbitrary: hist) (auto simp: run_stage_def Let_def split_beta)

lemma run_stages_passed:
  "list_all snd (fst (run_stages exit_code hist names)) \<longleftrightarrow>
     (\<forall>i < length names. exit_code (hist @ map stage_command (take i names)) (stage_command (names ! i)) = 0)"
proof (induction names arbitrary: hist)
  case (Cons n names)
  have "(\<forall>i < length (n # names). exit_code (hist @ map stage_command (take i (n # names))) (stage_command ((n # names) ! i)) = 0) \<longleftrightarrow>
      exit_code hist (stage_command n) = 0 \<and>
      (\<forall>i < length names. exit_code ((hist @ [stage_command n]) @ map stage_command (take i names)) (stage_command (names ! i)) = 0)"
    by (simp add: All_less_Suc2)
  with Cons [of "hist @ [stage_command n]"] show ?case
    by (simp add: run_stage_def Let_def split_beta)
qed simp

text \<open>
  With uv and known stage names, the checks run exactly the requested stages (all when none is named), each
  once, in the declared order whatever the order of the request and whatever fails on the way; the summary
  names each of them, and the exit code is 0 exactly when every process, run after the ones before it, ended
  with 0.
\<close>

theorem check_runs_every_stage:
  assumes "set stages \<subseteq> fst ` set STAGES"
  shows "\<exists>selected results. selected = filter (\<lambda>name. stages = [] \<or> name \<in> set stages) (map fst STAGES) \<and>
     distinct selected \<and> map fst results = selected \<and>
     check_main True exit_code stages =
       (if \<forall>i < length selected. exit_code (map stage_command (take i selected)) (stage_command (selected ! i)) = 0 then 0 else 1,
        Summary results, map stage_command selected)"
proof -
  define selected where "selected = filter (\<lambda>name. stages = [] \<or> name \<in> set stages) (map fst STAGES)"
  have "filter (\<lambda>name. name \<notin> fst ` set STAGES) stages = []" using assms by (auto simp: filter_empty_conv)
  then have "check_main True exit_code stages =
      (if list_all snd (fst (run_stages exit_code [] selected)) then 0 else 1,
       Summary (fst (run_stages exit_code [] selected)), snd (run_stages exit_code [] selected))"
    by (simp add: check_main_def Let_def split_beta selected_def)
  moreover have "distinct (map fst STAGES)" by code_simp
  then have "distinct selected" by (simp add: selected_def)
  ultimately show ?thesis
    by (intro exI [of _ selected] exI [of _ "fst (run_stages exit_code [] selected)"])
      (simp add: selected_def [symmetric] run_stages_names run_stages_ran run_stages_passed)
qed

subsection \<open>The sequence of the proof of concept\<close>

datatype step = Maybe pystr command | Cold_restart

record run_arguments =
  ra_engine :: pystr
  ra_scale :: int
  bench_seconds :: pystr
  reparse_artifacts :: "int option"
  skip :: "pystr list"

definition module_argv :: "run_arguments \<Rightarrow> string \<Rightarrow> string list \<Rightarrow> command" where
  "module_argv a module options = lit module # ra_engine a # map lit options"

definition scaled_argv :: "run_arguments \<Rightarrow> string \<Rightarrow> string list \<Rightarrow> command" where
  "scaled_argv a module options = [lit module, ra_engine a, lit ''--scale'', py_str (ra_scale a)] @ map lit options"

text \<open>\<open>bench_seconds\<close> is the float as \<open>str\<close> shows it; the reparse passes a limit only when it is not 0.\<close>

definition run_plan :: "run_arguments \<Rightarrow> step list" where
  "run_plan a =
     [Maybe (lit ''roles-create'') (module_argv a ''dbpoc.bootstrap'' [''--step'', ''roles'']),
      Maybe (lit ''reset'') (module_argv a ''dbpoc.bootstrap'' [''--step'', ''reset'']),
      Maybe (lit ''migrate-initial'') (module_argv a ''dbpoc.migrate'' [''--step'', ''initial'']),
      Maybe (lit ''migrate-offline'') (module_argv a ''dbpoc.migrate'' [''--step'', ''offline'']),
      Maybe (lit ''grants'') (module_argv a ''dbpoc.bootstrap'' [''--step'', ''grants'']),
      Maybe (lit ''seed'') (module_argv a ''dbpoc.bootstrap'' [''--step'', ''seed'']),
      Maybe (lit ''load'') (scaled_argv a ''dbpoc.load'' []),
      Maybe (lit ''ingest-daily'') (scaled_argv a ''dbpoc.ingest'' [''--step'', ''daily''])] @
     (if lit ''bench-cold'' \<in> set (skip a) then []
      else [Cold_restart, Maybe (lit ''bench-cold'') (scaled_argv a ''dbpoc.bench'' [''--cold''])]) @
     [Maybe (lit ''bench'') (scaled_argv a ''dbpoc.bench'' [''--seconds''] @ [bench_seconds a]),
      Maybe (lit ''integrity'') (scaled_argv a ''dbpoc.integrity'' []),
      Maybe (lit ''crash'') (scaled_argv a ''dbpoc.crash'' []),
      Maybe (lit ''ingest-reparse'') (scaled_argv a ''dbpoc.ingest'' [''--step'', ''reparse''] @
        (case reparse_artifacts a of
           Some n \<Rightarrow> if n = 0 then [] else [lit ''--artifacts'', py_str n] | None \<Rightarrow> [])),
      Maybe (lit ''migrate-compat'') (scaled_argv a ''dbpoc.migrate'' [''--step'', ''compat'']),
      Maybe (lit ''migrate-failing'') (module_argv a ''dbpoc.migrate'' [''--step'', ''failing'']),
      Maybe (lit ''roles'') (scaled_argv a ''dbpoc.roles'' []),
      Maybe (lit ''backup'') (scaled_argv a ''dbpoc.backup'' [''--step'', ''backup'']),
      Maybe (lit ''restore'') (scaled_argv a ''dbpoc.backup'' [''--step'', ''restore'']),
      Maybe (lit ''monitor'') (scaled_argv a ''dbpoc.monitor'' []),
      Maybe (lit ''migrate-downgrade'') (module_argv a ''dbpoc.migrate'' [''--step'', ''downgrade''])]"

text \<open>
  How a process ends: with an exit code, or not before the timeout, which \<open>subprocess.run\<close> raises. The start
  of the instance is checked and raises on an exit code other than 0.
\<close>

datatype ending = Exit int | Timed_out

datatype run_error = Step_timed_out pystr | Restart_failed

record step_result =
  result_step :: pystr
  returncode :: int
  result_command :: pystr

record run_state =
  step_results :: "step_result list"
  executed :: "command list"
  skipped :: "pystr list"

type_synonym host = "command list \<Rightarrow> command \<Rightarrow> ending"

definition instance_argv :: "run_arguments \<Rightarrow> string \<Rightarrow> command" where
  "instance_argv a verb = [lit ((if ra_engine a = lit ''postgres'' then ''pg-'' else ''maria-'') @ verb), lit ''main'']"

definition run_step :: "host \<Rightarrow> pystr \<Rightarrow> command \<Rightarrow> run_state \<Rightarrow> run_error + run_state" where
  "run_step host name argv st =
     (case host (executed st) argv of
        Timed_out \<Rightarrow> Inl (Step_timed_out name)
      | Exit code \<Rightarrow> Inr (st\<lparr>executed := executed st @ [argv],
          step_results := step_results st @ [\<lparr>result_step = name, returncode = code, result_command = join [32] argv\<rparr>]\<rparr>))"

text \<open>\<open>restart\<close> does not look at how the stop ends.\<close>

definition restart :: "run_arguments \<Rightarrow> host \<Rightarrow> run_state \<Rightarrow> run_error + run_state" where
  "restart a host st =
     (let st = st\<lparr>executed := executed st @ [instance_argv a ''stop'']\<rparr> in
      if host (executed st) (instance_argv a ''start'') \<noteq> Exit 0 then Inl Restart_failed
      else Inr (st\<lparr>executed := executed st @ [instance_argv a ''start'']\<rparr>))"

definition run_one :: "run_arguments \<Rightarrow> host \<Rightarrow> step \<Rightarrow> run_state \<Rightarrow> run_error + run_state" where
  "run_one a host s st =
     (case s of
        Maybe name argv \<Rightarrow>
          if name \<in> set (skip a) then Inr (st\<lparr>skipped := skipped st @ [name]\<rparr>) else run_step host name argv st
      | Cold_restart \<Rightarrow>
          and_then (restart a host st) (\<lambda>st. Inr (st\<lparr>step_results := step_results st @
            [\<lparr>result_step = lit ''restart-for-cold-cache'', returncode = 0, result_command = lit ''instances.sh restart''\<rparr>]\<rparr>)))"

fun run_each :: "run_arguments \<Rightarrow> host \<Rightarrow> step list \<Rightarrow> run_state \<Rightarrow> run_error + run_state" where
  "run_each a host [] st = Inr st"
| "run_each a host (s # ss) st = and_then (run_one a host s st) (run_each a host ss)"

definition failed_steps :: "step_result list \<Rightarrow> pystr list" where
  "failed_steps rs = map result_step (filter (\<lambda>r. returncode r \<noteq> 0) rs)"

text \<open>The summary that is written (results, failed steps) and the exit code.\<close>

definition run_all_main :: "run_arguments \<Rightarrow> host \<Rightarrow> run_error + (step_result list \<times> pystr list) \<times> int" where
  "run_all_main a host =
     and_then (run_each a host (run_plan a) \<lparr>step_results = [], executed = [], skipped = []\<rparr>)
       (\<lambda>st. let failed = failed_steps (step_results st) in
         Inr ((step_results st, failed), if failed \<noteq> [] then 1 else 0))"

declare module_argv_def [py_eval] scaled_argv_def [py_eval] run_plan_def [py_eval] instance_argv_def [py_eval] restart_def [py_eval]
  run_step_def [py_eval] run_one_def [py_eval] failed_steps_def [py_eval] run_all_main_def [py_eval]

text \<open>What a step of the plan stands for: its name in the results, its commands, and whether it is skipped.\<close>

definition step_name :: "step \<Rightarrow> pystr" where
  "step_name s = (case s of Maybe name argv \<Rightarrow> name | Cold_restart \<Rightarrow> lit ''restart-for-cold-cache'')"

definition step_commands :: "run_arguments \<Rightarrow> step \<Rightarrow> command list" where
  "step_commands a s =
     (case s of Maybe name argv \<Rightarrow> [argv] | Cold_restart \<Rightarrow> [instance_argv a ''stop'', instance_argv a ''start''])"

definition takes_part :: "run_arguments \<Rightarrow> step \<Rightarrow> bool" where
  "takes_part a s \<longleftrightarrow> (case s of Maybe name argv \<Rightarrow> name \<notin> set (skip a) | Cold_restart \<Rightarrow> True)"

lemma run_one_Inr:
  "run_one a host s st = Inr st' \<Longrightarrow>
     (if takes_part a s
      then executed st' = executed st @ step_commands a s \<and>
        (\<exists>r. step_results st' = step_results st @ [r] \<and> result_step r = step_name s \<and>
          host (executed st @ butlast (step_commands a s)) (last (step_commands a s)) = Exit (returncode r))
      else executed st' = executed st \<and> step_results st' = step_results st)"
  by (auto simp: run_one_def run_step_def restart_def takes_part_def step_name_def step_commands_def Let_def
      split: step.splits ending.splits if_splits)

text \<open>The exit codes of the kept steps, each after the commands of the steps before it.\<close>

fun exit_codes :: "run_arguments \<Rightarrow> host \<Rightarrow> command list \<Rightarrow> step list \<Rightarrow> ending list" where
  "exit_codes a host hist [] = []"
| "exit_codes a host hist (s # ss) =
     (if takes_part a s
      then host (hist @ butlast (step_commands a s)) (last (step_commands a s)) # exit_codes a host (hist @ step_commands a s) ss
      else exit_codes a host hist ss)"

definition ends_well :: "step \<Rightarrow> ending \<Rightarrow> bool" where
  "ends_well s e \<longleftrightarrow> (case s of Maybe name argv \<Rightarrow> e \<noteq> Timed_out | Cold_restart \<Rightarrow> e = Exit 0)"

lemma run_one_ends:
  "takes_part a s \<Longrightarrow> (\<exists>st'. run_one a host s st = Inr st') \<longleftrightarrow>
     ends_well s (host (executed st @ butlast (step_commands a s)) (last (step_commands a s)))"
  by (auto simp: run_one_def run_step_def restart_def takes_part_def step_commands_def ends_well_def Let_def
      split: step.splits ending.splits if_splits)

lemma run_one_skips: "\<not> takes_part a s \<Longrightarrow> \<exists>st'. run_one a host s st = Inr st'"
  by (auto simp: run_one_def takes_part_def split: step.splits)

lemma run_each_Inr:
  "run_each a host ss st = Inr st' \<Longrightarrow>
     executed st' = executed st @ concat (map (step_commands a) (filter (takes_part a) ss)) \<and>
     (\<exists>rs. step_results st' = step_results st @ rs \<and> map result_step rs = map step_name (filter (takes_part a) ss) \<and>
        map (\<lambda>r. Exit (returncode r)) rs = exit_codes a host (executed st) ss)"
proof (induction ss arbitrary: st)
  case (Cons s ss)
  then obtain st1 where st1: "run_one a host s st = Inr st1" "run_each a host ss st1 = Inr st'" by auto
  from Cons.IH [OF st1(2)] run_one_Inr [OF st1(1)] show ?case
    by (cases "takes_part a s") auto
qed simp

lemma run_each_ends:
  "(\<exists>st'. run_each a host ss st = Inr st') \<longleftrightarrow>
     list_all2 ends_well (filter (takes_part a) ss) (exit_codes a host (executed st) ss)"
proof (induction ss arbitrary: st)
  case (Cons s ss)
  show ?case
  proof (cases "run_one a host s st")
    case (Inl e)
    then show ?thesis
      using run_one_ends [of a s host st] run_one_skips [of a s host st] by (cases "takes_part a s") auto
  next
    case (Inr st1)
    with Cons.IH [of st1] run_one_Inr [OF Inr] run_one_ends [of a s host st] show ?thesis
      by (cases "takes_part a s") auto
  qed
qed simp


definition quick_arguments :: run_arguments where
  "quick_arguments = \<lparr>ra_engine = lit ''mariadb'', ra_scale = 1, bench_seconds = lit ''180.0'', reparse_artifacts = None, skip = []\<rparr>"


theorem check_runs_every_stage_witness:
  "\<exists>results. check_main True (\<lambda>hist argv. if length hist = 0 then 1 else 0) [lit ''test'', lit ''lint''] =
     (1, Summary results, map stage_command [lit ''lint'', lit ''test''])"
proof -
  have known: "set [lit ''test'', lit ''lint''] \<subseteq> fst ` set STAGES"
    and chosen: "filter (\<lambda>name. [lit ''test'', lit ''lint''] = [] \<or> name \<in> set [lit ''test'', lit ''lint'']) (map fst STAGES) =
      [lit ''lint'', lit ''test'']"
    by code_simp+
  show ?thesis
    using check_runs_every_stage [OF known, of "\<lambda>hist argv. if length hist = 0 then 1 else 0"]
    unfolding chosen by (auto split: if_splits dest: spec [of _ 0])
qed

end
