(* ===== verification/Spec2Isabelle.thy ===== *)
theory Spec2Isabelle
  imports Roadmap Tool_Parity Adr Ruleset Api Worker Migration Contention Backup Crash Doc_Links Pipeline
begin

text \<open>
  card-pulse collects trading card prices. The repository at this commit holds the two long-running
  processes of the product (a Worker and a private API server, src/card_pulse), the harness that compares
  PostgreSQL and MariaDB for it (scripts/db_poc), and the tools that keep the repository itself in order
  (scripts/ruleset.py, scripts/check.py and .agents/skills). The development models these three groups. Paths below are
  relative to the directory src of this workspace.

  Python underneath. Py_Prelude has texts as lists of code points with strip, splitlines, int and the
  dictionaries (association lists in insertion order), and the fact collections the components extend.
  Py_Float is binary64: float() of a text and the arithmetic the sources use, rounded to the bit. Py_Time
  is datetime with its offset, isoformat, fromisoformat and subtraction. Py_Uuid is uuid5 with SHA-1 on
  32-bit words. Json is json.loads and json.dumps (plain and with indent=2). Filesystem is a store of paths
  with one step per system call, each of which the operating system can refuse. An exception is a value of
  a sum type; where no caller catches it, the sum reaches the result of the command.

  The product. Settings models entrypoints/settings.py: each reader of the environment, with its error.
  Health models application/health.py and the two probes under adapters; psycopg and the artifact directory
  answer through the state of the world. Worker models entrypoints/worker: the cycle, the heartbeat file
  (write_heartbeat is the list of file system states its calls pass through), the stop event, main, and the
  container health check. Api models entrypoints/api and runtime.wait_for_shutdown: routing, the two
  payloads, the life of the server and its health check. Worker and Api share the probes and the settings;
  the Worker and its health check meet only in the heartbeat file. Shown: a reader of the heartbeat never
  sees half a file, a Worker that turns passes its check, a run ends only by the stop event, the server
  starts and closes in order.

  The database harness. Config, Schema, Relational and Workload are the constants, the tables of schema.py
  as values, rows with the constraints of SQL, and workload.py: identifiers, the idempotent append in the
  forms of both products and the batch writer. Append states the append as a locale (a refinement of one
  abstract append) and interprets it on both forms; Batch shows that the rows of build_batch meet their
  tables. Generate models generate.py; Seed and Seed_Load the dimension rows (bootstrap.py), the files and
  the bulk load (load.py) on both products. Ingest models ingest.py on top of these: a normal day and the
  reparse, whose invariant carries the keys from one artifact to the next. Access models the accounts and
  grants of bootstrap.py and the checks of roles.py; Queries the five queries of queries.py in both forms
  against one reference. Migration models the three Alembic revisions and migrate.py over a catalog:
  PostgreSQL runs a command in one transaction, MariaDB commits each statement. Integrity and Contention
  model integrity.py: checks that run statements and look at the store, and the three checks in which
  several processes interleave, as step relations with their reachable states. Backup models backup.py and
  Crash models crash.py, whose server is a step relation on committed rows and open transactions. Pipeline
  models run_all.py, which runs all of these steps as processes, and scripts/check.py.

  The repository tools. Roadmap, Adr, Tool_Parity and Ruleset model validate_roadmap.py,
  validate_adrs.py, check_tool_parity.py and ruleset.py as functions from the files (and the answers of gh
  and git) to exit code and output, each with a declarative notion of what it checks and the theorem that
  the command decides it. A printed line is a constructor with the values it shows. Doc_Links models
  check_doc_links.py on three theories of Python beneath it: Disk is a tree of files, directories and symbolic
  links with resolve, os.walk and a comparison of names that may ignore case; Py_Regex is the matcher of re
  with its order of backtracking, shown sound and complete for a declarative relation of acceptance; Py_Web is
  urlsplit, unquote and html.unescape.

  Interfaces. Locales state what one part needs of another: the idempotent append (Workload, Append), the
  single winner of a contention (Contention), and further ones in the theories that use them; each is
  interpreted on the definitions of the model, and the properties rest on the interpretations.

  Bounds and fuel. The JSON reader recurses with the length of the text as fuel, which suffices because
  every step consumes a character; the repetitions of the regular expressions recurse with the length of the
  text for the same reason, and resolve has a measure on the links it may still follow. The depth-first search of the roadmap, the claim loops of Contention and
  the heartbeat loop of the Worker have measures or are driven by a finite list of turns; no result depends
  on a fuel that could be too small. Integers are unbounded as in Python, except the 32-bit words of SHA-1
  and the bounds the SQL types give to stored values; floats keep their 64 bits.

  What stands for code outside the repository. PostgreSQL and MariaDB follow their documented semantics:
  constraints, ON CONFLICT and INSERT errors, transactional and non-transactional DDL, grants by name, row
  locks and the wait on a unique key as atomic steps. Texts are compared exactly, while a MariaDB collation
  may identify texts that differ in case; JSON columns are not parsed; a multi-row INSERT is atomic. psycopg,
  gh, git, uv, pg_dump, openssl and the other programs, the Unicode and HTML tables of the Python library, the digests of stored files, the clock, random keys and
  process scheduling are parameters or steps chosen by the environment.

  Not modelled: printed reports and timings of the harness, ANALYZE, the process pool of the generator,
  signal registration, logging configuration, argument parsing, and the modules that only measure or only
  start other steps (the components of the manifest say which and why).
\<close>

end
